(* ===== verification/Prelude.thy ===== *)
theory Prelude
  imports Main "HOL-Library.Word"
begin

text \<open>
  The prelude of the development: the widths of Rust's unsigned integers, their
  checked and saturating operations, big-endian bytes, decimal strings as
  \<open>u64::to_string\<close> and \<open>str::parse\<close> produce and read them, and the generic
  lemmas on lists that several components share.  The collection \<open>u64_arith\<close>
  moves a statement about machine words to natural numbers; \<open>dec_simps\<close> holds the
  facts about decimal strings.
\<close>

unbundle bit_operations_syntax

named_theorems u64_arith \<open>unat facts of the checked and saturating operations\<close>
named_theorems dec_simps \<open>decimal strings\<close>

section \<open>Machine integers\<close>

type_synonym u8 = "8 word"
type_synonym u16 = "16 word"
type_synonym u32 = "32 word"
type_synonym u64 = "64 word"

text \<open>Rust's \<open>checked_add\<close>, \<open>checked_sub\<close>, \<open>saturating_add\<close>, \<open>saturating_sub\<close> and
  \<open>saturating_mul\<close> on an unsigned width.\<close>

definition checked_add :: "'a::len word \<Rightarrow> 'a word \<Rightarrow> 'a word option" where
  "checked_add a b = (if unat a + unat b < 2 ^ LENGTH('a) then Some (a + b) else None)"

definition checked_sub :: "'a::len word \<Rightarrow> 'a word \<Rightarrow> 'a word option" where
  "checked_sub a b = (if b \<le> a then Some (a - b) else None)"

definition saturating_add :: "'a::len word \<Rightarrow> 'a word \<Rightarrow> 'a word" where
  "saturating_add a b = (if unat a + unat b < 2 ^ LENGTH('a) then a + b else - 1)"

definition saturating_sub :: "'a::len word \<Rightarrow> 'a word \<Rightarrow> 'a word" where
  "saturating_sub a b = (if b \<le> a then a - b else 0)"

definition saturating_mul :: "'a::len word \<Rightarrow> 'a word \<Rightarrow> 'a word" where
  "saturating_mul a b = (if unat a * unat b < 2 ^ LENGTH('a) then a * b else - 1)"

lemma unat_max_word [u64_arith]: "unat (- 1 :: 'a::len word) = 2 ^ LENGTH('a) - 1"
  by (simp add: unsigned_minus_1_eq_mask mask_eq_exp_minus_1)

lemma unat_lt2p: "unat (a :: 'a::len word) < 2 ^ LENGTH('a)"
  by (rule unsigned_less)

lemma unat_add_no_wrap [u64_arith]:
  "unat a + unat b < 2 ^ LENGTH('a) \<Longrightarrow> unat (a + b :: 'a::len word) = unat a + unat b"
  by (simp add: unat_word_ariths)

lemma unat_sub_no_wrap [u64_arith]:
  "b \<le> a \<Longrightarrow> unat (a - b :: 'a::len word) = unat a - unat b"
  by (rule unat_sub)

lemma unat_saturating_add [u64_arith]:
  "unat (saturating_add a b :: 'a::len word) = min (unat a + unat b) (2 ^ LENGTH('a) - 1)"
  by (auto simp: saturating_add_def u64_arith)

lemma unat_saturating_sub [u64_arith]:
  "unat (saturating_sub a b :: 'a::len word) = unat a - unat b"
  by (auto simp: saturating_sub_def u64_arith word_le_nat_alt)

lemma unat_saturating_mul [u64_arith]:
  "unat (saturating_mul a b :: 'a::len word) = min (unat a * unat b) (2 ^ LENGTH('a) - 1)"
  by (auto simp: saturating_mul_def u64_arith unat_word_ariths)

lemma checked_add_Some_iff [u64_arith]:
  "checked_add a b = Some c \<longleftrightarrow> unat (c :: 'a::len word) = unat a + unat b"
proof
  assume "unat c = unat a + unat b"
  moreover have "unat c < 2 ^ LENGTH('a)" by (rule unat_lt2p)
  ultimately show "checked_add a b = Some c"
    by (auto simp: checked_add_def unat_add_no_wrap word_unat_eq_iff)
qed (auto simp: checked_add_def u64_arith split: if_splits)

lemma checked_add_None_iff [u64_arith]:
  "checked_add a b = (None :: 'a::len word option) \<longleftrightarrow> 2 ^ LENGTH('a) \<le> unat a + unat b"
  by (auto simp: checked_add_def)

lemma checked_sub_Some_iff [u64_arith]:
  "checked_sub a b = Some c \<longleftrightarrow> unat (a :: 'a::len word) = unat b + unat c"
proof
  assume h: "unat a = unat b + unat c"
  then have le: "b \<le> a" by (simp add: word_le_nat_alt)
  with h have "unat (a - b) = unat c" by (simp add: u64_arith)
  with le show "checked_sub a b = Some c" by (simp add: checked_sub_def word_unat_eq_iff)
qed (auto simp: checked_sub_def u64_arith word_le_nat_alt split: if_splits)

lemma unat_of_nat_small [u64_arith]:
  "n < 2 ^ LENGTH('a) \<Longrightarrow> unat (of_nat n :: 'a::len word) = n"
  by (simp add: unat_of_nat take_bit_nat_eq_self)

lemma unat_inj: "unat a = unat b \<Longrightarrow> a = b"
  by (simp add: word_unat_eq_iff)

lemma unat_u64_lt [simp]: "unat (a :: u64) < 18446744073709551616"
  using unat_lt2p [of a] by simp

section \<open>Big-endian bytes\<close>

text \<open>\<open>u64::to_be_bytes\<close> and \<open>u32::from_be_bytes\<close>.\<close>

definition u64_be_bytes :: "u64 \<Rightarrow> u8 list" where
  "u64_be_bytes x = map (\<lambda>i. ucast (drop_bit (56 - 8 * i) x)) [0..<8]"

definition u32_from_be :: "u8 \<Rightarrow> u8 \<Rightarrow> u8 \<Rightarrow> u8 \<Rightarrow> u32" where
  "u32_from_be a b c d =
     push_bit 24 (ucast a) OR push_bit 16 (ucast b) OR push_bit 8 (ucast c) OR ucast d"

definition u64_from_be :: "u8 list \<Rightarrow> u64" where
  "u64_from_be bs = foldl (\<lambda>acc b. push_bit 8 acc OR ucast b) 0 bs"

lemma length_u64_be_bytes [simp]: "length (u64_be_bytes x) = 8"
  by (simp add: u64_be_bytes_def)

section \<open>Decimal strings\<close>

text \<open>
  \<open>show_nat\<close> is \<open>to_string\<close> on an unsigned integer.  \<open>parse_digits\<close> reads a non-empty
  run of ASCII digits; \<open>parse_uint\<close> is \<open>str::parse\<close> at the width whose largest value
  is below the bound: a leading \<open>+\<close> is accepted, an empty string, any other character
  and an out-of-range value are errors.
\<close>

definition digit_char :: "nat \<Rightarrow> char" where
  "digit_char d = char_of (48 + d)"

definition char_digit :: "char \<Rightarrow> nat option" where
  "char_digit c = (let k = of_char c :: nat in
     if 48 \<le> k \<and> k \<le> 57 then Some (k - 48) else None)"

fun show_nat :: "nat \<Rightarrow> string" where
  "show_nat n = (if n < 10 then [digit_char n] else show_nat (n div 10) @ [digit_char (n mod 10)])"

declare show_nat.simps [simp del]

fun parse_digits :: "nat \<Rightarrow> string \<Rightarrow> nat option" where
  "parse_digits acc [] = Some acc"
| "parse_digits acc (c # cs) =
     (case char_digit c of None \<Rightarrow> None | Some d \<Rightarrow> parse_digits (10 * acc + d) cs)"

definition parse_uint :: "nat \<Rightarrow> string \<Rightarrow> nat option" where
  "parse_uint bound s =
     (let ds = (case s of c # cs \<Rightarrow> if c = CHR ''+'' then cs else s | [] \<Rightarrow> []) in
      if ds = [] then None
      else case parse_digits 0 ds of
             None \<Rightarrow> None
           | Some v \<Rightarrow> if v < bound then Some v else None)"

definition parse_u64 :: "string \<Rightarrow> u64 option" where
  "parse_u64 s = map_option of_nat (parse_uint (2 ^ 64) s)"

definition parse_u32 :: "string \<Rightarrow> u32 option" where
  "parse_u32 s = map_option of_nat (parse_uint (2 ^ 32) s)"

definition show_u64 :: "u64 \<Rightarrow> string" where
  "show_u64 x = show_nat (unat x)"

lemma show_nat_digits:
  "show_nat 0 = ''0''" "show_nat 1 = ''1''" "show_nat 2 = ''2''" "show_nat 3 = ''3''"
  "show_nat 4 = ''4''" "show_nat 5 = ''5''" "show_nat 6 = ''6''" "show_nat 7 = ''7''"
  "show_nat 8 = ''8''" "show_nat 9 = ''9''"
  by code_simp+

lemma char_digit_digit_char [dec_simps]: "d < 10 \<Longrightarrow> char_digit (digit_char d) = Some d"
  by (simp add: char_digit_def digit_char_def)

lemma digit_char_not_plus [dec_simps]: "d < 10 \<Longrightarrow> digit_char d \<noteq> CHR ''+''"
  using char_digit_digit_char [of d] by (auto simp: char_digit_def)

lemma parse_digits_append [dec_simps]:
  "parse_digits acc (xs @ ys) =
     (case parse_digits acc xs of None \<Rightarrow> None | Some a \<Rightarrow> parse_digits a ys)"
  by (induction acc xs rule: parse_digits.induct) (auto split: option.splits)

lemma parse_digits_show_nat [dec_simps]: "parse_digits 0 (show_nat n) = Some n"
proof (induction n rule: show_nat.induct)
  case (1 n)
  then show ?case
    by (cases "n < 10") (auto simp: show_nat.simps [of n] dec_simps)
qed

lemma show_nat_not_Nil [dec_simps]: "show_nat n \<noteq> []"
  by (subst show_nat.simps) simp

lemma hd_show_nat [dec_simps]: "hd (show_nat n) \<noteq> CHR ''+''"
proof (induction n rule: show_nat.induct)
  case (1 n)
  then show ?case
    by (cases "n < 10") (auto simp: show_nat.simps [of n] dec_simps hd_append)
qed

lemma parse_uint_show_nat [dec_simps]:
  "parse_uint b (show_nat n) = (if n < b then Some n else None)"
proof -
  obtain c cs where s: "show_nat n = c # cs"
    using show_nat_not_Nil by (cases "show_nat n") auto
  have "c \<noteq> CHR ''+''"
    using hd_show_nat [of n] s by simp
  with s show ?thesis
    using parse_digits_show_nat [of n] by (simp add: parse_uint_def)
qed

lemma parse_u64_show_u64 [dec_simps]: "parse_u64 (show_u64 x) = Some x"
  using unat_lt2p [of x] by (simp add: parse_u64_def show_u64_def dec_simps)

lemma parse_u64_show_nat [dec_simps]:
  "parse_u64 (show_nat n) = (if n < 2 ^ 64 then Some (of_nat n) else None)"
  by (simp add: parse_u64_def dec_simps)

lemma show_nat_inj [dec_simps]: "show_nat m = show_nat n \<longleftrightarrow> m = n"
  by (metis option.inject parse_digits_show_nat)

lemma show_u64_inj [dec_simps]: "show_u64 x = show_u64 y \<longleftrightarrow> x = y"
  by (auto simp: show_u64_def dec_simps intro: unat_inj)

text \<open>Signed numbers: \<open>i64::to_string\<close>, the integer a text denotes, and \<open>str::parse::<i64>\<close>.\<close>

definition show_int :: "int \<Rightarrow> string" where
  "show_int x = (if x < 0 then CHR ''-'' # show_nat (nat (- x)) else show_nat (nat x))"

definition parse_int :: "string \<Rightarrow> int option" where
  "parse_int s =
     (case s of
        [] \<Rightarrow> None
      | c # cs \<Rightarrow>
          if c = CHR ''-'' then (if cs = [] then None else map_option (\<lambda>v. - int v) (parse_digits 0 cs))
          else (let ds = (if c = CHR ''+'' then cs else s)
                in if ds = [] then None else map_option int (parse_digits 0 ds)))"

definition parse_i64 :: "string \<Rightarrow> int option" where
  "parse_i64 s = Option.bind (parse_int s) (\<lambda>x. if - (2 ^ 63) \<le> x \<and> x < 2 ^ 63 then Some x else None)"

lemma hd_show_nat_not_minus: "hd (show_nat n) \<noteq> CHR ''-''"
proof (induction n rule: show_nat.induct)
  case (1 n)
  have "digit_char d \<noteq> CHR ''-''" if "d < 10" for d
    using char_digit_digit_char [OF that] by (auto simp: char_digit_def)
  with 1 show ?case
    by (cases "n < 10") (auto simp: show_nat.simps [of n] dec_simps hd_append)
qed

lemma parse_int_show_nat [dec_simps]: "parse_int (show_nat n) = Some (int n)"
proof -
  obtain c cs where s: "show_nat n = c # cs"
    using show_nat_not_Nil by (cases "show_nat n") auto
  moreover have "c \<noteq> CHR ''+''" "c \<noteq> CHR ''-''"
    using hd_show_nat [of n] hd_show_nat_not_minus [of n] s by simp_all
  ultimately show ?thesis
    using parse_digits_show_nat [of n] by (simp add: parse_int_def)
qed

lemma parse_int_show_int [dec_simps]: "parse_int (show_int x) = Some x"
proof (cases "x < 0")
  case True
  then show ?thesis
    using parse_digits_show_nat [of "nat (- x)"] show_nat_not_Nil [of "nat (- x)"]
    by (simp add: show_int_def parse_int_def)
next
  case False
  then show ?thesis
    by (simp add: show_int_def parse_int_show_nat)
qed

lemma parse_i64_show_int [dec_simps]:
  "parse_i64 (show_int x) = (if - (2 ^ 63) \<le> x \<and> x < 2 ^ 63 then Some x else None)"
  by (simp add: parse_i64_def dec_simps)

section \<open>Lists\<close>

text \<open>Prefix sums: the sum of the elements before an index.\<close>

definition prefix_sum :: "nat list \<Rightarrow> nat \<Rightarrow> nat" where
  "prefix_sum xs i = sum_list (take i xs)"

lemma prefix_sum_0 [simp]: "prefix_sum xs 0 = 0"
  by (simp add: prefix_sum_def)

lemma prefix_sum_Suc: "i < length xs \<Longrightarrow> prefix_sum xs (Suc i) = prefix_sum xs i + xs ! i"
  by (simp add: prefix_sum_def take_Suc_conv_app_nth)

lemma prefix_sum_length [simp]: "prefix_sum xs (length xs) = sum_list xs"
  by (simp add: prefix_sum_def)

lemma prefix_sum_mono: "i \<le> j \<Longrightarrow> prefix_sum xs i \<le> prefix_sum xs j"
proof (induction j)
  case (Suc j)
  have "prefix_sum xs j \<le> prefix_sum xs (Suc j)"
    by (cases "j < length xs") (auto simp: prefix_sum_Suc, simp add: prefix_sum_def)
  with Suc show ?case by (cases "i = Suc j") auto
qed simp

lemma prefix_sum_le: "prefix_sum xs i \<le> sum_list xs"
  by (metis prefix_sum_def append_take_drop_id le_add1 sum_list_append)

text \<open>Every number below the total lies in exactly one segment between prefix sums.\<close>

lemma prefix_sum_find:
  assumes "k < sum_list xs"
  obtains i where "i < length xs" "prefix_sum xs i \<le> k" "k < prefix_sum xs (Suc i)"
proof -
  let ?P = "\<lambda>j. k < prefix_sum xs j"
  define j where "j = (LEAST j. ?P j)"
  have ex: "?P (length xs)" using assms by simp
  have j: "?P j" unfolding j_def by (rule LeastI) (rule ex)
  have "j \<noteq> 0" using j by (cases j) auto
  then obtain i where i: "j = Suc i" by (cases j) auto
  have "\<not> ?P i" unfolding j_def [symmetric] using i j_def not_less_Least [of i ?P] by auto
  moreover have "j \<le> length xs" unfolding j_def by (rule Least_le) (rule ex)
  ultimately show ?thesis using that [of i] i j by simp
qed

lemma prefix_sum_segments_disjoint:
  assumes "prefix_sum xs i \<le> k" "k < prefix_sum xs (Suc i)"
    and "prefix_sum xs j \<le> k" "k < prefix_sum xs (Suc j)"
  shows "i = j"
proof (rule ccontr)
  assume "i \<noteq> j"
  then consider "Suc i \<le> j" | "Suc j \<le> i" by linarith
  then show False
    using prefix_sum_mono [of "Suc i" j xs] prefix_sum_mono [of "Suc j" i xs] assms
    by cases auto
qed

end
