(* ===== verification/Ids.thy ===== *)
theory Ids
  imports Prelude
begin

text \<open>
  \<open>crates/wr-common/src/ids.rs\<close>: the identifier shape check, the lifecycle phase, the
  operator's stored override and its resolution against the fail-open epoch, and the
  visitor-facing serving state.  Strings are lists of bytes (\<open>char\<close>), as \<open>as_bytes\<close> and
  \<open>len\<close> see them.

  Lemmas: the wire spellings and their parsers are inverse to each other
  (\<open>phase_wire_roundtrip\<close>, \<open>control_wire_roundtrip\<close>), the stored control has exactly the
  two legal moves, and \<open>resolve\<close> yields fail-open exactly inside the epoch.
\<close>

section \<open>The code\<close>

definition is_ascii_digit :: "char \<Rightarrow> bool" where
  "is_ascii_digit b \<longleftrightarrow> (let k = of_char b :: nat in 48 \<le> k \<and> k \<le> 57)"

definition is_ascii_hexdigit :: "char \<Rightarrow> bool" where
  "is_ascii_hexdigit b \<longleftrightarrow> (let k = of_char b :: nat in
     (48 \<le> k \<and> k \<le> 57) \<or> (65 \<le> k \<and> k \<le> 70) \<or> (97 \<le> k \<and> k \<le> 102))"

definition is_ascii_alphanumeric :: "char \<Rightarrow> bool" where
  "is_ascii_alphanumeric b \<longleftrightarrow> (let k = of_char b :: nat in
     (48 \<le> k \<and> k \<le> 57) \<or> (65 \<le> k \<and> k \<le> 90) \<or> (97 \<le> k \<and> k \<le> 122))"

text \<open>The loop of \<open>is_uuid_shape\<close> over the enumerated bytes, with its early return.\<close>

fun uuid_loop :: "nat \<Rightarrow> string \<Rightarrow> bool" where
  "uuid_loop i [] = True"
| "uuid_loop i (b # bs) =
     (let ok = (if i = 8 \<or> i = 13 \<or> i = 18 \<or> i = 23 then b = CHR ''-''
                else is_ascii_hexdigit b)
      in if \<not> ok then False else uuid_loop (i + 1) bs)"

definition is_uuid_shape :: "string \<Rightarrow> bool" where
  "is_uuid_shape s = (if length s \<noteq> 36 then False else uuid_loop 0 s)"

datatype phase = Idle | PreQueue | Active | PostEvent | Maintenance

datatype stored_control = StOpen | StPaused

datatype admission_control = AcOpen | AcPaused | AcFailOpen

record illegal_control =
  ic_from :: stored_control
  ic_action :: string

definition stored_pause :: "stored_control \<Rightarrow> illegal_control + stored_control" where
  "stored_pause c =
     (case c of
        StOpen \<Rightarrow> Inr StPaused
      | StPaused \<Rightarrow> Inl \<lparr>ic_from = c, ic_action = ''pause''\<rparr>)"

definition stored_resume :: "stored_control \<Rightarrow> illegal_control + stored_control" where
  "stored_resume c =
     (case c of
        StPaused \<Rightarrow> Inr StOpen
      | StOpen \<Rightarrow> Inl \<lparr>ic_from = c, ic_action = ''resume''\<rparr>)"

fun stored_wire :: "stored_control \<Rightarrow> string" where
  "stored_wire StOpen = ''open''"
| "stored_wire StPaused = ''paused''"

datatype unknown_control = UnknownControl string

definition stored_parse :: "string \<Rightarrow> unknown_control + stored_control" where
  "stored_parse s =
     (if s = ''open'' then Inr StOpen
      else if s = ''paused'' then Inr StPaused
      else Inl (UnknownControl s))"

fun control_wire :: "admission_control \<Rightarrow> string" where
  "control_wire AcOpen = ''open''"
| "control_wire AcPaused = ''paused''"
| "control_wire AcFailOpen = ''fail_open''"

definition resolve :: "stored_control \<Rightarrow> u64 \<Rightarrow> u64 \<Rightarrow> admission_control" where
  "resolve stored fail_open_until now =
     (if now < fail_open_until then AcFailOpen
      else case stored of StOpen \<Rightarrow> AcOpen | StPaused \<Rightarrow> AcPaused)"

datatype serving_state = SvRunning | SvPaused | SvClosed | SvFailOpen

definition serving_state_of :: "phase \<Rightarrow> admission_control \<Rightarrow> serving_state" where
  "serving_state_of phase control =
     (case control of
        AcFailOpen \<Rightarrow> SvFailOpen
      | AcPaused \<Rightarrow>
          if phase = Active then SvPaused
          else (case phase of Active \<Rightarrow> SvRunning | _ \<Rightarrow> SvClosed)
      | AcOpen \<Rightarrow> (case phase of Active \<Rightarrow> SvRunning | _ \<Rightarrow> SvClosed))"

fun phase_wire :: "phase \<Rightarrow> string" where
  "phase_wire Idle = ''idle''"
| "phase_wire PreQueue = ''pre_queue''"
| "phase_wire Active = ''active''"
| "phase_wire PostEvent = ''post_event''"
| "phase_wire Maintenance = ''maintenance''"

datatype unknown_phase = UnknownPhase string

definition phase_parse :: "string \<Rightarrow> unknown_phase + phase" where
  "phase_parse s =
     (if s = ''idle'' then Inr Idle
      else if s = ''pre_queue'' then Inr PreQueue
      else if s = ''active'' then Inr Active
      else if s = ''post_event'' then Inr PostEvent
      else if s = ''maintenance'' then Inr Maintenance
      else Inl (UnknownPhase s))"

section \<open>Wire spellings\<close>

lemma phase_wire_roundtrip [simp]: "phase_parse (phase_wire p) = Inr p"
  by (cases p) (simp_all add: phase_parse_def)

lemma phase_parse_Inr: "phase_parse s = Inr p \<longleftrightarrow> s = phase_wire p"
  by (cases p) (auto simp: phase_parse_def)

lemma phase_parse_Inl: "phase_parse s = Inl e \<Longrightarrow> e = UnknownPhase s"
  by (auto simp: phase_parse_def split: if_splits)

lemma control_wire_roundtrip [simp]: "stored_parse (stored_wire c) = Inr c"
  by (cases c) (simp_all add: stored_parse_def)

lemma stored_parse_Inr: "stored_parse s = Inr c \<longleftrightarrow> s = stored_wire c"
  by (cases c) (auto simp: stored_parse_def)

lemma stored_wire_inj [simp]: "stored_wire a = stored_wire b \<longleftrightarrow> a = b"
  by (cases a; cases b) simp_all

lemma stored_wire_not_Nil [simp]: "stored_wire c \<noteq> []"
  by (cases c) simp_all

lemma phase_wire_inj [simp]: "phase_wire a = phase_wire b \<longleftrightarrow> a = b"
  by (cases a; cases b) simp_all

section \<open>The override\<close>

lemma resolve_fail_open_iff: "resolve c f now = AcFailOpen \<longleftrightarrow> now < f"
  by (cases c) (auto simp: resolve_def)

lemma resolve_open_iff: "resolve c f now = AcOpen \<longleftrightarrow> c = StOpen \<and> f \<le> now"
  by (cases c) (auto simp: resolve_def not_less)

lemma stored_pause_Inr: "stored_pause c = Inr c' \<longleftrightarrow> c = StOpen \<and> c' = StPaused"
  by (cases c) (auto simp: stored_pause_def)

lemma stored_resume_Inr: "stored_resume c = Inr c' \<longleftrightarrow> c = StPaused \<and> c' = StOpen"
  by (cases c) (auto simp: stored_resume_def)

section \<open>The identifier shape\<close>

definition uuid_byte_ok :: "nat \<Rightarrow> char \<Rightarrow> bool" where
  "uuid_byte_ok i b \<longleftrightarrow>
     (if i = 8 \<or> i = 13 \<or> i = 18 \<or> i = 23 then b = CHR ''-'' else is_ascii_hexdigit b)"

lemma uuid_loop_nth: "uuid_loop k bs \<longleftrightarrow> (\<forall>i < length bs. uuid_byte_ok (k + i) (bs ! i))"
proof (induction k bs rule: uuid_loop.induct)
  case (2 k b bs)
  have "uuid_loop k (b # bs) \<longleftrightarrow> uuid_byte_ok k b \<and> uuid_loop (k + 1) bs"
    by (simp add: uuid_byte_ok_def)
  moreover have "uuid_loop (k + 1) bs \<longleftrightarrow> (\<forall>i < length bs. uuid_byte_ok (k + Suc i) (bs ! i))"
    if "uuid_byte_ok k b"
    using 2 that by (simp add: uuid_byte_ok_def)
  ultimately show ?case
    by (auto simp add: All_less_Suc2 simp del: uuid_loop.simps)
qed simp

lemma uuid_shape_iff:
  "is_uuid_shape s \<longleftrightarrow> length s = 36 \<and> (\<forall>i < 36. uuid_byte_ok i (s ! i))"
  by (auto simp: is_uuid_shape_def uuid_loop_nth)

end
