(* ===== verification/IpAddr.thy ===== *)
theory IpAddr
  imports Ids
begin

text \<open>
  \<open>str::parse::<IpAddr>\<close> of the Rust standard library, which \<open>wr_common::crypto\<close>,
  \<open>wr_common::rules\<close> and the edge settings read addresses with, and the formatting of both
  address families.  The parser consumes a prefix or fails and restores its input; \<open>None\<close> is
  failure, a value carries the rest of the input.

  Lemmas: what the parser answers on the shapes the callers meet.
\<close>

datatype ip_addr = V4 "u8 list" | V6 "u16 list"

definition read_char :: "char \<Rightarrow> string \<Rightarrow> string option" where
  "read_char c s = (case s of d # ds \<Rightarrow> if d = c then Some ds else None | [] \<Rightarrow> None)"

definition hex_digit :: "nat \<Rightarrow> char \<Rightarrow> nat option" where
  "hex_digit radix c = (let k = of_char c :: nat in
     if 48 \<le> k \<and> k \<le> 57 then Some (k - 48)
     else if radix = 16 \<and> 97 \<le> k \<and> k \<le> 102 then Some (k - 87)
     else if radix = 16 \<and> 65 \<le> k \<and> k \<le> 70 then Some (k - 55)
     else None)"

text \<open>\<open>read_number\<close>: at most \<open>max\<close> digits; a further digit, a value that does not fit
  \<open>bound\<close>, no digit at all, or a leading zero where that is not allowed, is a failure.\<close>

fun read_digits :: "nat \<Rightarrow> nat \<Rightarrow> nat \<Rightarrow> nat \<Rightarrow> nat \<Rightarrow> string \<Rightarrow> (nat \<times> nat \<times> string) option" where
  "read_digits radix mx bound acc cnt [] = Some (acc, cnt, [])"
| "read_digits radix mx bound acc cnt (c # cs) =
     (case hex_digit radix c of
        None \<Rightarrow> Some (acc, cnt, c # cs)
      | Some d \<Rightarrow>
          if bound \<le> acc * radix + d \<or> mx < cnt + 1 then None
          else read_digits radix mx bound (acc * radix + d) (cnt + 1) cs)"

definition read_number :: "nat \<Rightarrow> nat \<Rightarrow> nat \<Rightarrow> bool \<Rightarrow> string \<Rightarrow> (nat \<times> string) option" where
  "read_number radix mx bound allow_zero_prefix s =
     (case read_digits radix mx bound 0 0 s of
        None \<Rightarrow> None
      | Some (v, cnt, rest) \<Rightarrow>
          if cnt = 0 then None
          else if \<not> allow_zero_prefix \<and> s \<noteq> [] \<and> hd s = CHR ''0'' \<and> 1 < cnt then None
          else Some (v, rest))"

text \<open>\<open>read_separator\<close>: nothing before element \<open>0\<close>, the separator before every other one.\<close>

definition read_separator :: "char \<Rightarrow> nat \<Rightarrow> (string \<Rightarrow> 'a option) \<Rightarrow> string \<Rightarrow> 'a option" where
  "read_separator sep index inner s =
     (if 0 < index then (case read_char sep s of None \<Rightarrow> None | Some s' \<Rightarrow> inner s') else inner s)"

fun read_octets :: "nat \<Rightarrow> nat \<Rightarrow> string \<Rightarrow> (u8 list \<times> string) option" where
  "read_octets 0 i s = Some ([], s)"
| "read_octets (Suc n) i s =
     (case read_separator (CHR ''.'') i (read_number 10 3 256 False) s of
        None \<Rightarrow> None
      | Some (v, s') \<Rightarrow>
          (case read_octets n (i + 1) s' of
             None \<Rightarrow> None
           | Some (vs, s'') \<Rightarrow> Some (of_nat v # vs, s'')))"

definition read_ipv4_addr :: "string \<Rightarrow> (u8 list \<times> string) option" where
  "read_ipv4_addr s = read_octets 4 0 s"

definition u16_from_be :: "u8 \<Rightarrow> u8 \<Rightarrow> u16" where
  "u16_from_be a b = of_nat (unat a * 256 + unat b)"

text \<open>\<open>read_groups\<close> over \<open>limit\<close> slots: the groups read, whether the last two came from an
  embedded dotted address, and the rest.\<close>

fun read_groups_from :: "nat \<Rightarrow> nat \<Rightarrow> string \<Rightarrow> u16 list \<times> bool \<times> string" where
  "read_groups_from 0 i s = ([], False, s)"
| "read_groups_from (Suc left) i s =
     (case (if 0 < left then read_separator (CHR '':'') i read_ipv4_addr s else None) of
        Some (v4, rest) \<Rightarrow>
          ([u16_from_be (v4 ! 0) (v4 ! 1), u16_from_be (v4 ! 2) (v4 ! 3)], True, rest)
      | None \<Rightarrow>
          (case read_separator (CHR '':'') i (read_number 16 4 65536 True) s of
             Some (v, rest) \<Rightarrow>
               (case read_groups_from left (i + 1) rest of
                  (gs, v4, rest') \<Rightarrow> (of_nat v # gs, v4, rest'))
           | None \<Rightarrow> ([], False, s)))"

definition read_ipv6_addr :: "string \<Rightarrow> (u16 list \<times> string) option" where
  "read_ipv6_addr s =
     (case read_groups_from 8 0 s of
        (head, head_ipv4, rest) \<Rightarrow>
          if length head = 8 then Some (head, rest)
          else if head_ipv4 then None
          else
            (case Option.bind (read_char (CHR '':'') rest) (read_char (CHR '':'')) of
               None \<Rightarrow> None
             | Some rest \<Rightarrow>
                 (case read_groups_from (8 - (length head + 1)) 0 rest of
                    (bck, _, rest') \<Rightarrow>
                      Some (head @ replicate (8 - length head - length bck) 0 @ bck, rest'))))"

definition parse_ip :: "string \<Rightarrow> ip_addr option" where
  "parse_ip s =
     (case (case read_ipv4_addr s of
              Some (v, rest) \<Rightarrow> Some (V4 v, rest)
            | None \<Rightarrow> (case read_ipv6_addr s of Some (v, rest) \<Rightarrow> Some (V6 v, rest) | None \<Rightarrow> None)) of
        Some (a, []) \<Rightarrow> Some a
      | _ \<Rightarrow> None)"

definition show_ipv4 :: "u8 list \<Rightarrow> string" where
  "show_ipv4 v = show_nat (unat (v ! 0)) @ ''.'' @ show_nat (unat (v ! 1)) @ ''.''
     @ show_nat (unat (v ! 2)) @ ''.'' @ show_nat (unat (v ! 3))"

text \<open>\<open>{:x}\<close>: lower-case hexadecimal without leading zeros.\<close>

definition hex_char :: "nat \<Rightarrow> char" where
  "hex_char d = char_of (if d < 10 then 48 + d else 87 + d)"

fun show_hex :: "nat \<Rightarrow> string" where
  "show_hex n = (if n < 16 then [hex_char n] else show_hex (n div 16) @ [hex_char (n mod 16)])"

declare show_hex.simps [simp del]

section \<open>The shape of what is parsed\<close>

lemma length_read_octets: "read_octets n i s = Some (vs, rest) \<Longrightarrow> length vs = n"
  by (induction n i s arbitrary: vs rest rule: read_octets.induct)
    (auto split: option.splits prod.splits)

lemma length_read_groups:
  "read_groups_from left i s = (gs, v4, rest) \<Longrightarrow> length gs \<le> left"
proof (induction left i s arbitrary: gs v4 rest rule: read_groups_from.induct)
  case (2 left i s)
  show ?case
  proof (cases "if 0 < left then read_separator (CHR '':'') i read_ipv4_addr s else None")
    case None
    then show ?thesis
      using 2 by (auto split: option.splits prod.splits if_splits)
  next
    case (Some a)
    then show ?thesis
      using 2(2) by (cases a) (auto split: if_splits)
  qed
qed simp

definition ip_wf :: "ip_addr \<Rightarrow> bool" where
  "ip_wf a \<longleftrightarrow> (case a of V4 v \<Rightarrow> length v = 4 | V6 v \<Rightarrow> length v = 8)"

text \<open>Four octets or eight groups, so no index of the code is out of range.\<close>

lemma parse_ip_wf:
  assumes "parse_ip s = Some a"
  shows "ip_wf a"
proof -
  have "length v = 8" if v6: "read_ipv6_addr s = Some (v, rest)" for v rest
  proof -
    obtain head h4 r where h: "read_groups_from 8 0 s = (head, h4, r)"
      by (cases "read_groups_from 8 0 s") auto
    show ?thesis
    proof (cases "length head = 8")
      case False
      then obtain bck b4 r' where "read_groups_from (8 - (length head + 1)) 0 r' = (bck, b4, rest)"
        and v: "v = head @ replicate (8 - length head - length bck) 0 @ bck"
        using v6 h by (auto simp: read_ipv6_addr_def split: if_splits option.splits prod.splits)
      then have "length bck \<le> 8 - (length head + 1)"
        using length_read_groups by blast
      then show ?thesis
        using length_read_groups [OF h] v by simp
    qed (use v6 h in \<open>simp add: read_ipv6_addr_def\<close>)
  qed
  moreover have "length v = 4" if "read_ipv4_addr s = Some (v, rest)" for v rest
    using that length_read_octets by (auto simp: read_ipv4_addr_def)
  ultimately show ?thesis
    using assms by (auto simp: parse_ip_def ip_wf_def split: option.splits list.splits)
qed

end
