(* ===== verification/Permutation.thy ===== *)
theory Permutation
  imports Prelude
begin

text \<open>
  \<open>crates/wr-common/src/permutation/mod.rs\<close>: the seeded permutation that maps a
  registration index to a queue position.  HMAC-SHA256 is the third-party library
  \<open>aws_lc_rs\<close>, so it is the parameter \<open>hmac\<close> of every definition (key, message, and
  the 256-bit tag, most significant byte first); no property here assumes anything of
  it.  The cycle-walking loop of \<open>prp\<close> is a partial function whose value \<open>None\<close> would
  be a loop that never returns; \<open>prp_returns\<close> shows that it always returns.

  Lemmas: a Feistel network is a bijection of its domain whatever its round function
  (\<open>enc_inj\<close>, \<open>enc_closed\<close>); the locale \<open>cycle_walk_domain\<close> holds the argument that the
  first return of an injection of a finite domain into a subset is a permutation of the
  subset; its interpretation on the code's \<open>enc\<close> gives the facts of \<open>prp\<close>.  \<open>feistel_number\<close> is the
  published construction over natural numbers, and \<open>prp_is_cycle_walking\<close> the equivalence with it.
\<close>

type_synonym hmac_sha256 = "u8 list \<Rightarrow> u8 list \<Rightarrow> 256 word"

section \<open>The code\<close>

definition ROUNDS :: u8 where
  "ROUNDS = 4"

text \<open>\<open>u64::leading_zeros\<close> of the standard library.\<close>

definition leading_zeros :: "u64 \<Rightarrow> nat" where
  "leading_zeros w = length (takeWhile (\<lambda>i. \<not> bit w i) (rev [0..<64]))"

definition half_width :: "u64 \<Rightarrow> nat" where
  "half_width n = (let bits = 64 - leading_zeros (n - 1) in (bits + 1) div 2)"

text \<open>The first four bytes of the tag, as the slice \<open>tag.as_ref()\<close> gives them.\<close>

definition tag_byte :: "256 word \<Rightarrow> nat \<Rightarrow> u8" where
  "tag_byte t i = ucast (drop_bit (248 - 8 * i) t)"

definition round_function :: "hmac_sha256 \<Rightarrow> u8 list \<Rightarrow> u8 \<Rightarrow> u64 \<Rightarrow> u64 \<Rightarrow> u64" where
  "round_function hmac key rnd x msk =
     (let msg = rnd # drop 4 (u64_be_bytes x);
          tag = hmac key msg;
          w = u32_from_be (tag_byte tag 0) (tag_byte tag 1) (tag_byte tag 2) (tag_byte tag 3)
      in ucast w AND msk)"

function feistel_loop ::
  "hmac_sha256 \<Rightarrow> u8 list \<Rightarrow> u64 \<Rightarrow> u8 \<Rightarrow> u64 \<Rightarrow> u64 \<Rightarrow> u64 \<times> u64" where
  "feistel_loop hmac key msk rnd left right =
     (if rnd < ROUNDS
      then feistel_loop hmac key msk (rnd + 1) right
             (left XOR round_function hmac key rnd right msk)
      else (left, right))"
  by pat_completeness auto
termination
proof (relation "measure (\<lambda>(_, _, _, rnd, _). unat (ROUNDS - rnd))", goal_cases)
  case (2 hmac key msk rnd left right)
  then have "unat rnd < 4" by (simp add: ROUNDS_def word_less_nat_alt)
  then have "unat (4 - rnd) = 4 - unat rnd" "unat (rnd + 1) = unat rnd + 1"
      "unat (4 - (rnd + 1)) = 4 - (unat rnd + 1)"
    by (simp_all add: unat_sub word_le_nat_alt unat_word_ariths)
  with \<open>unat rnd < 4\<close> show ?case by (simp add: ROUNDS_def)
qed simp

definition enc :: "hmac_sha256 \<Rightarrow> u8 list \<Rightarrow> u64 \<Rightarrow> nat \<Rightarrow> u64 \<Rightarrow> u64" where
  "enc hmac key v b msk =
     (let left = drop_bit b v; right = v AND msk in
      case feistel_loop hmac key msk 0 left right of
        (left, right) \<Rightarrow> push_bit b left OR right)"

partial_function (option) cycle_walk :: "(u64 \<Rightarrow> u64) \<Rightarrow> u64 \<Rightarrow> u64 \<Rightarrow> u64 option" where
  "cycle_walk e n v = (let v' = e v in if v' < n then Some v' else cycle_walk e n v')"

definition prp :: "hmac_sha256 \<Rightarrow> u8 list \<Rightarrow> u64 \<Rightarrow> u64 \<Rightarrow> u64 option" where
  "prp hmac seed i n =
     (if n \<le> 1 \<or> n \<le> i then Some i
      else
        let b = half_width n;
            msk = push_bit b 1 - 1
        in cycle_walk (\<lambda>v. enc hmac seed v b msk) n i)"

section \<open>The half width\<close>

lemma leading_zeros_le: "leading_zeros w \<le> 64"
proof -
  have "length (takeWhile P xs) \<le> length xs" for P :: "nat \<Rightarrow> bool" and xs
    by (rule length_takeWhile_le)
  from this [of "\<lambda>i. \<not> bit w i" "rev [0..<64]"] show ?thesis
    by (simp add: leading_zeros_def)
qed

lemma bit_above_leading_zeros:
  assumes "64 - leading_zeros w \<le> i"
  shows "\<not> bit (w :: u64) i"
proof (cases "i < 64")
  case True
  let ?xs = "rev [0..<64]" and ?P = "\<lambda>i. \<not> bit w i"
  have k: "63 - i < leading_zeros w" using assms True leading_zeros_le [of w] by linarith
  have "?xs ! (63 - i) = i" using True by (simp add: rev_nth)
  moreover have "?P (?xs ! (63 - i))"
    using k nth_mem [of "63 - i" "takeWhile ?P ?xs"] set_takeWhileD
    by (metis (no_types, lifting) leading_zeros_def takeWhile_nth)
  ultimately show ?thesis by simp
qed (use bit_imp_le_length [of w i] in auto)

lemma unat_lt_leading_zeros: "unat (w :: u64) < 2 ^ (64 - leading_zeros w)"
proof -
  let ?k = "64 - leading_zeros w"
  have "take_bit ?k w = w"
    using bit_above_leading_zeros [of w]
    by (intro bit_eqI) (auto simp: bit_take_bit_iff not_le [symmetric])
  then have "unat w = take_bit ?k (unat w)"
    by (metis unsigned_take_bit_eq)
  then show ?thesis
    by (metis take_bit_nat_less_exp)
qed

lemma half_width_le: "half_width n \<le> 32"
  by (simp add: half_width_def)

lemma half_width_covers: "n \<noteq> 0 \<Longrightarrow> unat n \<le> 2 ^ (2 * half_width n)"
proof -
  let ?k = "64 - leading_zeros (n - 1)"
  assume "n \<noteq> 0"
  then have "unat n = Suc (unat (n - 1))"
    by (simp add: unat_minus_one unat_gt_0)
  moreover have "unat (n - 1) < 2 ^ ?k" by (rule unat_lt_leading_zeros)
  moreover have "(2::nat) ^ ?k \<le> 2 ^ (2 * half_width n)"
    by (rule power_increasing) (simp_all add: half_width_def)
  ultimately show ?thesis by linarith
qed

section \<open>A Feistel network is a bijection\<close>

text \<open>A value that fits in \<open>b\<close> bits is one that \<open>take_bit b\<close> leaves alone.\<close>

abbreviation fits :: "nat \<Rightarrow> u64 \<Rightarrow> bool" where
  "fits b x \<equiv> take_bit b x = x"

lemma mask_of_shift: "b \<le> 32 \<Longrightarrow> push_bit b 1 - 1 = (mask b :: u64)"
  by (simp add: mask_eq_exp_minus_1 push_bit_eq_mult)

lemma round_function_fits [simp]: "fits b (round_function hmac key rnd x (mask b))"
  by (simp add: round_function_def Let_def flip: take_bit_eq_mask)

lemma xor_fits: "fits b x \<Longrightarrow> fits b y \<Longrightarrow> fits b (x XOR y)"
  by (simp add: take_bit_xor)

lemma xor_cancel: "(x XOR z = y XOR z) = (x = (y :: u64))"
proof
  assume "x XOR z = y XOR z"
  then have "(x XOR z) XOR z = (y XOR z) XOR z" by simp
  then show "x = y" by (simp add: xor.assoc)
qed simp

lemma feistel_loop_step:
  "rnd < ROUNDS \<Longrightarrow> feistel_loop hmac key msk rnd l r =
     feistel_loop hmac key msk (rnd + 1) r (l XOR round_function hmac key rnd r msk)"
  "\<not> rnd < ROUNDS \<Longrightarrow> feistel_loop hmac key msk rnd l r = (l, r)"
  by simp_all

declare feistel_loop.simps [simp del]

lemma feistel_loop_fits:
  assumes "fits b l" "fits b r" "feistel_loop hmac key (mask b) rnd l r = (l', r')"
  shows "fits b l' \<and> fits b r'"
  using assms
proof (induction hmac key "mask b :: u64" rnd l r rule: feistel_loop.induct)
  case (1 hmac key rnd l r)
  show ?case
  proof (cases "rnd < ROUNDS")
    case True
    with 1 show ?thesis
      by (auto simp: feistel_loop_step)
  qed (use 1 in \<open>simp add: feistel_loop_step\<close>)
qed

lemma feistel_loop_inj:
  "feistel_loop hmac key msk rnd l r = feistel_loop hmac key msk rnd l' r' \<Longrightarrow> l = l' \<and> r = r'"
proof (induction hmac key msk rnd l r arbitrary: l' r' rule: feistel_loop.induct)
  case (1 hmac key msk rnd l r)
  show ?case
  proof (cases "rnd < ROUNDS")
    case True
    with 1 have "r = r' \<and> l XOR round_function hmac key rnd r msk
                     = l' XOR round_function hmac key rnd r' msk"
      by (auto simp: feistel_loop_step)
    then show ?thesis by (auto simp: xor_cancel)
  qed (use 1 in \<open>simp add: feistel_loop_step\<close>)
qed

lemma join_halves_inj:
  assumes "fits b r" "fits b r'" "fits b l" "fits b l'" "b \<le> 32"
    and "push_bit b l OR r = push_bit b l' OR r'"
  shows "l = l' \<and> r = (r' :: u64)"
proof -
  have low: "take_bit b (push_bit b k OR t) = t" if "fits b t" for k t :: u64
    using that by (simp add: take_bit_push_bit)
  have high: "drop_bit b (push_bit b k OR t) = k" if "fits b t" "fits b k" for k t :: u64
  proof (rule bit_eqI)
    fix i assume "possible_bit TYPE(u64) i"
    have "bit k i \<Longrightarrow> i < b" using that(2) by (metis bit_take_bit_iff)
    moreover have "\<not> bit t (b + i)" using that(1) by (metis bit_take_bit_iff not_add_less1)
    ultimately show "bit (drop_bit b (push_bit b k OR t)) i = bit k i"
      using \<open>b \<le> 32\<close> \<open>possible_bit TYPE(u64) i\<close>
      by (auto simp: bit_simps)
  qed
  have "r = take_bit b (push_bit b l' OR r')"
    using low [OF assms(1), of l] by (simp only: assms(6))
  moreover have "l = drop_bit b (push_bit b l' OR r')"
    using high [OF assms(1,3)] by (simp only: assms(6))
  ultimately show ?thesis
    using high [OF assms(2,4)] low [OF assms(2), of l'] by (simp only:)
qed

lemma split_halves_inj:
  assumes "drop_bit b v = drop_bit b w" "take_bit b v = take_bit b w"
  shows "v = (w :: u64)"
  using assms by (metis bits_ident)

lemma split_fits: "fits (b + b) v \<Longrightarrow> fits b (drop_bit b v)"
  by (metis take_bit_drop_bit)

definition feistel_domain :: "nat \<Rightarrow> u64 set" where
  "feistel_domain b = {v. fits (b + b) v}"

lemma enc_eq:
  "enc hmac key v b (mask b) =
     (case feistel_loop hmac key (mask b) 0 (drop_bit b v) (take_bit b v) of
        (l, r) \<Rightarrow> push_bit b l OR r)"
  by (simp add: enc_def Let_def take_bit_eq_mask)

lemma enc_closed:
  assumes "v \<in> feistel_domain b" "b \<le> 32"
  shows "enc hmac key v b (mask b) \<in> feistel_domain b"
proof -
  obtain l r where lr: "feistel_loop hmac key (mask b) 0 (drop_bit b v) (take_bit b v) = (l, r)"
    by fastforce
  with assms have "fits b l" "fits b r"
    using feistel_loop_fits [OF _ _ lr] by (auto simp: feistel_domain_def split_fits)
  then have "fits (b + b) (push_bit b l OR r)"
    by (simp add: take_bit_or take_bit_push_bit)
      (metis le_add1 min.absorb1 min.commute take_bit_take_bit)
  with lr show ?thesis by (simp add: enc_eq feistel_domain_def)
qed

lemma enc_inj:
  assumes "b \<le> 32"
  shows "inj_on (\<lambda>v. enc hmac key v b (mask b)) (feistel_domain b)"
proof (rule inj_onI)
  fix v w
  assume v: "v \<in> feistel_domain b" and w: "w \<in> feistel_domain b"
    and eq: "enc hmac key v b (mask b) = enc hmac key w b (mask b)"
  obtain l r where lr: "feistel_loop hmac key (mask b) 0 (drop_bit b v) (take_bit b v) = (l, r)"
    by fastforce
  obtain l' r' where lr': "feistel_loop hmac key (mask b) 0 (drop_bit b w) (take_bit b w) = (l', r')"
    by fastforce
  have "fits b l \<and> fits b r" "fits b l' \<and> fits b r'"
    using feistel_loop_fits [OF _ _ lr] feistel_loop_fits [OF _ _ lr'] v w
    by (auto simp: feistel_domain_def split_fits)
  with eq lr lr' assms have "(l, r) = (l', r')"
    using join_halves_inj [of b r r' l l'] by (auto simp: enc_eq)
  with lr lr' have "drop_bit b v = drop_bit b w \<and> take_bit b v = take_bit b w"
    by (intro feistel_loop_inj [of hmac key "mask b" 0]) simp
  then show "v = w" by (auto intro: split_halves_inj)
qed

section \<open>Cycle walking\<close>

text \<open>
  The interface between the cipher and the loop: an injection \<open>e\<close> of a set \<open>D\<close> of words
  into itself, and a bound \<open>n\<close> whose initial segment lies in \<open>D\<close>.  The loop then returns
  the first iterate below \<open>n\<close>, and the first return is an injection of the segment.
\<close>

locale cycle_walk_domain =
  fixes e :: "u64 \<Rightarrow> u64" and D :: "u64 set" and n :: u64
  assumes e_inj: "inj_on e D"
    and e_closed: "v \<in> D \<Longrightarrow> e v \<in> D"
    and below: "v < n \<Longrightarrow> v \<in> D"
begin

lemma pow_closed: "v \<in> D \<Longrightarrow> (e ^^ k) v \<in> D"
  by (induction k) (auto intro: e_closed)

lemma pow_inj: "v \<in> D \<Longrightarrow> w \<in> D \<Longrightarrow> (e ^^ k) v = (e ^^ k) w \<Longrightarrow> v = w"
proof (induction k)
  case (Suc k)
  have eq: "e ((e ^^ k) v) = e ((e ^^ k) w)" using Suc.prems(3) by simp
  have "(e ^^ k) v = (e ^^ k) w"
    by (rule inj_onD [OF e_inj eq]) (rule pow_closed, fact)+
  then show ?case by (rule Suc.IH [OF Suc.prems(1,2)])
qed simp

lemma returns: "v \<in> D \<Longrightarrow> \<exists>k > 0. (e ^^ k) v = v"
proof -
  assume v: "v \<in> D"
  have "\<not> inj (\<lambda>k :: nat. (e ^^ k) v)"
    using finite_imageD [of "\<lambda>k :: nat. (e ^^ k) v" UNIV] by auto
  then obtain a b where ab: "(e ^^ a) v = (e ^^ b) v" "a \<noteq> b"
    by (auto simp: inj_def)
  define i j where "i = min a b" and "j = max a b"
  with ab have ij: "(e ^^ i) v = (e ^^ j) v" "i < j"
    by (auto simp: min_def max_def)
  then have "(e ^^ i) ((e ^^ (j - i)) v) = (e ^^ i) v"
    by (metis funpow_add le_add_diff_inverse less_imp_le_nat o_apply)
  then have "(e ^^ (j - i)) v = v"
    using pow_inj [OF pow_closed [OF v] v] by blast
  with ij show ?thesis by (intro exI [of _ "j - i"]) simp
qed

definition first_return :: "u64 \<Rightarrow> nat \<Rightarrow> bool" where
  "first_return v k \<longleftrightarrow> 0 < k \<and> (e ^^ k) v < n \<and> (\<forall>j. 0 < j \<longrightarrow> j < k \<longrightarrow> \<not> (e ^^ j) v < n)"

lemma walk_first_return: "first_return v k \<Longrightarrow> cycle_walk e n v = Some ((e ^^ k) v)"
proof (induction k arbitrary: v)
  case (Suc k)
  show ?case
  proof (cases "e v < n")
    case True
    with Suc.prems have "k = 0" by (force simp: first_return_def)
    with True show ?thesis by (simp add: cycle_walk.simps Let_def)
  next
    case False
    with Suc.prems have "first_return (e v) k"
      by (auto simp: first_return_def funpow_swap1 dest: spec [where x = "Suc _"]
          intro: gr0I)
    from Suc.IH [OF this] False show ?thesis
      by (simp add: cycle_walk.simps [of e n v] Let_def funpow_swap1)
  qed
qed (simp add: first_return_def)

lemma first_return_exists: "v < n \<Longrightarrow> \<exists>k. first_return v k"
proof -
  assume v: "v < n"
  let ?P = "\<lambda>k. 0 < k \<and> (e ^^ k) v < n"
  obtain k where "?P k" using returns [OF below [OF v]] v by metis
  then have "?P (LEAST k. ?P k)" by (rule LeastI)
  moreover have "\<forall>j. 0 < j \<longrightarrow> j < (LEAST k. ?P k) \<longrightarrow> \<not> (e ^^ j) v < n"
    using not_less_Least [of _ ?P] by blast
  ultimately show ?thesis unfolding first_return_def by blast
qed

lemma walk_total: "v < n \<Longrightarrow> \<exists>y. cycle_walk e n v = Some y \<and> y < n"
  using first_return_exists walk_first_return by (fastforce simp: first_return_def)

lemma first_return_shift:
  assumes "v < n" "w < n" "first_return v k" "first_return w m" "k \<le> m"
    and "(e ^^ k) v = (e ^^ m) w"
  shows "v = w"
proof -
  have "(e ^^ m) w = (e ^^ k) ((e ^^ (m - k)) w)"
    using assms(5) by (metis funpow_add le_add_diff_inverse o_apply)
  then have v: "v = (e ^^ (m - k)) w"
    using assms(6) pow_inj [OF below [OF assms(1)] pow_closed [OF below [OF assms(2)]]] by simp
  then have "m - k = 0"
    using assms(1,3,4) unfolding first_return_def by (metis diff_less gr0I less_le_trans assms(5))
  with v show ?thesis by simp
qed

lemma walk_inj:
  assumes "v < n" "w < n" "cycle_walk e n v = cycle_walk e n w"
  shows "v = w"
proof -
  obtain k where k: "first_return v k" using first_return_exists assms(1) by blast
  obtain m where m: "first_return w m" using first_return_exists assms(2) by blast
  have "(e ^^ k) v = (e ^^ m) w"
    using assms(3) walk_first_return [OF k] walk_first_return [OF m] by simp
  then show ?thesis
    using first_return_shift [OF assms(1,2) k m] first_return_shift [OF assms(2,1) m k]
    by (cases "k \<le> m") auto
qed

end

interpretation enc_walk: cycle_walk_domain
  "\<lambda>v. enc hmac seed v (half_width n) (mask (half_width n))" "feistel_domain (half_width n)" n
  for hmac seed n
proof
  show "inj_on (\<lambda>v. enc hmac seed v (half_width n) (mask (half_width n)))
      (feistel_domain (half_width n))"
    by (rule enc_inj [OF half_width_le])
next
  fix v assume "v \<in> feistel_domain (half_width n)"
  then show "enc hmac seed v (half_width n) (mask (half_width n)) \<in> feistel_domain (half_width n)"
    by (rule enc_closed [OF _ half_width_le])
next
  fix v assume "v < n"
  then have "n \<noteq> 0" "unat v < unat n"
    by (auto simp: word_less_nat_alt)
  then have "unat v < 2 ^ (half_width n + half_width n)"
    using half_width_covers [of n] by (simp add: mult_2)
  then have "take_bit (half_width n + half_width n) (unat v) = unat v"
    by (simp add: take_bit_nat_eq_self)
  then show "v \<in> feistel_domain (half_width n)"
    unfolding feistel_domain_def by (metis (mono_tags) mem_Collect_eq unsigned_take_bit_eq unat_inj)
qed

section \<open>The permutation\<close>

lemma prp_walk:
  "1 < n \<Longrightarrow> i < n \<Longrightarrow> prp hmac seed i n =
     cycle_walk (\<lambda>v. enc hmac seed v (half_width n) (mask (half_width n))) n i"
  by (auto simp: prp_def Let_def mask_eq_exp_minus_1 not_le [symmetric])

lemma prp_outside: "n \<le> 1 \<or> n \<le> i \<Longrightarrow> prp hmac seed i n = Some i"
  by (simp add: prp_def)

lemma prp_below: "i < n \<Longrightarrow> \<exists>p. prp hmac seed i n = Some p \<and> p < n"
  using enc_walk.walk_total [where hmac = hmac and seed = seed]
  by (cases "1 < n") (auto simp: prp_walk prp_outside not_less)

lemma prp_inj_below:
  "i < n \<Longrightarrow> j < n \<Longrightarrow> prp hmac seed i n = prp hmac seed j n \<Longrightarrow> i = j"
  using enc_walk.walk_inj [where hmac = hmac and seed = seed]
  by (cases "1 < n") (auto simp: prp_walk prp_outside not_less)

lemma prp_returns: "\<exists>p. prp hmac seed i n = Some p"
  using prp_below prp_outside by (metis not_less)

section \<open>Properties\<close>

text \<open>
  The published construction over natural numbers: a round takes the first 32 bits of the tag of the
  round number and the big-endian right half, modulo \<open>2 ^ b\<close>; four rounds permute the numbers of
  \<open>2 * b\<close> bits.
\<close>

definition feistel_round :: "hmac_sha256 \<Rightarrow> u8 list \<Rightarrow> nat \<Rightarrow> nat \<Rightarrow> nat \<times> nat \<Rightarrow> nat \<times> nat" where
  "feistel_round hmac key b rnd lr =
     (case lr of (l, r) \<Rightarrow>
       let message = map of_nat [rnd, r div 2 ^ 24, r div 2 ^ 16 mod 256, r div 2 ^ 8 mod 256, r mod 256]
       in (r, l XOR (unat (hmac key message) div 2 ^ 224) mod 2 ^ b))"

definition feistel_number :: "hmac_sha256 \<Rightarrow> u8 list \<Rightarrow> nat \<Rightarrow> nat \<Rightarrow> nat" where
  "feistel_number hmac key b v =
     (case fold (feistel_round hmac key b) [0, 1, 2, 3] (v div 2 ^ b, v mod 2 ^ b) of (l, r) \<Rightarrow> l * 2 ^ b + r)"

lemma unat_drop_bit: "unat (drop_bit k w) = unat w div 2 ^ k"
  by (simp only: unsigned_drop_bit_eq) (simp only: take_bit_nat_eq_self [OF unat_lt2p] drop_bit_eq_div)

lemma ucast_byte: "ucast (drop_bit k x) = (of_nat (unat (x :: u64) div 2 ^ k mod 256) :: u8)"
  using unat_drop_bit [of k x]
  by (simp add: word_unat_eq_iff unsigned_ucast_eq take_bit_eq_mod unsigned_of_nat)

lemma low_bytes:
  assumes "unat x < 2 ^ 32"
  shows "drop 4 (u64_be_bytes x) =
     map of_nat [unat x div 2 ^ 24, unat x div 2 ^ 16 mod 256, unat x div 2 ^ 8 mod 256, unat x mod 256]"
proof -
  have "unat x div 2 ^ 24 < 256"
    using assms by (simp add: less_mult_imp_div_less)
  then show ?thesis
    using ucast_byte [of 24 x] ucast_byte [of 16 x] ucast_byte [of 8 x] ucast_byte [of 0 x]
    by (simp add: u64_be_bytes_def upt_rec)
qed

lemma first_word: "u32_from_be (tag_byte t 0) (tag_byte t 1) (tag_byte t 2) (tag_byte t 3) = ucast (drop_bit 224 t)"
proof (rule bit_word_eqI)
  fix n assume "n < LENGTH(32)"
  then consider "n < 8" | "8 \<le> n" "n < 16" | "16 \<le> n" "n < 24" | "24 \<le> n" "n < 32"
    by fastforce
  then show "bit (u32_from_be (tag_byte t 0) (tag_byte t 1) (tag_byte t 2) (tag_byte t 3)) n
      = bit (ucast (drop_bit 224 t) :: u32) n"
    by cases (auto simp: u32_from_be_def tag_byte_def bit_simps)
qed

lemma unat_first_word: "unat (ucast (drop_bit 224 t) :: u32) = unat (t :: 256 word) div 2 ^ 224"
proof -
  have "unat t div 2 ^ 224 < 2 ^ 32"
    using unat_lt2p [of t] by (intro less_mult_imp_div_less) (simp flip: power_add)
  then show ?thesis
    by (simp only: unsigned_ucast_eq unat_drop_bit) (simp add: take_bit_nat_eq_self)
qed

lemma round_number:
  assumes "unat r < 2 ^ 32" "b \<le> 32"
  shows "unat (round_function hmac key (of_nat rnd) r (mask b)) =
     (unat (hmac key (map of_nat [rnd, unat r div 2 ^ 24, unat r div 2 ^ 16 mod 256, unat r div 2 ^ 8 mod 256,
        unat r mod 256])) div 2 ^ 224) mod 2 ^ b"
proof -
  let ?t = "hmac key (of_nat rnd # drop 4 (u64_be_bytes r))"
  have "round_function hmac key (of_nat rnd) r (mask b) = take_bit b (ucast (ucast (drop_bit 224 ?t) :: u32))"
    by (simp only: round_function_def Let_def first_word take_bit_eq_mask)
  moreover have "unat (ucast (w :: u32) :: u64) = unat w" for w
    using unat_lt2p [of w] by (simp add: unsigned_ucast_eq take_bit_nat_eq_self)
  ultimately show ?thesis
    by (simp only: unsigned_take_bit_eq unat_first_word low_bytes [OF assms(1)] list.map) (simp only: take_bit_eq_mod)
qed

definition word_round :: "hmac_sha256 \<Rightarrow> u8 list \<Rightarrow> nat \<Rightarrow> nat \<Rightarrow> u64 \<times> u64 \<Rightarrow> u64 \<times> u64" where
  "word_round hmac key b k lr = (case lr of (l, r) \<Rightarrow> (r, l XOR round_function hmac key (of_nat k) r (mask b)))"

lemma fits_below: "fits b x \<Longrightarrow> unat x < 2 ^ b"
  by (metis take_bit_nat_less_exp unsigned_take_bit_eq)

lemma word_round_number:
  assumes "fits b l" "fits b r" "b \<le> 32"
  shows "map_prod unat unat (word_round hmac key b k (l, r)) = feistel_round hmac key b k (unat l, unat r)"
proof -
  have "unat r < 2 ^ b"
    using assms(2) by (rule fits_below)
  also have "(2 :: nat) ^ b \<le> 2 ^ 32"
    using assms(3) by (rule power_increasing) simp
  finally show ?thesis
    using round_number [OF _ assms(3)] by (simp add: word_round_def feistel_round_def Let_def unsigned_xor_eq)
qed

lemma word_rounds_number:
  "fits b l \<Longrightarrow> fits b r \<Longrightarrow> b \<le> 32 \<Longrightarrow>
   map_prod unat unat (fold (word_round hmac key b) ks (l, r)) = fold (feistel_round hmac key b) ks (unat l, unat r)"
proof (induction ks arbitrary: l r)
  case (Cons k ks)
  obtain l' r' where w: "word_round hmac key b k (l, r) = (l', r')"
    by fastforce
  then have "fits b l' \<and> fits b r'"
    using Cons.prems by (auto simp: word_round_def xor_fits)
  then show ?case
    using Cons.IH [of l' r'] Cons.prems(3) word_round_number [OF Cons.prems, of hmac key k] by (simp add: w)
qed simp

lemma loop_rounds: "feistel_loop hmac key (mask b) 0 l r = fold (word_round hmac key b) [0, 1, 2, 3] (l, r)"
  by (simp add: feistel_loop_step ROUNDS_def word_round_def)

lemma join_number:
  assumes "fits b l" "fits b r" "b \<le> 32"
  shows "unat (push_bit b l OR r) = unat l * 2 ^ b + unat (r :: u64)"
proof -
  have "unat l * 2 ^ b + unat r < 2 ^ b * 2 ^ b"
    using mult_le_mono1 [of "Suc (unat l)" "2 ^ b" "2 ^ b"] fits_below [OF assms(1)] fits_below [OF assms(2)] by simp
  also have "(2 :: nat) ^ b * 2 ^ b \<le> 2 ^ 64"
    using assms(3) power_increasing [of "b + b" 64 "2 :: nat"] by (simp add: power_add)
  finally have small: "unat l * 2 ^ b + unat r < 2 ^ 64" .
  have "push_bit b l AND r = 0"
  proof (rule bit_word_eqI)
    fix n
    have "bit r n \<Longrightarrow> n < b"
      using assms(2) by (metis bit_take_bit_iff)
    then show "bit (push_bit b l AND r) n = bit 0 n"
      by (auto simp: bit_simps)
  qed
  then have "push_bit b l OR r = of_nat (unat l * 2 ^ b + unat r)"
    by (simp add: disjunctive_add_eq_or [symmetric] push_bit_eq_mult)
  then have "unat (push_bit b l OR r) = unat (of_nat (unat l * 2 ^ b + unat r) :: u64)"
    by (simp only:)
  also have "\<dots> = unat l * 2 ^ b + unat r"
    using small by (intro unat_of_nat_small) simp
  finally show ?thesis .
qed

lemma enc_number:
  assumes "v \<in> feistel_domain b" "b \<le> 32"
  shows "unat (enc hmac key v b (mask b)) = feistel_number hmac key b (unat v)"
proof -
  obtain l r where lr: "feistel_loop hmac key (mask b) 0 (drop_bit b v) (take_bit b v) = (l, r)"
    by fastforce
  have h: "fits b (drop_bit b v)"
    using assms(1) by (simp add: feistel_domain_def split_fits)
  then have f: "fits b l" "fits b r"
    using feistel_loop_fits [OF h _ lr] by simp_all
  have "(unat l, unat r) = map_prod unat unat (fold (word_round hmac key b) [0, 1, 2, 3] (drop_bit b v, take_bit b v))"
    by (simp only: loop_rounds [symmetric] lr map_prod_simp)
  also have "\<dots> = fold (feistel_round hmac key b) [0, 1, 2, 3] (unat (drop_bit b v), unat (take_bit b v))"
    using h assms(2) by (intro word_rounds_number) simp_all
  also have "unat (drop_bit b v) = unat v div 2 ^ b"
    by (rule unat_drop_bit)
  also have "unat (take_bit b v) = unat v mod 2 ^ b"
    by (simp only: unsigned_take_bit_eq) (simp only: take_bit_eq_mod)
  finally have "fold (feistel_round hmac key b) [0, 1, 2, 3] (unat v div 2 ^ b, unat v mod 2 ^ b) = (unat l, unat r)"
    by (rule sym)
  then show ?thesis
    by (simp only: enc_eq lr prod.case feistel_number_def join_number [OF f assms(2)])
qed

text \<open>The half width is the least one that makes room for the cohort.\<close>

lemma leading_zeros_ge:
  assumes "unat w < 2 ^ k"
  shows "64 - leading_zeros w \<le> k"
proof (rule ccontr)
  assume k: "\<not> 64 - leading_zeros w \<le> k"
  let ?xs = "rev [0..<64]" and ?P = "\<lambda>i. \<not> bit w i"
  have "length (takeWhile ?P ?xs) < length ?xs"
    using k by (simp add: leading_zeros_def)
  then have "bit w (?xs ! leading_zeros w)"
    unfolding leading_zeros_def using nth_length_takeWhile by fastforce
  moreover have "?xs ! leading_zeros w = 63 - leading_zeros w"
    using k by (simp add: rev_nth)
  ultimately have "bit (unat w) (63 - leading_zeros w)"
    by (simp add: bit_unsigned_iff)
  moreover have "take_bit k (unat w) = unat w"
    using assms by (rule take_bit_nat_eq_self)
  ultimately have "63 - leading_zeros w < k"
    by (metis bit_take_bit_iff)
  then show False
    using k by linarith
qed

lemma half_width_least:
  assumes "1 < n"
  shows "half_width n = (LEAST b. unat n \<le> 4 ^ b)"
proof (rule Least_equality [symmetric])
  have four: "(4 :: nat) ^ b = 2 ^ (2 * b)" for b
    by (simp add: power_mult)
  show "unat n \<le> 4 ^ half_width n"
    using assms unfolding four by (intro half_width_covers) (auto simp: word_less_nat_alt)
  fix b assume "unat n \<le> 4 ^ b"
  moreover have "n \<noteq> 0"
    using assms by auto
  then have "unat n = Suc (unat (n - 1))"
    by (simp add: unat_minus_one unat_gt_0)
  ultimately have "64 - leading_zeros (n - 1) \<le> 2 * b"
    unfolding four by (intro leading_zeros_ge) simp
  then show "half_width n \<le> b"
    by (simp add: half_width_def)
qed

lemma iterates_number:
  assumes "v \<in> feistel_domain b" "b \<le> 32"
  shows "((\<lambda>v. enc hmac key v b (mask b)) ^^ k) v \<in> feistel_domain b
    \<and> unat (((\<lambda>v. enc hmac key v b (mask b)) ^^ k) v) = (feistel_number hmac key b ^^ k) (unat v)"
  by (induction k) (use assms enc_closed enc_number in auto)

text \<open>C5: \<open>prp\<close> is the published construction: cycle walking with the four-round Feistel permutation of
  the smallest power of four that is not below the cohort size, in the arithmetic of natural numbers:
  the first iterate, from the index, that is again below the cohort size.\<close>

theorem prp_is_cycle_walking:
  assumes "1 < n" "i < n" "b = (LEAST b. unat n \<le> 4 ^ b)"
  shows "\<exists>k > 0. map_option unat (prp hmac seed i n) = Some ((feistel_number hmac seed b ^^ k) (unat i))
     \<and> (feistel_number hmac seed b ^^ k) (unat i) < unat n
     \<and> (\<forall>j. 0 < j \<and> j < k \<longrightarrow> unat n \<le> (feistel_number hmac seed b ^^ j) (unat i))"
proof -
  have b: "b = half_width n"
    using half_width_least [OF assms(1)] assms(3) by simp
  obtain k where k: "enc_walk.first_return hmac seed n i k"
    using enc_walk.first_return_exists [OF assms(2)] by blast
  have num: "unat (((\<lambda>v. enc hmac seed v b (mask b)) ^^ j) i) = (feistel_number hmac seed b ^^ j) (unat i)" for j
    using iterates_number [OF enc_walk.below [OF assms(2)] half_width_le] by (simp add: b)
  have first: "0 < k" "unat (((\<lambda>v. enc hmac seed v b (mask b)) ^^ k) i) < unat n"
      "0 < j \<Longrightarrow> j < k \<Longrightarrow> unat n \<le> unat (((\<lambda>v. enc hmac seed v b (mask b)) ^^ j) i)" for j
    using k unfolding enc_walk.first_return_def by (auto simp: b word_less_nat_alt not_less)
  have "prp hmac seed i n = Some (((\<lambda>v. enc hmac seed v b (mask b)) ^^ k) i)"
    using enc_walk.walk_first_return [OF k] prp_walk [OF assms(1,2)] by (simp add: b)
  then show ?thesis
    using first unfolding num [symmetric] by (intro exI [of _ k]) simp
qed

definition ex_hmac :: hmac_sha256 where
  "ex_hmac key m = of_nat (sum_list (map unat m) * 2 ^ 224)"

theorem prp_is_cycle_walking_witness:
  "\<exists>k > 0. map_option unat (prp ex_hmac [] 4 5) = Some ((feistel_number ex_hmac [] 2 ^^ k) 4)
     \<and> (feistel_number ex_hmac [] 2 ^^ k) 4 < 5"
proof -
  have least: "2 = (LEAST b. unat (5 :: u64) \<le> 4 ^ b)"
  proof (rule Least_equality [symmetric])
    fix b :: nat assume "unat (5 :: u64) \<le> 4 ^ b"
    then show "2 \<le> b"
      by (cases b; cases "b - 1") auto
  qed simp
  show ?thesis
    using prp_is_cycle_walking [OF _ _ least, of 4 ex_hmac "[]"] by auto
qed

text \<open>C4: \<open>prp\<close> is total: the cycle-walking loop returns for every seed, index and cohort
  size, degenerate and out-of-range arguments included.\<close>

theorem prp_terminates: "\<exists>p. prp hmac seed i n = Some p"
  by (rule prp_returns)

text \<open>C3: for every seed, \<open>prp\<close> permutes the indices below the cohort size, so no two
  registrations of a cohort share a position and every position is taken.\<close>

theorem prp_permutes: "bij_betw (\<lambda>i. the (prp hmac seed i n)) {..<n} {..<n}"
proof (rule bij_betwI')
  show "(the (prp hmac seed i n) = the (prp hmac seed j n)) = (i = j)"
    if "i \<in> {..<n}" "j \<in> {..<n}" for i j
    using that prp_below [of i n hmac seed] prp_below [of j n hmac seed]
      prp_inj_below [of i n j hmac seed] by auto
  show below: "the (prp hmac seed i n) \<in> {..<n}" if "i \<in> {..<n}" for i
    using that prp_below [of i n hmac seed] by auto
  have "inj_on (\<lambda>i. the (prp hmac seed i n)) {..<n}"
  proof (rule inj_onI)
    fix i j
    assume ij: "i \<in> {..<n}" "j \<in> {..<n}" "the (prp hmac seed i n) = the (prp hmac seed j n)"
    then have "prp hmac seed i n = prp hmac seed j n"
      using prp_below [of i n hmac seed] prp_below [of j n hmac seed] by auto
    then show "i = j"
      using ij prp_inj_below [of i n j hmac seed] by simp
  qed
  then have "(\<lambda>i. the (prp hmac seed i n)) ` {..<n} = {..<n}"
    using below by (intro endo_inj_surj) auto
  then show "\<exists>i\<in>{..<n}. p = the (prp hmac seed i n)" if "p \<in> {..<n}" for p
    using that by (metis (no_types, lifting) imageE)
qed

end
