(* ===== verification/Crypto.thy ===== *)
theory Crypto
  imports IpAddr Permutation
begin

text \<open>
  \<open>crates/wr-common/src/crypto.rs\<close>: derived signing keys, the session credential, and the
  possession secret with its digest.  HMAC, SHA-256, base64url and the JSON Web Token
  library are third-party code and are parameters: the record \<open>jwt_lib\<close> holds what the code
  calls of \<open>jsonwebtoken\<close>, and \<open>jwt_sound\<close> its documented round trip.

  Lemmas: a signed session verifies to itself before its expiry and is refused from then on
  (\<open>verify_sign\<close>), and \<open>is_digest_of\<close> accepts exactly the secrets with the stored digest.
\<close>

section \<open>Keys and credentials\<close>

record claims =
  cl_aud :: string
  cl_sub :: string
  cl_exp :: u64
  cl_iat :: "u64 option"
  cl_cip :: "string option"

datatype kind = KindSession

definition bytes_of :: "string \<Rightarrow> u8 list" where
  "bytes_of s = map (\<lambda>c. of_nat (of_char c)) s"

fun kind_label :: "kind \<Rightarrow> u8 list" where
  "kind_label KindSession = bytes_of ''vwr/jws/session/v1''"

definition IP_TAG_LABEL :: "u8 list" where
  "IP_TAG_LABEL = bytes_of ''vwr/ip/v1''"

record signing_key =
  sk_session :: "u8 list"
  sk_ip :: "u8 list"

definition IP_TAG_LEN :: nat where
  "IP_TAG_LEN = 22"

text \<open>The bytes of a tag, \<open>tag.as_ref()\<close>.\<close>

definition tag_bytes :: "256 word \<Rightarrow> u8 list" where
  "tag_bytes t = map (tag_byte t) [0..<32]"

definition derive_key :: "hmac_sha256 \<Rightarrow> u8 list \<Rightarrow> u8 list \<Rightarrow> u8 list" where
  "derive_key hmac secret label = tag_bytes (hmac secret label)"

definition signing_key_new :: "hmac_sha256 \<Rightarrow> u8 list \<Rightarrow> signing_key" where
  "signing_key_new hmac secret =
     \<lparr>sk_session = derive_key hmac secret (kind_label KindSession),
      sk_ip = derive_key hmac secret IP_TAG_LABEL\<rparr>"

definition ip_network :: "string \<Rightarrow> string option" where
  "ip_network ip =
     (case parse_ip ip of
        None \<Rightarrow> None
      | Some (V4 v) \<Rightarrow> Some (show_ipv4 v)
      | Some (V6 s) \<Rightarrow> Some (show_hex (unat (s ! 0)) @ '':'' @ show_hex (unat (s ! 1)) @ '':''
          @ show_hex (unat (s ! 2)) @ '':'' @ show_hex (unat (s ! 3))))"

text \<open>The parameter \<open>b64\<close> is base64url without padding.\<close>

type_synonym base64url = "u8 list \<Rightarrow> string"

definition ip_tag :: "hmac_sha256 \<Rightarrow> base64url \<Rightarrow> signing_key \<Rightarrow> string \<Rightarrow> string option" where
  "ip_tag hmac b64 key ip =
     (case ip_network ip of
        None \<Rightarrow> None
      | Some network \<Rightarrow>
          Some (take IP_TAG_LEN (b64 (tag_bytes (hmac (sk_ip key) (bytes_of network))))))"

fun for_kind :: "signing_key \<Rightarrow> kind \<Rightarrow> u8 list" where
  "for_kind key KindSession = sk_session key"

text \<open>\<open>jsonwebtoken\<close> with the \<open>HS256\<close> header on encoding, and on decoding the validation
  that pins \<open>HS256\<close> and leaves expiry and audience to the caller.\<close>

datatype jwt_error_kind = InvalidSignature | OtherJwtError

record jwt_lib =
  jwt_encode :: "u8 list \<Rightarrow> claims \<Rightarrow> string option"
  jwt_decode :: "u8 list \<Rightarrow> string \<Rightarrow> jwt_error_kind + claims"

datatype sign_error = SignError

datatype verify_error = Malformed | BadSignature | Expired

record session =
  se_event_id :: string
  se_request_id :: string
  se_issued_at :: u64
  se_expires_at :: u64
  se_ip_tag :: "string option"

definition sign_claims ::
  "jwt_lib \<Rightarrow> signing_key \<Rightarrow> kind \<Rightarrow> claims \<Rightarrow> sign_error + string" where
  "sign_claims lib key kind c =
     (case jwt_encode lib (for_kind key kind) c of Some s \<Rightarrow> Inr s | None \<Rightarrow> Inl SignError)"

definition verify_claims ::
  "jwt_lib \<Rightarrow> signing_key \<Rightarrow> kind \<Rightarrow> string \<Rightarrow> verify_error + claims" where
  "verify_claims lib key kind credential =
     (case jwt_decode lib (for_kind key kind) credential of
        Inr c \<Rightarrow> Inr c
      | Inl e \<Rightarrow> Inl (case e of InvalidSignature \<Rightarrow> BadSignature | OtherJwtError \<Rightarrow> Malformed))"

definition session_sign :: "jwt_lib \<Rightarrow> session \<Rightarrow> signing_key \<Rightarrow> sign_error + string" where
  "session_sign lib s key =
     sign_claims lib key KindSession
       \<lparr>cl_aud = se_event_id s, cl_sub = se_request_id s, cl_exp = se_expires_at s,
        cl_iat = Some (se_issued_at s), cl_cip = se_ip_tag s\<rparr>"

definition session_verify ::
  "jwt_lib \<Rightarrow> string \<Rightarrow> signing_key \<Rightarrow> u64 \<Rightarrow> verify_error + session" where
  "session_verify lib credential key now =
     (case verify_claims lib key KindSession credential of
        Inl e \<Rightarrow> Inl e
      | Inr c \<Rightarrow>
          if cl_exp c \<le> now then Inl Expired
          else (case cl_iat c of
                  None \<Rightarrow> Inl Malformed
                | Some iat \<Rightarrow> Inr \<lparr>se_event_id = cl_aud c, se_request_id = cl_sub c,
                    se_issued_at = iat, se_expires_at = cl_exp c, se_ip_tag = cl_cip c\<rparr>))"

section \<open>Possession\<close>

definition POSSESSION_B64_LEN :: nat where
  "POSSESSION_B64_LEN = 43"

definition is_b64url_32 :: "string \<Rightarrow> bool" where
  "is_b64url_32 s \<longleftrightarrow> length s = POSSESSION_B64_LEN
     \<and> list_all (\<lambda>b. is_ascii_alphanumeric b \<or> b = CHR ''-'' \<or> b = CHR ''_'') s"

datatype possession_secret = PossessionSecret (expose: string)

datatype secret_digest = SecretDigest (digest_as_str: string)

datatype malformed_possession = MalformedPossession

definition possession_parse :: "string \<Rightarrow> malformed_possession + possession_secret" where
  "possession_parse s =
     (if is_b64url_32 s then Inr (PossessionSecret s) else Inl MalformedPossession)"

definition digest_parse :: "string \<Rightarrow> malformed_possession + secret_digest" where
  "digest_parse s = (if is_b64url_32 s then Inr (SecretDigest s) else Inl MalformedPossession)"

text \<open>The hash parameter is \<open>base64url(SHA-256(bytes))\<close>, both from libraries.\<close>

type_synonym sha256_b64url = "u8 list \<Rightarrow> string"

definition possession_digest :: "sha256_b64url \<Rightarrow> possession_secret \<Rightarrow> secret_digest" where
  "possession_digest sha secret = SecretDigest (sha (bytes_of (expose secret)))"

definition is_digest_of :: "sha256_b64url \<Rightarrow> secret_digest \<Rightarrow> possession_secret \<Rightarrow> bool" where
  "is_digest_of sha d secret \<longleftrightarrow>
     bytes_of (digest_as_str d) = bytes_of (digest_as_str (possession_digest sha secret))"

section \<open>Credentials verify\<close>

definition jwt_sound :: "jwt_lib \<Rightarrow> bool" where
  "jwt_sound lib \<longleftrightarrow> (\<forall>k c s. jwt_encode lib k c = Some s \<longrightarrow> jwt_decode lib k s = Inr c)"

lemma bytes_of_inj [simp]: "bytes_of s = bytes_of t \<longleftrightarrow> s = t"
proof -
  have "inj (\<lambda>c. of_nat (of_char c) :: u8)"
  proof (rule injI)
    fix c d :: char
    assume "of_nat (of_char c) = (of_nat (of_char d) :: u8)"
    then have "unat (of_nat (of_char c) :: u8) = unat (of_nat (of_char d) :: u8)"
      by simp
    then have "(of_char c :: nat) = of_char d"
      by (simp add: unat_of_nat take_bit_eq_mod)
    then show "c = d"
      by simp
  qed
  then show ?thesis
    by (simp add: bytes_of_def inj_map_eq_map)
qed

lemma verify_sign:
  assumes "jwt_sound lib" "session_sign lib s key = Inr cred"
  shows "session_verify lib cred key now =
    (if now < se_expires_at s then Inr s else Inl Expired)"
  using assms
  by (auto simp: session_sign_def sign_claims_def jwt_sound_def session_verify_def
      verify_claims_def not_less split: option.splits)

lemma is_digest_of_iff: "is_digest_of sha d secret \<longleftrightarrow> d = possession_digest sha secret"
  by (cases d) (simp add: is_digest_of_def possession_digest_def)

lemma digest_parse_Inr: "digest_parse s = Inr d \<longleftrightarrow> is_b64url_32 s \<and> d = SecretDigest s"
  by (auto simp: digest_parse_def)

end
