(* ===== verification/Effects.thy ===== *)
theory Effects
  imports Prelude
begin

text \<open>
  The boundary between the program and the services it calls.  Every \<open>async fn\<close> of the
  program is a value of \<open>'a prog\<close>: either it is done, or it issues one request and
  continues with the response.  An await point is therefore exactly one constructor, and
  what the services answer is not part of the model: a property of a handler quantifies
  over all responses, faults included (\<open>play\<close>), and a property of the whole deployment
  runs any number of such programs against one database, one request at a time
  (theory \<open>Deployment\<close>).

  Requests to DynamoDB carry the key, the clauses of the update expression and the
  condition as syntax trees; theory \<open>Expr\<close> models the builder that renders them into
  expression text and placeholder bindings.  Log lines (\<open>tracing\<close>) are left out.

  Lemmas: \<open>bind\<close> is associative and has \<open>Done\<close> as unit; the rules of \<open>wp\<close>, the
  weakest precondition of a program over a ghost state that requests must respect and
  responses update, used by the component theories and by \<open>Deployment\<close>.
\<close>

section \<open>Values of the service interfaces\<close>

text \<open>\<open>aws_sdk_dynamodb::types::AttributeValue\<close>: the cases the program reads or writes,
  and one for the rest.\<close>

datatype attr = AS string | AN string | AB "u8 list" | AL "attr list" | ANull | AOther

type_synonym item = "string \<rightharpoonup> attr"

fun as_s :: "attr \<Rightarrow> string option" where
  "as_s (AS s) = Some s"
| "as_s _ = None"

fun as_n :: "attr \<Rightarrow> string option" where
  "as_n (AN s) = Some s"
| "as_n _ = None"

fun as_b :: "attr \<Rightarrow> u8 list option" where
  "as_b (AB b) = Some b"
| "as_b _ = None"

fun as_l :: "attr \<Rightarrow> attr list option" where
  "as_l (AL l) = Some l"
| "as_l _ = None"

text \<open>A primary key: the partition key attribute and its string value.\<close>

type_synonym primary_key = "string \<times> string"

datatype update_clause =
    USet string attr
  | USetIfNotExists string attr
  | UAdd string attr
  | URemove string

datatype condition =
    CNotExists string
  | CEq string attr
  | CLe string attr
  | CAnd condition condition
  | COr condition condition

text \<open>An SDK error with its display text.\<close>

datatype sdk_error = ConditionalCheckFailed string | SdkOther string

fun sdk_display :: "sdk_error \<Rightarrow> string" where
  "sdk_display (ConditionalCheckFailed s) = s"
| "sdk_display (SdkOther s) = s"

text \<open>EventBridge Scheduler: opaque service values are strings.\<close>

record schedule_output =
  so_group_name :: "string option"
  so_target :: "string option"
  so_window :: "string option"
  so_expression :: "string option"
  so_timezone :: "string option"
  so_description :: "string option"
  so_kms_key_arn :: "string option"
  so_start_date :: "u64 option"
  so_end_date :: "u64 option"
  so_action_after :: "string option"

record schedule_input =
  si_name :: string
  si_group_name :: "string option"
  si_target :: string
  si_window :: string
  si_expression :: string
  si_timezone :: string
  si_enabled :: bool
  si_description :: "string option"
  si_kms_key_arn :: "string option"
  si_start_date :: "u64 option"
  si_end_date :: "u64 option"
  si_action_after :: "string option"

record invoke_output =
  io_function_error :: "string option"
  io_payload :: "string option"

section \<open>Requests and responses\<close>

datatype req =
    QGet string primary_key bool \<comment> \<open>table, key, consistent read\<close>
  | QBatch string "primary_key list" bool
  | QUpdate string primary_key "update_clause list" "condition option"
  | QPut string item "condition option"
  | QDelete string primary_key bool \<comment> \<open>with or without the deleted item (\<open>ALL_OLD\<close>)\<close>
  | QRand nat
  | QNow
  | QSqs string string
  | QKvDescribe string
  | QKvGet string string
  | QKvPut string string string string
  | QSchedGet string
  | QSchedUpdate schedule_input
  | QInvoke string string
  | QToken string string \<comment> \<open>a code and its verifier, at the identity provider\<close>

datatype resp =
    RGet "sdk_error + item option"
  | RBatch "sdk_error + item list \<times> bool" \<comment> \<open>items, some keys unprocessed\<close>
  | RUpdate "sdk_error + item" \<comment> \<open>the item as the update left it (\<open>ALL_NEW\<close>)\<close>
  | RPut "sdk_error + unit"
  | RDelete "sdk_error + item option"
  | RRand "u8 list option"
  | RNow u64
  | RUnit "string + unit"
  | RText "string + string"
  | RSched "string + schedule_output"
  | RInvoke "string + invoke_output"

text \<open>A program is done, or waits on one request.  The continuation answers \<open>None\<close> for a
  response that is not of the request's type, so such a response is never consumed.\<close>

datatype 'a prog = Done 'a | Ask req "resp \<Rightarrow> 'a prog option"

definition GetItem ::
  "string \<Rightarrow> primary_key \<Rightarrow> bool \<Rightarrow> (sdk_error + item option \<Rightarrow> 'a prog) \<Rightarrow> 'a prog" where
  "GetItem t k c f = Ask (QGet t k c) (\<lambda>r. case r of RGet x \<Rightarrow> Some (f x) | _ \<Rightarrow> None)"

definition BatchGetItem ::
  "string \<Rightarrow> primary_key list \<Rightarrow> bool \<Rightarrow> (sdk_error + item list \<times> bool \<Rightarrow> 'a prog) \<Rightarrow> 'a prog" where
  "BatchGetItem t ks c f = Ask (QBatch t ks c) (\<lambda>r. case r of RBatch x \<Rightarrow> Some (f x) | _ \<Rightarrow> None)"

definition UpdateItem ::
  "string \<Rightarrow> primary_key \<Rightarrow> update_clause list \<Rightarrow> condition option \<Rightarrow>
   (sdk_error + item \<Rightarrow> 'a prog) \<Rightarrow> 'a prog" where
  "UpdateItem t k u c f = Ask (QUpdate t k u c) (\<lambda>r. case r of RUpdate x \<Rightarrow> Some (f x) | _ \<Rightarrow> None)"

definition PutItem ::
  "string \<Rightarrow> item \<Rightarrow> condition option \<Rightarrow> (sdk_error + unit \<Rightarrow> 'a prog) \<Rightarrow> 'a prog" where
  "PutItem t i c f = Ask (QPut t i c) (\<lambda>r. case r of RPut x \<Rightarrow> Some (f x) | _ \<Rightarrow> None)"

text \<open>A generator fills the whole buffer or fails.\<close>

definition fill_ok :: "nat \<Rightarrow> u8 list option \<Rightarrow> bool" where
  "fill_ok n r \<longleftrightarrow> (case r of None \<Rightarrow> True | Some bytes \<Rightarrow> length bytes = n)"

definition RandFill :: "nat \<Rightarrow> (u8 list option \<Rightarrow> 'a prog) \<Rightarrow> 'a prog" where
  "RandFill n f =
     Ask (QRand n) (\<lambda>r. case r of RRand x \<Rightarrow> if fill_ok n x then Some (f x) else None | _ \<Rightarrow> None)"

definition NowSecs :: "(u64 \<Rightarrow> 'a prog) \<Rightarrow> 'a prog" where
  "NowSecs f = Ask QNow (\<lambda>r. case r of RNow x \<Rightarrow> Some (f x) | _ \<Rightarrow> None)"

definition SqsSend :: "string \<Rightarrow> string \<Rightarrow> (string + unit \<Rightarrow> 'a prog) \<Rightarrow> 'a prog" where
  "SqsSend u b f = Ask (QSqs u b) (\<lambda>r. case r of RUnit x \<Rightarrow> Some (f x) | _ \<Rightarrow> None)"

definition KvDescribe :: "string \<Rightarrow> (string + string \<Rightarrow> 'a prog) \<Rightarrow> 'a prog" where
  "KvDescribe a f = Ask (QKvDescribe a) (\<lambda>r. case r of RText x \<Rightarrow> Some (f x) | _ \<Rightarrow> None)"

definition KvGet :: "string \<Rightarrow> string \<Rightarrow> (string + string \<Rightarrow> 'a prog) \<Rightarrow> 'a prog" where
  "KvGet a k f = Ask (QKvGet a k) (\<lambda>r. case r of RText x \<Rightarrow> Some (f x) | _ \<Rightarrow> None)"

definition KvPut ::
  "string \<Rightarrow> string \<Rightarrow> string \<Rightarrow> string \<Rightarrow> (string + unit \<Rightarrow> 'a prog) \<Rightarrow> 'a prog" where
  "KvPut a k v m f = Ask (QKvPut a k v m) (\<lambda>r. case r of RUnit x \<Rightarrow> Some (f x) | _ \<Rightarrow> None)"

definition SchedGet :: "string \<Rightarrow> (string + schedule_output \<Rightarrow> 'a prog) \<Rightarrow> 'a prog" where
  "SchedGet n f = Ask (QSchedGet n) (\<lambda>r. case r of RSched x \<Rightarrow> Some (f x) | _ \<Rightarrow> None)"

definition SchedUpdate :: "schedule_input \<Rightarrow> (string + unit \<Rightarrow> 'a prog) \<Rightarrow> 'a prog" where
  "SchedUpdate s f = Ask (QSchedUpdate s) (\<lambda>r. case r of RUnit x \<Rightarrow> Some (f x) | _ \<Rightarrow> None)"

definition InvokeLambda :: "string \<Rightarrow> string \<Rightarrow> (string + invoke_output \<Rightarrow> 'a prog) \<Rightarrow> 'a prog" where
  "InvokeLambda n p f = Ask (QInvoke n p) (\<lambda>r. case r of RInvoke x \<Rightarrow> Some (f x) | _ \<Rightarrow> None)"

definition DeleteItem ::
  "string \<Rightarrow> primary_key \<Rightarrow> bool \<Rightarrow> (sdk_error + item option \<Rightarrow> 'a prog) \<Rightarrow> 'a prog" where
  "DeleteItem t k b f = Ask (QDelete t k b) (\<lambda>r. case r of RDelete x \<Rightarrow> Some (f x) | _ \<Rightarrow> None)"

definition ExchangeCode :: "string \<Rightarrow> string \<Rightarrow> (string + string \<Rightarrow> 'a prog) \<Rightarrow> 'a prog" where
  "ExchangeCode c v f = Ask (QToken c v) (\<lambda>r. case r of RText x \<Rightarrow> Some (f x) | _ \<Rightarrow> None)"

lemmas prog_defs = GetItem_def BatchGetItem_def UpdateItem_def PutItem_def RandFill_def NowSecs_def
  SqsSend_def KvDescribe_def KvGet_def KvPut_def SchedGet_def SchedUpdate_def InvokeLambda_def
  DeleteItem_def ExchangeCode_def

text \<open>Awaiting a sub-program and continuing with its value.\<close>

primrec bind :: "'a prog \<Rightarrow> ('a \<Rightarrow> 'b prog) \<Rightarrow> 'b prog" where
  "bind (Done x) f = f x"
| "bind (Ask q k) f = Ask q (\<lambda>r. map_option (\<lambda>p. bind p f) (k r))"

lemma bind_ops [simp]:
  "bind (GetItem t k c h1) f = GetItem t k c (\<lambda>r. bind (h1 r) f)"
  "bind (BatchGetItem t ks c h2) f = BatchGetItem t ks c (\<lambda>r. bind (h2 r) f)"
  "bind (UpdateItem t k u b h3) f = UpdateItem t k u b (\<lambda>r. bind (h3 r) f)"
  "bind (PutItem t i b h4) f = PutItem t i b (\<lambda>r. bind (h4 r) f)"
  "bind (RandFill n h5) f = RandFill n (\<lambda>r. bind (h5 r) f)"
  "bind (NowSecs h6) f = NowSecs (\<lambda>r. bind (h6 r) f)"
  "bind (SqsSend v w h7) f = SqsSend v w (\<lambda>r. bind (h7 r) f)"
  "bind (KvDescribe v h8) f = KvDescribe v (\<lambda>r. bind (h8 r) f)"
  "bind (KvGet v w h8) f = KvGet v w (\<lambda>r. bind (h8 r) f)"
  "bind (KvPut v w x y h7) f = KvPut v w x y (\<lambda>r. bind (h7 r) f)"
  "bind (SchedGet v h9) f = SchedGet v (\<lambda>r. bind (h9 r) f)"
  "bind (SchedUpdate s h7) f = SchedUpdate s (\<lambda>r. bind (h7 r) f)"
  "bind (InvokeLambda v w h10) f = InvokeLambda v w (\<lambda>r. bind (h10 r) f)"
  "bind (DeleteItem t k c h1) f = DeleteItem t k c (\<lambda>r. bind (h1 r) f)"
  "bind (ExchangeCode v w h8) f = ExchangeCode v w (\<lambda>r. bind (h8 r) f)"
  by (simp_all add: prog_defs fun_eq_iff split: resp.split)

text \<open>The \<open>?\<close> operator: an error returns from the caller.\<close>

definition bind_ok :: "('e + 'a) prog \<Rightarrow> ('a \<Rightarrow> ('e + 'b) prog) \<Rightarrow> ('e + 'b) prog" where
  "bind_ok p f = bind p (\<lambda>r. case r of Inl e \<Rightarrow> Done (Inl e) | Inr x \<Rightarrow> f x)"

text \<open>The request a program is waiting on, and its continuation for a response.  A response
  of another request's type answers nothing.\<close>

primrec answer :: "'a prog \<Rightarrow> resp \<Rightarrow> (req \<times> 'a prog) option" where
  "answer (Done x) r = None"
| "answer (Ask q k) r = map_option (Pair q) (k r)"

text \<open>Running one program alone against a script of responses: the requests it issued, in
  order, and its value when the script took it to the end.\<close>

primrec play :: "'a prog \<Rightarrow> resp list \<Rightarrow> req list \<times> 'a option" where
  "play (Done x) rs = ([], Some x)"
| "play (Ask q k) rs =
     (case rs of
        [] \<Rightarrow> ([], None)
      | r # rs' \<Rightarrow> (case map_option (\<lambda>p. play p rs') (k r) of
            None \<Rightarrow> ([], None)
          | Some (qs, x) \<Rightarrow> (q # qs, x)))"

definition issued :: "req \<Rightarrow> req list \<times> 'a option \<Rightarrow> req list \<times> 'a option" where
  "issued q z = (q # fst z, snd z)"

lemma issued_sel [simp]: "fst (issued q z) = q # fst z" "snd (issued q z) = snd z"
  by (simp_all add: issued_def)

lemma play_nil [simp]: "play (Ask q k) [] = ([], None)"
  by simp

lemma play_ops [simp]:
  "play (GetItem t k c h1) (RGet r1 # rs) = issued (QGet t k c) (play (h1 r1) rs)"
  "play (BatchGetItem t ks c h2) (RBatch r2 # rs) = issued (QBatch t ks c) (play (h2 r2) rs)"
  "play (UpdateItem t k u b h3) (RUpdate r3 # rs) = issued (QUpdate t k u b) (play (h3 r3) rs)"
  "play (PutItem t i b h4) (RPut r4 # rs) = issued (QPut t i b) (play (h4 r4) rs)"
  "play (RandFill n h5) (RRand r5 # rs) =
     (if fill_ok n r5 then issued (QRand n) (play (h5 r5) rs) else ([], None))"
  "play (NowSecs h6) (RNow r6 # rs) = issued QNow (play (h6 r6) rs)"
  "play (SqsSend v w h7) (RUnit r7 # rs) = issued (QSqs v w) (play (h7 r7) rs)"
  "play (KvDescribe v h8) (RText r8 # rs) = issued (QKvDescribe v) (play (h8 r8) rs)"
  "play (KvGet v w h8) (RText r8 # rs) = issued (QKvGet v w) (play (h8 r8) rs)"
  "play (KvPut v w x y h7) (RUnit r7 # rs) = issued (QKvPut v w x y) (play (h7 r7) rs)"
  "play (SchedGet v h9) (RSched r9 # rs) = issued (QSchedGet v) (play (h9 r9) rs)"
  "play (SchedUpdate s h7) (RUnit r7 # rs) = issued (QSchedUpdate s) (play (h7 r7) rs)"
  "play (InvokeLambda v w h10) (RInvoke r10 # rs) = issued (QInvoke v w) (play (h10 r10) rs)"
  "play (DeleteItem t k c h1) (RDelete r1 # rs) = issued (QDelete t k c) (play (h1 r1) rs)"
  "play (ExchangeCode v w h8) (RText r8 # rs) = issued (QToken v w) (play (h8 r8) rs)"
  by (simp_all add: prog_defs issued_def split: prod.split)

lemma answer_ops [simp]:
  "answer (GetItem t k c h1) (RGet r1) = Some (QGet t k c, h1 r1)"
  "answer (BatchGetItem t ks c h2) (RBatch r2) = Some (QBatch t ks c, h2 r2)"
  "answer (UpdateItem t k u b h3) (RUpdate r3) = Some (QUpdate t k u b, h3 r3)"
  "answer (PutItem t i b h4) (RPut r4) = Some (QPut t i b, h4 r4)"
  "answer (RandFill n h5) (RRand r5) = (if fill_ok n r5 then Some (QRand n, h5 r5) else None)"
  "answer (NowSecs h6) (RNow r6) = Some (QNow, h6 r6)"
  by (simp_all add: prog_defs)

section \<open>Weakest preconditions over a ghost state\<close>

text \<open>
  \<open>wp ob ok up p Q g\<close>: started in ghost state \<open>g\<close>, every request of \<open>p\<close> meets its
  obligation \<open>ob\<close>, whatever admissible (\<open>ok\<close>) responses come, the ghost state following
  them by \<open>up\<close>; and when \<open>p\<close> is done, \<open>Q\<close> holds of its value and the ghost state.
\<close>

definition wp_step ::
  "(req \<Rightarrow> 'g \<Rightarrow> bool) \<Rightarrow> (req \<Rightarrow> resp \<Rightarrow> 'g \<Rightarrow> bool) \<Rightarrow> (req \<Rightarrow> resp \<Rightarrow> 'g \<Rightarrow> 'g) \<Rightarrow>
   req \<Rightarrow> ('r \<Rightarrow> resp) \<Rightarrow> ('r \<Rightarrow> 'g \<Rightarrow> bool) \<Rightarrow> 'g \<Rightarrow> bool" where
  "wp_step ob ok up q R K g \<longleftrightarrow> ob q g \<and> (\<forall>r. ok q (R r) g \<longrightarrow> K r (up q (R r) g))"

primrec wp ::
  "(req \<Rightarrow> 'g \<Rightarrow> bool) \<Rightarrow> (req \<Rightarrow> resp \<Rightarrow> 'g \<Rightarrow> bool) \<Rightarrow> (req \<Rightarrow> resp \<Rightarrow> 'g \<Rightarrow> 'g) \<Rightarrow>
   'a prog \<Rightarrow> ('a \<Rightarrow> 'g \<Rightarrow> bool) \<Rightarrow> 'g \<Rightarrow> bool" where
  "wp ob ok up (Done x) Q = Q x"
| "wp ob ok up (Ask q k) Q = (\<lambda>g. ob q g \<and>
     (\<forall>r. ok q r g \<longrightarrow>
        (case map_option (\<lambda>p. wp ob ok up p Q) (k r) of None \<Rightarrow> True | Some h \<Rightarrow> h (up q r g))))"

lemma all_resp:
  "(\<forall>r. P r) \<longleftrightarrow> (\<forall>x. P (RGet x)) \<and> (\<forall>x. P (RBatch x)) \<and> (\<forall>x. P (RUpdate x)) \<and>
     (\<forall>x. P (RPut x)) \<and> (\<forall>x. P (RRand x)) \<and> (\<forall>x. P (RNow x)) \<and> (\<forall>x. P (RUnit x)) \<and>
     (\<forall>x. P (RText x)) \<and> (\<forall>x. P (RSched x)) \<and> (\<forall>x. P (RInvoke x)) \<and> (\<forall>x. P (RDelete x))"
  by (metis resp.exhaust)

lemma wp_ops [simp]:
  "wp ob ok up (GetItem t k c h1) Q =
     wp_step ob ok up (QGet t k c) RGet (\<lambda>r. wp ob ok up (h1 r) Q)"
  "wp ob ok up (BatchGetItem t ks c h2) Q =
     wp_step ob ok up (QBatch t ks c) RBatch (\<lambda>r. wp ob ok up (h2 r) Q)"
  "wp ob ok up (UpdateItem t k u b h3) Q =
     wp_step ob ok up (QUpdate t k u b) RUpdate (\<lambda>r. wp ob ok up (h3 r) Q)"
  "wp ob ok up (PutItem t i b h4) Q =
     wp_step ob ok up (QPut t i b) RPut (\<lambda>r. wp ob ok up (h4 r) Q)"
  "wp ob ok up (RandFill n h5) Q =
     wp_step ob (\<lambda>q r g. ok q r g \<and> (\<forall>x. r = RRand x \<longrightarrow> fill_ok n x)) up (QRand n) RRand
       (\<lambda>r. wp ob ok up (h5 r) Q)"
  "wp ob ok up (NowSecs h6) Q = wp_step ob ok up QNow RNow (\<lambda>r. wp ob ok up (h6 r) Q)"
  "wp ob ok up (SqsSend v w h7) Q = wp_step ob ok up (QSqs v w) RUnit (\<lambda>r. wp ob ok up (h7 r) Q)"
  "wp ob ok up (KvDescribe v h8) Q =
     wp_step ob ok up (QKvDescribe v) RText (\<lambda>r. wp ob ok up (h8 r) Q)"
  "wp ob ok up (KvGet v w h8) Q = wp_step ob ok up (QKvGet v w) RText (\<lambda>r. wp ob ok up (h8 r) Q)"
  "wp ob ok up (KvPut v w x y h7) Q =
     wp_step ob ok up (QKvPut v w x y) RUnit (\<lambda>r. wp ob ok up (h7 r) Q)"
  "wp ob ok up (SchedGet v h9) Q =
     wp_step ob ok up (QSchedGet v) RSched (\<lambda>r. wp ob ok up (h9 r) Q)"
  "wp ob ok up (SchedUpdate s h7) Q =
     wp_step ob ok up (QSchedUpdate s) RUnit (\<lambda>r. wp ob ok up (h7 r) Q)"
  "wp ob ok up (InvokeLambda v w h10) Q =
     wp_step ob ok up (QInvoke v w) RInvoke (\<lambda>r. wp ob ok up (h10 r) Q)"
  "wp ob ok up (DeleteItem t k c h1) Q =
     wp_step ob ok up (QDelete t k c) RDelete (\<lambda>r. wp ob ok up (h1 r) Q)"
  "wp ob ok up (ExchangeCode v w h8) Q = wp_step ob ok up (QToken v w) RText (\<lambda>r. wp ob ok up (h8 r) Q)"
  by (auto simp: prog_defs wp_step_def fun_eq_iff all_resp)

lemma wp_stepI:
  "ob q g \<Longrightarrow> (\<And>r. ok q (R r) g \<Longrightarrow> K r (up q (R r) g)) \<Longrightarrow> wp_step ob ok up q R K g"
  by (simp add: wp_step_def)

lemma wp_step_mono:
  "wp_step ob ok up q R K g \<Longrightarrow> (\<And>r g. K r g \<Longrightarrow> K' r g) \<Longrightarrow> wp_step ob ok up q R K' g"
  by (simp add: wp_step_def)

lemma prog_induct [case_names Done Ask]:
  assumes "\<And>x. P (Done x)" "\<And>q k. (\<And>r p. k r = Some p \<Longrightarrow> P p) \<Longrightarrow> P (Ask q k)"
  shows "P p"
proof (rule prog.induct [of P p])
  fix q and k :: "resp \<Rightarrow> 'a prog option"
  assume *: "\<And>y z. y \<in> range k \<Longrightarrow> z \<in> set_option y \<Longrightarrow> P z"
  show "P (Ask q k)"
  proof (rule assms(2))
    fix r p
    assume "k r = Some p"
    then show "P p"
      by (intro * [of "k r"] rangeI) simp
  qed
qed (rule assms(1))

lemma bind_assoc: "bind (bind p f) g = bind p (\<lambda>x. bind (f x) g)"
  by (induction p rule: prog_induct)
    (auto simp: fun_eq_iff option.map_comp comp_def intro!: option.map_cong0)

lemma bind_Done: "bind p Done = p"
  by (induction p rule: prog_induct) (auto simp: fun_eq_iff intro!: option.map_ident_strong)

section \<open>Requests and values on a script\<close>

text \<open>The requests a program issued on a script, and the value it returns having consumed exactly
  the script.\<close>

definition asked :: "'a prog \<Rightarrow> resp list \<Rightarrow> req set" where
  "asked p rs = set (fst (play p rs))"

lemma asked_Done [simp]: "asked (Done x) rs = {}"
  by (simp add: asked_def)

lemma asked_Ask:
  "q' \<in> asked (Ask q k) rs \<longleftrightarrow>
     (\<exists>r rs' p. rs = r # rs' \<and> k r = Some p \<and> (q' = q \<or> q' \<in> asked p rs'))"
  by (cases rs) (auto simp: asked_def split: option.splits prod.splits)

lemma ex_resp:
  "(\<exists>r. P r) \<longleftrightarrow> (\<exists>x. P (RGet x)) \<or> (\<exists>x. P (RBatch x)) \<or> (\<exists>x. P (RUpdate x)) \<or>
     (\<exists>x. P (RPut x)) \<or> (\<exists>x. P (RRand x)) \<or> (\<exists>x. P (RNow x)) \<or> (\<exists>x. P (RUnit x)) \<or>
     (\<exists>x. P (RText x)) \<or> (\<exists>x. P (RSched x)) \<or> (\<exists>x. P (RInvoke x)) \<or> (\<exists>x. P (RDelete x))"
  by (metis resp.exhaust)

lemma asked_ops:
  "q \<in> asked (GetItem t k c h1) rs \<longleftrightarrow> (\<exists>r rs'. rs = RGet r # rs' \<and> (q = QGet t k c \<or> q \<in> asked (h1 r) rs'))"
  "q \<in> asked (BatchGetItem t ks c h2) rs \<longleftrightarrow>
     (\<exists>r rs'. rs = RBatch r # rs' \<and> (q = QBatch t ks c \<or> q \<in> asked (h2 r) rs'))"
  "q \<in> asked (UpdateItem t k us b h3) rs \<longleftrightarrow>
     (\<exists>r rs'. rs = RUpdate r # rs' \<and> (q = QUpdate t k us b \<or> q \<in> asked (h3 r) rs'))"
  "q \<in> asked (PutItem t m b h4) rs \<longleftrightarrow>
     (\<exists>r rs'. rs = RPut r # rs' \<and> (q = QPut t m b \<or> q \<in> asked (h4 r) rs'))"
  "q \<in> asked (NowSecs h6) rs \<longleftrightarrow> (\<exists>r rs'. rs = RNow r # rs' \<and> (q = QNow \<or> q \<in> asked (h6 r) rs'))"
  "q \<in> asked (SqsSend v w h7) rs \<longleftrightarrow>
     (\<exists>r rs'. rs = RUnit r # rs' \<and> (q = QSqs v w \<or> q \<in> asked (h7 r) rs'))"
  "q \<in> asked (KvPut v w x y h7) rs \<longleftrightarrow>
     (\<exists>r rs'. rs = RUnit r # rs' \<and> (q = QKvPut v w x y \<or> q \<in> asked (h7 r) rs'))"
  "q \<in> asked (SchedUpdate s h7) rs \<longleftrightarrow>
     (\<exists>r rs'. rs = RUnit r # rs' \<and> (q = QSchedUpdate s \<or> q \<in> asked (h7 r) rs'))"
  "q \<in> asked (KvDescribe v h8) rs \<longleftrightarrow>
     (\<exists>r rs'. rs = RText r # rs' \<and> (q = QKvDescribe v \<or> q \<in> asked (h8 r) rs'))"
  "q \<in> asked (KvGet v w h8) rs \<longleftrightarrow>
     (\<exists>r rs'. rs = RText r # rs' \<and> (q = QKvGet v w \<or> q \<in> asked (h8 r) rs'))"
  "q \<in> asked (SchedGet v h9) rs \<longleftrightarrow>
     (\<exists>r rs'. rs = RSched r # rs' \<and> (q = QSchedGet v \<or> q \<in> asked (h9 r) rs'))"
  "q \<in> asked (InvokeLambda v w h10) rs \<longleftrightarrow>
     (\<exists>r rs'. rs = RInvoke r # rs' \<and> (q = QInvoke v w \<or> q \<in> asked (h10 r) rs'))"
  "q \<in> asked (DeleteItem t k c h1) rs \<longleftrightarrow>
     (\<exists>r rs'. rs = RDelete r # rs' \<and> (q = QDelete t k c \<or> q \<in> asked (h1 r) rs'))"
  "q \<in> asked (ExchangeCode v w h8) rs \<longleftrightarrow>
     (\<exists>r rs'. rs = RText r # rs' \<and> (q = QToken v w \<or> q \<in> asked (h8 r) rs'))"
  by (simp_all add: prog_defs asked_Ask ex_resp)

primrec yields :: "'a prog \<Rightarrow> resp list \<Rightarrow> 'a \<Rightarrow> bool" where
  "yields (Done y) = (\<lambda>rs x. rs = [] \<and> x = y)"
| "yields (Ask q k) = (\<lambda>rs x. case rs of
     [] \<Rightarrow> False
   | r # rs' \<Rightarrow> (case map_option yields (k r) of None \<Rightarrow> False | Some h \<Rightarrow> h rs' x))"

lemma yields_Ask:
  "yields (Ask q k) rs x \<longleftrightarrow> (\<exists>r rs' p. rs = r # rs' \<and> k r = Some p \<and> yields p rs' x)"
  by (auto split: list.splits option.splits)

declare yields.simps(2) [simp del]

lemma yields_ops:
  "yields (GetItem t k c h1) rs x \<longleftrightarrow> (\<exists>r rs'. rs = RGet r # rs' \<and> yields (h1 r) rs' x)"
  "yields (BatchGetItem t ks c h2) rs x \<longleftrightarrow> (\<exists>r rs'. rs = RBatch r # rs' \<and> yields (h2 r) rs' x)"
  "yields (UpdateItem t k us b h3) rs x \<longleftrightarrow> (\<exists>r rs'. rs = RUpdate r # rs' \<and> yields (h3 r) rs' x)"
  "yields (PutItem t m b h4) rs x \<longleftrightarrow> (\<exists>r rs'. rs = RPut r # rs' \<and> yields (h4 r) rs' x)"
  "yields (RandFill n h5) rs x \<longleftrightarrow> (\<exists>r rs'. rs = RRand r # rs' \<and> fill_ok n r \<and> yields (h5 r) rs' x)"
  "yields (NowSecs h6) rs x \<longleftrightarrow> (\<exists>r rs'. rs = RNow r # rs' \<and> yields (h6 r) rs' x)"
  "yields (SqsSend v w h7) rs x \<longleftrightarrow> (\<exists>r rs'. rs = RUnit r # rs' \<and> yields (h7 r) rs' x)"
  "yields (KvPut v w y z h7) rs x \<longleftrightarrow> (\<exists>r rs'. rs = RUnit r # rs' \<and> yields (h7 r) rs' x)"
  "yields (SchedUpdate s h7) rs x \<longleftrightarrow> (\<exists>r rs'. rs = RUnit r # rs' \<and> yields (h7 r) rs' x)"
  "yields (KvDescribe v h8) rs x \<longleftrightarrow> (\<exists>r rs'. rs = RText r # rs' \<and> yields (h8 r) rs' x)"
  "yields (KvGet v w h8) rs x \<longleftrightarrow> (\<exists>r rs'. rs = RText r # rs' \<and> yields (h8 r) rs' x)"
  "yields (SchedGet v h9) rs x \<longleftrightarrow> (\<exists>r rs'. rs = RSched r # rs' \<and> yields (h9 r) rs' x)"
  "yields (InvokeLambda v w h10) rs x \<longleftrightarrow> (\<exists>r rs'. rs = RInvoke r # rs' \<and> yields (h10 r) rs' x)"
  "yields (DeleteItem t k c h1) rs x \<longleftrightarrow> (\<exists>r rs'. rs = RDelete r # rs' \<and> yields (h1 r) rs' x)"
  "yields (ExchangeCode v w h8) rs x \<longleftrightarrow> (\<exists>r rs'. rs = RText r # rs' \<and> yields (h8 r) rs' x)"
  by (simp_all add: prog_defs yields_Ask ex_resp) blast

lemma yields_bind:
  "yields (bind p f) rs y \<longleftrightarrow> (\<exists>rs1 rs2 x. rs = rs1 @ rs2 \<and> yields p rs1 x \<and> yields (f x) rs2 y)"
proof (induction p arbitrary: rs rule: prog_induct)
  case (Ask q k)
  have "(\<exists>p. map_option (\<lambda>p. bind p f) (k r) = Some p \<and> yields p rs' y) \<longleftrightarrow>
      (\<exists>p. k r = Some p \<and> (\<exists>rs1 rs2 x. rs' = rs1 @ rs2 \<and> yields p rs1 x \<and> yields (f x) rs2 y))" for r rs'
    using Ask by (cases "k r") auto
  then show ?case
    by (simp add: yields_Ask) (auto simp: append_eq_Cons_conv, (metis append_Cons)+)
qed auto

lemma asked_bind:
  "q \<in> asked (bind p f) rs \<longleftrightarrow>
     q \<in> asked p rs \<or> (\<exists>rs1 rs2 x. rs = rs1 @ rs2 \<and> yields p rs1 x \<and> q \<in> asked (f x) rs2)"
proof (induction p arbitrary: rs rule: prog_induct)
  case (Ask q' k)
  show ?case
  proof (cases rs)
    case (Cons r rs')
    show ?thesis
    proof (cases "k r")
      case (Some p)
      have "(\<exists>rs1 rs2 x. r # rs' = rs1 @ rs2 \<and> yields (Ask q' k) rs1 x \<and> q \<in> asked (f x) rs2) \<longleftrightarrow>
          (\<exists>rs1 rs2 x. rs' = rs1 @ rs2 \<and> yields p rs1 x \<and> q \<in> asked (f x) rs2)"
        (is "?l \<longleftrightarrow> ?r")
      proof
        assume ?l
        then obtain rs1 rs2 x where a: "r # rs' = rs1 @ rs2" "yields (Ask q' k) rs1 x" "q \<in> asked (f x) rs2"
          by blast
        then obtain l where "rs1 = r # l" by (cases rs1) (auto simp: yields_Ask)
        then show ?r
          using a by (auto simp: yields_Ask Some)
      next
        assume ?r
        then obtain rs1 rs2 x where a: "rs' = rs1 @ rs2" "yields p rs1 x" "q \<in> asked (f x) rs2"
          by blast
        then have "r # rs' = (r # rs1) @ rs2" "yields (Ask q' k) (r # rs1) x"
          by (auto simp: yields_Ask Some)
        then show ?l
          using a(3) by blast
      qed
      then show ?thesis
        using Ask [OF Some, of rs'] by (simp only: Cons bind.simps asked_Ask) (auto simp: Some)
    qed (auto simp: Cons asked_Ask yields_Ask Cons_eq_append_conv)
  qed (auto simp: asked_Ask yields_Ask)
qed auto

text \<open>The same for the \<open>?\<close> operator.\<close>

lemma ex_sum: "(\<exists>x. P x) \<longleftrightarrow> (\<exists>e. P (Inl e)) \<or> (\<exists>y. P (Inr y))"
  by (metis sum.exhaust)

lemma yields_bind_ok:
  "yields (bind_ok p f) rs y \<longleftrightarrow>
     (\<exists>e. yields p rs (Inl e) \<and> y = Inl e)
     \<or> (\<exists>rs1 rs2 x. rs = rs1 @ rs2 \<and> yields p rs1 (Inr x) \<and> yields (f x) rs2 y)"
  unfolding bind_ok_def yields_bind ex_sum by (simp only: sum.case yields.simps(1)) auto

lemma asked_bind_ok:
  "q \<in> asked (bind_ok p f) rs \<longleftrightarrow>
     q \<in> asked p rs \<or> (\<exists>rs1 rs2 x. rs = rs1 @ rs2 \<and> yields p rs1 (Inr x) \<and> q \<in> asked (f x) rs2)"
  unfolding bind_ok_def asked_bind ex_sum by (simp only: sum.case asked_Done) auto

lemma wp_bind: "wp ob ok up (bind p f) Q g = wp ob ok up p (\<lambda>x. wp ob ok up (f x) Q) g"
proof (induction p arbitrary: g rule: prog_induct)
  case (Ask q k)
  then show ?case
    by (simp add: option.map_comp comp_def split: option.split)
qed simp

lemma wp_bind_ok:
  "wp ob ok up (bind_ok p f) Q g =
     wp ob ok up p (\<lambda>r g. case r of Inl e \<Rightarrow> Q (Inl e) g | Inr x \<Rightarrow> wp ob ok up (f x) Q g) g"
  unfolding bind_ok_def wp_bind
  by (rule arg_cong [where f = "\<lambda>Q. wp ob ok up p Q g"]) (auto simp: fun_eq_iff split: sum.splits)

lemma wp_mono:
  "wp ob ok up p Q g \<Longrightarrow> (\<And>x g. Q x g \<Longrightarrow> Q' x g) \<Longrightarrow> wp ob ok up p Q' g"
proof (induction p arbitrary: g rule: prog_induct)
  case (Ask q k)
  then show ?case
    by (auto split: option.splits)
qed simp

text \<open>One answered request of a program that satisfies its weakest precondition: the
  obligation holds and the continuation satisfies its own.\<close>

lemma wp_answer_ob:
  assumes "wp ob ok up p Q g" "answer p r = Some (q, p')"
  shows "ob q g"
  using assms by (cases p) auto

lemma wp_answer:
  assumes "wp ob ok up p Q g" "answer p r = Some (q, p')" "ok q r g"
  shows "wp ob ok up p' Q (up q r g)"
  using assms by (cases p) (auto split: option.splits)

section \<open>Returning\<close>

text \<open>
  \<open>returns p n\<close>: whatever responses of the requests' types come, \<open>p\<close> is done after at most
  \<open>n\<close> of them; in particular it never waits for a response it would not accept.
\<close>

definition typed :: "req \<Rightarrow> resp \<Rightarrow> bool" where
  "typed q r \<longleftrightarrow>
     (case q of
        QGet t k c \<Rightarrow> (case r of RGet x \<Rightarrow> True | _ \<Rightarrow> False)
      | QBatch t ks c \<Rightarrow> (case r of RBatch x \<Rightarrow> True | _ \<Rightarrow> False)
      | QUpdate t k us c \<Rightarrow> (case r of RUpdate x \<Rightarrow> True | _ \<Rightarrow> False)
      | QPut t m c \<Rightarrow> (case r of RPut x \<Rightarrow> True | _ \<Rightarrow> False)
      | QRand n \<Rightarrow> (case r of RRand x \<Rightarrow> fill_ok n x | _ \<Rightarrow> False)
      | QNow \<Rightarrow> (case r of RNow x \<Rightarrow> True | _ \<Rightarrow> False)
      | QSqs u b \<Rightarrow> (case r of RUnit x \<Rightarrow> True | _ \<Rightarrow> False)
      | QKvDescribe a \<Rightarrow> (case r of RText x \<Rightarrow> True | _ \<Rightarrow> False)
      | QKvGet a k \<Rightarrow> (case r of RText x \<Rightarrow> True | _ \<Rightarrow> False)
      | QKvPut a k v m \<Rightarrow> (case r of RUnit x \<Rightarrow> True | _ \<Rightarrow> False)
      | QSchedGet n \<Rightarrow> (case r of RSched x \<Rightarrow> True | _ \<Rightarrow> False)
      | QSchedUpdate s \<Rightarrow> (case r of RUnit x \<Rightarrow> True | _ \<Rightarrow> False)
      | QInvoke n b \<Rightarrow> (case r of RInvoke x \<Rightarrow> True | _ \<Rightarrow> False)
      | QDelete t k b \<Rightarrow> (case r of RDelete x \<Rightarrow> True | _ \<Rightarrow> False)
      | QToken c v \<Rightarrow> (case r of RText x \<Rightarrow> True | _ \<Rightarrow> False))"

primrec returns :: "'a prog \<Rightarrow> nat \<Rightarrow> bool" where
  "returns (Done x) = (\<lambda>n. True)"
| "returns (Ask q k) = (\<lambda>n. 0 < n \<and> (\<forall>r. typed q r \<longrightarrow>
     (case map_option returns (k r) of None \<Rightarrow> False | Some h \<Rightarrow> h (n - 1))))"

lemma returns_ops [simp]:
  "returns (GetItem t k c h1) n \<longleftrightarrow> 0 < n \<and> (\<forall>r. returns (h1 r) (n - 1))"
  "returns (BatchGetItem t ks c h2) n \<longleftrightarrow> 0 < n \<and> (\<forall>r. returns (h2 r) (n - 1))"
  "returns (UpdateItem t k u b h3) n \<longleftrightarrow> 0 < n \<and> (\<forall>r. returns (h3 r) (n - 1))"
  "returns (PutItem t i b h4) n \<longleftrightarrow> 0 < n \<and> (\<forall>r. returns (h4 r) (n - 1))"
  "returns (RandFill l h5) n \<longleftrightarrow> 0 < n \<and> (\<forall>r. fill_ok l r \<longrightarrow> returns (h5 r) (n - 1))"
  "returns (NowSecs h6) n \<longleftrightarrow> 0 < n \<and> (\<forall>r. returns (h6 r) (n - 1))"
  "returns (SqsSend v w h7) n \<longleftrightarrow> 0 < n \<and> (\<forall>r. returns (h7 r) (n - 1))"
  "returns (KvDescribe v h8) n \<longleftrightarrow> 0 < n \<and> (\<forall>r. returns (h8 r) (n - 1))"
  "returns (KvGet v w h8) n \<longleftrightarrow> 0 < n \<and> (\<forall>r. returns (h8 r) (n - 1))"
  "returns (KvPut v w x y h7) n \<longleftrightarrow> 0 < n \<and> (\<forall>r. returns (h7 r) (n - 1))"
  "returns (SchedGet v h9) n \<longleftrightarrow> 0 < n \<and> (\<forall>r. returns (h9 r) (n - 1))"
  "returns (SchedUpdate s h7) n \<longleftrightarrow> 0 < n \<and> (\<forall>r. returns (h7 r) (n - 1))"
  "returns (InvokeLambda v w h10) n \<longleftrightarrow> 0 < n \<and> (\<forall>r. returns (h10 r) (n - 1))"
  "returns (DeleteItem t k c h1) n \<longleftrightarrow> 0 < n \<and> (\<forall>r. returns (h1 r) (n - 1))"
  "returns (ExchangeCode v w h8) n \<longleftrightarrow> 0 < n \<and> (\<forall>r. returns (h8 r) (n - 1))"
  by (simp_all add: prog_defs all_resp typed_def)

lemma returns_mono: "returns p m \<Longrightarrow> m \<le> n \<Longrightarrow> returns p n"
proof (induction p arbitrary: m n rule: prog_induct)
  case (Ask q k)
  show ?case
    using Ask(2,3) Ask(1) [of _ _ "m - 1" "n - 1"] by (fastforce split: option.splits)
qed simp

lemma returns_bind:
  "returns p m \<Longrightarrow> (\<And>x. returns (f x) n) \<Longrightarrow> returns (bind p f) (m + n)"
proof (induction p arbitrary: m rule: prog_induct)
  case (Done x)
  then show ?case
    by (auto intro: returns_mono [of _ n])
next
  case (Ask q k)
  show ?case
    using Ask(2) Ask(1) [OF _ _ Ask(3), of _ _ "m - 1"]
    by (cases m) (fastforce split: option.splits)+
qed

lemma returns_bind_ok:
  "returns p m \<Longrightarrow> (\<And>x. returns (f x) n) \<Longrightarrow> returns (bind_ok p f) (m + n)"
  unfolding bind_ok_def by (rule returns_bind) (auto split: sum.split)

section \<open>What a program can ask and return at all\<close>

text \<open>\<open>confined P R p\<close>: whatever the responses, every request of \<open>p\<close> satisfies \<open>P\<close> and its value \<open>R\<close>.\<close>

primrec confined :: "(req \<Rightarrow> bool) \<Rightarrow> ('a \<Rightarrow> bool) \<Rightarrow> 'a prog \<Rightarrow> bool" where
  "confined P R (Done x) = R x"
| "confined P R (Ask q k) =
     (P q \<and> (\<forall>r. case map_option (confined P R) (k r) of None \<Rightarrow> True | Some b \<Rightarrow> b))"

lemma confined_Ask: "confined P R (Ask q k) \<longleftrightarrow> P q \<and> (\<forall>r p. k r = Some p \<longrightarrow> confined P R p)"
  by (auto split: option.splits)

declare confined.simps(2) [simp del]

lemma confined_ops [simp]:
  "confined P R (GetItem t k c h1) \<longleftrightarrow> P (QGet t k c) \<and> (\<forall>r. confined P R (h1 r))"
  "confined P R (UpdateItem t k us b h3) \<longleftrightarrow> P (QUpdate t k us b) \<and> (\<forall>r. confined P R (h3 r))"
  "confined P R (PutItem t m b h4) \<longleftrightarrow> P (QPut t m b) \<and> (\<forall>r. confined P R (h4 r))"
  "confined P R (RandFill n h5) \<longleftrightarrow> P (QRand n) \<and> (\<forall>r. fill_ok n r \<longrightarrow> confined P R (h5 r))"
  "confined P R (KvPut v w x y h7) \<longleftrightarrow> P (QKvPut v w x y) \<and> (\<forall>r. confined P R (h7 r))"
  "confined P R (SchedUpdate s h7) \<longleftrightarrow> P (QSchedUpdate s) \<and> (\<forall>r. confined P R (h7 r))"
  "confined P R (KvDescribe v h8) \<longleftrightarrow> P (QKvDescribe v) \<and> (\<forall>r. confined P R (h8 r))"
  "confined P R (KvGet v w h8) \<longleftrightarrow> P (QKvGet v w) \<and> (\<forall>r. confined P R (h8 r))"
  "confined P R (SchedGet v h9) \<longleftrightarrow> P (QSchedGet v) \<and> (\<forall>r. confined P R (h9 r))"
  "confined P R (InvokeLambda v w h10) \<longleftrightarrow> P (QInvoke v w) \<and> (\<forall>r. confined P R (h10 r))"
  "confined P R (DeleteItem t k c h1') \<longleftrightarrow> P (QDelete t k c) \<and> (\<forall>r. confined P R (h1' r))"
  "confined P R (ExchangeCode v w h8) \<longleftrightarrow> P (QToken v w) \<and> (\<forall>r. confined P R (h8 r))"
  by (simp_all add: prog_defs confined_Ask all_resp)

lemma confined_bind: "confined P R (bind p f) \<longleftrightarrow> confined P (\<lambda>x. confined P R (f x)) p"
proof (induction p rule: prog_induct)
  case (Ask q k)
  have "(\<forall>p. map_option (\<lambda>p. bind p f) (k r) = Some p \<longrightarrow> confined P R p)
      \<longleftrightarrow> (\<forall>p. k r = Some p \<longrightarrow> confined P (\<lambda>x. confined P R (f x)) p)" for r
    using Ask [of r] by (cases "k r") simp_all
  then show ?case
    by (simp add: confined_Ask del: map_option_eq_Some)
qed simp

lemma confined_bindI:
  "confined P R' p \<Longrightarrow> (\<And>x. R' x \<Longrightarrow> confined P R (f x)) \<Longrightarrow> confined P R (bind p f)"
proof (induction p rule: prog_induct)
  case (Ask q k)
  then show ?case
    by (auto simp: confined_Ask)
qed simp

lemma confined_any: "confined P (\<lambda>_. True) p \<Longrightarrow> (\<And>x. confined P R (f x)) \<Longrightarrow> confined P R (bind p f)"
  by (erule confined_bindI) simp

lemma confined_bind_ok:
  "confined P (\<lambda>_. True) p \<Longrightarrow> (\<And>x. confined P (\<lambda>_. True) (f x)) \<Longrightarrow> confined P (\<lambda>_. True) (bind_ok p f)"
  unfolding bind_ok_def by (erule confined_any) (simp split: sum.split)

lemma confined_asked: "confined P R p \<Longrightarrow> q \<in> asked p rs \<Longrightarrow> P q"
proof (induction p arbitrary: rs rule: prog_induct)
  case (Ask q' k)
  then show ?case
    by (auto simp: confined_Ask asked_Ask)
qed simp

lemma confined_yields: "confined P R p \<Longrightarrow> yields p rs x \<Longrightarrow> R x"
proof (induction p arbitrary: rs rule: prog_induct)
  case (Ask q' k)
  then show ?case
    by (auto simp: confined_Ask yields_Ask)
qed simp

end
