(* ===== verification/Cohort.thy ===== *)
theory Cohort
  imports Permutation
begin

text \<open>
  \<open>crates/wr-common/src/permutation/assembly.rs\<close>: the ten registration shards, the
  prefix offsets fixed when the event opens, and the reconstruction of a global
  registration index from a visitor's shard and local index.  \<open>[u64; SHARDS]\<close> is a list
  of machine words; its length is \<open>SHARDS\<close> in every value the code can build, and the
  predicate \<open>shards10\<close> says so where a statement needs it.

  Lemmas: \<open>from_counts\<close> computes the prefix sums of the counts or reports the overflow
  (\<open>from_counts_eq\<close>); \<open>assign\<close> maps the issued (shard, local index) pairs onto the
  indices below the cohort size, one to one (\<open>assign_fold\<close>, \<open>assign_inj\<close>, \<open>assign_surj\<close>);
  offsets that no fold produced still keep every index in its shard's window
  (\<open>assign_in_window\<close>).
\<close>

section \<open>The code\<close>

definition SHARDS :: nat where
  "SHARDS = 10"

record cohort_offsets =
  co_offsets :: "u64 list"
  co_participant_count :: u64

datatype assignment = AssignPreQueue u64 | AssignLiveJoin

datatype cohort_error = CohortOverflow

function from_counts_loop ::
  "u64 list \<Rightarrow> nat \<Rightarrow> u64 list \<Rightarrow> u64 \<Rightarrow> cohort_error + cohort_offsets" where
  "from_counts_loop counts shard offs running =
     (if shard < SHARDS then
        let offs = offs[shard := running] in
        case checked_add running (counts ! shard) of
          None \<Rightarrow> Inl CohortOverflow
        | Some running \<Rightarrow> from_counts_loop counts (shard + 1) offs running
      else Inr \<lparr>co_offsets = offs, co_participant_count = running\<rparr>)"
  by pat_completeness auto
termination
  by (relation "measure (\<lambda>(_, shard, _). SHARDS - shard)") auto

definition from_counts :: "u64 list \<Rightarrow> cohort_error + cohort_offsets" where
  "from_counts counts = from_counts_loop counts 0 (replicate SHARDS 0) 0"

definition from_parts :: "u64 list \<Rightarrow> u64 \<Rightarrow> cohort_offsets" where
  "from_parts offs n = \<lparr>co_offsets = offs, co_participant_count = n\<rparr>"

text \<open>\<open>slice::get\<close>: \<open>None\<close> out of range.\<close>

definition get_at :: "'a list \<Rightarrow> nat \<Rightarrow> 'a option" where
  "get_at xs i = (if i < length xs then Some (xs ! i) else None)"

text \<open>\<open>CohortOffsets::offset\<close> and \<open>participant_count\<close> read the two fields; the index panics out
  of range, which no caller does.\<close>

definition co_offset :: "cohort_offsets \<Rightarrow> nat \<Rightarrow> u64 option" where
  "co_offset co shard = get_at (co_offsets co) shard"

definition shard_count :: "cohort_offsets \<Rightarrow> nat \<Rightarrow> u64 option" where
  "shard_count co shard =
     (case get_at (co_offsets co) shard of
        None \<Rightarrow> None
      | Some start \<Rightarrow>
          let e = (case get_at (co_offsets co) (shard + 1) of
                     Some e \<Rightarrow> e
                   | None \<Rightarrow> co_participant_count co)
          in checked_sub e start)"

definition assign :: "cohort_offsets \<Rightarrow> nat \<Rightarrow> u64 \<Rightarrow> assignment" where
  "assign co shard local_index =
     (case get_at (co_offsets co) shard of
        None \<Rightarrow> AssignLiveJoin
      | Some offset \<Rightarrow>
          (case shard_count co shard of
             None \<Rightarrow> AssignLiveJoin
           | Some count \<Rightarrow>
               if count \<le> local_index then AssignLiveJoin
               else (case checked_add offset local_index of
                       Some index \<Rightarrow> AssignPreQueue index
                     | None \<Rightarrow> AssignLiveJoin)))"

datatype shard = Shard (shard_index: nat)

datatype rand_error = RandError

text \<open>
  \<open>Shard::random\<close>: the eight bytes come from the system generator of \<open>aws_lc_rs\<close>, which
  may fail; the argument is what it filled the buffer with, \<open>None\<close> for a failure.
\<close>

definition shard_random :: "u8 list option \<Rightarrow> rand_error + shard" where
  "shard_random filled =
     (case filled of
        None \<Rightarrow> Inl RandError
      | Some bytes \<Rightarrow> Inr (Shard (unat (u64_from_be bytes mod of_nat SHARDS))))"

definition shard_new :: "nat \<Rightarrow> shard option" where
  "shard_new index = (if index < SHARDS then Some (Shard index) else None)"

section \<open>Prefix offsets\<close>

abbreviation shards10 :: "'a list \<Rightarrow> bool" where
  "shards10 xs \<equiv> length xs = SHARDS"

definition offsets_of :: "nat list \<Rightarrow> u64 list" where
  "offsets_of cs = map (\<lambda>s. of_nat (prefix_sum cs s)) [0..<SHARDS]"

declare from_counts_loop.simps [simp del]

lemma from_counts_loop_eq:
  assumes "shards10 counts" "k \<le> SHARDS" "shards10 offs"
    and "unat running = prefix_sum (map unat counts) k"
    and "\<And>s. s < k \<Longrightarrow> offs ! s = of_nat (prefix_sum (map unat counts) s)"
  shows "from_counts_loop counts k offs running =
    (if sum_list (map unat counts) < 2 ^ 64
     then Inr \<lparr>co_offsets = offsets_of (map unat counts),
               co_participant_count = of_nat (sum_list (map unat counts))\<rparr>
     else Inl CohortOverflow)"
  using assms
proof (induction counts k offs running rule: from_counts_loop.induct)
  case (1 counts k offs running)
  let ?cs = "map unat counts"
  show ?case
  proof (cases "k < SHARDS")
    case True
    have S: "prefix_sum ?cs (Suc k) = prefix_sum ?cs k + unat (counts ! k)"
      using True 1(2) by (simp add: prefix_sum_Suc)
    show ?thesis
    proof (cases "checked_add running (counts ! k)")
      case None
      then have "2 ^ 64 \<le> prefix_sum ?cs (Suc k)" using 1(5) S by (simp add: u64_arith)
      then have "\<not> sum_list ?cs < 2 ^ 64" using prefix_sum_le [of ?cs "Suc k"] by linarith
      with None True show ?thesis by (simp add: from_counts_loop.simps [of _ k])
    next
      case (Some r)
      then have r: "unat r = prefix_sum ?cs (Suc k)" using 1(5) S by (simp add: u64_arith)
      have run: "of_nat (prefix_sum ?cs k) = running" by (simp flip: 1(5))
      have upd: "offs[k := running] ! s = of_nat (prefix_sum ?cs s)" if "s < k + 1" for s
        using that 1(4,6) True run by (cases "s = k") auto
      show ?thesis
        using 1(1) [OF True refl Some 1(2) _ _ _ upd] True Some r 1(4)
        by (simp add: from_counts_loop.simps [of _ k])
    qed
  next
    case False
    with 1(3) have k: "k = SHARDS" by simp
    have "offs = offsets_of ?cs"
      by (rule nth_equalityI) (use 1(4,6) k in \<open>auto simp: offsets_of_def\<close>)
    moreover have tot: "prefix_sum ?cs k = sum_list ?cs"
      using k 1(2) prefix_sum_length [of ?cs] by simp
    moreover have "running = of_nat (sum_list ?cs)"
      using arg_cong [OF 1(5), of "of_nat :: nat \<Rightarrow> u64"] by (simp add: tot)
    moreover have "sum_list ?cs < 2 ^ 64" using 1(5) tot unat_lt2p [of running] by simp
    ultimately show ?thesis using False by (simp add: from_counts_loop.simps [of _ k])
  qed
qed

lemma from_counts_eq:
  "shards10 counts \<Longrightarrow> from_counts counts =
    (if sum_list (map unat counts) < 2 ^ 64
     then Inr (from_parts (offsets_of (map unat counts)) (of_nat (sum_list (map unat counts))))
     else Inl CohortOverflow)"
  unfolding from_counts_def from_parts_def
  by (rule from_counts_loop_eq) simp_all

lemma length_offsets_of [simp]: "length (offsets_of cs) = SHARDS"
  by (simp add: offsets_of_def)

section \<open>Reconstructing the global index\<close>

lemma shard_count_Some_iff:
  "shard_count co s = Some c \<longleftrightarrow>
     s < length (co_offsets co) \<and>
     unat (if s + 1 < length (co_offsets co) then co_offsets co ! (s + 1)
           else co_participant_count co) = unat (co_offsets co ! s) + unat c"
  by (auto simp: shard_count_def get_at_def Let_def u64_arith)

lemma assign_PreQueue_iff:
  "assign co s l = AssignPreQueue i \<longleftrightarrow>
     (\<exists>c. shard_count co s = Some c \<and> l < c \<and> unat i = unat (co_offsets co ! s) + unat l)"
proof (cases "shard_count co s")
  case None
  then show ?thesis by (simp add: assign_def split: option.splits)
next
  case (Some c)
  then have "s < length (co_offsets co)" by (simp add: shard_count_Some_iff)
  with Some show ?thesis
    by (auto simp: assign_def get_at_def not_le checked_add_Some_iff [symmetric]
        split: option.splits)
qed

lemma assign_LiveJoin_iff:
  "assign co s l = AssignLiveJoin \<longleftrightarrow> \<not> (\<exists>i. assign co s l = AssignPreQueue i)"
  by (cases "assign co s l") auto


text \<open>
  Offsets that no fold produced (a corrupt item that still parses) keep every index that
  is handed out inside its own shard's window: a later offset behind an earlier one
  leaves the earlier shard with no members at all.
\<close>

lemma assign_in_window:
  assumes "assign co s l = AssignPreQueue i"
  shows "unat (co_offsets co ! s) \<le> unat i" "s < length (co_offsets co)"
    and "unat i < unat (if s + 1 < length (co_offsets co) then co_offsets co ! (s + 1)
           else co_participant_count co)"
  using assms by (auto simp: assign_PreQueue_iff shard_count_Some_iff word_less_nat_alt)

definition cohort_of :: "nat list \<Rightarrow> cohort_offsets \<Rightarrow> bool" where
  "cohort_of cs co \<longleftrightarrow> shards10 cs \<and> sum_list cs < 2 ^ 64
     \<and> co = from_parts (offsets_of cs) (of_nat (sum_list cs))"

lemma from_counts_cohort:
  "shards10 counts \<Longrightarrow> from_counts counts = Inr co \<longleftrightarrow> cohort_of (map unat counts) co"
  by (auto simp: from_counts_eq cohort_of_def)

lemma unat_offset:
  "cohort_of cs co \<Longrightarrow> s < SHARDS \<Longrightarrow> unat (co_offsets co ! s) = prefix_sum cs s"
  using prefix_sum_le [of cs s]
  by (simp add: cohort_of_def from_parts_def offsets_of_def unat_of_nat_small)

lemma unat_next_offset:
  assumes co: "cohort_of cs co" and s: "s < SHARDS"
  shows "unat (if s + 1 < length (co_offsets co) then co_offsets co ! (s + 1)
      else co_participant_count co) = prefix_sum cs s + cs ! s"
proof -
  have "prefix_sum cs (Suc s) = prefix_sum cs s + cs ! s"
    using s co by (simp add: prefix_sum_Suc cohort_of_def)
  moreover have "prefix_sum cs (Suc s) = sum_list cs" if "\<not> Suc s < SHARDS"
  proof -
    have "Suc s = length cs" using that s co by (simp add: cohort_of_def)
    then show ?thesis by (metis prefix_sum_length)
  qed
  ultimately show ?thesis
    using prefix_sum_le [of cs "Suc s"] co
    by (auto simp: cohort_of_def from_parts_def offsets_of_def unat_of_nat_small
        simp del: of_nat_add)
qed

lemma shard_count_fold:
  "cohort_of cs co \<Longrightarrow> s < SHARDS \<Longrightarrow> shard_count co s = Some c \<longleftrightarrow> unat c = cs ! s"
  unfolding shard_count_Some_iff
  by (subst unat_next_offset, assumption, assumption, subst unat_offset, assumption, assumption)
    (auto simp: cohort_of_def from_parts_def)

lemma assign_fold:
  assumes co: "cohort_of cs co"
  shows "assign co s l = AssignPreQueue i \<longleftrightarrow>
     s < SHARDS \<and> unat l < cs ! s \<and> unat i = prefix_sum cs s + unat l"
proof (cases "s < SHARDS")
  case True
  have "cs ! s \<le> sum_list cs"
    using True co by (intro elem_le_sum_list) (simp add: cohort_of_def)
  then have "cs ! s < 2 ^ 64"
    using co by (simp add: cohort_of_def)
  then have "\<exists>c :: u64. unat c = cs ! s"
    by (intro exI [of _ "of_nat (cs ! s)"]) (simp add: u64_arith)
  with True show ?thesis
    by (auto simp: assign_PreQueue_iff shard_count_fold [OF co] unat_offset [OF co]
        word_less_nat_alt)
next
  case False
  then have "\<not> s < length (co_offsets co)" using co by (simp add: cohort_of_def from_parts_def)
  with False show ?thesis by (auto simp: assign_PreQueue_iff shard_count_Some_iff)
qed

text \<open>The index space is exactly \<open>[0, N)\<close>: every issued pair has an index below the cohort
  size, two different pairs never share one, and every index belongs to a pair.\<close>

lemma assign_index_bound:
  assumes co: "cohort_of cs co" and "assign co s l = AssignPreQueue i"
  shows "unat i < sum_list cs"
proof -
  have h: "s < SHARDS" "unat l < cs ! s" "unat i = prefix_sum cs s + unat l"
    using assms assign_fold [OF co] by auto
  then have "unat i < prefix_sum cs (Suc s)"
    using co by (simp add: prefix_sum_Suc cohort_of_def)
  then show ?thesis using prefix_sum_le [of cs "Suc s"] by linarith
qed

lemma assign_defined:
  assumes co: "cohort_of cs co"
  shows "(\<exists>i. assign co s l = AssignPreQueue i) \<longleftrightarrow> s < SHARDS \<and> unat l < cs ! s"
proof -
  have "\<exists>i :: u64. unat i = prefix_sum cs s + unat l" if "s < SHARDS" "unat l < cs ! s"
  proof -
    have "prefix_sum cs s + unat l < 2 ^ 64"
      using that co prefix_sum_le [of cs "Suc s"] by (auto simp: prefix_sum_Suc cohort_of_def)
    then show ?thesis
      by (intro exI [of _ "of_nat (prefix_sum cs s + unat l)"]) (simp add: unat_of_nat_small del: of_nat_add)
  qed
  then show ?thesis
    using assign_fold [OF co] by blast
qed

lemma assign_inj:
  assumes co: "cohort_of cs co"
    and "assign co s l = AssignPreQueue i" "assign co s' l' = AssignPreQueue i"
  shows "s = s' \<and> l = l'"
proof -
  have h: "s < SHARDS" "unat l < cs ! s" "unat i = prefix_sum cs s + unat l"
      "s' < SHARDS" "unat l' < cs ! s'" "unat i = prefix_sum cs s' + unat l'"
    using assms(2,3) assign_fold [OF co] by auto
  then have "s = s'"
    using co by (intro prefix_sum_segments_disjoint [of cs s "unat i"])
      (auto simp: prefix_sum_Suc cohort_of_def)
  with h show ?thesis by (auto intro: unat_inj)
qed

lemma assign_surj:
  assumes co: "cohort_of cs co" and "unat i < sum_list cs"
  shows "\<exists>s l. s < SHARDS \<and> unat l < cs ! s \<and> assign co s l = AssignPreQueue i"
proof -
  obtain s where s: "s < length cs" "prefix_sum cs s \<le> unat i" "unat i < prefix_sum cs (Suc s)"
    using prefix_sum_find [OF assms(2)] .
  let ?l = "of_nat (unat i - prefix_sum cs s) :: u64"
  have l: "unat ?l = unat i - prefix_sum cs s"
    using unat_lt2p [of i] by (intro unat_of_nat_small) linarith
  have "unat i < prefix_sum cs s + cs ! s"
    using s by (simp add: prefix_sum_Suc)
  then have "unat ?l < cs ! s" "unat i = prefix_sum cs s + unat ?l"
    unfolding l using s(2) by linarith+
  moreover have "s < SHARDS" using s(1) co by (simp add: cohort_of_def)
  ultimately show ?thesis
    using assign_fold [OF co] by blast
qed

lemma shard_random_in_range: "shard_random filled = Inr sh \<Longrightarrow> shard_index sh < SHARDS"
proof -
  have "unat (x mod of_nat SHARDS :: u64) < SHARDS" for x
    by (simp add: unat_mod SHARDS_def)
  then show "shard_random filled = Inr sh \<Longrightarrow> shard_index sh < SHARDS"
    by (auto simp: shard_random_def split: option.splits)
qed

section \<open>Properties\<close>

definition example_counts :: "u64 list" where
  "example_counts = [2, 0, 3, 0, 0, 0, 0, 0, 0, 1]"

lemma example_counts_simps:
  "shards10 example_counts" "sum_list (map unat example_counts) = 6"
  by (simp_all add: example_counts_def SHARDS_def)

text \<open>Folding the shard counts gives their prefix sums and their total, and reports an
  overflow exactly when the total does not fit 64 bits; no intermediate sum wraps.\<close>

theorem from_counts_prefix_sums:
  assumes "shards10 counts"
  shows "from_counts counts =
    (if sum_list (map unat counts) < 2 ^ 64
     then Inr (from_parts (map (\<lambda>s. of_nat (sum_list (take s (map unat counts)))) [0..<SHARDS])
        (of_nat (sum_list (map unat counts))))
     else Inl CohortOverflow)"
  using from_counts_eq [OF assms] by (simp add: offsets_of_def prefix_sum_def)

theorem from_counts_prefix_sums_witness:
  "from_counts example_counts = Inr (from_parts [0, 2, 2, 5, 5, 5, 5, 5, 5, 5] 6)
     \<and> from_counts (replicate 10 (2 ^ 63)) = Inl CohortOverflow"
proof -
  have big: "\<not> sum_list (map unat (replicate 10 (2 ^ 63 :: u64))) < 2 ^ 64"
    by (simp add: sum_list_replicate)
  have offs: "map (\<lambda>s. of_nat (sum_list (take s (map unat example_counts)))) [0..<SHARDS]
      = ([0, 2, 2, 5, 5, 5, 5, 5, 5, 5] :: u64 list)"
    by (simp add: example_counts_def SHARDS_def upt_rec)
  show ?thesis
    using from_counts_prefix_sums [OF example_counts_simps(1)] offs
      from_counts_prefix_sums [of "replicate 10 (2 ^ 63)"] big
    by (simp add: example_counts_simps(2) SHARDS_def)
qed

text \<open>C6: for the offsets of an opened event, \<open>assign\<close> is a bijection from the (shard, local
  index) pairs that were issued before the open onto the indices below the cohort size, and
  every other pair is a live join.\<close>

theorem assign_bijection:
  assumes "shards10 counts" "from_counts counts = Inr co"
  shows "bij_betw (\<lambda>(s, l). assign co s l) {(s, l). s < SHARDS \<and> l < counts ! s}
      {AssignPreQueue i | i. unat i < sum_list (map unat counts)}
    \<and> (\<forall>s l. assign co s l = AssignLiveJoin \<longleftrightarrow> \<not> (s < SHARDS \<and> l < counts ! s))"
proof -
  let ?cs = "map unat counts"
  have co: "cohort_of ?cs co"
    using assms from_counts_cohort by blast
  have lt: "unat l < ?cs ! s \<longleftrightarrow> l < counts ! s" if "s < SHARDS" for s l
    using that assms(1) by (simp add: word_less_nat_alt)
  have some: "(\<exists>i. assign co s l = AssignPreQueue i) \<longleftrightarrow> s < SHARDS \<and> l < counts ! s" for s l
    using assign_defined [OF co] lt by blast
  have "bij_betw (\<lambda>(s, l). assign co s l) {(s, l). s < SHARDS \<and> l < counts ! s}
      {AssignPreQueue i | i. unat i < sum_list ?cs}"
  proof (rule bij_betw_imageI)
    show "inj_on (\<lambda>(s, l). assign co s l) {(s, l). s < SHARDS \<and> l < counts ! s}"
    proof (rule inj_onI, clarify)
      fix s l s' l'
      assume h: "s < SHARDS" "l < counts ! s" "assign co s l = assign co s' l'"
      then obtain i where "assign co s l = AssignPreQueue i"
        using some by blast
      then show "s = s' \<and> l = l'"
        using assign_inj [OF co] h(3) by metis
    qed
    show "(\<lambda>(s, l). assign co s l) ` {(s, l). s < SHARDS \<and> l < counts ! s}
        = {AssignPreQueue i | i. unat i < sum_list ?cs}"
    proof (rule set_eqI, rule iffI)
      fix a
      assume "a \<in> (\<lambda>(s, l). assign co s l) ` {(s, l). s < SHARDS \<and> l < counts ! s}"
      then obtain s l where sl: "a = assign co s l" "s < SHARDS" "l < counts ! s" by auto
      then obtain i where "a = AssignPreQueue i" "assign co s l = AssignPreQueue i"
        using some by metis
      then show "a \<in> {AssignPreQueue i | i. unat i < sum_list ?cs}"
        using assign_index_bound [OF co] by blast
    next
      fix a
      assume "a \<in> {AssignPreQueue i | i. unat i < sum_list ?cs}"
      then obtain i where i: "a = AssignPreQueue i" "unat i < sum_list ?cs" by blast
      then obtain s l where "s < SHARDS" "unat l < ?cs ! s" "assign co s l = a"
        using assign_surj [OF co] by blast
      then show "a \<in> (\<lambda>(s, l). assign co s l) ` {(s, l). s < SHARDS \<and> l < counts ! s}"
        using lt by (auto intro!: image_eqI [of _ _ "(s, l)"])
    qed
  qed
  then show ?thesis
    using some by (simp add: assign_LiveJoin_iff)
qed

theorem assign_bijection_witness:
  "\<exists>co. from_counts example_counts = Inr co
     \<and> bij_betw (\<lambda>(s, l). assign co s l) {(s, l). s < SHARDS \<and> l < example_counts ! s}
         {AssignPreQueue i | i. unat i < 6}
     \<and> assign co 1 0 = AssignLiveJoin"
proof -
  obtain co where co: "from_counts example_counts = Inr co"
    using from_counts_eq [OF example_counts_simps(1)] example_counts_simps(2) by auto
  then show ?thesis
    using assign_bijection [OF example_counts_simps(1) co] example_counts_simps(2)
    by (auto simp: example_counts_def)
qed

text \<open>Offsets read back from a corrupt item (any ten words, in any order) never give two
  shards the same index through one shard's overrun: an index handed out lies between the
  shard's own offset and the next one, and an inverted pair of offsets hands out none.\<close>

theorem assign_stays_in_window:
  assumes "assign (from_parts offs n) s l = AssignPreQueue i"
  shows "s < length offs \<and> offs ! s \<le> i
    \<and> i < (if s + 1 < length offs then offs ! (s + 1) else n)"
  using assign_in_window [OF assms]
  by (auto simp: from_parts_def word_le_nat_alt word_less_nat_alt split: if_splits)

theorem assign_stays_in_window_witness:
  "assign (from_parts [4, 1, 9] 9) 1 7 = AssignPreQueue 8 \<and> (8 :: u64) < 9
     \<and> assign (from_parts [4, 1, 9] 9) 0 0 = AssignLiveJoin"
proof -
  have h: "assign (from_parts [4, 1, 9] 9) 1 7 = AssignPreQueue 8"
    by (simp add: assign_def from_parts_def get_at_def shard_count_def checked_sub_def checked_add_def)
  show ?thesis
    using h assign_stays_in_window [OF h]
    by (simp add: assign_def from_parts_def get_at_def shard_count_def checked_sub_def word_le_nat_alt)
qed

text \<open>A drawn shard is one of the ten, so it is a shard \<open>Shard::new\<close> accepts and every
  array of the counts can be indexed with it.\<close>

theorem shard_random_valid:
  "shard_random filled = Inr sh \<Longrightarrow> shard_new (shard_index sh) = Some sh"
  by (cases sh) (auto dest: shard_random_in_range simp: shard_new_def)

theorem shard_random_valid_witness:
  "shard_random (Some [0, 0, 0, 0, 0, 0, 1, 1]) = Inr (Shard 7) \<and> shard_new 7 = Some (Shard 7)"
proof -
  have h: "shard_random (Some [0, 0, 0, 0, 0, 0, 1, 1]) = Inr (Shard 7)"
    by code_simp
  show ?thesis
    using h shard_random_valid [OF h] by simp
qed

end
