(* ===== verification/Expr.thy ===== *)
theory Expr
  imports Effects Cohort
begin

text \<open>
  \<open>crates/wr-common/src/expr.rs\<close>: attribute names and constants, the keys of every item
  (\<open>Key\<close>), and the builders \<open>Update\<close> and \<open>Condition\<close> that render an expression together
  with its placeholder bindings.  The handlers of the other theories hand clauses and
  conditions to the store as syntax trees; \<open>run_update\<close> and \<open>run_condition\<close> are the chains
  of builder calls for a clause list and for a guard, and the lemmas say that what they
  render refers only to placeholders that are bound, that placeholders of one builder are
  all different, and that an update and a condition never bind the same one.

  Key lemmas: two keys of the same table with the same value are the same key when event
  ids contain no number sign (\<open>key_value_inj\<close>).
\<close>

section \<open>Attribute names\<close>

definition KEY_ATTR :: string where "KEY_ATTR = ''event_id''"
definition TOKENS_KEY_ATTR :: string where "TOKENS_KEY_ATTR = ''request_id''"
definition PREQUEUE_KEY_ATTR :: string where "PREQUEUE_KEY_ATTR = ''r''"
definition POSITIONS_KEY_ATTR :: string where "POSITIONS_KEY_ATTR = ''request_id''"
definition TOKENS_TTL_ATTR :: string where "TOKENS_TTL_ATTR = ''expires_at''"
definition SHARD_INDEX_ATTR :: string where "SHARD_INDEX_ATTR = ''s''"
definition SHARD_COUNT_ATTR :: string where "SHARD_COUNT_ATTR = ''n''"
definition STARTS_AT_ATTR :: string where "STARTS_AT_ATTR = ''starts_at''"
definition STARTS_AT_TZ_ATTR :: string where "STARTS_AT_TZ_ATTR = ''starts_at_tz''"
definition STATUS_ATTR :: string where "STATUS_ATTR = ''status''"
definition QUEUE_POSITION_ATTR :: string where "QUEUE_POSITION_ATTR = ''queue_position''"
definition POSSESSION_DIGEST_ATTR :: string where "POSSESSION_DIGEST_ATTR = ''h''"
definition ENTRY_TIME_ATTR :: string where "ENTRY_TIME_ATTR = ''entry_time''"
definition POSITIONS_TTL_ATTR :: string where "POSITIONS_TTL_ATTR = ''ttl''"
definition POSITION_TTL_SECS :: u64 where "POSITION_TTL_SECS = 86400"

lemmas attr_names = KEY_ATTR_def TOKENS_KEY_ATTR_def PREQUEUE_KEY_ATTR_def POSITIONS_KEY_ATTR_def
  TOKENS_TTL_ATTR_def SHARD_INDEX_ATTR_def SHARD_COUNT_ATTR_def STARTS_AT_ATTR_def
  STARTS_AT_TZ_ATTR_def STATUS_ATTR_def QUEUE_POSITION_ATTR_def POSSESSION_DIGEST_ATTR_def
  ENTRY_TIME_ATTR_def POSITIONS_TTL_ATTR_def

section \<open>Keys\<close>

datatype key =
    KEvent string
  | KPrequeueShard string shard
  | KArrivalsShard string shard
  | KOidcSession string
  | KPkceTransaction string
  | KPrequeue string
  | KPosition string

fun key_attr :: "key \<Rightarrow> string" where
  "key_attr (KEvent _) = KEY_ATTR"
| "key_attr (KPrequeueShard _ _) = KEY_ATTR"
| "key_attr (KArrivalsShard _ _) = KEY_ATTR"
| "key_attr (KOidcSession _) = TOKENS_KEY_ATTR"
| "key_attr (KPkceTransaction _) = TOKENS_KEY_ATTR"
| "key_attr (KPrequeue _) = PREQUEUE_KEY_ATTR"
| "key_attr (KPosition _) = POSITIONS_KEY_ATTR"

fun key_value :: "key \<Rightarrow> string" where
  "key_value (KEvent e) = ''EVT#'' @ e"
| "key_value (KPrequeueShard e s) = ''EVT#'' @ e @ ''#PQ#'' @ show_nat (shard_index s)"
| "key_value (KArrivalsShard e s) = ''EVT#'' @ e @ ''#AR#'' @ show_nat (shard_index s)"
| "key_value (KOidcSession i) = ''SESS#'' @ i"
| "key_value (KPkceTransaction st) = ''PKCE#'' @ st"
| "key_value (KPrequeue r) = r"
| "key_value (KPosition r) = r"

definition key_build :: "key \<Rightarrow> primary_key" where
  "key_build k = (key_attr k, key_value k)"

section \<open>Expressions\<close>

record expression =
  ex_expression :: string
  ex_names :: "string \<rightharpoonup> string"
  ex_values :: "string \<rightharpoonup> attr"

text \<open>The maps are finite, so emptiness is decided by comparing with the empty map.\<close>

definition names_or_none :: "expression \<Rightarrow> (string \<rightharpoonup> string) option" where
  "names_or_none e = (if ex_names e = Map.empty then None else Some (ex_names e))"

definition values_or_none :: "expression \<Rightarrow> (string \<rightharpoonup> attr) option" where
  "values_or_none e = (if ex_values e = Map.empty then None else Some (ex_values e))"

text \<open>\<open>[T]::join\<close> with a separator.\<close>

fun join :: "string \<Rightarrow> string list \<Rightarrow> string" where
  "join sep [] = []"
| "join sep [x] = x"
| "join sep (x # y # ys) = x @ sep @ join sep (y # ys)"

text \<open>\<open>Update\<close>.  The slot counter is a \<open>usize\<close> incremented with saturation.\<close>

record update_builder =
  ub_set :: "string list"
  ub_add :: "string list"
  ub_names :: "string \<rightharpoonup> string"
  ub_values :: "string \<rightharpoonup> attr"
  ub_next :: u64

definition update_new :: update_builder where
  "update_new = \<lparr>ub_set = [], ub_add = [], ub_names = Map.empty, ub_values = Map.empty, ub_next = 0\<rparr>"

definition update_bind ::
  "update_builder \<Rightarrow> string \<Rightarrow> attr \<Rightarrow> (string \<times> string) \<times> update_builder" where
  "update_bind b a v =
     (let slot = ub_next b;
          name = ''#u'' @ show_u64 slot;
          placeholder = '':u'' @ show_u64 slot
      in ((name, placeholder),
          b\<lparr>ub_next := saturating_add slot 1,
            ub_names := (ub_names b)(name \<mapsto> a),
            ub_values := (ub_values b)(placeholder \<mapsto> v)\<rparr>))"

definition update_set :: "update_builder \<Rightarrow> string \<Rightarrow> attr \<Rightarrow> update_builder" where
  "update_set b a v =
     (case update_bind b a v of ((name, placeholder), b) \<Rightarrow>
        b\<lparr>ub_set := ub_set b @ [name @ '' = '' @ placeholder]\<rparr>)"

definition update_set_if_not_exists :: "update_builder \<Rightarrow> string \<Rightarrow> attr \<Rightarrow> update_builder" where
  "update_set_if_not_exists b a v =
     (case update_bind b a v of ((name, placeholder), b) \<Rightarrow>
        b\<lparr>ub_set := ub_set b @
            [name @ '' = if_not_exists('' @ name @ '', '' @ placeholder @ '')'']\<rparr>)"

definition update_add :: "update_builder \<Rightarrow> string \<Rightarrow> attr \<Rightarrow> update_builder" where
  "update_add b a v =
     (case update_bind b a v of ((name, placeholder), b) \<Rightarrow>
        b\<lparr>ub_add := ub_add b @ [name @ '' '' @ placeholder]\<rparr>)"

definition update_build :: "update_builder \<Rightarrow> expression" where
  "update_build b =
     (let e = (if ub_set b \<noteq> [] then ''SET '' @ join '', '' (ub_set b) else []);
          e = (if ub_add b \<noteq> []
               then (if e \<noteq> [] then e @ '' '' else e) @ ''ADD '' @ join '', '' (ub_add b)
               else e)
      in \<lparr>ex_expression = e, ex_names = ub_names b, ex_values = ub_values b\<rparr>)"

record condition_builder =
  cb_expression :: string
  cb_names :: "string \<rightharpoonup> string"
  cb_values :: "string \<rightharpoonup> attr"
  cb_next :: u64

definition condition_bind_name ::
  "condition_builder \<Rightarrow> string \<Rightarrow> string \<times> condition_builder" where
  "condition_bind_name b a =
     (let slot = cb_next b; name = ''#c'' @ show_u64 slot
      in (name, b\<lparr>cb_next := saturating_add slot 1, cb_names := (cb_names b)(name \<mapsto> a)\<rparr>))"

definition condition_bind_value ::
  "condition_builder \<Rightarrow> attr \<Rightarrow> string \<times> condition_builder" where
  "condition_bind_value b v =
     (let slot = cb_next b; placeholder = '':c'' @ show_u64 slot
      in (placeholder,
          b\<lparr>cb_next := saturating_add slot 1, cb_values := (cb_values b)(placeholder \<mapsto> v)\<rparr>))"

definition condition_attribute_not_exists :: "string \<Rightarrow> condition_builder" where
  "condition_attribute_not_exists a =
     (case condition_bind_name
        \<lparr>cb_expression = [], cb_names = Map.empty, cb_values = Map.empty, cb_next = 0\<rparr> a of
      (name, b) \<Rightarrow> b\<lparr>cb_expression := ''attribute_not_exists('' @ name @ '')''\<rparr>)"

definition condition_or_equals :: "condition_builder \<Rightarrow> string \<Rightarrow> attr \<Rightarrow> condition_builder" where
  "condition_or_equals b a v =
     (case condition_bind_name b a of (name, b) \<Rightarrow>
      (case condition_bind_value b v of (placeholder, b) \<Rightarrow>
        b\<lparr>cb_expression := cb_expression b @ '' OR '' @ name @ '' = '' @ placeholder\<rparr>))"

definition condition_and_equals :: "condition_builder \<Rightarrow> string \<Rightarrow> attr \<Rightarrow> condition_builder" where
  "condition_and_equals b a v =
     (case condition_bind_name b a of (name, b) \<Rightarrow>
      (case condition_bind_value b v of (placeholder, b) \<Rightarrow>
        b\<lparr>cb_expression := cb_expression b @ '' AND '' @ name @ '' = '' @ placeholder\<rparr>))"

definition condition_build :: "condition_builder \<Rightarrow> expression" where
  "condition_build b =
     \<lparr>ex_expression = cb_expression b, ex_names = cb_names b, ex_values = cb_values b\<rparr>"

section \<open>What the update builder renders\<close>

text \<open>The chain of builder calls for a list of clauses; the builder has no \<open>REMOVE\<close>.\<close>

fun update_call :: "update_clause \<Rightarrow> update_builder \<Rightarrow> update_builder" where
  "update_call (USet a v) b = update_set b a v"
| "update_call (USetIfNotExists a v) b = update_set_if_not_exists b a v"
| "update_call (UAdd a v) b = update_add b a v"
| "update_call (URemove a) b = b"

definition run_update :: "update_clause list \<Rightarrow> update_builder" where
  "run_update us = fold update_call us update_new"

fun clause_attr :: "update_clause \<Rightarrow> string" where
  "clause_attr (USet a v) = a"
| "clause_attr (USetIfNotExists a v) = a"
| "clause_attr (UAdd a v) = a"
| "clause_attr (URemove a) = a"

fun clause_value :: "update_clause \<Rightarrow> attr" where
  "clause_value (USet a v) = v"
| "clause_value (USetIfNotExists a v) = v"
| "clause_value (UAdd a v) = v"
| "clause_value (URemove a) = AOther"

definition unames :: "nat \<Rightarrow> string" where "unames i = ''#u'' @ show_nat i"
definition uvals :: "nat \<Rightarrow> string" where "uvals i = '':u'' @ show_nat i"
definition cnames :: "nat \<Rightarrow> string" where "cnames i = ''#c'' @ show_nat i"
definition cvals :: "nat \<Rightarrow> string" where "cvals i = '':c'' @ show_nat i"

text \<open>The text of one clause in slot \<open>i\<close>, \<open>None\<close> when the clause belongs to the other part.\<close>

fun set_text :: "nat \<times> update_clause \<Rightarrow> string list" where
  "set_text (i, USet a v) = [unames i @ '' = '' @ uvals i]"
| "set_text (i, USetIfNotExists a v) =
     [unames i @ '' = if_not_exists('' @ unames i @ '', '' @ uvals i @ '')'']"
| "set_text (i, c) = []"

fun add_text :: "nat \<times> update_clause \<Rightarrow> string list" where
  "add_text (i, UAdd a v) = [unames i @ '' '' @ uvals i]"
| "add_text (i, c) = []"

fun builder_clause :: "update_clause \<Rightarrow> bool" where
  "builder_clause (URemove a) = False"
| "builder_clause c = True"

lemma placeholder_inj [simp]:
  "unames i = unames j \<longleftrightarrow> i = j" "uvals i = uvals j \<longleftrightarrow> i = j"
  "cnames i = cnames j \<longleftrightarrow> i = j" "cvals i = cvals j \<longleftrightarrow> i = j"
  by (simp_all add: unames_def uvals_def cnames_def cvals_def dec_simps)

lemma placeholder_disjoint [simp]:
  "unames i \<noteq> cnames j" "uvals i \<noteq> cvals j" "cnames j \<noteq> unames i" "cvals j \<noteq> uvals i"
  by (simp_all add: unames_def uvals_def cnames_def cvals_def)

text \<open>The placeholders of \<open>n\<close> slots are bound, each to its own entry of \<open>xs\<close>, and no others.\<close>

definition slots :: "(nat \<Rightarrow> string) \<Rightarrow> 'a list \<Rightarrow> (string \<rightharpoonup> 'a) \<Rightarrow> bool" where
  "slots f xs m \<longleftrightarrow> dom m = f ` {..<length xs} \<and> (\<forall>i<length xs. m (f i) = Some (xs ! i))"

lemma slots_Nil [simp]: "slots f [] Map.empty"
  by (simp add: slots_def)

lemma slots_snoc:
  assumes "slots f xs m" "inj f"
  shows "slots f (xs @ [x]) (m(f (length xs) \<mapsto> x))"
  using assms by (auto simp: slots_def nth_append less_Suc_eq lessThan_Suc dest: injD)

lemma inj_placeholders: "inj unames" "inj uvals"
  by (auto intro: injI)

lemma run_update_snoc: "run_update (us @ [u]) = update_call u (run_update us)"
  by (simp add: run_update_def)

lemma show_slot: "i < 2 ^ 64 \<Longrightarrow> show_u64 (of_nat i) = show_nat i"
  by (simp add: show_u64_def unat_of_nat_small)

lemma next_slot: "Suc n < 2 ^ 64 \<Longrightarrow> saturating_add (of_nat n) 1 = (of_nat (Suc n) :: u64)"
  by (simp add: saturating_add_def unat_of_nat_small)

lemma run_update_slots:
  assumes "length us < 2 ^ 64" "list_all builder_clause us"
  shows "ub_next (run_update us) = of_nat (length us)
    \<and> slots unames (map clause_attr us) (ub_names (run_update us))
    \<and> slots uvals (map clause_value us) (ub_values (run_update us))
    \<and> ub_set (run_update us) = concat (map set_text (enumerate 0 us))
    \<and> ub_add (run_update us) = concat (map add_text (enumerate 0 us))"
  using assms
proof (induction us rule: rev_induct)
  case (snoc u us)
  let ?b = "run_update us"
  have n: "length us < 2 ^ 64" "Suc (length us) < 2 ^ 64" and u: "builder_clause u"
    and us: "list_all builder_clause us"
    using snoc.prems by auto
  note IH = snoc.IH [OF n(1) us]
  have names: "slots unames (map clause_attr us @ [clause_attr u])
      ((ub_names ?b)(unames (length us) \<mapsto> clause_attr u))"
    using slots_snoc [OF _ inj_placeholders(1)] IH by (metis length_map)
  have vals: "slots uvals (map clause_value us @ [clause_value u])
      ((ub_values ?b)(uvals (length us) \<mapsto> clause_value u))"
    using slots_snoc [OF _ inj_placeholders(2)] IH by (metis length_map)
  show ?case
    using IH names vals u
    by (cases u)
      (simp_all add: run_update_snoc update_set_def update_add_def update_set_if_not_exists_def
        update_bind_def Let_def fun_upd_def show_slot [OF n(1)] next_slot [OF n(2)] enumerate_append_eq
        unames_def [of "length us"] uvals_def [of "length us"] del: of_nat_Suc)
qed (simp add: run_update_def update_new_def)

section \<open>What the condition builder renders\<close>

text \<open>A guard: \<open>attribute_not_exists\<close> widened or narrowed by comparisons, in call order.\<close>

datatype guard_ext = OrEquals string attr | AndEquals string attr

fun condition_call :: "guard_ext \<Rightarrow> condition_builder \<Rightarrow> condition_builder" where
  "condition_call (OrEquals a v) b = condition_or_equals b a v"
| "condition_call (AndEquals a v) b = condition_and_equals b a v"

definition run_condition :: "string \<Rightarrow> guard_ext list \<Rightarrow> condition_builder" where
  "run_condition a xs = fold condition_call xs (condition_attribute_not_exists a)"

fun ext_attr :: "guard_ext \<Rightarrow> string" where
  "ext_attr (OrEquals a v) = a"
| "ext_attr (AndEquals a v) = a"

fun ext_value :: "guard_ext \<Rightarrow> attr" where
  "ext_value (OrEquals a v) = v"
| "ext_value (AndEquals a v) = v"

fun ext_text :: "nat \<times> guard_ext \<Rightarrow> string" where
  "ext_text (i, OrEquals a v) = '' OR '' @ cnames (2 * i + 1) @ '' = '' @ cvals (2 * i + 2)"
| "ext_text (i, AndEquals a v) = '' AND '' @ cnames (2 * i + 1) @ '' = '' @ cvals (2 * i + 2)"

text \<open>Name slots are \<open>0, 1, 3, 5, ...\<close>, value slots \<open>2, 4, 6, ...\<close>.\<close>

definition cname_slot :: "nat \<Rightarrow> string" where
  "cname_slot i = cnames (if i = 0 then 0 else 2 * i - 1)"

definition cval_slot :: "nat \<Rightarrow> string" where
  "cval_slot i = cvals (2 * i + 2)"

lemma inj_cond_slots: "inj cname_slot" "inj cval_slot"
  by (auto intro!: injI simp: cname_slot_def cval_slot_def split: if_splits)

lemma run_condition_snoc: "run_condition a (xs @ [x]) = condition_call x (run_condition a xs)"
  by (simp add: run_condition_def)

lemma run_condition_nil: "run_condition a [] =
   \<lparr>cb_expression = ''attribute_not_exists('' @ cnames 0 @ '')'', cb_names = [cnames 0 \<mapsto> a],
    cb_values = Map.empty, cb_next = 1\<rparr>"
  by (simp add: run_condition_def condition_attribute_not_exists_def condition_bind_name_def
      cnames_def show_u64_def saturating_add_def Let_def)

lemma run_condition_slots:
  assumes "2 * length xs + 2 < 2 ^ 64"
  shows "cb_next (run_condition a xs) = of_nat (2 * length xs + 1)
    \<and> slots cname_slot (a # map ext_attr xs) (cb_names (run_condition a xs))
    \<and> slots cval_slot (map ext_value xs) (cb_values (run_condition a xs))
    \<and> cb_expression (run_condition a xs) = ''attribute_not_exists('' @ cnames 0 @ '')''
        @ concat (map ext_text (enumerate 0 xs))"
  using assms
proof (induction xs rule: rev_induct)
  case Nil
  then show ?case
    by (auto simp: run_condition_nil cname_slot_def slots_def split: if_splits)
next
  case (snoc x xs)
  let ?b = "run_condition a xs" and ?k = "2 * length xs + 1"
  have n: "?k < 2 ^ 64" "Suc ?k < 2 ^ 64" "Suc (Suc ?k) < 2 ^ 64" "2 * length xs + 2 < 2 ^ 64"
    using snoc.prems by auto
  note IH = snoc.IH [OF n(4)]
  have sh: "show_u64 (of_nat (Suc (2 * length xs))) = show_nat (Suc (2 * length xs))"
    "show_u64 (of_nat (Suc (Suc (2 * length xs)))) = show_nat (Suc (Suc (2 * length xs)))"
    "saturating_add (of_nat (Suc (2 * length xs))) 1 = (of_nat (Suc (Suc (2 * length xs))) :: u64)"
    "saturating_add (of_nat (Suc (Suc (2 * length xs)))) 1
       = (of_nat (Suc (Suc (Suc (2 * length xs)))) :: u64)"
    using n by (auto intro: show_slot next_slot simp del: of_nat_Suc)
  have cn: "cname_slot (Suc (length xs)) = cnames ?k" and cv: "cval_slot (length xs) = cvals (Suc ?k)"
    by (simp_all add: cname_slot_def cval_slot_def)
  have names: "slots cname_slot ((a # map ext_attr xs) @ [ext_attr x])
      ((cb_names ?b)(cnames ?k \<mapsto> ext_attr x))"
    using slots_snoc [OF _ inj_cond_slots(1), of "a # map ext_attr xs" "cb_names ?b" "ext_attr x"] IH
    by (simp only: length_Cons length_map cn)
  have vals: "slots cval_slot (map ext_value xs @ [ext_value x])
      ((cb_values ?b)(cvals (Suc ?k) \<mapsto> ext_value x))"
    using slots_snoc [OF _ inj_cond_slots(2), of "map ext_value xs" "cb_values ?b" "ext_value x"] IH
    by (simp only: length_map cv)
  show ?case
    using IH names vals
    by (cases x)
      (simp_all add: run_condition_snoc condition_or_equals_def condition_and_equals_def
        condition_bind_name_def condition_bind_value_def Let_def fun_upd_def sh enumerate_append_eq
        cnames_def [of "Suc (2 * length xs)"] cvals_def [of "Suc (Suc (2 * length xs))"]
        del: of_nat_Suc of_nat_add cong: if_cong)
qed

lemma slots_dom: "slots f xs m \<Longrightarrow> dom m \<subseteq> range f"
  by (auto simp: slots_def)

text \<open>On one request, an update and a condition never bind the same placeholder, so merging
  the two maps loses nothing.\<close>

lemma update_condition_disjoint:
  assumes "length us < 2 ^ 64" "list_all builder_clause us" "2 * length xs + 2 < 2 ^ 64"
  shows "dom (ub_names (run_update us)) \<inter> dom (cb_names (run_condition a xs)) = {}"
    and "dom (ub_values (run_update us)) \<inter> dom (cb_values (run_condition a xs)) = {}"
proof -
  have "dom (ub_names (run_update us)) \<subseteq> range unames"
    "dom (ub_values (run_update us)) \<subseteq> range uvals"
    using run_update_slots [OF assms(1,2)] slots_dom by blast+
  moreover have "dom (cb_names (run_condition a xs)) \<subseteq> range cname_slot"
    "dom (cb_values (run_condition a xs)) \<subseteq> range cval_slot"
    using run_condition_slots [OF assms(3), of a] slots_dom by blast+
  moreover have "range unames \<inter> range cname_slot = {}" "range uvals \<inter> range cval_slot = {}"
    by (auto simp: cname_slot_def cval_slot_def)
  ultimately show "dom (ub_names (run_update us)) \<inter> dom (cb_names (run_condition a xs)) = {}"
    and "dom (ub_values (run_update us)) \<inter> dom (cb_values (run_condition a xs)) = {}"
    by blast+
qed

section \<open>Keys do not collide\<close>

lemma split_at_unique:
  assumes "c \<notin> set xs" "c \<notin> set ys" "xs @ c # us = ys @ c # vs"
  shows "xs = ys \<and> us = vs"
  using assms
proof (induction xs arbitrary: ys)
  case Nil
  then show ?case by (cases ys) auto
next
  case (Cons x xs)
  then show ?case by (cases ys) auto
qed

definition plain :: "string \<Rightarrow> bool" where
  "plain e \<longleftrightarrow> CHR ''#'' \<notin> set e"

fun key_event :: "key \<Rightarrow> string" where
  "key_event (KEvent e) = e"
| "key_event (KPrequeueShard e s) = e"
| "key_event (KArrivalsShard e s) = e"
| "key_event _ = []"

fun key_tail :: "key \<Rightarrow> string" where
  "key_tail (KPrequeueShard e s) = ''#PQ#'' @ show_nat (shard_index s)"
| "key_tail (KArrivalsShard e s) = ''#AR#'' @ show_nat (shard_index s)"
| "key_tail _ = []"

lemma key_value_tail: "key_attr k = KEY_ATTR \<Longrightarrow> key_value k = ''EVT#'' @ key_event k @ key_tail k"
  by (cases k) (simp_all add: attr_names)

lemma plain_tail_unique:
  assumes "plain e" "plain e'" "t = [] \<or> hd t = CHR ''#''" "t' = [] \<or> hd t' = CHR ''#''"
    and "e @ t = e' @ t'"
  shows "e = e' \<and> t = t'"
proof (cases "t = []"; cases "t' = []")
  assume ne: "t \<noteq> []" "t' \<noteq> []"
  then have t: "t = CHR ''#'' # tl t" "t' = CHR ''#'' # tl t'"
    using assms(3,4) by (metis list.collapse)+
  then have "e @ CHR ''#'' # tl t = e' @ CHR ''#'' # tl t'"
    using assms(5) by simp
  then have "e = e' \<and> tl t = tl t'"
    using assms(1,2) by (intro split_at_unique) (simp_all add: plain_def)
  then show ?thesis
    using t by metis
next
  assume ne: "t = []" "t' \<noteq> []"
  then have "CHR ''#'' \<in> set e"
    using assms(4,5) hd_in_set [of t'] by auto
  then show ?thesis
    using assms(1) by (simp add: plain_def)
next
  assume ne: "t \<noteq> []" "t' = []"
  then have "CHR ''#'' \<in> set e'"
    using assms(3,5) hd_in_set [of t] by auto
  then show ?thesis
    using assms(2) by (simp add: plain_def)
qed (use assms in simp)

lemma hd_key_tail: "key_tail k = [] \<or> hd (key_tail k) = CHR ''#''"
  by (cases k) simp_all

lemma shard_eq_iff: "shard_index s = shard_index t \<longleftrightarrow> s = t"
  by (cases s; cases t) simp

text \<open>Two keys of the same table that address the same row are the same key, provided event
  ids are free of the tag separator; the tables are told apart by the name of the key
  attribute, except \<open>Tokens\<close> and \<open>Positions\<close>, which share theirs.\<close>

lemma key_value_inj:
  assumes "plain (key_event k)" "plain (key_event k')"
    and "key_value k = key_value k'" "key_attr k = KEY_ATTR" "key_attr k' = KEY_ATTR"
  shows "k = k'"
proof -
  have "key_event k = key_event k' \<and> key_tail k = key_tail k'"
    using plain_tail_unique [OF assms(1,2) hd_key_tail hd_key_tail] assms(3)
    by (simp add: key_value_tail assms(4,5))
  then show ?thesis
    using assms(4,5) by (cases k; cases k') (auto simp: attr_names dec_simps shard_eq_iff)
qed

end
