(* ===== verification/Items.thy ===== *)
theory Items
  imports Crypto Expr
begin

text \<open>
  \<open>crates/wr-common/src/items.rs\<close>: the rows of the three tables, the event's \<open>Counters\<close>
  item and its one parser, the outputs of the open, and the resolution of a pre-queue
  registration to its queue position.  \<open>[u8; 32]\<close> and \<open>[u64; SHARDS]\<close> are lists whose length
  the parser checks.  The \<open>serde\<close> derivations of the two row types are written out: the field
  names of the structs are the attribute names, integers are number attributes, the status
  is its snake-case spelling, an absent digest is skipped.

  Lemmas: what the parser reads for each attribute, that the row codecs are inverse
  (\<open>position_codec\<close>, \<open>prequeue_codec\<close>), and that \<open>resolve_prequeue\<close> maps the issued (shard,
  index) pairs of an opened event one to one onto the positions below the cohort size.
\<close>

section \<open>Rows\<close>

datatype position_status = Issued | Admitted

fun status_wire :: "position_status \<Rightarrow> string" where
  "status_wire Issued = ''issued''"
| "status_wire Admitted = ''admitted''"

definition status_parse :: "string \<Rightarrow> position_status option" where
  "status_parse s =
     (if s = ''issued'' then Some Issued else if s = ''admitted'' then Some Admitted else None)"

record prequeue_item =
  pq_r :: string
  pq_s :: u8
  pq_l :: u64
  pq_t :: u64
  pq_h :: "secret_digest option"

record position_item =
  po_request_id :: string
  po_queue_position :: u64
  po_entry_time :: u64
  po_status :: position_status
  po_h :: "secret_digest option"
  po_ttl :: u64

text \<open>\<open>serde_dynamo::to_item\<close> and \<open>from_item\<close> at the two row types.\<close>

definition put_opt :: "string \<Rightarrow> secret_digest option \<Rightarrow> item \<Rightarrow> item" where
  "put_opt k d m = (case d of None \<Rightarrow> m | Some x \<Rightarrow> m(k \<mapsto> AS (digest_as_str x)))"

definition prequeue_to_item :: "prequeue_item \<Rightarrow> item" where
  "prequeue_to_item p = put_opt ''h'' (pq_h p)
     [''r'' \<mapsto> AS (pq_r p), ''s'' \<mapsto> AN (show_nat (unat (pq_s p))),
      ''l'' \<mapsto> AN (show_u64 (pq_l p)), ''t'' \<mapsto> AN (show_u64 (pq_t p))]"

definition position_to_item :: "position_item \<Rightarrow> item" where
  "position_to_item p = put_opt ''h'' (po_h p)
     [''request_id'' \<mapsto> AS (po_request_id p),
      ''queue_position'' \<mapsto> AN (show_u64 (po_queue_position p)),
      ''entry_time'' \<mapsto> AN (show_u64 (po_entry_time p)),
      ''status'' \<mapsto> AS (status_wire (po_status p)),
      ''ttl'' \<mapsto> AN (show_u64 (po_ttl p))]"

definition get_s :: "item \<Rightarrow> string \<Rightarrow> string option" where
  "get_s m k = Option.bind (m k) as_s"

definition get_n :: "item \<Rightarrow> string \<Rightarrow> string option" where
  "get_n m k = Option.bind (m k) as_n"

definition get_u64 :: "item \<Rightarrow> string \<Rightarrow> u64 option" where
  "get_u64 m k = Option.bind (get_n m k) parse_u64"

definition parse_u8 :: "string \<Rightarrow> u8 option" where
  "parse_u8 s = map_option of_nat (parse_uint (2 ^ 8) s)"

text \<open>The optional digest: an absent or null attribute is \<open>None\<close>, a malformed one an error,
  which is the outer \<open>None\<close>.\<close>

definition get_digest :: "item \<Rightarrow> string \<Rightarrow> secret_digest option option" where
  "get_digest m k =
     (case m k of
        None \<Rightarrow> Some None
      | Some ANull \<Rightarrow> Some None
      | Some (AS s) \<Rightarrow> (case digest_parse s of Inr d \<Rightarrow> Some (Some d) | Inl _ \<Rightarrow> None)
      | Some _ \<Rightarrow> None)"

definition prequeue_from_item :: "item \<Rightarrow> prequeue_item option" where
  "prequeue_from_item m =
     Option.bind (get_s m ''r'') (\<lambda>r.
     Option.bind (Option.bind (get_n m ''s'') parse_u8) (\<lambda>s.
     Option.bind (get_u64 m ''l'') (\<lambda>l.
     Option.bind (get_u64 m ''t'') (\<lambda>t.
     Option.bind (get_digest m ''h'') (\<lambda>h.
       Some \<lparr>pq_r = r, pq_s = s, pq_l = l, pq_t = t, pq_h = h\<rparr>)))))"

definition position_from_item :: "item \<Rightarrow> position_item option" where
  "position_from_item m =
     Option.bind (get_s m ''request_id'') (\<lambda>r.
     Option.bind (get_u64 m ''queue_position'') (\<lambda>q.
     Option.bind (get_u64 m ''entry_time'') (\<lambda>e.
     Option.bind (Option.bind (get_s m ''status'') status_parse) (\<lambda>st.
     Option.bind (get_digest m ''h'') (\<lambda>h.
     Option.bind (get_u64 m ''ttl'') (\<lambda>t.
       Some \<lparr>po_request_id = r, po_queue_position = q, po_entry_time = e, po_status = st,
             po_h = h, po_ttl = t\<rparr>))))))"

section \<open>The event's counters\<close>

record counters =
  ct_event_id :: string
  ct_phase :: phase
  ct_queue_counter :: u64
  ct_serving_counter :: u64
  ct_shuffle_seed :: "u8 list option"
  ct_participant_count :: "u64 option"
  ct_prequeue_offsets :: "u64 list option"
  ct_message :: "string option"
  ct_target_rate :: "u32 option"
  ct_stored_control :: stored_control
  ct_fail_open_until :: u64
  ct_starts_at :: "u64 option"

record open_outputs_rec =
  oo_offsets :: cohort_offsets
  oo_seed :: "u8 list"

definition open_outputs :: "counters \<Rightarrow> open_outputs_rec option" where
  "open_outputs c =
     Option.bind (ct_shuffle_seed c) (\<lambda>seed_bytes.
     Option.bind (ct_prequeue_offsets c) (\<lambda>offs.
     Option.bind (ct_participant_count c) (\<lambda>n.
       Some \<lparr>oo_offsets = from_parts offs n, oo_seed = seed_bytes\<rparr>)))"

datatype resolved_position = RPreQueue u64 | RLiveJoin

datatype resolve_error = NotOpen | BadShard

text \<open>\<open>prp\<close> returns on every input (\<open>prp_returns\<close>), so its value can be taken.\<close>

definition prp_value :: "hmac_sha256 \<Rightarrow> u8 list \<Rightarrow> u64 \<Rightarrow> u64 \<Rightarrow> u64" where
  "prp_value hmac seed i n = the (prp hmac seed i n)"

definition resolve_prequeue ::
  "hmac_sha256 \<Rightarrow> counters \<Rightarrow> prequeue_item \<Rightarrow> resolve_error + resolved_position" where
  "resolve_prequeue hmac c row =
     (case open_outputs c of
        None \<Rightarrow> Inl NotOpen
      | Some oo \<Rightarrow>
          let sh = unat (pq_s row) in
          if SHARDS \<le> sh then Inl BadShard
          else
            let n = co_participant_count (oo_offsets oo) in
            (case assign (oo_offsets oo) sh (pq_l row) of
               AssignPreQueue index \<Rightarrow> Inr (RPreQueue (prp_value hmac (oo_seed oo) index n))
             | AssignLiveJoin \<Rightarrow> Inr RLiveJoin))"

definition stored_control_of :: "item \<Rightarrow> stored_control" where
  "stored_control_of m =
     (case get_s m ''admission_control'' of
        None \<Rightarrow> StOpen
      | Some s \<Rightarrow> if s = [] then StOpen
                  else (case stored_parse s of Inr c \<Rightarrow> c | Inl _ \<Rightarrow> StPaused))"

definition shard_index_of :: "item \<Rightarrow> nat option" where
  "shard_index_of m =
     Option.bind (Option.bind (get_n m SHARD_INDEX_ATTR) (parse_uint (2 ^ 64)))
       (\<lambda>sh. if sh < SHARDS then Some sh else None)"

definition shard_count_of :: "item \<Rightarrow> u64 option" where
  "shard_count_of m = get_u64 m SHARD_COUNT_ATTR"

text \<open>Collecting into a \<open>Result\<close>: the first unreadable element makes the whole list
  unreadable.\<close>

fun parse_offsets :: "attr list \<Rightarrow> u64 list option" where
  "parse_offsets [] = Some []"
| "parse_offsets (e # es) =
     (case Option.bind (as_n e) parse_u64 of
        None \<Rightarrow> None
      | Some v \<Rightarrow> (case parse_offsets es of None \<Rightarrow> None | Some vs \<Rightarrow> Some (v # vs)))"

definition sized :: "nat \<Rightarrow> 'a list \<Rightarrow> 'a list option" where
  "sized n xs = (if length xs = n then Some xs else None)"

text \<open>\<open>u32::try_from\<close> on a \<open>u64\<close>.\<close>

definition u32_try_from :: "u64 \<Rightarrow> u32 option" where
  "u32_try_from x = (if unat x < 2 ^ 32 then Some (of_nat (unat x)) else None)"

definition from_item :: "string \<Rightarrow> item \<Rightarrow> counters" where
  "from_item event_id m =
     \<lparr>ct_event_id = event_id,
      ct_phase =
        (case get_s m ''phase'' of
           None \<Rightarrow> Idle
         | Some s \<Rightarrow> (case phase_parse s of Inr p \<Rightarrow> p | Inl _ \<Rightarrow> Idle)),
      ct_queue_counter = (case get_u64 m ''queue_counter'' of Some n \<Rightarrow> n | None \<Rightarrow> 0),
      ct_serving_counter = (case get_u64 m ''serving_counter'' of Some n \<Rightarrow> n | None \<Rightarrow> 0),
      ct_shuffle_seed = Option.bind (Option.bind (m ''shuffle_seed'') as_b) (sized 32),
      ct_participant_count = get_u64 m ''participant_count'',
      ct_prequeue_offsets =
        Option.bind (Option.bind (Option.bind (m ''prequeue_offsets'') as_l) parse_offsets)
          (sized SHARDS),
      ct_message =
        Option.bind (get_s m ''message'') (\<lambda>s. if s = [] then None else Some s),
      ct_target_rate = Option.bind (get_u64 m ''target_rate'') u32_try_from,
      ct_stored_control = stored_control_of m,
      ct_fail_open_until = (case get_u64 m ''fail_open_until'' of Some n \<Rightarrow> n | None \<Rightarrow> 0),
      ct_starts_at = get_u64 m STARTS_AT_ATTR\<rparr>"

text \<open>The table names every DynamoDB store of the Lambdas is bound to.\<close>

record tables =
  tb_counters :: string
  tb_prequeue :: string
  tb_positions :: string

section \<open>Row codecs\<close>

lemma status_roundtrip [simp]: "status_parse (status_wire s) = Some s"
  by (cases s) (simp_all add: status_parse_def)

lemma parse_u8_show [simp]: "parse_u8 (show_nat (unat (x :: u8))) = Some x"
  using unat_lt2p [of x] by (simp add: parse_u8_def dec_simps)

text \<open>A row whose digest has the shape the join accepts.\<close>

definition digest_ok :: "secret_digest option \<Rightarrow> bool" where
  "digest_ok d \<longleftrightarrow> (case d of None \<Rightarrow> True | Some x \<Rightarrow> is_b64url_32 (digest_as_str x))"

lemma get_digest_put_opt:
  "digest_ok d \<Longrightarrow> m k = None \<Longrightarrow> get_digest (put_opt k d m) k = Some d"
  by (cases d) (auto simp: get_digest_def put_opt_def digest_ok_def digest_parse_def)

lemma get_put_opt [simp]:
  "k' \<noteq> k \<Longrightarrow> get_s (put_opt k d m) k' = get_s m k'"
  "k' \<noteq> k \<Longrightarrow> get_n (put_opt k d m) k' = get_n m k'"
  "k' \<noteq> k \<Longrightarrow> get_u64 (put_opt k d m) k' = get_u64 m k'"
  by (cases d; simp add: get_s_def get_n_def get_u64_def put_opt_def)+

lemma prequeue_codec:
  "digest_ok (pq_h p) \<Longrightarrow> prequeue_from_item (prequeue_to_item p) = Some p"
  by (simp add: prequeue_from_item_def prequeue_to_item_def get_digest_put_opt)
    (simp add: get_s_def get_n_def get_u64_def dec_simps)

lemma position_codec:
  "digest_ok (po_h p) \<Longrightarrow> position_from_item (position_to_item p) = Some p"
  by (simp add: position_from_item_def position_to_item_def get_digest_put_opt)
    (simp add: get_s_def get_n_def get_u64_def dec_simps)

text \<open>The shard and local index a row carries.\<close>

definition row_slot :: "item \<Rightarrow> (nat \<times> u64) option" where
  "row_slot m =
     Option.bind (Option.bind (get_n m ''s'') parse_u8) (\<lambda>s.
     Option.bind (get_u64 m ''l'') (\<lambda>l. Some (unat s, l)))"

lemma row_slot_to_item [simp]: "row_slot (prequeue_to_item p) = Some (unat (pq_s p), pq_l p)"
  by (simp add: row_slot_def prequeue_to_item_def)
    (simp add: get_s_def get_n_def get_u64_def dec_simps)

lemma row_slot_from_item:
  "prequeue_from_item m = Some row \<Longrightarrow> row_slot m = Some (unat (pq_s row), pq_l row)"
  by (auto simp: row_slot_def prequeue_from_item_def bind_eq_Some_conv)

lemma position_of_item [simp]:
  "get_u64 (position_to_item p) ''queue_position'' = Some (po_queue_position p)"
  by (simp add: position_to_item_def) (simp add: get_n_def get_u64_def dec_simps)

section \<open>Resolution\<close>

lemma prp_value_below: "i < n \<Longrightarrow> prp_value hmac seed i n < n"
  using prp_below [of i n hmac seed] by (auto simp: prp_value_def)

lemma prp_value_inj:
  "i < n \<Longrightarrow> j < n \<Longrightarrow> prp_value hmac seed i n = prp_value hmac seed j n \<Longrightarrow> i = j"
  using prp_below [of i n hmac seed] prp_below [of j n hmac seed] prp_inj_below [of i n j hmac seed]
  by (auto simp: prp_value_def)

text \<open>The item of an event that has been opened with the counts \<open>cs\<close>.\<close>

definition opened_with :: "counters \<Rightarrow> nat list \<Rightarrow> u8 list \<Rightarrow> bool" where
  "opened_with c cs seed \<longleftrightarrow>
     (\<exists>co. cohort_of cs co \<and> open_outputs c = Some \<lparr>oo_offsets = co, oo_seed = seed\<rparr>)"

lemma resolve_opened:
  assumes "opened_with c cs seed"
  shows "resolve_prequeue hmac c row = Inr (RPreQueue p) \<longleftrightarrow>
    (\<exists>i. unat (pq_s row) < SHARDS \<and> unat (pq_l row) < cs ! unat (pq_s row)
       \<and> unat i = prefix_sum cs (unat (pq_s row)) + unat (pq_l row)
       \<and> p = prp_value hmac seed i (of_nat (sum_list cs)))"
proof -
  obtain co where co: "cohort_of cs co" "open_outputs c = Some \<lparr>oo_offsets = co, oo_seed = seed\<rparr>"
    using assms by (auto simp: opened_with_def)
  have n: "co_participant_count co = of_nat (sum_list cs)"
    using co(1) by (simp add: cohort_of_def from_parts_def)
  have "resolve_prequeue hmac c row = Inr (RPreQueue p) \<longleftrightarrow> unat (pq_s row) < SHARDS \<and>
      (\<exists>i. assign co (unat (pq_s row)) (pq_l row) = AssignPreQueue i
         \<and> p = prp_value hmac seed i (of_nat (sum_list cs)))"
    by (auto simp: resolve_prequeue_def co(2) n Let_def not_le split: assignment.splits)
  then show ?thesis
    by (auto simp: assign_fold [OF co(1)])
qed

lemma cohort_index_below:
  assumes "cohort_of cs co" "s < SHARDS" "unat (l :: u64) < cs ! s"
    and "unat (i :: u64) = prefix_sum cs s + unat l"
  shows "i < of_nat (sum_list cs)"
proof -
  have "assign co s l = AssignPreQueue i"
    using assign_fold [OF assms(1)] assms(2-4) by blast
  then have "unat i < sum_list cs"
    by (rule assign_index_bound [OF assms(1)])
  then show ?thesis
    using assms(1) by (simp add: word_less_nat_alt unat_of_nat_small cohort_of_def)
qed

lemma resolve_opened_below:
  assumes "opened_with c cs seed" "resolve_prequeue hmac c row = Inr (RPreQueue p)"
  shows "unat p < sum_list cs"
proof -
  obtain co where co: "cohort_of cs co"
    using assms(1) by (auto simp: opened_with_def)
  then have "p < of_nat (sum_list cs)"
    using assms(2) cohort_index_below [OF co] prp_value_below
    unfolding resolve_opened [OF assms(1)] by blast
  then show ?thesis
    using co by (simp add: word_less_nat_alt unat_of_nat_small cohort_of_def)
qed

lemma resolve_opened_inj:
  assumes "opened_with c cs seed"
    and "resolve_prequeue hmac c row = Inr (RPreQueue p)"
    and "resolve_prequeue hmac c row' = Inr (RPreQueue p)"
  shows "pq_s row = pq_s row' \<and> pq_l row = pq_l row'"
proof -
  obtain co where co: "cohort_of cs co"
    using assms(1) by (auto simp: opened_with_def)
  obtain i j where i: "unat (pq_s row) < SHARDS" "unat (pq_l row) < cs ! unat (pq_s row)"
      "unat i = prefix_sum cs (unat (pq_s row)) + unat (pq_l row)"
    and j: "unat (pq_s row') < SHARDS" "unat (pq_l row') < cs ! unat (pq_s row')"
      "unat j = prefix_sum cs (unat (pq_s row')) + unat (pq_l row')"
    and eq: "prp_value hmac seed i (of_nat (sum_list cs)) = prp_value hmac seed j (of_nat (sum_list cs))"
    using assms(2,3) unfolding resolve_opened [OF assms(1)] by auto
  have "i = j"
    using prp_value_inj [OF cohort_index_below [OF co i] cohort_index_below [OF co j] eq] .
  then have "assign co (unat (pq_s row)) (pq_l row) = AssignPreQueue i"
    and "assign co (unat (pq_s row')) (pq_l row') = AssignPreQueue i"
    using assign_fold [OF co] i j by blast+
  from assign_inj [OF co this] show ?thesis
    by (auto intro: unat_inj)
qed

end
