(* ===== verification/Ledger.thy ===== *)
theory Ledger
  imports Items
begin

text \<open>
  The contract between the handlers and the database, as a ghost ledger.  A running handler
  is accounted the live positions and the pre-queue indices its own counter increments
  returned and it has not written yet, and what it has read: the outputs of the open, the
  positions and the pre-queue rows of visitors.  \<open>ledger_ob\<close> is what every request must
  respect given that account: a live position is claimed only after the open was seen, a row
  is only written with an index or a position the handler owns and under the
  not-exists guard, an admission only restates a position that is the visitor's, the cursor
  moves forward under a guard on the value it moves from, the phase only becomes active once the
  cohort of the open was seen, nothing of the three tables is deleted, and no other write touches
  the sequences or the open outputs.  \<open>ledger_up\<close> moves the account
  with each response; \<open>ledger_ok\<close> is the one fact about responses a handler relies on, that
  a counter after an increment is at least the increment.

  The component theories prove that their handlers meet the contract whatever is answered;
  theory \<open>Deployment\<close> proves that a database all of whose clients meet it never gives
  two visitors the same queue position.
\<close>

record ledger_cfg =
  lc_tables :: tables
  lc_event :: string
  lc_hmac :: hmac_sha256

record ghost =
  gh_live :: "u64 set"
  gh_pq :: "(nat \<times> u64) set"
  gh_open :: "open_outputs_rec option"
  gh_pos :: "(u64 \<times> string) set"
  gh_row :: "(string \<times> nat \<times> u64) set"
  gh_counted :: bool \<comment> \<open>the event's item was seen with a cohort size\<close>

definition ghost0 :: ghost where
  "ghost0 = \<lparr>gh_live = {}, gh_pq = {}, gh_open = None, gh_pos = {}, gh_row = {}, gh_counted = False\<rparr>"

definition event_key :: "ledger_cfg \<Rightarrow> primary_key" where
  "event_key cfg = key_build (KEvent (lc_event cfg))"

definition shard_key :: "ledger_cfg \<Rightarrow> shard \<Rightarrow> primary_key" where
  "shard_key cfg sh = key_build (KPrequeueShard (lc_event cfg) sh)"

text \<open>The attributes of the event's item that only the open and the claims may write.\<close>

definition protected_attrs :: "string set" where
  "protected_attrs = {''queue_counter'', ''shuffle_seed'', ''participant_count'', ''prequeue_offsets''}"

definition claim_clauses :: "u64 \<Rightarrow> update_clause list" where
  "claim_clauses n = [UAdd ''queue_counter'' (AN (show_u64 n))]"

definition shard_claim_clauses :: "shard \<Rightarrow> u64 \<Rightarrow> update_clause list" where
  "shard_claim_clauses sh n =
     [USet SHARD_INDEX_ATTR (AN (show_nat (shard_index sh))), UAdd SHARD_COUNT_ATTR (AN (show_u64 n))]"

definition open_clauses :: "u8 list \<Rightarrow> u64 \<Rightarrow> u64 list \<Rightarrow> update_clause list" where
  "open_clauses seed n offs =
     [USet ''shuffle_seed'' (AB seed),
      USet ''participant_count'' (AN (show_u64 n)),
      USet ''queue_counter'' (AN (show_u64 n)),
      USet ''prequeue_offsets'' (AL (map (\<lambda>o'. AN (show_u64 o')) offs)),
      USet ''phase'' (AS (phase_wire Active))]"

definition open_condition :: condition where
  "open_condition = CAnd (CNotExists ''shuffle_seed'') (CEq ''phase'' (AS (phase_wire PreQueue)))"

text \<open>The queue position a pre-queue registration resolves to under given open outputs.\<close>

definition cohort_position ::
  "hmac_sha256 \<Rightarrow> open_outputs_rec \<Rightarrow> nat \<Rightarrow> u64 \<Rightarrow> u64 \<Rightarrow> bool" where
  "cohort_position hmac oo s l p \<longleftrightarrow>
     s < SHARDS \<and> (\<exists>i. assign (oo_offsets oo) s l = AssignPreQueue i
       \<and> p = prp_value hmac (oo_seed oo) i (co_participant_count (oo_offsets oo)))"

definition entitled :: "ledger_cfg \<Rightarrow> ghost \<Rightarrow> string \<Rightarrow> u64 \<Rightarrow> bool" where
  "entitled cfg g r p \<longleftrightarrow>
     (p, r) \<in> gh_pos g
     \<or> (\<exists>oo s l. gh_open g = Some oo \<and> (r, s, l) \<in> gh_row g \<and> cohort_position (lc_hmac cfg) oo s l p)"

section \<open>Obligations\<close>

text \<open>A move of the cursor is forward, and guarded by the cursor it starts from.\<close>

definition serving_move :: "update_clause list \<Rightarrow> condition option \<Rightarrow> bool" where
  "serving_move us c \<longleftrightarrow> (\<exists>e n rest. e \<le> n \<and> us = USet ''serving_counter'' (AN (show_u64 n)) # rest
     \<and> (\<forall>u\<in>set rest. clause_attr u \<noteq> ''serving_counter'')
     \<and> c = Some (COr (CNotExists ''serving_counter'') (CEq ''serving_counter'' (AN (show_u64 e)))))"

text \<open>A write of the phase names a phase, and active only after the cohort was seen.\<close>

definition phase_move :: "ghost \<Rightarrow> update_clause \<Rightarrow> bool" where
  "phase_move g u \<longleftrightarrow> (clause_attr u = ''phase'' \<longrightarrow>
     (\<exists>p. u = USet ''phase'' (AS (phase_wire p)) \<and> (p = Active \<longrightarrow> gh_counted g)))"

definition event_update_ob ::
  "ghost \<Rightarrow> update_clause list \<Rightarrow> condition option \<Rightarrow> bool" where
  "event_update_ob g us c \<longleftrightarrow>
     (\<exists>n. us = claim_clauses n \<and> c = None \<and> gh_open g \<noteq> None)
     \<or> (\<exists>cs co seed. cohort_of cs co \<and> length seed = 32 \<and> c = Some open_condition
          \<and> us = open_clauses seed (co_participant_count co) (co_offsets co))
     \<or> ((\<forall>u\<in>set us. clause_attr u \<notin> protected_attrs \<and> phase_move g u)
          \<and> ((\<forall>u\<in>set us. clause_attr u \<noteq> ''serving_counter'') \<or> serving_move us c))"

definition counters_update_ob ::
  "ledger_cfg \<Rightarrow> ghost \<Rightarrow> primary_key \<Rightarrow> update_clause list \<Rightarrow> condition option \<Rightarrow> bool" where
  "counters_update_ob cfg g k us c \<longleftrightarrow>
     (k = event_key cfg \<longrightarrow> event_update_ob g us c)
     \<and> (\<forall>sh. k = shard_key cfg sh \<longrightarrow> (\<exists>n. us = shard_claim_clauses sh n \<and> c = None))"

text \<open>An update of a \<open>Positions\<close> row names only a position its visitor is entitled to.\<close>

definition position_clause_ob :: "ledger_cfg \<Rightarrow> ghost \<Rightarrow> string \<Rightarrow> update_clause \<Rightarrow> bool" where
  "position_clause_ob cfg g r u \<longleftrightarrow> clause_attr u = QUEUE_POSITION_ATTR \<longrightarrow>
     (\<exists>p. u = USet QUEUE_POSITION_ATTR (AN (show_u64 p)) \<and> entitled cfg g r p)"

definition put_position_ob :: "ghost \<Rightarrow> item \<Rightarrow> condition option \<Rightarrow> bool" where
  "put_position_ob g m c \<longleftrightarrow> c = Some (CNotExists POSITIONS_KEY_ATTR)
     \<and> (\<exists>row. m = position_to_item row \<and> po_queue_position row \<in> gh_live g)"

definition put_prequeue_ob :: "ghost \<Rightarrow> item \<Rightarrow> condition option \<Rightarrow> bool" where
  "put_prequeue_ob g m c \<longleftrightarrow> c = Some (CNotExists PREQUEUE_KEY_ATTR)
     \<and> (\<exists>row. m = prequeue_to_item row \<and> (unat (pq_s row), pq_l row) \<in> gh_pq g)"

definition ledger_ob :: "ledger_cfg \<Rightarrow> req \<Rightarrow> ghost \<Rightarrow> bool" where
  "ledger_ob cfg q g \<longleftrightarrow>
     (case q of
        QUpdate t k us c \<Rightarrow>
          (t = tb_counters (lc_tables cfg) \<longrightarrow> counters_update_ob cfg g k us c)
          \<and> (t = tb_positions (lc_tables cfg) \<longrightarrow>
               fst k = POSITIONS_KEY_ATTR \<and> (\<forall>u\<in>set us. position_clause_ob cfg g (snd k) u))
          \<and> t \<noteq> tb_prequeue (lc_tables cfg)
      | QPut t m c \<Rightarrow>
          t \<noteq> tb_counters (lc_tables cfg)
          \<and> (t = tb_positions (lc_tables cfg) \<longrightarrow> put_position_ob g m c)
          \<and> (t = tb_prequeue (lc_tables cfg) \<longrightarrow> put_prequeue_ob g m c)
      | QDelete t k b \<Rightarrow> t \<noteq> tb_counters (lc_tables cfg) \<and> t \<noteq> tb_positions (lc_tables cfg)
          \<and> t \<noteq> tb_prequeue (lc_tables cfg)
      | _ \<Rightarrow> True)"

section \<open>The account\<close>

definition note_counted :: "item \<Rightarrow> ghost \<Rightarrow> ghost" where
  "note_counted m g = g\<lparr>gh_counted := gh_counted g \<or> get_u64 m ''participant_count'' \<noteq> None\<rparr>"

lemma note_counted_sel [simp]:
  "gh_live (note_counted m g) = gh_live g" "gh_pq (note_counted m g) = gh_pq g"
  "gh_open (note_counted m g) = gh_open g" "gh_pos (note_counted m g) = gh_pos g"
  "gh_row (note_counted m g) = gh_row g"
  "gh_counted (note_counted m g) \<longleftrightarrow> gh_counted g \<or> get_u64 m ''participant_count'' \<noteq> None"
  by (simp_all add: note_counted_def)

definition up_get :: "ledger_cfg \<Rightarrow> string \<Rightarrow> primary_key \<Rightarrow> item \<Rightarrow> ghost \<Rightarrow> ghost" where
  "up_get cfg t k m g =
     (if t = tb_counters (lc_tables cfg) \<and> k = event_key cfg then
        note_counted m (case open_outputs (from_item (lc_event cfg) m) of
           None \<Rightarrow> g | Some oo \<Rightarrow> g\<lparr>gh_open := Some oo\<rparr>)
      else if t = tb_prequeue (lc_tables cfg) \<and> fst k = PREQUEUE_KEY_ATTR then
        (case prequeue_from_item m of
           None \<Rightarrow> g
         | Some row \<Rightarrow> g\<lparr>gh_row := insert (snd k, unat (pq_s row), pq_l row) (gh_row g)\<rparr>)
      else if t = tb_positions (lc_tables cfg) \<and> fst k = POSITIONS_KEY_ATTR then
        (case get_u64 m QUEUE_POSITION_ATTR of
           None \<Rightarrow> g | Some p \<Rightarrow> g\<lparr>gh_pos := insert (p, snd k) (gh_pos g)\<rparr>)
      else g)"

text \<open>The \<open>n\<close> values that end at \<open>e\<close>.\<close>

definition block :: "u64 \<Rightarrow> u64 \<Rightarrow> u64 set" where
  "block e n = {x. unat e < unat x + unat n \<and> x \<le> e}"

definition up_counters ::
  "ledger_cfg \<Rightarrow> primary_key \<Rightarrow> update_clause list \<Rightarrow> item \<Rightarrow> ghost \<Rightarrow> ghost" where
  "up_counters cfg k us m g =
     (case us of
        [UAdd a (AN x)] \<Rightarrow>
          (case (parse_u64 x, get_u64 m ''queue_counter'') of
             (Some n, Some e) \<Rightarrow>
               if k = event_key cfg \<and> a = ''queue_counter''
               then g\<lparr>gh_live := gh_live g \<union> block e n\<rparr> else g
           | _ \<Rightarrow> g)
      | [USet b (AN s), UAdd a (AN x)] \<Rightarrow>
          (case (parse_uint (2 ^ 64) s, parse_u64 x, get_u64 m SHARD_COUNT_ATTR) of
             (Some s, Some n, Some e) \<Rightarrow>
               if k = shard_key cfg (Shard s) \<and> b = SHARD_INDEX_ATTR \<and> a = SHARD_COUNT_ATTR
                  \<and> n \<le> e
               then g\<lparr>gh_pq := gh_pq g \<union> {(s, l) | l. unat e \<le> unat l + unat n \<and> l < e}\<rparr>
               else g
           | _ \<Rightarrow> g)
      | _ \<Rightarrow> g)"

definition up_update ::
  "ledger_cfg \<Rightarrow> string \<Rightarrow> primary_key \<Rightarrow> update_clause list \<Rightarrow> item \<Rightarrow> ghost \<Rightarrow> ghost" where
  "up_update cfg t k us m g =
     (if t = tb_counters (lc_tables cfg) then up_counters cfg k us m g else g)"

definition up_put :: "ledger_cfg \<Rightarrow> string \<Rightarrow> item \<Rightarrow> ghost \<Rightarrow> ghost" where
  "up_put cfg t m g =
     (if t = tb_positions (lc_tables cfg) then
        (case get_u64 m QUEUE_POSITION_ATTR of
           None \<Rightarrow> g | Some p \<Rightarrow> g\<lparr>gh_live := gh_live g - {p}\<rparr>)
      else if t = tb_prequeue (lc_tables cfg) then
        (case row_slot m of None \<Rightarrow> g | Some sl \<Rightarrow> g\<lparr>gh_pq := gh_pq g - {sl}\<rparr>)
      else g)"

definition ledger_up :: "ledger_cfg \<Rightarrow> req \<Rightarrow> resp \<Rightarrow> ghost \<Rightarrow> ghost" where
  "ledger_up cfg q r g =
     (case q of
        QGet t k c \<Rightarrow> (case r of RGet (Inr (Some m)) \<Rightarrow> up_get cfg t k m g | _ \<Rightarrow> g)
      | QUpdate t k us c \<Rightarrow> (case r of RUpdate (Inr m) \<Rightarrow> up_update cfg t k us m g | _ \<Rightarrow> g)
      | QPut t m c \<Rightarrow> up_put cfg t m g
      | _ \<Rightarrow> g)"

definition ledger_ok :: "ledger_cfg \<Rightarrow> req \<Rightarrow> resp \<Rightarrow> ghost \<Rightarrow> bool" where
  "ledger_ok cfg q r g \<longleftrightarrow>
     (\<forall>n c m e. q = QUpdate (tb_counters (lc_tables cfg)) (event_key cfg) (claim_clauses n) c \<longrightarrow>
        r = RUpdate (Inr m) \<longrightarrow> get_u64 m ''queue_counter'' = Some e \<longrightarrow> n \<le> e)"

text \<open>The three tables of a deployment are different tables; what a handler owes is only
  asked of such deployments.\<close>

definition tables_ok :: "tables \<Rightarrow> bool" where
  "tables_ok tb \<longleftrightarrow> tb_counters tb \<noteq> tb_prequeue tb \<and> tb_counters tb \<noteq> tb_positions tb
     \<and> tb_prequeue tb \<noteq> tb_positions tb"

definition lwp :: "ledger_cfg \<Rightarrow> 'a prog \<Rightarrow> ('a \<Rightarrow> ghost \<Rightarrow> bool) \<Rightarrow> ghost \<Rightarrow> bool" where
  "lwp cfg p Q g \<longleftrightarrow> tables_ok (lc_tables cfg) \<longrightarrow>
     wp (ledger_ob cfg) (ledger_ok cfg) (ledger_up cfg) p Q g"

text \<open>A handler honours the ledger: it meets every obligation from any account.\<close>

definition honours :: "ledger_cfg \<Rightarrow> 'a prog \<Rightarrow> bool" where
  "honours cfg p \<longleftrightarrow> (\<forall>g. lwp cfg p (\<lambda>_ _. True) g)"

section \<open>Rules\<close>

lemma shard_key_ne: "shard_key cfg sh \<noteq> event_key cfg"
  by (simp add: shard_key_def event_key_def key_build_def)

lemma shard_key_inj: "shard_key cfg sh = shard_key cfg sh' \<longleftrightarrow> sh = sh'"
  by (simp add: shard_key_def key_build_def dec_simps shard_eq_iff)

lemma lwp_wp:
  "tables_ok (lc_tables cfg) \<Longrightarrow>
   lwp cfg p Q g = wp (ledger_ob cfg) (ledger_ok cfg) (ledger_up cfg) p Q g"
  by (simp add: lwp_def)

lemma lwpI: "(tables_ok (lc_tables cfg) \<Longrightarrow> lwp cfg p Q g) \<Longrightarrow> lwp cfg p Q g"
  by (simp add: lwp_def)

lemma lwp_fun: "tables_ok (lc_tables cfg) \<Longrightarrow>
   lwp cfg p = wp (ledger_ob cfg) (ledger_ok cfg) (ledger_up cfg) p"
  by (simp add: lwp_def fun_eq_iff)

lemma lwp_DoneI: "Q x g \<Longrightarrow> lwp cfg (Done x) Q g"
  by (simp add: lwp_def)

lemma lwp_Done [simp]: "tables_ok (lc_tables cfg) \<Longrightarrow> lwp cfg (Done x) Q g = Q x g"
  by (simp add: lwp_def)

lemma lwp_bind [simp]: "lwp cfg (bind p f) Q g = lwp cfg p (\<lambda>x. lwp cfg (f x) Q) g"
proof (cases "tables_ok (lc_tables cfg)")
  case True
  then show ?thesis
    by (simp only: lwp_fun wp_bind)
next
  case False
  then show ?thesis
    by (simp only: lwp_def simp_thms)
qed

lemma lwp_bind_ok [simp]:
  "lwp cfg (bind_ok p f) Q g =
     lwp cfg p (\<lambda>r g. case r of Inl e \<Rightarrow> lwp cfg (Done (Inl e)) Q g | Inr x \<Rightarrow> lwp cfg (f x) Q g) g"
  unfolding bind_ok_def lwp_bind
  by (rule arg_cong [where f = "\<lambda>Q. lwp cfg p Q g"]) (auto simp: fun_eq_iff split: sum.splits)

lemma lwp_mono: "lwp cfg p Q g \<Longrightarrow> (\<And>x g. Q x g \<Longrightarrow> Q' x g) \<Longrightarrow> lwp cfg p Q' g"
  by (cases "tables_ok (lc_tables cfg)") (auto simp: lwp_def elim: wp_mono)

lemma lwp_quiet [simp]:
  "lwp cfg (RandFill n h1) Q g \<longleftrightarrow> (\<forall>r. fill_ok n r \<longrightarrow> lwp cfg (h1 r) Q g)"
  "lwp cfg (NowSecs h2) Q g \<longleftrightarrow> (\<forall>r. lwp cfg (h2 r) Q g)"
  "lwp cfg (SqsSend v w h3) Q g \<longleftrightarrow> (\<forall>r. lwp cfg (h3 r) Q g)"
  "lwp cfg (KvDescribe v h4) Q g \<longleftrightarrow> (\<forall>r. lwp cfg (h4 r) Q g)"
  "lwp cfg (KvGet v w h4) Q g \<longleftrightarrow> (\<forall>r. lwp cfg (h4 r) Q g)"
  "lwp cfg (KvPut v w x y h3) Q g \<longleftrightarrow> (\<forall>r. lwp cfg (h3 r) Q g)"
  "lwp cfg (SchedGet v h5) Q g \<longleftrightarrow> (\<forall>r. lwp cfg (h5 r) Q g)"
  "lwp cfg (SchedUpdate s h3) Q g \<longleftrightarrow> (\<forall>r. lwp cfg (h3 r) Q g)"
  "lwp cfg (InvokeLambda v w h6) Q g \<longleftrightarrow> (\<forall>r. lwp cfg (h6 r) Q g)"
  "lwp cfg (BatchGetItem t ks c h7) Q g \<longleftrightarrow> (\<forall>r. lwp cfg (h7 r) Q g)"
  "lwp cfg (ExchangeCode v w h4) Q g \<longleftrightarrow> (\<forall>r. lwp cfg (h4 r) Q g)"
  by (auto simp: lwp_def wp_step_def ledger_ob_def ledger_ok_def ledger_up_def)

lemma lwp_GetItem [simp]:
  "lwp cfg (GetItem t k c h) Q g \<longleftrightarrow>
     (\<forall>e. lwp cfg (h (Inl e)) Q g) \<and> lwp cfg (h (Inr None)) Q g
     \<and> (\<forall>m. lwp cfg (h (Inr (Some m))) Q (up_get cfg t k m g))"
proof -
  have "(\<forall>r. P r) \<longleftrightarrow> (\<forall>e. P (Inl e)) \<and> P (Inr None) \<and> (\<forall>m. P (Inr (Some m)))"
    for P :: "sdk_error + item option \<Rightarrow> bool"
    by (metis sum.exhaust option.exhaust)
  then show ?thesis
    by (auto simp: lwp_def wp_step_def ledger_ob_def ledger_ok_def ledger_up_def)
qed

lemma lwp_GetItemI:
  assumes "\<And>e. tables_ok (lc_tables cfg) \<Longrightarrow> lwp cfg (h (Inl e)) Q g"
    and "tables_ok (lc_tables cfg) \<Longrightarrow> lwp cfg (h (Inr None)) Q g"
    and "\<And>m. tables_ok (lc_tables cfg) \<Longrightarrow> lwp cfg (h (Inr (Some m))) Q (up_get cfg t k m g)"
  shows "lwp cfg (GetItem t k c h) Q g"
proof (rule lwpI)
  assume t: "tables_ok (lc_tables cfg)"
  show "lwp cfg (GetItem t k c h) Q g"
    unfolding lwp_GetItem using assms [OF t] by blast
qed

lemma up_get_simps:
  assumes "tables_ok (lc_tables cfg)"
  shows "up_get cfg (tb_counters (lc_tables cfg)) (event_key cfg) m g =
      note_counted m (case open_outputs (from_item (lc_event cfg) m) of
         None \<Rightarrow> g | Some oo \<Rightarrow> g\<lparr>gh_open := Some oo\<rparr>)"
    and "fst k = PREQUEUE_KEY_ATTR \<Longrightarrow> up_get cfg (tb_prequeue (lc_tables cfg)) k m g =
      (case prequeue_from_item m of
         None \<Rightarrow> g
       | Some row \<Rightarrow> g\<lparr>gh_row := insert (snd k, unat (pq_s row), pq_l row) (gh_row g)\<rparr>)"
    and "fst k = POSITIONS_KEY_ATTR \<Longrightarrow> up_get cfg (tb_positions (lc_tables cfg)) k m g =
      (case get_u64 m QUEUE_POSITION_ATTR of
         None \<Rightarrow> g | Some p \<Rightarrow> g\<lparr>gh_pos := insert (p, snd k) (gh_pos g)\<rparr>)"
  using assms unfolding up_get_def tables_ok_def by auto

lemma lwp_PutItem:
  "(tables_ok (lc_tables cfg) \<Longrightarrow> ledger_ob cfg (QPut t m c) g) \<Longrightarrow>
   (\<And>r. tables_ok (lc_tables cfg) \<Longrightarrow> lwp cfg (h r) Q (up_put cfg t m g)) \<Longrightarrow>
   lwp cfg (PutItem t m c h) Q g"
  by (simp add: lwp_def wp_step_def ledger_ok_def ledger_up_def)

lemma lwp_DeleteItem:
  "(tables_ok (lc_tables cfg) \<Longrightarrow> ledger_ob cfg (QDelete t k b) g) \<Longrightarrow>
   (\<And>r. lwp cfg (h r) Q g) \<Longrightarrow> lwp cfg (DeleteItem t k b h) Q g"
  by (simp add: lwp_def wp_step_def ledger_ok_def ledger_up_def)

lemma lwp_UpdateItem:
  assumes "tables_ok (lc_tables cfg) \<Longrightarrow> ledger_ob cfg (QUpdate t k us c) g"
    and "\<And>e. tables_ok (lc_tables cfg) \<Longrightarrow> lwp cfg (h (Inl e)) Q g"
    and "\<And>m. tables_ok (lc_tables cfg) \<Longrightarrow>
           ledger_ok cfg (QUpdate t k us c) (RUpdate (Inr m)) g \<Longrightarrow>
           lwp cfg (h (Inr m)) Q (up_update cfg t k us m g)"
  shows "lwp cfg (UpdateItem t k us c h) Q g"
proof (rule lwpI)
  assume t: "tables_ok (lc_tables cfg)"
  have "ok \<longrightarrow> lwp cfg (h r) Q (ledger_up cfg (QUpdate t k us c) (RUpdate r) g)"
    if "ok = ledger_ok cfg (QUpdate t k us c) (RUpdate r) g" for r ok
    using assms(2,3) t that by (cases r) (auto simp: ledger_up_def)
  then show "lwp cfg (UpdateItem t k us c h) Q g"
    using assms(1) t by (simp add: lwp_wp wp_step_def)
qed

end
