(* ===== verification/Join.thy ===== *)
theory Join
  imports Ledger
begin

text \<open>
  \<open>crates/assign_position/src/\<close>: \<open>lib.rs\<close> (classification of a record, the batch router, the
  live and the pre-queue batch, the straggler fix-up), \<open>dynamo.rs\<close> (the DynamoDB store) and
  \<open>main.rs\<close> (the SQS handler).  The trait \<open>Store\<close> is the record \<open>join_store\<close> of programs, and
  \<open>dynamo_join_store\<close> is its DynamoDB implementation.  The JSON parser is the parameter
  \<open>json_join\<close>: the three string fields of a body, or \<open>None\<close> when it is not such an object; the
  validation of the digest field is the code's own and is modelled.

  Drop counts and error texts only reach the log; the counts are computed, the log lines
  are not.
\<close>

section \<open>Data\<close>

datatype store_error = StoreError string

record join_message =
  jm_request_id :: string
  jm_event_id :: string
  jm_h :: secret_digest

record batch_record =
  br_message_id :: string
  br_body :: string

record position_write =
  pw_request_id :: string
  pw_position :: u64
  pw_digest :: secret_digest

record prequeue_write =
  qw_request_id :: string
  qw_shard :: shard
  qw_local_index :: u64
  qw_digest :: secret_digest

datatype write_outcome = Written | Duplicate

record join_store =
  js_claim_block :: "string \<Rightarrow> u64 \<Rightarrow> (store_error + u64) prog"
  js_put_position :: "position_write \<Rightarrow> (store_error + write_outcome) prog"
  js_load_counters :: "string \<Rightarrow> (store_error + counters option) prog"
  js_claim_prequeue_block :: "string \<Rightarrow> shard \<Rightarrow> u64 \<Rightarrow> (store_error + u64) prog"
  js_put_prequeue :: "prequeue_write \<Rightarrow> (store_error + write_outcome) prog"
  js_registered_ids :: "string list \<Rightarrow> (store_error + string set) prog"

datatype drop_reason = BadShape | WrongEvent

record drop_counts =
  dc_bad_shape :: u64
  dc_wrong_event :: u64

definition drop_record :: "drop_counts \<Rightarrow> drop_reason \<Rightarrow> drop_counts" where
  "drop_record d reason =
     (case reason of
        BadShape \<Rightarrow> d\<lparr>dc_bad_shape := dc_bad_shape d + 1\<rparr>
      | WrongEvent \<Rightarrow> d\<lparr>dc_wrong_event := dc_wrong_event d + 1\<rparr>)"

datatype record_verdict = Accept join_message | Reject drop_reason

section \<open>Classification\<close>

type_synonym json_join = "string \<Rightarrow> (string \<times> string \<times> string) option"

text \<open>\<open>serde_json::from_str::<JoinMessage>\<close>: the digest field goes through its own parser.\<close>

definition parse_join :: "json_join \<Rightarrow> string \<Rightarrow> join_message option" where
  "parse_join json body =
     (case json body of
        None \<Rightarrow> None
      | Some (rid, ev, h) \<Rightarrow>
          (case digest_parse h of
             Inl _ \<Rightarrow> None
           | Inr d \<Rightarrow> Some \<lparr>jm_request_id = rid, jm_event_id = ev, jm_h = d\<rparr>))"

definition classify_record :: "json_join \<Rightarrow> string \<Rightarrow> string \<Rightarrow> record_verdict" where
  "classify_record json body event_id =
     (case parse_join json body of
        None \<Rightarrow> Reject BadShape
      | Some msg \<Rightarrow>
          if jm_event_id msg \<noteq> event_id then Reject WrongEvent
          else if is_uuid_shape (jm_request_id msg) then Accept msg
          else Reject BadShape)"

text \<open>The classification loop of \<open>process_batch\<close>.\<close>

fun classify_batch ::
  "json_join \<Rightarrow> string \<Rightarrow> batch_record list \<Rightarrow> (string \<times> join_message) list \<times> drop_counts \<Rightarrow>
   (string \<times> join_message) list \<times> drop_counts" where
  "classify_batch json event_id [] acc = acc"
| "classify_batch json event_id (r # rs) (valid, drops) =
     (case classify_record json (br_body r) event_id of
        Accept msg \<Rightarrow> classify_batch json event_id rs (valid @ [(br_message_id r, msg)], drops)
      | Reject reason \<Rightarrow> classify_batch json event_id rs (valid, drop_record drops reason))"

section \<open>The live path\<close>

text \<open>The write loop: \<open>offset\<close> is the loop's enumeration index, \<open>failures\<close> what the batch
  outcome holds so far.\<close>

fun live_writes ::
  "join_store \<Rightarrow> u64 \<Rightarrow> nat \<Rightarrow> (string \<times> join_message) list \<Rightarrow> string list \<Rightarrow> string list prog" where
  "live_writes st start offset [] failures = Done failures"
| "live_writes st start offset ((message_id, msg) # rest) failures =
     bind (js_put_position st
        \<lparr>pw_request_id = jm_request_id msg,
         pw_position = saturating_add start (of_nat offset),
         pw_digest = jm_h msg\<rparr>)
       (\<lambda>r. live_writes st start (offset + 1) rest
          (case r of Inl _ \<Rightarrow> failures @ [message_id] | Inr _ \<Rightarrow> failures))"

definition process_live_batch ::
  "join_store \<Rightarrow> string \<Rightarrow> (string \<times> join_message) list \<Rightarrow> string list \<Rightarrow> string list prog" where
  "process_live_batch st event_id valid failures =
     (let n = of_nat (length valid) in
      bind (js_claim_block st event_id n) (\<lambda>r.
        case r of
          Inl _ \<Rightarrow> Done (failures @ map fst valid)
        | Inr e \<Rightarrow>
            let start = saturating_add (saturating_sub e n) 1
            in live_writes st start 0 valid failures))"

section \<open>The pre-queue path\<close>

fun dedupe_batch ::
  "string set \<Rightarrow> (string \<times> join_message) list \<Rightarrow> (string \<times> join_message) list" where
  "dedupe_batch seen [] = []"
| "dedupe_batch seen ((message_id, msg) # rest) =
     (if jm_request_id msg \<in> seen then dedupe_batch seen rest
      else (message_id, msg) # dedupe_batch (insert (jm_request_id msg) seen) rest)"

definition registered_ids_or_unknown :: "join_store \<Rightarrow> string list \<Rightarrow> string set prog" where
  "registered_ids_or_unknown st ids =
     bind (js_registered_ids st ids)
       (\<lambda>r. case r of Inr found \<Rightarrow> Done found | Inl _ \<Rightarrow> Done {})"

fun prequeue_writes ::
  "join_store \<Rightarrow> shard \<Rightarrow> u64 \<Rightarrow> nat \<Rightarrow> (string \<times> join_message) list \<Rightarrow> prequeue_write list \<Rightarrow>
   string list \<Rightarrow> (prequeue_write list \<times> string list) prog" where
  "prequeue_writes st sh start offset [] written failures = Done (written, failures)"
| "prequeue_writes st sh start offset ((message_id, msg) # rest) written failures =
     (let write = \<lparr>qw_request_id = jm_request_id msg, qw_shard = sh,
                   qw_local_index = saturating_add start (of_nat offset), qw_digest = jm_h msg\<rparr>
      in bind (js_put_prequeue st write) (\<lambda>r.
           case r of
             Inr Written \<Rightarrow>
               prequeue_writes st sh start (offset + 1) rest (written @ [write]) failures
           | Inr Duplicate \<Rightarrow>
               prequeue_writes st sh start (offset + 1) rest written failures
           | Inl _ \<Rightarrow>
               prequeue_writes st sh start (offset + 1) rest written (failures @ [message_id])))"

fun straggler_writes :: "join_store \<Rightarrow> u64 \<Rightarrow> nat \<Rightarrow> prequeue_write list \<Rightarrow> unit prog" where
  "straggler_writes st start offset [] = Done ()"
| "straggler_writes st start offset (w # ws) =
     bind (js_put_position st
        \<lparr>pw_request_id = qw_request_id w,
         pw_position = saturating_add start (of_nat offset),
         pw_digest = qw_digest w\<rparr>)
       (\<lambda>_. straggler_writes st start (offset + 1) ws)"

definition is_straggler :: "open_outputs_rec \<Rightarrow> prequeue_write \<Rightarrow> bool" where
  "is_straggler opened w \<longleftrightarrow>
     (case assign (oo_offsets opened) (shard_index (qw_shard w)) (qw_local_index w) of
        AssignLiveJoin \<Rightarrow> True
      | AssignPreQueue _ \<Rightarrow> False)"

definition fixup_stragglers :: "join_store \<Rightarrow> string \<Rightarrow> prequeue_write list \<Rightarrow> unit prog" where
  "fixup_stragglers st event_id written =
     bind (js_load_counters st event_id) (\<lambda>r.
       case r of
         Inl _ \<Rightarrow> Done ()
       | Inr c \<Rightarrow>
           (case Option.bind c open_outputs of
              None \<Rightarrow> Done ()
            | Some opened \<Rightarrow>
                let stragglers = filter (is_straggler opened) written in
                if stragglers = [] then Done ()
                else
                  let n = of_nat (length stragglers) in
                  bind (js_claim_block st event_id n) (\<lambda>r.
                    case r of
                      Inl _ \<Rightarrow> Done ()
                    | Inr e \<Rightarrow>
                        let start = saturating_add (saturating_sub e n) 1
                        in straggler_writes st start 0 stragglers)))"

text \<open>The messages whose id has no row yet.\<close>

definition unregistered ::
  "string set \<Rightarrow> (string \<times> join_message) list \<Rightarrow> (string \<times> join_message) list" where
  "unregistered already_registered deduped =
     filter (\<lambda>(_, msg). jm_request_id msg \<notin> already_registered) deduped"

definition process_prequeue_batch ::
  "join_store \<Rightarrow> string \<Rightarrow> shard \<Rightarrow> (string \<times> join_message) list \<Rightarrow> string list \<Rightarrow>
   string list prog" where
  "process_prequeue_batch st event_id sh valid failures =
     (let deduped = dedupe_batch {} valid;
          ids = map (\<lambda>(_, msg). jm_request_id msg) deduped
      in bind (registered_ids_or_unknown st ids) (\<lambda>already_registered.
           let grp = unregistered already_registered deduped in
           if grp = [] then Done failures
           else
             bind (js_claim_prequeue_block st event_id sh (of_nat (length grp))) (\<lambda>r.
               case r of
                 Inl _ \<Rightarrow> Done (failures @ map fst grp)
               | Inr start \<Rightarrow>
                   bind (prequeue_writes st sh start 0 grp [] failures) (\<lambda>(written, failures).
                     if written = [] then Done failures
                     else bind (fixup_stragglers st event_id written) (\<lambda>_. Done failures)))))"

section \<open>The router\<close>

definition process_batch ::
  "json_join \<Rightarrow> join_store \<Rightarrow> string \<Rightarrow> shard \<Rightarrow> batch_record list \<Rightarrow> string list prog" where
  "process_batch json st event_id sh records =
     (case classify_batch json event_id records ([], \<lparr>dc_bad_shape = 0, dc_wrong_event = 0\<rparr>) of
        (valid, drops) \<Rightarrow>
          if valid = [] then Done []
          else bind (js_load_counters st event_id) (\<lambda>r.
            case r of
              Inl _ \<Rightarrow> Done (map fst valid)
            | Inr None \<Rightarrow> Done (map fst valid)
            | Inr (Some c) \<Rightarrow>
                if open_outputs c \<noteq> None then process_live_batch st event_id valid []
                else if ct_phase c = PreQueue then process_prequeue_batch st event_id sh valid []
                else Done (map fst valid)))"

section \<open>The DynamoDB store\<close>

definition BATCH_GET_LIMIT :: nat where
  "BATCH_GET_LIMIT = 100"

definition claim_block :: "tables \<Rightarrow> string \<Rightarrow> u64 \<Rightarrow> (store_error + u64) prog" where
  "claim_block tb event_id n =
     UpdateItem (tb_counters tb) (key_build (KEvent event_id))
       [UAdd ''queue_counter'' (AN (show_u64 n))] None (\<lambda>r.
       case r of
         Inl e \<Rightarrow> Done (Inl (StoreError (''update_item: '' @ sdk_display e)))
       | Inr attrs \<Rightarrow>
           (case get_u64 attrs ''queue_counter'' of
              Some e \<Rightarrow> Done (Inr e)
            | None \<Rightarrow> Done (Inl (StoreError ''queue_counter missing in ALL_NEW''))))"

definition put_position ::
  "tables \<Rightarrow> position_write \<Rightarrow> (store_error + write_outcome) prog" where
  "put_position tb write =
     NowSecs (\<lambda>now.
       let row = \<lparr>po_request_id = pw_request_id write, po_queue_position = pw_position write,
                  po_entry_time = now, po_status = Issued, po_h = Some (pw_digest write),
                  po_ttl = saturating_add now POSITION_TTL_SECS\<rparr>
       in PutItem (tb_positions tb) (position_to_item row) (Some (CNotExists POSITIONS_KEY_ATTR)) (\<lambda>r.
            case r of
              Inr _ \<Rightarrow> Done (Inr Written)
            | Inl (ConditionalCheckFailed _) \<Rightarrow> Done (Inr Duplicate)
            | Inl e \<Rightarrow> Done (Inl (StoreError (''put_item: '' @ sdk_display e)))))"

definition load_counters :: "tables \<Rightarrow> string \<Rightarrow> (store_error + counters option) prog" where
  "load_counters tb event_id =
     GetItem (tb_counters tb) (key_build (KEvent event_id)) True (\<lambda>r.
       case r of
         Inl e \<Rightarrow> Done (Inl (StoreError (''get_item counters: '' @ sdk_display e)))
       | Inr m \<Rightarrow> Done (Inr (map_option (from_item event_id) m)))"

definition first_local_index :: "nat \<Rightarrow> u64 \<Rightarrow> u64 \<Rightarrow> store_error + u64" where
  "first_local_index sh shard_count_after_add n =
     (case checked_sub shard_count_after_add n of
        Some l \<Rightarrow> Inr l
      | None \<Rightarrow> Inl (StoreError (''shard '' @ show_nat sh @ '' count ''
          @ show_u64 shard_count_after_add @ '' underflowed claiming '' @ show_u64 n)))"

definition claim_prequeue_block ::
  "tables \<Rightarrow> string \<Rightarrow> shard \<Rightarrow> u64 \<Rightarrow> (store_error + u64) prog" where
  "claim_prequeue_block tb event_id sh n =
     UpdateItem (tb_counters tb) (key_build (KPrequeueShard event_id sh))
       [USet SHARD_INDEX_ATTR (AN (show_nat (shard_index sh))),
        UAdd SHARD_COUNT_ATTR (AN (show_u64 n))] None (\<lambda>r.
       case r of
         Inl e \<Rightarrow> Done (Inl (StoreError (''update_item prequeue shard: '' @ sdk_display e)))
       | Inr attrs \<Rightarrow>
           (case get_u64 attrs SHARD_COUNT_ATTR of
              None \<Rightarrow> Done (Inl (StoreError ''shard count missing in ALL_NEW''))
            | Some e \<Rightarrow> Done (first_local_index (shard_index sh) e n)))"

definition put_prequeue ::
  "tables \<Rightarrow> prequeue_write \<Rightarrow> (store_error + write_outcome) prog" where
  "put_prequeue tb write =
     (if 2 ^ 8 \<le> shard_index (qw_shard write)
      then Done (Inl (StoreError (''shard '' @ show_nat (shard_index (qw_shard write)) @ '' out of range'')))
      else NowSecs (\<lambda>now.
        let row = \<lparr>pq_r = qw_request_id write, pq_s = of_nat (shard_index (qw_shard write)),
                   pq_l = qw_local_index write, pq_t = now, pq_h = Some (qw_digest write)\<rparr>
        in PutItem (tb_prequeue tb) (prequeue_to_item row)
             (Some (CNotExists (key_attr (KPrequeue (qw_request_id write))))) (\<lambda>r.
             case r of
               Inr _ \<Rightarrow> Done (Inr Written)
             | Inl (ConditionalCheckFailed _) \<Rightarrow> Done (Inr Duplicate)
             | Inl e \<Rightarrow> Done (Inl (StoreError (''put_item prequeue: '' @ sdk_display e))))))"

text \<open>\<open>slice::chunks\<close>.\<close>

function chunks :: "nat \<Rightarrow> 'a list \<Rightarrow> 'a list list" where
  "chunks n [] = []"
| "chunks n (x # xs) = (if n = 0 then [] else take n (x # xs) # chunks n (drop n (x # xs)))"
  by pat_completeness auto
termination by (relation "measure (\<lambda>(n, xs). length xs)") auto

fun registered_chunks ::
  "tables \<Rightarrow> string list list \<Rightarrow> string set \<Rightarrow> (store_error + string set) prog" where
  "registered_chunks tb [] found = Done (Inr found)"
| "registered_chunks tb (ids # rest) found =
     (if ids = [] then registered_chunks tb rest found
      else BatchGetItem (tb_prequeue tb) (map (\<lambda>i. key_build (KPrequeue i)) ids) True (\<lambda>r.
        case r of
          Inl e \<Rightarrow> Done (Inl (StoreError (''batch_get_item: '' @ sdk_display e)))
        | Inr (items, _) \<Rightarrow>
            registered_chunks tb rest
              (found \<union> set (List.map_filter (\<lambda>m. get_s m ''r'') items))))"

definition registered_ids :: "tables \<Rightarrow> string list \<Rightarrow> (store_error + string set) prog" where
  "registered_ids tb request_ids = registered_chunks tb (chunks BATCH_GET_LIMIT request_ids) {}"

definition dynamo_join_store :: "tables \<Rightarrow> join_store" where
  "dynamo_join_store tb =
     \<lparr>js_claim_block = claim_block tb, js_put_position = put_position tb,
      js_load_counters = load_counters tb, js_claim_prequeue_block = claim_prequeue_block tb,
      js_put_prequeue = put_prequeue tb, js_registered_ids = registered_ids tb\<rparr>"

section \<open>The SQS handler\<close>

record sqs_message =
  sm_message_id :: "string option"
  sm_body :: "string option"

definition record_from_sqs :: "sqs_message \<Rightarrow> batch_record option" where
  "record_from_sqs m =
     (case sm_message_id m of
        None \<Rightarrow> None
      | Some i \<Rightarrow> (case sm_body m of None \<Rightarrow> None | Some b \<Rightarrow> Some \<lparr>br_message_id = i, br_body = b\<rparr>))"

text \<open>The value is the list of item identifiers of the partial-batch response.\<close>

definition join_handle :: "json_join \<Rightarrow> tables \<Rightarrow> string \<Rightarrow> sqs_message list \<Rightarrow> string list prog" where
  "join_handle json tb event_id messages =
     (let records = List.map_filter record_from_sqs messages in
      RandFill 8 (\<lambda>filled.
        case shard_random filled of
          Inl _ \<Rightarrow> Done (map br_message_id records)
        | Inr sh \<Rightarrow> process_batch json (dynamo_join_store tb) event_id sh records))"

section \<open>The store contract\<close>

abbreviation opened :: "ghost \<Rightarrow> bool" where
  "opened g \<equiv> gh_open g \<noteq> None"

text \<open>The positions from \<open>offset\<close> on of a block of \<open>n\<close> that starts at \<open>start\<close>.\<close>

definition owns_from :: "u64 \<Rightarrow> nat \<Rightarrow> nat \<Rightarrow> u64 set \<Rightarrow> bool" where
  "owns_from start offset n own \<longleftrightarrow> unat start + n \<le> 2 ^ 64
     \<and> (\<forall>j. offset \<le> j \<longrightarrow> j < n \<longrightarrow> saturating_add start (of_nat j) \<in> own)"

lemma unat_offset_pos:
  "unat (start :: u64) + n \<le> 2 ^ 64 \<Longrightarrow> j < n \<Longrightarrow>
   unat (saturating_add start (of_nat j)) = unat start + j"
  by (simp add: u64_arith)

lemma owns_block:
  assumes "block e n \<subseteq> own" "n \<le> e"
  shows "owns_from (saturating_add (saturating_sub e n) 1) 0 (unat n) own"
proof (cases "n = 0")
  case True
  then show ?thesis
    using unat_lt2p [of "saturating_add (saturating_sub e n) 1"] by (simp add: owns_from_def less_imp_le)
next
  case False
  have lim: "unat e < 2 ^ 64" "unat n \<le> unat e" "0 < unat n"
    using assms(2) False unat_lt2p [of e] by (auto simp: word_le_nat_alt unat_gt_0)
  have "unat e - unat n < unat e" using lim by simp
  moreover have "unat e < 18446744073709551616" by simp
  ultimately have "unat e - unat n \<le> 18446744073709551614" by linarith
  with lim have st: "unat (saturating_add (saturating_sub e n) 1) = unat e - unat n + 1"
    by (simp add: u64_arith min_absorb1)
  have "saturating_add (saturating_add (saturating_sub e n) 1) (of_nat j) \<in> block e n"
    if j: "j < unat n" for j
  proof -
    have "unat e \<le> 18446744073709551615"
      using unat_u64_lt [of e] by linarith
    then have "unat (saturating_add (saturating_add (saturating_sub e n) 1) (of_nat j))
        = unat e - unat n + 1 + j"
      using unat_offset_pos [of "saturating_add (saturating_sub e n) 1" "unat n" j] st j lim by simp
    then show ?thesis
      unfolding block_def word_le_nat_alt using lim j by simp
  qed
  moreover have "unat (saturating_add (saturating_sub e n) 1) + unat n \<le> 2 ^ 64"
    using lim st by linarith
  ultimately show ?thesis
    using assms(1) by (auto simp: owns_from_def)
qed

lemma owns_next:
  assumes "owns_from start k n own" "k < n" "own' = own - {saturating_add start (of_nat k)}"
  shows "owns_from start (k + 1) n own'"
proof -
  have "saturating_add start (of_nat j) \<noteq> saturating_add start (of_nat k)"
    if "k < j" "j < n" for j
    using unat_offset_pos [of start n j] unat_offset_pos [of start n k] that assms(1,2)
    by (auto simp: owns_from_def)
  then show ?thesis
    using assms by (auto simp: owns_from_def)
qed

lemma owns_mem: "owns_from start k n own \<Longrightarrow> k < n \<Longrightarrow> saturating_add start (of_nat k) \<in> own"
  by (simp add: owns_from_def)

text \<open>
  What the batch logic relies on of any \<open>Store\<close>: a claimed block is the caller's, a write
  uses up the position or index it names whatever its outcome, and reads cost nothing.
\<close>

locale join_port =
  fixes cfg :: ledger_cfg and st :: join_store
  assumes claim_law:
    "opened g \<Longrightarrow>
     (\<And>e g'. n \<le> e \<Longrightarrow> block e n \<subseteq> gh_live g' \<Longrightarrow> Q1 (Inr e) g') \<Longrightarrow>
     (\<And>x. Q1 (Inl x) g) \<Longrightarrow>
     lwp cfg (js_claim_block st (lc_event cfg) n) Q1 g"
    and put_position_law:
    "pw_position w \<in> gh_live g \<Longrightarrow>
     (\<And>r g'. gh_live g' = gh_live g - {pw_position w} \<Longrightarrow> Q2 r g') \<Longrightarrow>
     lwp cfg (js_put_position st w) Q2 g"
    and load_law:
    "(\<And>r g'. (\<And>c. r = Inr (Some c) \<Longrightarrow> open_outputs c \<noteq> None \<Longrightarrow> opened g') \<Longrightarrow> Q3 r g') \<Longrightarrow>
     lwp cfg (js_load_counters st (lc_event cfg)) Q3 g"
    and claim_prequeue_law:
    "shard_index sh < SHARDS \<Longrightarrow>
     (\<And>s g'. owns_from s 0 (unat n) {l. (shard_index sh, l) \<in> gh_pq g'} \<Longrightarrow> Q4 (Inr s) g') \<Longrightarrow>
     (\<And>x. Q4 (Inl x) g) \<Longrightarrow>
     lwp cfg (js_claim_prequeue_block st (lc_event cfg) sh n) Q4 g"
    and put_prequeue_law:
    "(shard_index (qw_shard v), qw_local_index v) \<in> gh_pq g \<Longrightarrow> shard_index (qw_shard v) < SHARDS \<Longrightarrow>
     (\<And>r g'. gh_pq g' = gh_pq g - {(shard_index (qw_shard v), qw_local_index v)} \<Longrightarrow> Q5 r g') \<Longrightarrow>
     lwp cfg (js_put_prequeue st v) Q5 g"
    and registered_law: "(\<And>r. Q6 r g) \<Longrightarrow> lwp cfg (js_registered_ids st ids) Q6 g"
begin

lemma live_writes_ok:
  "owns_from start k (k + length valid) (gh_live g) \<Longrightarrow> (\<And>r g'. Q r g') \<Longrightarrow>
   lwp cfg (live_writes st start k valid failures) Q g"
proof (induction valid arbitrary: k failures g)
  case (Cons v valid)
  obtain message_id msg where v: "v = (message_id, msg)" by (cases v)
  show ?case
    unfolding v live_writes.simps lwp_bind
    by (rule put_position_law)
      (use Cons.prems owns_mem owns_next [OF Cons.prems(1)] in \<open>auto intro!: Cons.IH lwp_DoneI\<close>)
qed (simp add: lwp_DoneI)

lemma straggler_writes_ok:
  "owns_from start k (k + length ws) (gh_live g) \<Longrightarrow> (\<And>r g'. Q r g') \<Longrightarrow>
   lwp cfg (straggler_writes st start k ws) Q g"
proof (induction ws arbitrary: k g)
  case (Cons w ws)
  show ?case
    unfolding straggler_writes.simps lwp_bind
    by (rule put_position_law)
      (use Cons.prems owns_mem owns_next [OF Cons.prems(1)] in \<open>auto intro!: Cons.IH lwp_DoneI\<close>)
qed (simp add: lwp_DoneI)

lemma prequeue_writes_ok:
  "owns_from start k (k + length grp) {l. (shard_index sh, l) \<in> gh_pq g} \<Longrightarrow>
   shard_index sh < SHARDS \<Longrightarrow>
   (\<And>ws fs g'. length ws \<le> length written + length grp \<Longrightarrow> Q (ws, fs) g') \<Longrightarrow>
   lwp cfg (prequeue_writes st sh start k grp written failures) Q g"
proof (induction grp arbitrary: k written failures g)
  case (Cons v grp)
  obtain message_id msg where v: "v = (message_id, msg)" by (cases v)
  let ?w = "\<lparr>qw_request_id = jm_request_id msg, qw_shard = sh,
      qw_local_index = saturating_add start (of_nat k), qw_digest = jm_h msg\<rparr>"
  show ?case
    unfolding v prequeue_writes.simps lwp_bind Let_def
  proof (rule put_prequeue_law)
    fix r and g' :: ghost
    assume "gh_pq g' = gh_pq g - {(shard_index (qw_shard ?w), qw_local_index ?w)}"
    then have own': "{l. (shard_index sh, l) \<in> gh_pq g'}
        = {l. (shard_index sh, l) \<in> gh_pq g} - {saturating_add start (of_nat k)}"
      by auto
    have "owns_from start (k + 1) (k + 1 + length grp) {l. (shard_index sh, l) \<in> gh_pq g'}"
      using owns_next [OF Cons.prems(1) _ own'] by simp
    then show "lwp cfg (case r of
          Inl _ \<Rightarrow> prequeue_writes st sh start (k + 1) grp written (failures @ [message_id])
        | Inr Written \<Rightarrow> prequeue_writes st sh start (k + 1) grp (written @ [?w]) failures
        | Inr Duplicate \<Rightarrow> prequeue_writes st sh start (k + 1) grp written failures) Q g'"
      using Cons.prems(2,3)
      by (auto split: sum.split write_outcome.split intro!: Cons.IH lwp_DoneI)
  qed (use Cons.prems(2) owns_mem [OF Cons.prems(1)] in auto)
qed (simp add: lwp_DoneI)

text \<open>Counts fit the width of the machine: a batch has fewer than \<open>2 ^ 64\<close> records.\<close>

lemma claim_block_ok:
  assumes "opened g" "length xs < 2 ^ 64" "\<And>x g'. Q (Inl x) g'"
    and "\<And>e g'. owns_from (saturating_add (saturating_sub e (of_nat (length xs))) 1) 0 (length xs)
           (gh_live g') \<Longrightarrow> Q (Inr e) g'"
  shows "lwp cfg (js_claim_block st (lc_event cfg) (of_nat (length xs))) Q g"
proof (rule claim_law [OF assms(1)])
  fix e :: u64 and g' :: ghost
  assume "of_nat (length xs) \<le> e" "block e (of_nat (length xs)) \<subseteq> gh_live g'"
  from owns_block [OF this(2,1)] show "Q (Inr e) g'"
    using assms(2,4) by (simp add: unat_of_nat_small)
qed (rule assms(3))

lemma process_live_batch_ok:
  assumes "opened g" "length valid < 2 ^ 64" "\<And>r g'. Q r g'"
  shows "lwp cfg (process_live_batch st (lc_event cfg) valid failures) Q g"
  unfolding process_live_batch_def Let_def lwp_bind
  using assms by (intro claim_block_ok) (auto intro!: live_writes_ok lwp_DoneI)

lemma fixup_stragglers_ok:
  assumes "length written < 2 ^ 64" "\<And>r g'. Q r g'"
  shows "lwp cfg (fixup_stragglers st (lc_event cfg) written) Q g"
proof -
  have len: "length (filter P written) < 2 ^ 64" for P
    using assms(1) length_filter_le [of P written] by linarith
  show ?thesis
    unfolding fixup_stragglers_def lwp_bind Let_def
    using assms(2) len
    by (intro load_law)
      (auto split: sum.split option.split intro!: claim_block_ok straggler_writes_ok lwp_DoneI
        simp: bind_eq_Some_conv)
qed

lemma length_dedupe: "length (dedupe_batch seen xs) \<le> length xs"
  by (induction seen xs rule: dedupe_batch.induct) auto

lemma length_classify:
  "length (fst (classify_batch json ev rs acc)) \<le> length (fst acc) + length rs"
  by (induction json ev rs acc rule: classify_batch.induct)
    (auto split: record_verdict.split intro: le_trans)

lemma process_prequeue_batch_ok:
  assumes "length valid < 2 ^ 64" "shard_index sh < SHARDS" "\<And>r g'. Q r g'"
  shows "lwp cfg (process_prequeue_batch st (lc_event cfg) sh valid failures) Q g"
proof -
  let ?grp = "\<lambda>already. unregistered already (dedupe_batch {} valid)"
  have len: "length (?grp already) < 2 ^ 64" for already
    using assms(1) length_dedupe [of "{}" valid]
      length_filter_le [of "\<lambda>(_, msg). jm_request_id msg \<notin> already" "dedupe_batch {} valid"]
    unfolding unregistered_def by linarith
  have claim: "lwp cfg (bind (js_claim_prequeue_block st (lc_event cfg) sh (of_nat (length (?grp already))))
      (\<lambda>r. case r of
        Inl _ \<Rightarrow> Done (failures @ map fst (?grp already))
      | Inr start \<Rightarrow>
          bind (prequeue_writes st sh start 0 (?grp already) [] failures) (\<lambda>(written, failures).
            if written = [] then Done failures
            else bind (fixup_stragglers st (lc_event cfg) written) (\<lambda>_. Done failures)))) Q g'"
    for already g'
    unfolding lwp_bind
    using assms(2,3) len [of already]
    by (intro claim_prequeue_law)
      (auto simp: unat_of_nat_small intro!: prequeue_writes_ok fixup_stragglers_ok lwp_DoneI)
  have body: "lwp cfg (if ?grp already = [] then Done failures else
      bind (js_claim_prequeue_block st (lc_event cfg) sh (of_nat (length (?grp already))))
        (\<lambda>r. case r of
          Inl _ \<Rightarrow> Done (failures @ map fst (?grp already))
        | Inr start \<Rightarrow>
            bind (prequeue_writes st sh start 0 (?grp already) [] failures) (\<lambda>(written, failures).
              if written = [] then Done failures
              else bind (fixup_stragglers st (lc_event cfg) written) (\<lambda>_. Done failures)))) Q g'"
    for already g'
    using claim assms(3) by (cases "?grp already = []") (simp_all add: lwp_DoneI)
  show ?thesis
    unfolding process_prequeue_batch_def registered_ids_or_unknown_def Let_def lwp_bind
    by (rule registered_law, simp only: split: sum.split) (intro conjI allI impI lwp_DoneI body)
qed

lemma process_batch_ok:
  assumes "length records < 2 ^ 64" "shard_index sh < SHARDS" "\<And>r g'. Q r g'"
  shows "lwp cfg (process_batch json st (lc_event cfg) sh records) Q g"
proof -
  obtain valid drops where v:
    "classify_batch json (lc_event cfg) records ([], \<lparr>dc_bad_shape = 0, dc_wrong_event = 0\<rparr>) = (valid, drops)"
    by fastforce
  then have len: "length valid < 2 ^ 64"
    using assms(1) length_classify
      [of json "lc_event cfg" records "([], \<lparr>dc_bad_shape = 0, dc_wrong_event = 0\<rparr>)"]
    by simp
  show ?thesis
    unfolding process_batch_def v prod.case
    using assms(2,3) len
    by (auto split: sum.split option.split
        intro!: load_law process_live_batch_ok process_prequeue_batch_ok lwp_DoneI)
qed

end

section \<open>The DynamoDB store meets the contract\<close>

lemma ledger_ok_claim:
  "ledger_ok cfg (QUpdate (tb_counters (lc_tables cfg)) (event_key cfg) (claim_clauses n) c) (RUpdate (Inr m)) g \<Longrightarrow>
   get_u64 m ''queue_counter'' = Some e \<Longrightarrow> n \<le> e"
  unfolding ledger_ok_def by blast

lemma claim_block_law:
  assumes "opened g"
    and "\<And>e g'. n \<le> e \<Longrightarrow> block e n \<subseteq> gh_live g' \<Longrightarrow> Q (Inr e) g'" "\<And>x. Q (Inl x) g"
  shows "lwp cfg (claim_block (lc_tables cfg) (lc_event cfg) n) Q g"
  unfolding claim_block_def event_key_def [symmetric] claim_clauses_def [symmetric]
proof (rule lwp_UpdateItem)
  assume t: "tables_ok (lc_tables cfg)"
  show "ledger_ob cfg (QUpdate (tb_counters (lc_tables cfg)) (event_key cfg) (claim_clauses n) None) g"
    using assms(1) t shard_key_ne [of cfg, symmetric]
    by (auto simp: ledger_ob_def counters_update_ob_def event_update_ob_def tables_ok_def)
next
  fix m
  assume t: "tables_ok (lc_tables cfg)"
    and ok: "ledger_ok cfg (QUpdate (tb_counters (lc_tables cfg)) (event_key cfg) (claim_clauses n) None)
      (RUpdate (Inr m)) g"
  show "lwp cfg (case Inr m of
         Inl e \<Rightarrow> Done (Inl (StoreError (''update_item: '' @ sdk_display e)))
       | Inr attrs \<Rightarrow> (case get_u64 attrs ''queue_counter'' of
              None \<Rightarrow> Done (Inl (StoreError ''queue_counter missing in ALL_NEW''))
            | Some e \<Rightarrow> Done (Inr e)))
     Q (up_update cfg (tb_counters (lc_tables cfg)) (event_key cfg) (claim_clauses n) m g)"
    using assms(2,3) ledger_ok_claim [OF ok]
    by (cases "get_u64 m ''queue_counter''")
      (auto simp: up_update_def up_counters_def claim_clauses_def dec_simps intro!: lwp_DoneI)
qed (simp add: assms(3) lwp_DoneI)

lemma put_position_law':
  assumes "pw_position w \<in> gh_live g" "\<And>r g'. gh_live g' = gh_live g - {pw_position w} \<Longrightarrow> Q r g'"
  shows "lwp cfg (put_position (lc_tables cfg) w) Q g"
  using assms
  by (auto simp: put_position_def Let_def ledger_ob_def put_position_ob_def tables_ok_def up_put_def
      QUEUE_POSITION_ATTR_def
      intro!: lwp_PutItem lwp_DoneI exI split: sum.split sdk_error.split)

lemma load_counters_law:
  assumes "\<And>r g'. (\<And>c. r = Inr (Some c) \<Longrightarrow> open_outputs c \<noteq> None \<Longrightarrow> opened g') \<Longrightarrow> Q r g'"
  shows "lwp cfg (load_counters (lc_tables cfg) (lc_event cfg)) Q g"
  unfolding load_counters_def event_key_def [symmetric]
  by (auto intro!: lwp_DoneI assms simp: up_get_def)

lemma owns_local_block:
  assumes "n \<le> e"
  shows "owns_from (e - n) 0 (unat n) {l. unat e \<le> unat l + unat n \<and> l < e}"
proof -
  have le: "unat n \<le> unat e" "unat (e - n) = unat e - unat n"
    using assms by (simp_all add: word_le_nat_alt u64_arith)
  moreover have "unat e \<le> 2 ^ 64"
    using unat_lt2p [of e] by (simp add: less_imp_le)
  ultimately have "unat (e - n) + unat n \<le> 2 ^ 64"
    by linarith
  moreover from this have "unat (saturating_add (e - n) (of_nat j :: u64)) = unat e - unat n + j"
    if "j < unat n" for j
    using that unat_offset_pos le(2) by metis
  ultimately show ?thesis
    using le by (auto simp: owns_from_def word_less_nat_alt)
qed

lemma claim_prequeue_block_law:
  assumes "shard_index sh < SHARDS"
    and "\<And>s g'. owns_from s 0 (unat n) {l. (shard_index sh, l) \<in> gh_pq g'} \<Longrightarrow> Q (Inr s) g'"
    and "\<And>x. Q (Inl x) g"
  shows "lwp cfg (claim_prequeue_block (lc_tables cfg) (lc_event cfg) sh n) Q g"
  unfolding claim_prequeue_block_def shard_key_def [symmetric] shard_claim_clauses_def [symmetric]
proof (rule lwp_UpdateItem)
  assume t: "tables_ok (lc_tables cfg)"
  show "ledger_ob cfg (QUpdate (tb_counters (lc_tables cfg)) (shard_key cfg sh)
      (shard_claim_clauses sh n) None) g"
    using t shard_key_ne [of cfg]
    by (auto simp: ledger_ob_def counters_update_ob_def tables_ok_def shard_key_inj)
next
  fix m
  let ?g = "up_update cfg (tb_counters (lc_tables cfg)) (shard_key cfg sh)
      (shard_claim_clauses sh n) m g"
  have par: "parse_uint (2 ^ 64) (show_nat (shard_index sh)) = Some (shard_index sh)"
    "Shard (shard_index sh) = sh"
    using assms(1) by (cases sh; simp add: dec_simps SHARDS_def)+
  have grow: "gh_pq ?g = gh_pq g \<union> {(shard_index sh, l) | l. unat e \<le> unat l + unat n \<and> l < e}"
    if "get_u64 m SHARD_COUNT_ATTR = Some e" "n \<le> e" for e
    using that par by (simp add: up_update_def up_counters_def shard_claim_clauses_def dec_simps)
  show "lwp cfg (case Inr m of
         Inl e \<Rightarrow> Done (Inl (StoreError (''update_item prequeue shard: '' @ sdk_display e)))
       | Inr attrs \<Rightarrow> (case get_u64 attrs SHARD_COUNT_ATTR of
              None \<Rightarrow> Done (Inl (StoreError ''shard count missing in ALL_NEW''))
            | Some e \<Rightarrow> Done (first_local_index (shard_index sh) e n))) Q ?g"
  proof (cases "get_u64 m SHARD_COUNT_ATTR")
    case None
    then have "?g = g"
      by (simp add: up_update_def up_counters_def shard_claim_clauses_def split: option.split)
    with None show ?thesis
      using assms(3) by (simp add: lwp_DoneI)
  next
    case (Some e)
    show ?thesis
    proof (cases "n \<le> e")
      case True
      have "owns_from (e - n) 0 (unat n) {l. (shard_index sh, l) \<in> gh_pq ?g}"
        using owns_local_block [OF True] grow [OF Some True] by (auto simp: owns_from_def)
      with Some True show ?thesis
        using assms(2) by (auto simp: first_local_index_def checked_sub_def intro!: lwp_DoneI)
    next
      case False
      then have "?g = g"
        using Some by (simp add: up_update_def up_counters_def shard_claim_clauses_def dec_simps split: option.split)
      with Some False show ?thesis
        using assms(3) by (auto simp: first_local_index_def checked_sub_def intro!: lwp_DoneI)
    qed
  qed
qed (simp add: assms(3) lwp_DoneI)

lemma put_prequeue_law':
  assumes "(shard_index (qw_shard v), qw_local_index v) \<in> gh_pq g"
    and "shard_index (qw_shard v) < SHARDS"
    and "\<And>r g'. gh_pq g' = gh_pq g - {(shard_index (qw_shard v), qw_local_index v)} \<Longrightarrow> Q r g'"
  shows "lwp cfg (put_prequeue (lc_tables cfg) v) Q g"
proof -
  have "unat (of_nat (shard_index (qw_shard v)) :: u8) = shard_index (qw_shard v)"
    using assms(2) by (simp add: SHARDS_def unat_of_nat_small)
  then show ?thesis
    using assms
    by (auto simp: put_prequeue_def Let_def ledger_ob_def put_prequeue_ob_def tables_ok_def up_put_def
        SHARDS_def intro!: lwp_PutItem lwp_DoneI exI split: sum.split sdk_error.split)
qed

lemma registered_ids_law:
  assumes "\<And>r. Q r g"
  shows "lwp cfg (registered_ids (lc_tables cfg) ids) Q g"
proof -
  have "lwp cfg (registered_chunks (lc_tables cfg) cs found) Q g" for cs found
    using assms
    by (induction "lc_tables cfg" cs found rule: registered_chunks.induct)
      (auto intro!: lwp_DoneI split: sum.split)
  then show ?thesis
    by (simp add: registered_ids_def)
qed

interpretation djs: join_port cfg "dynamo_join_store (lc_tables cfg)" for cfg
  by unfold_locales
    (auto simp: dynamo_join_store_def intro: claim_block_law put_position_law' load_counters_law
      claim_prequeue_block_law put_prequeue_law' registered_ids_law)

lemma join_handle_honours:
  assumes "length messages < 2 ^ 64"
  shows "honours cfg (join_handle json (lc_tables cfg) (lc_event cfg) messages)"
proof -
  have "length (List.map_filter record_from_sqs messages) < 2 ^ 64"
    using le_less_trans [OF length_filter_le assms]
    by (simp add: map_filter_def comp_def)
  then show ?thesis
    unfolding honours_def join_handle_def Let_def
    by (auto intro!: lwp_DoneI djs.process_batch_ok split: sum.split dest: shard_random_in_range)
qed

end
