(* ===== verification/Http.thy ===== *)
theory Http
  imports Prelude
begin

text \<open>
  What the handlers see of an HTTP request and what they answer.  Routing, header and query
  decoding (\<open>lambda_http\<close>) and JSON text (\<open>serde_json\<close>) are third-party code: a request is
  what their accessors return, a JSON value is a tree, and the parser is a parameter where a
  handler needs it.
\<close>

datatype json =
    JNull
  | JBool bool
  | JNum u64
  | JNumber string \<comment> \<open>any other number, by its text\<close>
  | JStr string
  | JArr "json list"
  | JObj "(string \<times> json) list"

type_synonym json_parser = "string \<Rightarrow> json option"

text \<open>\<open>Value::get\<close> on an object (keys of a parsed object are unique) and \<open>Value::as_str\<close>.\<close>

definition json_get :: "json \<Rightarrow> string \<Rightarrow> json option" where
  "json_get j k = (case j of JObj fs \<Rightarrow> map_of fs k | _ \<Rightarrow> None)"

definition json_str :: "json \<Rightarrow> string option" where
  "json_str j = (case j of JStr s \<Rightarrow> Some s | _ \<Rightarrow> None)"

text \<open>A request: first value of a query parameter, visible-text header value, body text
  (\<open>None\<close> when it is not UTF-8), path and method.\<close>

record http_request =
  rq_method :: string
  rq_path :: string
  rq_query :: "string \<Rightarrow> string option"
  rq_header :: "string \<Rightarrow> string option"
  rq_body :: "string option"

record http_response =
  rs_status :: nat
  rs_headers :: "(string \<times> string) list"
  rs_body :: json

text \<open>ASCII lower-casing of \<open>str::trim\<close> input is not needed: header values are visible text,
  where the only white space is ASCII.\<close>

definition is_space :: "char \<Rightarrow> bool" where
  "is_space c \<longleftrightarrow> (let k = of_char c :: nat in (9 \<le> k \<and> k \<le> 13) \<or> k = 32)"

definition trim :: "string \<Rightarrow> string" where
  "trim s = rev (dropWhile is_space (rev (dropWhile is_space s)))"

text \<open>\<open>str::rsplit_once\<close> and \<open>str::split_once\<close> with a character.\<close>

definition split_once :: "char \<Rightarrow> string \<Rightarrow> (string \<times> string) option" where
  "split_once c s = (if c \<in> set s
     then Some (takeWhile (\<lambda>x. x \<noteq> c) s, tl (dropWhile (\<lambda>x. x \<noteq> c) s)) else None)"

definition rsplit_once :: "char \<Rightarrow> string \<Rightarrow> (string \<times> string) option" where
  "rsplit_once c s =
     map_option (\<lambda>(a, b). (rev b, rev a)) (split_once c (rev s))"

lemma split_once_None: "split_once c s = None \<longleftrightarrow> c \<notin> set s"
  by (simp add: split_once_def)

lemma split_once_append:
  assumes "c \<notin> set a"
  shows "split_once c (a @ c # b) = Some (a, b)"
proof -
  have "takeWhile (\<lambda>x. x \<noteq> c) (a @ c # b) = a" "dropWhile (\<lambda>x. x \<noteq> c) (a @ c # b) = c # b"
    using assms by (induction a) auto
  then show ?thesis
    by (simp add: split_once_def)
qed

lemma split_once_SomeD:
  assumes "split_once c s = Some (a, b)"
  shows "s = a @ c # b \<and> c \<notin> set a"
proof -
  have "c \<in> set s"
    using assms split_once_None [of c s] by auto
  then obtain x y where s: "s = x @ c # y" "c \<notin> set x"
    by (meson split_list_first)
  then have "x = a" "y = b"
    using assms split_once_append [OF s(2), of y] by simp_all
  with s show ?thesis by simp
qed

lemma split_once_Some: "split_once c s = Some (a, b) \<longleftrightarrow> s = a @ c # b \<and> c \<notin> set a"
  using split_once_SomeD split_once_append by metis

lemma rsplit_once_SomeD:
  assumes "rsplit_once c s = Some (a, b)"
  shows "s = a @ c # b \<and> c \<notin> set b"
proof -
  obtain x y where xy: "split_once c (rev s) = Some (x, y)" "a = rev y" "b = rev x"
    using assms by (auto simp: rsplit_once_def)
  have "s = rev (x @ c # y)"
    using split_once_SomeD [OF xy(1)] by (metis rev_rev_ident)
  then show ?thesis
    using split_once_SomeD [OF xy(1)] xy by simp
qed

end
