(* ===== verification/Admission.thy ===== *)
theory Admission
  imports Ledger Http
begin

text \<open>
  \<open>crates/generate_token/src/\<close>: the admission decision (\<open>decide\<close>), the whole admission
  (\<open>admit\<close>: load, decide, claim, count the arrival, sign), the DynamoDB store and the HTTP
  handler.  The trait \<open>Store\<close> is the record \<open>admission_store\<close>.  Library parameters are
  grouped in \<open>crypto_env\<close>: HMAC, base64url, SHA-256 and the JWT functions.

  Lemmas: a grant needs possession, an admitting event and a position that was reached, on
  every branch (\<open>decide_grant_iff\<close>); one call counts at most one arrival and none when the
  admission was claimed before; the handler honours the ledger.
\<close>

section \<open>Data\<close>

record crypto_env =
  ce_hmac :: hmac_sha256
  ce_b64 :: base64url
  ce_sha :: sha256_b64url
  ce_jwt :: jwt_lib

definition DEFAULT_SESSION_TTL_SECS :: u64 where
  "DEFAULT_SESSION_TTL_SECS = 3600"

datatype token_error = TokenError string

record position_row =
  pr_position :: u64
  pr_status :: position_status
  pr_digest :: "secret_digest option"

datatype admission_claim = ClaimFirst | ClaimRepeat

datatype denied =
    NotRegistered
  | NotAdmitting
  | DNotOpen
  | StillQueued u64 u64
  | Corrupt
  | NotHolder

record grant =
  gr_position :: u64
  gr_digest :: secret_digest

record minting =
  mi_key :: signing_key
  mi_event_id :: string
  mi_session_ttl_secs :: u64

datatype admission =
    AdmissionAdmitted u64 u64 string
  | AdmissionRefused denied
  | AdmissionEventNotFound
  | AdmissionSignFailed

record admission_store =
  as_load_counters :: "string \<Rightarrow> (token_error + counters option) prog"
  as_load_prequeue :: "string \<Rightarrow> (token_error + prequeue_item option) prog"
  as_load_position :: "string \<Rightarrow> (token_error + position_row option) prog"
  as_claim_admission :: "string \<Rightarrow> u64 \<Rightarrow> secret_digest \<Rightarrow> u64 \<Rightarrow> (token_error + admission_claim) prog"
  as_record_arrival :: "string \<Rightarrow> shard \<Rightarrow> (token_error + unit) prog"

section \<open>The decision\<close>

definition resolve_position ::
  "hmac_sha256 \<Rightarrow> counters \<Rightarrow> prequeue_item option \<Rightarrow> position_row option \<Rightarrow> denied + u64" where
  "resolve_position hmac c prequeue position_row =
     (case position_row of
        Some row \<Rightarrow>
          (case pr_status row of Issued \<Rightarrow> Inr (pr_position row) | Admitted \<Rightarrow> Inr (pr_position row))
      | None \<Rightarrow>
          (case prequeue of
             None \<Rightarrow> Inl NotRegistered
           | Some row \<Rightarrow>
               (case resolve_prequeue hmac c row of
                  Inr (RPreQueue p) \<Rightarrow> Inr p
                | Inr RLiveJoin \<Rightarrow> Inl NotRegistered
                | Inl NotOpen \<Rightarrow> Inl DNotOpen
                | Inl BadShard \<Rightarrow> Inl Corrupt)))"

definition decide ::
  "hmac_sha256 \<Rightarrow> sha256_b64url \<Rightarrow> counters \<Rightarrow> prequeue_item option \<Rightarrow> position_row option \<Rightarrow>
   possession_secret \<Rightarrow> u64 \<Rightarrow> denied + grant" where
  "decide hmac sha c prequeue position_row presented now =
     (case (case (position_row, prequeue) of
              (Some row, _) \<Rightarrow> Inr (pr_digest row)
            | (None, Some row) \<Rightarrow> Inr (pq_h row)
            | (None, None) \<Rightarrow> Inl NotRegistered) of
        Inl d \<Rightarrow> Inl d
      | Inr stored \<Rightarrow>
          (case (case stored of
                   Some d \<Rightarrow> if is_digest_of sha d presented then Some d else None
                 | None \<Rightarrow> None) of
             None \<Rightarrow> Inl NotHolder
           | Some digest \<Rightarrow>
               if (case resolve (ct_stored_control c) (ct_fail_open_until c) now of
                     AcOpen \<Rightarrow> False | AcPaused \<Rightarrow> True | AcFailOpen \<Rightarrow> True)
               then Inl NotAdmitting
               else if ct_phase c \<noteq> Active then Inl NotAdmitting
               else
                 (case resolve_position hmac c prequeue position_row of
                    Inl d \<Rightarrow> Inl d
                  | Inr position \<Rightarrow>
                      if ct_serving_counter c \<le> position
                      then Inl (StillQueued position (ct_serving_counter c))
                      else Inr \<lparr>gr_position = position, gr_digest = digest\<rparr>)))"

section \<open>The admission\<close>

text \<open>Counting the arrival of a first admission: failures are logged and swallowed.\<close>

definition count_arrival :: "admission_store \<Rightarrow> string \<Rightarrow> admission_claim \<Rightarrow> unit prog" where
  "count_arrival st event_id claim =
     (case claim of
        ClaimFirst \<Rightarrow>
          RandFill 8 (\<lambda>filled.
            case shard_random filled of
              Inr sh \<Rightarrow> bind (as_record_arrival st event_id sh) (\<lambda>_. Done ())
            | Inl _ \<Rightarrow> Done ())
      | ClaimRepeat \<Rightarrow> Done ())"

text \<open>The signed session of a granted admission.\<close>

definition sign_admission ::
  "crypto_env \<Rightarrow> minting \<Rightarrow> string \<Rightarrow> string option \<Rightarrow> u64 \<Rightarrow> grant \<Rightarrow> admission" where
  "sign_admission env m request_id viewer_ip now grant =
     (let expires_at = saturating_add now (mi_session_ttl_secs m);
          session = \<lparr>se_event_id = mi_event_id m, se_request_id = request_id,
            se_issued_at = now, se_expires_at = expires_at,
            se_ip_tag = Option.bind viewer_ip (ip_tag (ce_hmac env) (ce_b64 env) (mi_key m))\<rparr>
      in case session_sign (ce_jwt env) session (mi_key m) of
           Inl _ \<Rightarrow> AdmissionSignFailed
         | Inr credential \<Rightarrow> AdmissionAdmitted (gr_position grant) expires_at credential)"

text \<open>The part of \<open>admit\<close> after a positive decision: claim, count, sign.\<close>

definition admit_granted ::
  "crypto_env \<Rightarrow> admission_store \<Rightarrow> minting \<Rightarrow> string \<Rightarrow> string option \<Rightarrow> u64 \<Rightarrow> grant \<Rightarrow>
   (token_error + admission) prog" where
  "admit_granted env st m request_id viewer_ip now grant =
     bind (as_claim_admission st request_id (gr_position grant) (gr_digest grant) now) (\<lambda>r.
     bind (count_arrival st (mi_event_id m) (case r of Inr claim \<Rightarrow> claim | Inl _ \<Rightarrow> ClaimFirst)) (\<lambda>_.
       Done (Inr (sign_admission env m request_id viewer_ip now grant))))"

text \<open>The part of \<open>admit\<close> after the rows were read, and the part after the counters were.\<close>

definition admit_decided ::
  "crypto_env \<Rightarrow> admission_store \<Rightarrow> minting \<Rightarrow> string \<Rightarrow> possession_secret \<Rightarrow> string option \<Rightarrow> u64 \<Rightarrow>
   counters \<Rightarrow> position_row option \<Rightarrow> prequeue_item option \<Rightarrow> (token_error + admission) prog" where
  "admit_decided env st m request_id secret viewer_ip now c position_row prequeue =
     (case decide (ce_hmac env) (ce_sha env) c prequeue position_row secret now of
        Inl denied \<Rightarrow> Done (Inr (AdmissionRefused denied))
      | Inr grant \<Rightarrow> admit_granted env st m request_id viewer_ip now grant)"

definition admit_loaded ::
  "crypto_env \<Rightarrow> admission_store \<Rightarrow> minting \<Rightarrow> string \<Rightarrow> possession_secret \<Rightarrow> string option \<Rightarrow> u64 \<Rightarrow>
   counters \<Rightarrow> (token_error + admission) prog" where
  "admit_loaded env st m request_id secret viewer_ip now c =
     bind_ok (as_load_position st request_id) (\<lambda>position_row.
     bind_ok (if position_row = None then as_load_prequeue st request_id else Done (Inr None))
       (admit_decided env st m request_id secret viewer_ip now c position_row))"

definition admit ::
  "crypto_env \<Rightarrow> admission_store \<Rightarrow> minting \<Rightarrow> string \<Rightarrow> possession_secret \<Rightarrow> string option \<Rightarrow> u64 \<Rightarrow>
   (token_error + admission) prog" where
  "admit env st m request_id secret viewer_ip now =
     bind_ok (as_load_counters st (mi_event_id m)) (\<lambda>loaded.
       case loaded of
         None \<Rightarrow> Done (Inr AdmissionEventNotFound)
       | Some c \<Rightarrow> admit_loaded env st m request_id secret viewer_ip now c)"

definition session_set_cookie :: "string \<Rightarrow> string \<Rightarrow> u64 \<Rightarrow> string" where
  "session_set_cookie name credential ttl_secs =
     name @ ''='' @ credential @ ''; Path=/; Max-Age='' @ show_u64 ttl_secs
       @ ''; Secure; HttpOnly; SameSite=Lax''"

definition viewer_ip_of :: "string \<Rightarrow> string option" where
  "viewer_ip_of header =
     (case rsplit_once (CHR '':'') (trim header) of
        None \<Rightarrow> None
      | Some (ip, port) \<Rightarrow>
          if ip \<noteq> [] \<and> port \<noteq> [] \<and> list_all is_ascii_digit port then Some ip else None)"

section \<open>The DynamoDB store\<close>

definition token_load_counters :: "tables \<Rightarrow> string \<Rightarrow> (token_error + counters option) prog" where
  "token_load_counters tb event_id =
     GetItem (tb_counters tb) (key_build (KEvent event_id)) True (\<lambda>r.
       case r of
         Inl e \<Rightarrow> Done (Inl (TokenError (''get_item counters: '' @ sdk_display e)))
       | Inr m \<Rightarrow> Done (Inr (map_option (from_item event_id) m)))"

definition token_load_prequeue :: "tables \<Rightarrow> string \<Rightarrow> (token_error + prequeue_item option) prog" where
  "token_load_prequeue tb request_id =
     GetItem (tb_prequeue tb) (''r'', request_id) False (\<lambda>r.
       case r of
         Inl e \<Rightarrow> Done (Inl (TokenError (''get_item prequeue: '' @ sdk_display e)))
       | Inr None \<Rightarrow> Done (Inr None)
       | Inr (Some m) \<Rightarrow>
           (case prequeue_from_item m of
              Some row \<Rightarrow> Done (Inr (Some row))
            | None \<Rightarrow> Done (Inl (TokenError ''decode prequeue''))))"

definition status_of :: "string \<Rightarrow> position_status option" where
  "status_of wire =
     (if wire = ''issued'' then Some Issued else if wire = ''admitted'' then Some Admitted else None)"

definition token_position_from_item :: "item \<Rightarrow> position_row option" where
  "token_position_from_item m =
     Option.bind (get_u64 m QUEUE_POSITION_ATTR) (\<lambda>position.
     Option.bind (Option.bind (get_s m STATUS_ATTR) status_of) (\<lambda>status.
       Some \<lparr>pr_position = position, pr_status = status,
             pr_digest = Option.bind (get_s m POSSESSION_DIGEST_ATTR)
               (\<lambda>s. case digest_parse s of Inr d \<Rightarrow> Some d | Inl _ \<Rightarrow> None)\<rparr>))"

definition token_load_position :: "tables \<Rightarrow> string \<Rightarrow> (token_error + position_row option) prog" where
  "token_load_position tb request_id =
     GetItem (tb_positions tb) (key_build (KPosition request_id)) True (\<lambda>r.
       case r of
         Inl e \<Rightarrow> Done (Inl (TokenError (''get_item positions: '' @ sdk_display e)))
       | Inr m \<Rightarrow> Done (Inr (Option.bind m token_position_from_item)))"

definition claim_clauses_of :: "u64 \<Rightarrow> secret_digest \<Rightarrow> u64 \<Rightarrow> update_clause list" where
  "claim_clauses_of position digest now =
     [USet STATUS_ATTR (AS (status_wire Admitted)),
      USet QUEUE_POSITION_ATTR (AN (show_u64 position)),
      USetIfNotExists ENTRY_TIME_ATTR (AN (show_u64 now)),
      USetIfNotExists POSSESSION_DIGEST_ATTR (AS (digest_as_str digest)),
      USet POSITIONS_TTL_ATTR (AN (show_u64 (saturating_add now POSITION_TTL_SECS)))]"

definition claim_guard :: condition where
  "claim_guard = COr (CNotExists POSITIONS_KEY_ATTR) (CEq STATUS_ATTR (AS (status_wire Issued)))"

definition claim_admission ::
  "tables \<Rightarrow> string \<Rightarrow> u64 \<Rightarrow> secret_digest \<Rightarrow> u64 \<Rightarrow> (token_error + admission_claim) prog" where
  "claim_admission tb request_id position digest now =
     UpdateItem (tb_positions tb) (key_build (KPosition request_id))
       (claim_clauses_of position digest now) (Some claim_guard) (\<lambda>r.
       case r of
         Inr _ \<Rightarrow> Done (Inr ClaimFirst)
       | Inl (ConditionalCheckFailed _) \<Rightarrow> Done (Inr ClaimRepeat)
       | Inl e \<Rightarrow> Done (Inl (TokenError (''update_item claim admission: '' @ sdk_display e))))"

definition record_arrival :: "tables \<Rightarrow> string \<Rightarrow> shard \<Rightarrow> (token_error + unit) prog" where
  "record_arrival tb event_id sh =
     UpdateItem (tb_counters tb) (key_build (KArrivalsShard event_id sh))
       [USet SHARD_INDEX_ATTR (AN (show_nat (shard_index sh))), UAdd SHARD_COUNT_ATTR (AN ''1'')]
       None (\<lambda>r.
       case r of
         Inl e \<Rightarrow> Done (Inl (TokenError (''update_item arrivals: '' @ sdk_display e)))
       | Inr _ \<Rightarrow> Done (Inr ()))"

definition dynamo_admission_store :: "tables \<Rightarrow> admission_store" where
  "dynamo_admission_store tb =
     \<lparr>as_load_counters = token_load_counters tb, as_load_prequeue = token_load_prequeue tb,
      as_load_position = token_load_position tb, as_claim_admission = claim_admission tb,
      as_record_arrival = record_arrival tb\<rparr>"

section \<open>The HTTP handler\<close>

record token_state =
  ts_key :: signing_key
  ts_event_id :: string
  ts_session_cookie_name :: string
  ts_session_ttl_secs :: u64

definition json_response :: "nat \<Rightarrow> json \<Rightarrow> http_response" where
  "json_response status body =
     \<lparr>rs_status = status,
      rs_headers = [(''content-type'', ''application/json''), (''cache-control'', ''no-store'')],
      rs_body = body\<rparr>"

definition body_field :: "json_parser \<Rightarrow> http_request \<Rightarrow> string \<Rightarrow> string option" where
  "body_field parse req k =
     Option.bind (rq_body req) (\<lambda>body.
     Option.bind (parse body) (\<lambda>parsed.
     Option.bind (json_get parsed k) json_str))"

definition token_request_id :: "json_parser \<Rightarrow> http_request \<Rightarrow> string option" where
  "token_request_id parse req =
     (case rq_query req ''request_id'' of
        Some i \<Rightarrow> Some i
      | None \<Rightarrow> body_field parse req ''request_id'')"

definition token_possession_secret :: "json_parser \<Rightarrow> http_request \<Rightarrow> possession_secret option" where
  "token_possession_secret parse req =
     (case body_field parse req ''secret'' of
        None \<Rightarrow> None
      | Some raw \<Rightarrow> (case possession_parse raw of Inr s \<Rightarrow> Some s | Inl _ \<Rightarrow> None))"

fun denied_display :: "denied \<Rightarrow> string" where
  "denied_display NotRegistered = ''not registered''"
| "denied_display NotAdmitting = ''event is not admitting''"
| "denied_display DNotOpen = ''event not yet open''"
| "denied_display (StillQueued position serving) =
     ''still queued at '' @ show_u64 position @ '', now serving '' @ show_u64 serving"
| "denied_display Corrupt = ''corrupt registration''"
| "denied_display NotHolder = ''not the holder of this place in line''"

fun refusal_status :: "denied \<Rightarrow> nat" where
  "refusal_status (StillQueued _ _) = 425"
| "refusal_status NotAdmitting = 409"
| "refusal_status DNotOpen = 409"
| "refusal_status NotRegistered = 404"
| "refusal_status NotHolder = 403"
| "refusal_status Corrupt = 500"

definition refusal :: "denied \<Rightarrow> http_response" where
  "refusal denied =
     (let payload = [(''admitted'', JBool False), (''error'', JStr (denied_display denied))];
          payload = (case denied of
              StillQueued position serving \<Rightarrow>
                payload @ [(''position'', JNum position), (''serving_position'', JNum serving)]
            | _ \<Rightarrow> payload)
      in json_response (refusal_status denied) (JObj payload))"

definition token_handle ::
  "crypto_env \<Rightarrow> json_parser \<Rightarrow> admission_store \<Rightarrow> token_state \<Rightarrow> http_request \<Rightarrow>
   (token_error + http_response) prog" where
  "token_handle env parse st state req =
     (case token_request_id parse req of
        None \<Rightarrow> Done (Inr (json_response 400 (JObj [(''error'', JStr ''request_id required'')])))
      | Some request_id \<Rightarrow>
          (case token_possession_secret parse req of
             None \<Rightarrow> Done (Inr (json_response 400 (JObj [(''error'', JStr ''secret required'')])))
           | Some secret \<Rightarrow>
               let viewer = Option.bind (rq_header req ''cloudfront-viewer-address'') viewer_ip_of
               in NowSecs (\<lambda>now.
                 bind_ok (admit env st
                     \<lparr>mi_key = ts_key state, mi_event_id = ts_event_id state,
                      mi_session_ttl_secs = ts_session_ttl_secs state\<rparr>
                     request_id secret viewer now) (\<lambda>a.
                   case a of
                     AdmissionAdmitted position expires_at credential \<Rightarrow>
                       Done (Inr \<lparr>rs_status = 200,
                         rs_headers = [(''content-type'', ''application/json''),
                           (''cache-control'', ''no-store''),
                           (''set-cookie'', session_set_cookie (ts_session_cookie_name state) credential
                              (ts_session_ttl_secs state))],
                         rs_body = JObj [(''admitted'', JBool True), (''position'', JNum position),
                           (''expires_at'', JNum expires_at)]\<rparr>)
                   | AdmissionEventNotFound \<Rightarrow>
                       Done (Inr (json_response 404 (JObj [(''error'', JStr ''event not found'')])))
                   | AdmissionRefused denied \<Rightarrow> Done (Inr (refusal denied))
                   | AdmissionSignFailed \<Rightarrow>
                       Done (Inr (json_response 500
                         (JObj [(''admitted'', JBool False), (''error'', JStr ''try again'')])))))))"

section \<open>The decision, branch by branch\<close>

text \<open>The row whose digest counts: a \<open>Positions\<close> row before a \<open>PreQueue\<close> row.\<close>

definition stored_digest ::
  "prequeue_item option \<Rightarrow> position_row option \<Rightarrow> secret_digest option" where
  "stored_digest prequeue position_row =
     (case position_row of
        Some row \<Rightarrow> pr_digest row
      | None \<Rightarrow> (case prequeue of Some row \<Rightarrow> pq_h row | None \<Rightarrow> None))"

definition admitting :: "counters \<Rightarrow> u64 \<Rightarrow> bool" where
  "admitting c now \<longleftrightarrow> ct_stored_control c = StOpen \<and> ct_fail_open_until c \<le> now \<and> ct_phase c = Active"

lemma decide_cases:
  "decide hmac sha c prequeue row secret now =
     (if row = None \<and> prequeue = None then Inl NotRegistered
      else if stored_digest prequeue row \<noteq> Some (possession_digest sha secret) then Inl NotHolder
      else if \<not> admitting c now then Inl NotAdmitting
      else case resolve_position hmac c prequeue row of
             Inl d \<Rightarrow> Inl d
           | Inr p \<Rightarrow> if ct_serving_counter c \<le> p then Inl (StillQueued p (ct_serving_counter c))
                      else Inr \<lparr>gr_position = p, gr_digest = possession_digest sha secret\<rparr>)"
proof -
  let ?ac = "resolve (ct_stored_control c) (ct_fail_open_until c) now"
  have held: "(case ?ac of AcOpen \<Rightarrow> False | AcPaused \<Rightarrow> True | AcFailOpen \<Rightarrow> True) \<longleftrightarrow> ?ac \<noteq> AcOpen"
    by (cases ?ac) simp_all
  have adm: "admitting c now \<longleftrightarrow> ?ac = AcOpen \<and> ct_phase c = Active"
    by (auto simp: admitting_def resolve_open_iff)
  show ?thesis
    unfolding decide_def held adm is_digest_of_iff stored_digest_def
    by (cases row; cases prequeue) (simp_all split: option.split)
qed

lemma decide_grant:
  "decide hmac sha c prequeue row secret now = Inr g \<longleftrightarrow>
     stored_digest prequeue row = Some (possession_digest sha secret) \<and> admitting c now
     \<and> resolve_position hmac c prequeue row = Inr (gr_position g)
     \<and> gr_position g < ct_serving_counter c \<and> gr_digest g = possession_digest sha secret"
  by (cases g) (auto simp: decide_cases stored_digest_def not_le split: option.splits sum.splits)

section \<open>The contract\<close>

text \<open>What the admission relies on of any \<open>Store\<close>: reads are accounted, and a claim is only
  made for a position the visitor is entitled to.  \<open>grows\<close> says that knowledge is kept.\<close>

definition grows :: "ghost \<Rightarrow> ghost \<Rightarrow> bool" where
  "grows g g' \<longleftrightarrow> gh_pos g \<subseteq> gh_pos g' \<and> gh_row g \<subseteq> gh_row g'
     \<and> (gh_open g' = gh_open g \<or> gh_open g = None)"

lemma grows_refl [simp]: "grows g g"
  by (simp add: grows_def)

locale admission_port =
  fixes cfg :: ledger_cfg and st :: admission_store
  assumes counters_law:
    "(\<And>e. Q1 (Inl e) g) \<Longrightarrow> Q1 (Inr None) g \<Longrightarrow>
     (\<And>c g'. (\<And>oo. open_outputs c = Some oo \<Longrightarrow> gh_open g' = Some oo) \<Longrightarrow> Q1 (Inr (Some c)) g') \<Longrightarrow>
     lwp cfg (as_load_counters st (lc_event cfg)) Q1 g"
    and position_law:
    "(\<And>e. Q2 (Inl e) g) \<Longrightarrow>
     (\<And>row g'. (\<And>x. row = Some x \<Longrightarrow> (pr_position x, r) \<in> gh_pos g') \<Longrightarrow> gh_open g' = gh_open g \<Longrightarrow>
        Q2 (Inr row) g') \<Longrightarrow>
     lwp cfg (as_load_position st r) Q2 g"
    and prequeue_law:
    "(\<And>e. Q3 (Inl e) g) \<Longrightarrow>
     (\<And>row g'. (\<And>x. row = Some x \<Longrightarrow> (r, unat (pq_s x), pq_l x) \<in> gh_row g') \<Longrightarrow>
        gh_open g' = gh_open g \<Longrightarrow> Q3 (Inr row) g') \<Longrightarrow>
     lwp cfg (as_load_prequeue st r) Q3 g"
    and claim_law:
    "entitled cfg g r p \<Longrightarrow> (\<And>x g'. Q4 x g') \<Longrightarrow> lwp cfg (as_claim_admission st r p d now) Q4 g"
    and arrival_law: "(\<And>x g'. Q5 x g') \<Longrightarrow> lwp cfg (as_record_arrival st (lc_event cfg) sh) Q5 g"
begin

lemma count_arrival_ok:
  "(\<And>g'. Q () g') \<Longrightarrow> lwp cfg (count_arrival st (lc_event cfg) claim) Q g"
  unfolding count_arrival_def
  by (auto intro!: lwp_DoneI arrival_law split: admission_claim.split sum.split)

text \<open>A granted position is the visitor's: it is the one their own row holds, or the one their
  registration resolves to.\<close>

lemma grant_entitled:
  assumes "\<And>oo. open_outputs c = Some oo \<Longrightarrow> gh_open g = Some oo"
    and "\<And>x. row = Some x \<Longrightarrow> (pr_position x, r) \<in> gh_pos g"
    and "\<And>x. row = None \<Longrightarrow> prequeue = Some x \<Longrightarrow> (r, unat (pq_s x), pq_l x) \<in> gh_row g"
    and "decide (lc_hmac cfg) sha c prequeue row secret now = Inr grant"
  shows "entitled cfg g r (gr_position grant)"
proof -
  have res: "resolve_position (lc_hmac cfg) c prequeue row = Inr (gr_position grant)"
    using assms(4) by (simp add: decide_grant)
  show ?thesis
  proof (cases row)
    case (Some x)
    then show ?thesis
      using res assms(2) by (auto simp: resolve_position_def entitled_def split: position_status.splits)
  next
    case None
    then obtain x where x: "prequeue = Some x"
        "resolve_prequeue (lc_hmac cfg) c x = Inr (RPreQueue (gr_position grant))"
      using res by (auto simp: resolve_position_def
          split: option.splits sum.splits resolved_position.splits resolve_error.splits)
    then obtain oo where oo: "open_outputs c = Some oo"
      by (cases "open_outputs c") (auto simp: resolve_prequeue_def)
    have "cohort_position (lc_hmac cfg) oo (unat (pq_s x)) (pq_l x) (gr_position grant)"
      using x(2) oo by (auto simp: resolve_prequeue_def cohort_position_def Let_def not_le
          split: if_splits assignment.splits)
    then show ?thesis
      using assms(1) [OF oo] assms(3) [OF None x(1)] unfolding entitled_def by blast
  qed
qed

lemma admit_granted_ok:
  assumes "mi_event_id m = lc_event cfg" "entitled cfg g request_id (gr_position grant)"
    and "\<And>r g'. Q r g'"
  shows "lwp cfg (admit_granted env st m request_id viewer_ip now grant) Q g"
  unfolding admit_granted_def assms(1) lwp_bind
  using assms(2,3) by (auto intro!: claim_law count_arrival_ok lwp_DoneI)

lemma admit_decided_ok:
  assumes "mi_event_id m = lc_event cfg" "ce_hmac env = lc_hmac cfg" "\<And>r g'. Q r g'"
    and "\<And>oo. open_outputs c = Some oo \<Longrightarrow> gh_open g = Some oo"
    and "\<And>x. row = Some x \<Longrightarrow> (pr_position x, request_id) \<in> gh_pos g"
    and "\<And>x. row = None \<Longrightarrow> prequeue = Some x \<Longrightarrow> (request_id, unat (pq_s x), pq_l x) \<in> gh_row g"
  shows "lwp cfg (admit_decided env st m request_id secret viewer_ip now c row prequeue) Q g"
proof (cases "decide (lc_hmac cfg) (ce_sha env) c prequeue row secret now")
  case (Inr grant)
  show ?thesis
    unfolding admit_decided_def assms(2) Inr sum.case
    by (rule admit_granted_ok [OF assms(1) grant_entitled [OF assms(4-6) Inr] assms(3)])
qed (simp add: admit_decided_def assms(2,3) lwp_DoneI)

lemma admit_loaded_ok:
  assumes "mi_event_id m = lc_event cfg" "ce_hmac env = lc_hmac cfg" "\<And>r g'. Q r g'"
    and "\<And>oo. open_outputs c = Some oo \<Longrightarrow> gh_open g = Some oo"
  shows "lwp cfg (admit_loaded env st m request_id secret viewer_ip now c) Q g"
  unfolding admit_loaded_def lwp_bind_ok
proof (rule position_law)
  fix row :: "position_row option" and g' :: ghost
  assume row: "\<And>x. row = Some x \<Longrightarrow> (pr_position x, request_id) \<in> gh_pos g'" "gh_open g' = gh_open g"
  show "case Inr row of Inl e \<Rightarrow> lwp cfg (Done (Inl e)) Q g'
      | Inr row \<Rightarrow> lwp cfg (if row = None then as_load_prequeue st request_id else Done (Inr None))
          (\<lambda>r g. case r of Inl e \<Rightarrow> lwp cfg (Done (Inl e)) Q g
             | Inr x \<Rightarrow> lwp cfg (admit_decided env st m request_id secret viewer_ip now c row x) Q g) g'"
  proof (cases row)
    case None
    show ?thesis
      unfolding sum.case None if_P [OF refl]
      by (rule prequeue_law)
        (simp_all add: assms(3) lwp_DoneI,
          rule admit_decided_ok [OF assms(1,2) assms(3)], simp_all add: row assms(4))
  next
    case (Some x)
    have "lwp cfg (admit_decided env st m request_id secret viewer_ip now c row None) Q g'"
      by (rule admit_decided_ok [OF assms(1,2) assms(3)]) (simp_all add: row assms(4))
    then show ?thesis
      using Some by (simp add: lwp_DoneI)
  qed
qed (simp add: assms(3) lwp_DoneI)

lemma admit_ok:
  assumes "mi_event_id m = lc_event cfg" "ce_hmac env = lc_hmac cfg" "\<And>r g'. Q r g'"
  shows "lwp cfg (admit env st m request_id secret viewer_ip now) Q g"
  unfolding admit_def assms(1) lwp_bind_ok
  by (rule counters_law) (simp_all add: assms(3) lwp_DoneI admit_loaded_ok [OF assms])

end

section \<open>The DynamoDB store meets the contract\<close>

lemma token_position_from_item_pos:
  "token_position_from_item m = Some x \<Longrightarrow> get_u64 m QUEUE_POSITION_ATTR = Some (pr_position x)"
  by (auto simp: token_position_from_item_def bind_eq_Some_conv)

lemma token_counters_law:
  assumes "\<And>e. Q (Inl e) g" "Q (Inr None) g"
    and "\<And>c g'. (\<And>oo. open_outputs c = Some oo \<Longrightarrow> gh_open g' = Some oo) \<Longrightarrow> Q (Inr (Some c)) g'"
  shows "lwp cfg (token_load_counters (lc_tables cfg) (lc_event cfg)) Q g"
  unfolding token_load_counters_def event_key_def [symmetric]
  by (rule lwp_GetItemI) (auto simp: assms up_get_simps intro!: lwp_DoneI assms(3))

lemma token_position_law:
  assumes "\<And>e. Q (Inl e) g"
    and "\<And>row g'. (\<And>x. row = Some x \<Longrightarrow> (pr_position x, r) \<in> gh_pos g') \<Longrightarrow> gh_open g' = gh_open g \<Longrightarrow>
        Q (Inr row) g'"
  shows "lwp cfg (token_load_position (lc_tables cfg) r) Q g"
  unfolding token_load_position_def
  by (rule lwp_GetItemI)
    (auto simp: assms(1) up_get_simps key_build_def intro!: lwp_DoneI assms(2)
      dest!: token_position_from_item_pos split: option.split)

lemma token_prequeue_law:
  assumes "\<And>e. Q (Inl e) g"
    and "\<And>row g'. (\<And>x. row = Some x \<Longrightarrow> (r, unat (pq_s x), pq_l x) \<in> gh_row g') \<Longrightarrow>
        gh_open g' = gh_open g \<Longrightarrow> Q (Inr row) g'"
  shows "lwp cfg (token_load_prequeue (lc_tables cfg) r) Q g"
  unfolding token_load_prequeue_def
  by (rule lwp_GetItemI)
    (auto simp: assms(1) up_get_simps PREQUEUE_KEY_ATTR_def intro!: lwp_DoneI assms(2)
      split: option.split)

lemma claim_admission_law:
  assumes "entitled cfg g r p" "\<And>x g'. Q x g'"
  shows "lwp cfg (claim_admission (lc_tables cfg) r p d now) Q g"
  unfolding claim_admission_def
proof (rule lwp_UpdateItem)
  assume "tables_ok (lc_tables cfg)"
  then show "ledger_ob cfg (QUpdate (tb_positions (lc_tables cfg)) (key_build (KPosition r))
      (claim_clauses_of p d now) (Some claim_guard)) g"
    using assms(1)
    by (auto simp: ledger_ob_def tables_ok_def key_build_def claim_clauses_of_def attr_names
        position_clause_ob_def)
qed (auto simp: assms(2) intro!: lwp_DoneI split: sum.split sdk_error.split)

lemma arrivals_key: "key_build (KArrivalsShard (lc_event cfg) sh) \<noteq> event_key cfg"
    "key_build (KArrivalsShard (lc_event cfg) sh) \<noteq> shard_key cfg sh'"
  by (simp_all add: event_key_def shard_key_def key_build_def)

lemma record_arrival_law:
  assumes "\<And>x g'. Q x g'"
  shows "lwp cfg (record_arrival (lc_tables cfg) (lc_event cfg) sh) Q g"
  unfolding record_arrival_def
proof (rule lwp_UpdateItem)
  assume "tables_ok (lc_tables cfg)"
  then show "ledger_ob cfg (QUpdate (tb_counters (lc_tables cfg)) (key_build (KArrivalsShard (lc_event cfg) sh))
      [USet SHARD_INDEX_ATTR (AN (show_nat (shard_index sh))), UAdd SHARD_COUNT_ATTR (AN ''1'')] None) g"
    by (auto simp: ledger_ob_def counters_update_ob_def tables_ok_def arrivals_key)
qed (auto simp: assms intro!: lwp_DoneI split: sum.split)

interpretation das: admission_port cfg "dynamo_admission_store (lc_tables cfg)" for cfg
  by unfold_locales
    (simp_all add: dynamo_admission_store_def token_counters_law token_position_law
      token_prequeue_law claim_admission_law record_arrival_law)

lemma token_handle_honours:
  assumes "ts_event_id state = lc_event cfg" "ce_hmac env = lc_hmac cfg"
  shows "honours cfg (token_handle env parse (dynamo_admission_store (lc_tables cfg)) state req)"
  unfolding honours_def token_handle_def
  using assms
  by (auto simp: Let_def intro!: lwp_DoneI das.admit_ok
      split: option.split sum.split admission.split)

end
