(* ===== verification/Float64.thy ===== *)
theory Float64
  imports Complex_Main Prelude
begin

text \<open>
  Rust's \<open>f64\<close>, as the controller uses it: every value there is finite (all divisions are by
  positive values and all magnitudes are far from the overflow threshold), so a float is the
  rational number it denotes and every operation rounds the exact result to the nearest
  representable number, ties to even.  The exponent range below is that of binary64, gradual
  underflow included.  The sign of a zero is not represented.

  Lemmas: the position of the leading bit (\<open>log2_bounds\<close>); rounding is monotone
  (\<open>rnd_mono\<close>) and exact on integers up to \<open>2 ^ 53\<close> (\<open>rnd_nat\<close>), which is all that the
  bounds of the controller rest on.
\<close>

type_synonym f64 = rat

section \<open>Rounding\<close>

text \<open>The number of bits after the leading one.\<close>

fun ilog2 :: "nat \<Rightarrow> nat" where
  "ilog2 n = (if n < 2 then 0 else Suc (ilog2 (n div 2)))"

declare ilog2.simps [simp del]

definition log2_pos :: "rat \<Rightarrow> int" where
  "log2_pos x =
     (case quotient_of x of (a, b) \<Rightarrow>
        let k = int (ilog2 (nat a)) - int (ilog2 (nat b)) in
        if 2 powi k \<le> x then k else k - 1)"

definition round_half_even :: "rat \<Rightarrow> int" where
  "round_half_even y =
     (let f = \<lfloor>y\<rfloor>; r = y - of_int f in
      if r < 1 / 2 then f else if 1 / 2 < r then f + 1 else if even f then f else f + 1)"

text \<open>The exponent of the last place of a positive number.\<close>

definition ulp_exp :: "rat \<Rightarrow> int" where
  "ulp_exp x = max (- 1074) (log2_pos x - 52)"

definition rnd_pos :: "rat \<Rightarrow> rat" where
  "rnd_pos x = of_int (round_half_even (x / 2 powi ulp_exp x)) * 2 powi ulp_exp x"

definition rnd :: "rat \<Rightarrow> f64" where
  "rnd x = (if x = 0 then 0 else if x < 0 then - rnd_pos (- x) else rnd_pos x)"

section \<open>Operations\<close>

definition f64_of_u64 :: "u64 \<Rightarrow> f64" where
  "f64_of_u64 n = rnd (of_nat (unat n))"

definition f64_add :: "f64 \<Rightarrow> f64 \<Rightarrow> f64" where "f64_add x y = rnd (x + y)"
definition f64_sub :: "f64 \<Rightarrow> f64 \<Rightarrow> f64" where "f64_sub x y = rnd (x - y)"
definition f64_mul :: "f64 \<Rightarrow> f64 \<Rightarrow> f64" where "f64_mul x y = rnd (x * y)"
definition f64_div :: "f64 \<Rightarrow> f64 \<Rightarrow> f64" where "f64_div x y = rnd (x / y)"

definition f64_clamp :: "f64 \<Rightarrow> f64 \<Rightarrow> f64 \<Rightarrow> f64" where
  "f64_clamp x lo hi = (if x < lo then lo else if hi < x then hi else x)"

text \<open>\<open>f64::round\<close>: half way cases away from zero.\<close>

definition f64_round :: "f64 \<Rightarrow> f64" where
  "f64_round x = (if x < 0 then - of_int \<lfloor>1 / 2 - x\<rfloor> else of_int \<lfloor>x + 1 / 2\<rfloor>)"

text \<open>\<open>as u64\<close>: truncation, saturating at both ends.\<close>

definition u64_of_f64 :: "f64 \<Rightarrow> u64" where
  "u64_of_f64 x = (if x \<le> 0 then 0 else if 2 ^ 64 \<le> x then - 1 else of_nat (nat \<lfloor>x\<rfloor>))"

section \<open>Text\<close>

text \<open>
  \<open>to_string\<close> on a value of \<open>[0, 1]\<close>: the decimal with the fewest digits that rounds to the value,
  the closest of those, written without an exponent.  \<open>places\<close> counts the decimal places tried;
  seventeen significant digits always suffice, which bounds the search.
\<close>

definition round_trips :: "rat \<Rightarrow> nat \<Rightarrow> int \<Rightarrow> bool" where
  "round_trips x places m \<longleftrightarrow> rnd (of_int m / 10 ^ places) = x"

fun shortest_decimal :: "nat \<Rightarrow> rat \<Rightarrow> nat \<Rightarrow> int \<times> nat" where
  "shortest_decimal left x places =
     (let m = \<lfloor>x * 10 ^ places\<rfloor> in
      if round_trips x places m \<and> (\<not> round_trips x places (m + 1) \<or> x * 10 ^ places - of_int m \<le> 1 / 2)
      then (m, places)
      else if round_trips x places (m + 1) then (m + 1, places)
      else (case left of 0 \<Rightarrow> (m, places) | Suc left' \<Rightarrow> shortest_decimal left' x (places + 1)))"

declare shortest_decimal.simps [simp del]

text \<open>Zeros after the point; the smallest positive float has 323.\<close>

fun leading_zeros_dec :: "nat \<Rightarrow> rat \<Rightarrow> nat" where
  "leading_zeros_dec 0 x = 0"
| "leading_zeros_dec (Suc left) x = (if 1 \<le> 10 * x then 0 else Suc (leading_zeros_dec left (10 * x)))"

definition f64_display :: "f64 \<Rightarrow> string" where
  "f64_display x =
     (if x = 0 then ''0'' else if x = 1 then ''1''
      else (case shortest_decimal 16 x (leading_zeros_dec 324 x + 1) of
              (m, places) \<Rightarrow>
                let digits = show_nat (nat m) in
                ''0.'' @ replicate (places - length digits) (CHR ''0'') @ digits))"

text \<open>
  \<open>str::parse\<close>: an optional sign, digits with an optional point, an optional exponent.  The
  spellings of infinity and NaN are left out, as are values beyond the largest float: the one
  caller drops every value outside \<open>[0, 1]\<close>.
\<close>

definition dec_digit :: "char \<Rightarrow> bool" where
  "dec_digit c \<longleftrightarrow> char_digit c \<noteq> None"

definition split_sign :: "string \<Rightarrow> bool \<times> string" where
  "split_sign s = (case s of
     c # cs \<Rightarrow> if c = CHR ''-'' then (True, cs) else if c = CHR ''+'' then (False, cs) else (False, s)
   | [] \<Rightarrow> (False, []))"

definition digits_value :: "string \<Rightarrow> nat" where
  "digits_value ds = (case parse_digits 0 ds of Some v \<Rightarrow> v | None \<Rightarrow> 0)"

definition parse_exponent :: "string \<Rightarrow> int option" where
  "parse_exponent s =
     (case s of
        [] \<Rightarrow> Some 0
      | c # cs \<Rightarrow>
          if c = CHR ''e'' \<or> c = CHR ''E'' then
            (case split_sign cs of (neg, ds) \<Rightarrow>
               if ds = [] \<or> \<not> list_all dec_digit ds then None
               else Some (if neg then - int (digits_value ds) else int (digits_value ds)))
          else None)"

definition parse_f64 :: "string \<Rightarrow> f64 option" where
  "parse_f64 s =
     (case split_sign s of (neg, s1) \<Rightarrow>
      let ip = takeWhile dec_digit s1; r1 = dropWhile dec_digit s1;
          dot = (case r1 of c # _ \<Rightarrow> c = CHR ''.'' | [] \<Rightarrow> False);
          fp = (if dot then takeWhile dec_digit (tl r1) else []);
          r2 = (if dot then dropWhile dec_digit (tl r1) else r1)
      in if ip @ fp = [] then None
         else (case parse_exponent r2 of
                 None \<Rightarrow> None
               | Some e \<Rightarrow>
                   let v = of_nat (digits_value (ip @ fp)) * 10 powi (e - int (length fp))
                   in Some (rnd (if neg then - v else v))))"

section \<open>The leading bit\<close>

lemma ilog2_bounds: "0 < n \<Longrightarrow> 2 ^ ilog2 n \<le> n \<and> n < 2 ^ (ilog2 n + 1)"
proof (induction n rule: ilog2.induct)
  case (1 n)
  show ?case
  proof (cases "n < 2")
    case False
    then have "2 ^ ilog2 (n div 2) \<le> n div 2 \<and> n div 2 < 2 ^ (ilog2 (n div 2) + 1)"
      using 1 by simp
    with False show ?thesis
      by (simp add: ilog2.simps [of n]) linarith
  qed (use 1 in \<open>simp add: ilog2.simps [of n]\<close>)
qed

lemma log2_bounds:
  assumes "0 < x"
  shows "2 powi log2_pos x \<le> x" "x < 2 powi (log2_pos x + 1)"
proof -
  obtain a b where q: "quotient_of x = (a, b)" by (cases "quotient_of x")
  have b: "0 < b" using quotient_of_denom_pos [OF q] .
  have x: "x = of_int a / of_int b" using quotient_of_div [OF q] .
  then have a: "0 < a" using assms b by (simp add: zero_less_divide_iff)
  let ?i = "ilog2 (nat a)" and ?j = "ilog2 (nat b)"
  have "2 ^ ?i \<le> nat a" "nat a < 2 ^ (?i + 1)" "2 ^ ?j \<le> nat b" "nat b < 2 ^ (?j + 1)"
    using ilog2_bounds [of "nat a"] ilog2_bounds [of "nat b"] a b by simp_all
  then have "(of_nat (2 ^ ?i) :: rat) \<le> of_nat (nat a)" "(of_nat (nat a) :: rat) < of_nat (2 ^ (?i + 1))"
      "(of_nat (2 ^ ?j) :: rat) \<le> of_nat (nat b)" "(of_nat (nat b) :: rat) < of_nat (2 ^ (?j + 1))"
    by (simp_all only: of_nat_le_iff of_nat_less_iff)
  then have bnd: "(2 :: rat) ^ ?i \<le> of_int a" "(of_int a :: rat) < 2 ^ (?i + 1)"
      "(2 :: rat) ^ ?j \<le> of_int b" "(of_int b :: rat) < 2 ^ (?j + 1)"
    using a b by simp_all
  let ?k = "int ?i - int ?j"
  have pk: "(2 :: rat) powi ?k = 2 ^ ?i / 2 ^ ?j"
    by (simp add: power_int_diff)
  have "x < 2 ^ (?i + 1) / 2 ^ ?j"
    unfolding x using bnd a b by (intro frac_less) simp_all
  then have up: "x < 2 powi (?k + 1)"
    by (simp add: power_int_add pk mult.commute)
  have "2 ^ ?i / 2 ^ (?j + 1) \<le> x"
    unfolding x using bnd a b by (intro frac_le) simp_all
  then have low: "2 powi (?k - 1) \<le> x"
    by (simp add: power_int_diff [of _ "?k" 1] pk)
  have l: "log2_pos x = (if 2 powi ?k \<le> x then ?k else ?k - 1)"
    by (simp add: log2_pos_def q Let_def)
  show "2 powi log2_pos x \<le> x" "x < 2 powi (log2_pos x + 1)"
    using up low by (simp_all add: l not_le)
qed

lemma powi_less_iff [simp]: "(2 :: rat) powi m < 2 powi n \<longleftrightarrow> m < n"
  using power_int_strict_increasing [of m n "2 :: rat"] power_int_increasing [of n m "2 :: rat"]
  by (metis linorder_not_less one_less_numeral_iff semiring_norm(76) less_le_not_le less_imp_le)

lemma powi_le_iff [simp]: "(2 :: rat) powi m \<le> 2 powi n \<longleftrightarrow> m \<le> n"
  by (meson linorder_not_less powi_less_iff)

lemma powi_pos [simp]: "0 < (2 :: rat) powi k"
  by (simp add: zero_less_power_int)

lemma log2_unique:
  assumes "2 powi k \<le> x" "x < 2 powi (k + 1)"
  shows "log2_pos x = k"
proof -
  have x: "0 < x" using assms(1) powi_pos [of k] by linarith
  have "2 powi k < (2 :: rat) powi (log2_pos x + 1)" "2 powi log2_pos x < (2 :: rat) powi (k + 1)"
    using log2_bounds [OF x] assms by linarith+
  then show ?thesis by simp
qed

lemma log2_mono: "0 < x \<Longrightarrow> x \<le> y \<Longrightarrow> log2_pos x \<le> log2_pos y"
proof -
  assume "0 < x" "x \<le> y"
  then have "2 powi log2_pos x < (2 :: rat) powi (log2_pos y + 1)"
    using log2_bounds(1) [of x] log2_bounds(2) [of y] by linarith
  then show ?thesis by simp
qed

section \<open>Rounding is monotone and exact on small integers\<close>

lemma round_half_even_int [simp]: "round_half_even (of_int n) = n"
  by (simp add: round_half_even_def)

lemma round_half_even_bounds: "\<lfloor>y\<rfloor> \<le> round_half_even y" "round_half_even y \<le> \<lfloor>y\<rfloor> + 1"
  by (simp_all add: round_half_even_def Let_def)

lemma round_half_even_mono:
  assumes "y \<le> z"
  shows "round_half_even y \<le> round_half_even z"
proof (cases "\<lfloor>y\<rfloor> = \<lfloor>z\<rfloor>")
  case True
  with assms show ?thesis by (auto simp: round_half_even_def Let_def)
next
  case False
  then have "\<lfloor>y\<rfloor> + 1 \<le> \<lfloor>z\<rfloor>" using floor_mono [OF assms] by linarith
  then show ?thesis
    using round_half_even_bounds(2) [of y] round_half_even_bounds(1) [of z] by linarith
qed

lemma rnd_pos_le_power:
  assumes "0 < x" "x \<le> 2 powi k" "ulp_exp x \<le> k"
  shows "rnd_pos x \<le> 2 powi k"
proof -
  let ?e = "ulp_exp x"
  have kp: "(2 :: rat) powi (k - ?e) = of_int (2 ^ nat (k - ?e))"
    using assms(3) by (simp add: power_int_def)
  have "x / 2 powi ?e \<le> 2 powi (k - ?e)"
    using assms(2) by (simp add: power_int_diff divide_right_mono)
  then have "round_half_even (x / 2 powi ?e) \<le> 2 ^ nat (k - ?e)"
    using round_half_even_mono round_half_even_int unfolding kp by metis
  then have "(of_int (round_half_even (x / 2 powi ?e)) :: rat) \<le> 2 powi (k - ?e)"
    unfolding kp of_int_le_iff .
  then show ?thesis
    unfolding rnd_pos_def by (simp add: power_int_diff pos_le_divide_eq)
qed

lemma rnd_pos_ge_power:
  assumes "0 < x" "2 powi k \<le> x" "ulp_exp x \<le> k"
  shows "2 powi k \<le> rnd_pos x"
proof -
  let ?e = "ulp_exp x"
  have kp: "(2 :: rat) powi (k - ?e) = of_int (2 ^ nat (k - ?e))"
    using assms(3) by (simp add: power_int_def)
  have "2 powi (k - ?e) \<le> x / 2 powi ?e"
    using assms(2) by (simp add: power_int_diff divide_right_mono)
  then have "2 ^ nat (k - ?e) \<le> round_half_even (x / 2 powi ?e)"
    using round_half_even_mono round_half_even_int unfolding kp by metis
  then have "2 powi (k - ?e) \<le> (of_int (round_half_even (x / 2 powi ?e)) :: rat)"
    unfolding kp of_int_le_iff .
  then show ?thesis
    unfolding rnd_pos_def by (simp add: power_int_diff pos_divide_le_eq)
qed

lemma rnd_pos_mono:
  assumes "0 < x" "x \<le> y"
  shows "rnd_pos x \<le> rnd_pos y"
proof (cases "ulp_exp x = ulp_exp y")
  case True
  have "round_half_even (x / 2 powi ulp_exp y) \<le> round_half_even (y / 2 powi ulp_exp y)"
    using assms(2) by (intro round_half_even_mono divide_right_mono) simp_all
  with True show ?thesis
    by (simp add: rnd_pos_def mult_right_mono)
next
  case False
  let ?L = "log2_pos y"
  have y: "0 < y" using assms by simp
  have le: "log2_pos x \<le> ?L" using assms by (rule log2_mono)
  with False have lt: "log2_pos x < ?L" and ey: "ulp_exp y = ?L - 52" and ex: "ulp_exp x \<le> ?L - 52"
    by (auto simp: ulp_exp_def max_def split: if_splits)
  have "x \<le> 2 powi ?L"
    using log2_bounds(2) [OF assms(1)] lt powi_le_iff [of "log2_pos x + 1" ?L] by linarith
  then have "rnd_pos x \<le> 2 powi ?L"
    using ex by (intro rnd_pos_le_power assms(1)) simp_all
  also have "\<dots> \<le> rnd_pos y"
    using ey log2_bounds(1) [OF y] by (intro rnd_pos_ge_power y) simp_all
  finally show ?thesis .
qed

lemma rnd_pos_nonneg: "0 < x \<Longrightarrow> 0 \<le> rnd_pos x"
proof -
  assume "0 < x"
  then have "0 \<le> round_half_even (x / 2 powi ulp_exp x)"
    using round_half_even_mono [of 0 "x / 2 powi ulp_exp x"] round_half_even_int [of 0] by simp
  then show ?thesis
    by (simp add: rnd_pos_def)
qed

lemma rnd_mono: "x \<le> y \<Longrightarrow> rnd x \<le> rnd y"
  using rnd_pos_mono [of x y] rnd_pos_mono [of "- y" "- x"] rnd_pos_nonneg [of y] rnd_pos_nonneg [of "- x"]
  by (auto simp: rnd_def)

lemma rnd_0 [simp]: "rnd 0 = 0"
  by (simp add: rnd_def)

lemma rnd_nonneg: "0 \<le> x \<Longrightarrow> 0 \<le> rnd x"
  using rnd_mono [of 0 x] by simp

text \<open>An integer of at most 53 bits is representable.\<close>

lemma rnd_nat:
  assumes "n \<le> 2 ^ 53"
  shows "rnd (of_nat n) = of_nat n"
proof (cases "n = 0")
  case False
  let ?x = "of_nat n :: rat" and ?l = "log2_pos (of_nat n)"
  have x: "0 < ?x" using False by simp
  have nx: "?x \<le> 2 powi 53"
    using assms by (simp add: power_int_def)
  have l0: "0 \<le> ?l"
    using log2_mono [of 1 ?x] log2_unique [of 0 1] False by simp
  have "2 powi ?l \<le> (2 :: rat) powi 53"
    using log2_bounds(1) [OF x] nx by linarith
  then have l53: "?l \<le> 53" by (simp only: powi_le_iff)
  have e: "ulp_exp ?x = ?l - 52"
    using l0 by (simp add: ulp_exp_def)
  have "\<exists>m. ?x / 2 powi (?l - 52) = of_int m"
  proof (cases "?l = 53")
    case True
    then have "?x = 2 powi 53"
      using nx log2_bounds(1) [OF x] by simp
    then have "?x / 2 powi (?l - 52) = of_int (2 ^ 52)"
      using True by (simp add: power_int_def)
    then show ?thesis by blast
  next
    case False
    define j where "j = nat (52 - ?l)"
    have "?l - 52 = - int j"
      using False l53 by (simp add: j_def)
    then have "?x / 2 powi (?l - 52) = of_int (int n * 2 ^ j)"
      by (simp add: power_int_minus divide_inverse)
    then show ?thesis by blast
  qed
  then obtain m where m: "?x / 2 powi (?l - 52) = of_int m" by blast
  then have "rnd_pos ?x = of_int m * 2 powi (?l - 52)"
    by (simp add: rnd_pos_def e)
  also have "\<dots> = ?x"
    using m by (metis nonzero_eq_divide_eq powi_pos less_irrefl)
  finally show ?thesis
    using x by (simp add: rnd_def)
qed simp

lemma rnd_1 [simp]: "rnd 1 = 1"
  using rnd_nat [of 1] by simp

lemma rnd_le_1: "x \<le> 1 \<Longrightarrow> rnd x \<le> 1"
  using rnd_mono [of x 1] by simp

lemma f64_of_u64_mono: "a \<le> b \<Longrightarrow> f64_of_u64 a \<le> f64_of_u64 b"
  unfolding f64_of_u64_def by (rule rnd_mono) (simp only: of_nat_le_iff word_le_nat_alt)

end
