(* ===== verification/Controller.thy ===== *)
theory Controller
  imports Float64 OpenEvent
begin

text \<open>
  \<open>crates/controller/src/\<close>: the closed-loop outflow controller: the release arithmetic with
  its no-show correction, one pass with its two gates, the DynamoDB store and the durable loop
  of six passes.  The trait \<open>Store\<close> is the record \<open>release_store\<close>.

  Lemmas: the correction stays between the target and twice the target and grows with the
  no-show rate (\<open>bounded_release_bounds\<close>, \<open>bounded_release_mono\<close>); the cursor never moves
  backwards nor past the end of the line; the smoothed rate is one DynamoDB can store; a pass
  writes only when the event is active and admission is open; the handler honours the ledger,
  with a cursor move guarded by the value it was computed from.
\<close>

section \<open>The release\<close>

definition INTERVAL_SECS :: u64 where "INTERVAL_SECS = 10"
definition PASSES_PER_INVOKE :: nat where "PASSES_PER_INVOKE = 6"
definition STALE_OPEN_PASS_SECS :: u64 where "STALE_OPEN_PASS_SECS = 2 * INTERVAL_SECS"
definition EWMA_ALPHA :: f64 where "EWMA_ALPHA = rnd (3 / 10)"
definition DDB_NUMBER_MIN_POSITIVE :: f64 where "DDB_NUMBER_MIN_POSITIVE = rnd (1 / 10 ^ 130)"
definition MAX_CORRECTION_MULTIPLE :: f64 where "MAX_CORRECTION_MULTIPLE = 2"

record no_show_state =
  ns_smoothed_rate :: f64

record release_inputs =
  ri_arrivals :: "u64 list"
  ri_last_arrivals_total :: u64
  ri_last_serving_counter :: u64
  ri_serving_counter :: u64
  ri_queue_counter :: u64
  ri_target_rate :: u32
  ri_last_open_pass_at :: u64

record release_decision =
  rd_release :: u64
  rd_next_serving_counter :: u64
  rd_previous_serving_counter :: u64
  rd_arrivals_total :: u64
  rd_no_show :: no_show_state
  rd_last_open_pass_at :: u64

fun sum_arrivals_loop :: "u64 \<Rightarrow> u64 list \<Rightarrow> u64" where
  "sum_arrivals_loop acc [] = acc"
| "sum_arrivals_loop acc (count # counts) = sum_arrivals_loop (saturating_add acc count) counts"

definition sum_arrivals :: "u64 list \<Rightarrow> u64" where
  "sum_arrivals arrivals = sum_arrivals_loop 0 arrivals"

definition target_release_per_interval :: "u32 \<Rightarrow> u64" where
  "target_release_per_interval target_rate = saturating_mul (ucast target_rate) INTERVAL_SECS"

definition bounded_release :: "u64 \<Rightarrow> f64 \<Rightarrow> u64" where
  "bounded_release target smoothed_no_show =
     (let target_f = f64_of_u64 target;
          cap = f64_mul target_f MAX_CORRECTION_MULTIPLE;
          denom = f64_sub 1 smoothed_no_show;
          raw = (if denom \<le> 0 then cap else min (f64_div target_f denom) cap);
          rounded = f64_round raw;
          u64_max_f = f64_of_u64 (- 1)
      in if rounded \<le> 0 then 0
         else if u64_max_f \<le> rounded then - 1
         else u64_of_f64 rounded)"

text \<open>The measurement and its smoothing, the second arm of the conditional.\<close>

definition smoothed_no_show :: "u64 \<Rightarrow> u64 \<Rightarrow> no_show_state option \<Rightarrow> f64" where
  "smoothed_no_show observed_arrivals released_last prev =
     (let arrival_fraction =
            f64_clamp (f64_div (f64_of_u64 observed_arrivals) (f64_of_u64 released_last)) 0 1;
          observed_no_show = f64_sub 1 arrival_fraction
      in f64_clamp
           (case prev of
              Some state \<Rightarrow>
                f64_add (f64_mul EWMA_ALPHA observed_no_show)
                  (f64_mul (f64_sub 1 EWMA_ALPHA) (ns_smoothed_rate state))
            | None \<Rightarrow> observed_no_show) 0 1)"

definition compute_release ::
  "release_inputs \<Rightarrow> no_show_state option \<Rightarrow> u64 \<Rightarrow> release_decision" where
  "compute_release inputs prev now =
     (let arrivals_total = sum_arrivals (ri_arrivals inputs);
          observed_arrivals = saturating_sub arrivals_total (ri_last_arrivals_total inputs);
          released_last = saturating_sub (ri_serving_counter inputs)
                            (max (ri_last_serving_counter inputs) 1);
          target = target_release_per_interval (ri_target_rate inputs);
          prior_open_pass_is_stale =
            STALE_OPEN_PASS_SECS \<le> saturating_sub now (ri_last_open_pass_at inputs);
          (release, smoothed) =
            (if released_last = 0 \<or> prior_open_pass_is_stale then
               (target, (case prev of Some state \<Rightarrow> ns_smoothed_rate state | None \<Rightarrow> 0))
             else
               let smoothed = smoothed_no_show observed_arrivals released_last prev
               in (bounded_release target smoothed, smoothed));
          smoothed = (if 0 < smoothed \<and> smoothed < DDB_NUMBER_MIN_POSITIVE then 0 else smoothed);
          positions = release;
          ceiling = saturating_add (ri_queue_counter inputs) 1;
          next_serving_counter =
            max (min (saturating_add (ri_serving_counter inputs) positions) ceiling)
              (ri_serving_counter inputs)
      in \<lparr>rd_release = saturating_sub next_serving_counter (ri_serving_counter inputs),
          rd_next_serving_counter = next_serving_counter,
          rd_previous_serving_counter = ri_serving_counter inputs,
          rd_arrivals_total = arrivals_total,
          rd_no_show = \<lparr>ns_smoothed_rate = smoothed\<rparr>,
          rd_last_open_pass_at = now\<rparr>)"

section \<open>One pass\<close>

datatype release_error = ReleaseError string

datatype release_outcome = Advanced | LostRace

definition is_lost :: "release_outcome \<Rightarrow> bool" where
  "is_lost r = (case r of LostRace \<Rightarrow> True | _ \<Rightarrow> False)"

record controller_state =
  cs_phase :: phase
  cs_stored_control :: stored_control
  cs_fail_open_until :: u64
  cs_inputs :: release_inputs
  cs_prev_no_show :: "no_show_state option"

record release_store =
  rs_read_state :: "string \<Rightarrow> (release_error + controller_state) prog"
  rs_write_release :: "string \<Rightarrow> release_decision \<Rightarrow> u64 \<Rightarrow> (release_error + release_outcome) prog"

datatype pass_outcome = NotActive phase | Held admission_control | Ran u64

definition run_pass :: "release_store \<Rightarrow> string \<Rightarrow> u64 \<Rightarrow> (release_error + pass_outcome) prog" where
  "run_pass st event_id now =
     bind_ok (rs_read_state st event_id) (\<lambda>state.
       if cs_phase state \<noteq> Active then Done (Inr (NotActive (cs_phase state)))
       else
         (case resolve (cs_stored_control state) (cs_fail_open_until state) now of
            AcOpen \<Rightarrow>
              let decision = compute_release (cs_inputs state) (cs_prev_no_show state) now in
              bind_ok (rs_write_release st event_id decision (ri_serving_counter (cs_inputs state)))
                (\<lambda>race.
                   if is_lost race then Done (Inr (Ran 0))
                   else Done (Inr (Ran (rd_release decision))))
          | control \<Rightarrow> Done (Inr (Held control))))"

section \<open>The DynamoDB store\<close>

definition num :: "item \<Rightarrow> string \<Rightarrow> u64" where
  "num m a = (case get_u64 m a of Some n \<Rightarrow> n | None \<Rightarrow> 0)"

fun arrivals_from_shard_items :: "item list \<Rightarrow> u64 list \<Rightarrow> release_error + u64 list" where
  "arrivals_from_shard_items [] arrivals = Inr arrivals"
| "arrivals_from_shard_items (m # ms) arrivals =
     (case shard_index_of m of
        None \<Rightarrow> arrivals_from_shard_items ms arrivals
      | Some sh \<Rightarrow>
          (case shard_count_of m of
             None \<Rightarrow> Inl (ReleaseError ''arrivals item has an unreadable count'')
           | Some n \<Rightarrow> arrivals_from_shard_items ms (arrivals[sh := n])))"

definition read_arrivals :: "string \<Rightarrow> string \<Rightarrow> (release_error + u64 list) prog" where
  "read_arrivals counters_table event_id =
     BatchGetItem counters_table (map (\<lambda>sh. key_build (KArrivalsShard event_id sh)) all_shards) False (\<lambda>r.
       case r of
         Inl e \<Rightarrow> Done (Inl (ReleaseError (''batch_get_item arrivals: '' @ sdk_display e)))
       | Inr (items, unprocessed) \<Rightarrow>
           (case arrivals_from_shard_items items (replicate SHARDS 0) of
              Inl e \<Rightarrow> Done (Inl e)
            | Inr arrivals \<Rightarrow>
                if unprocessed then Done (Inl (ReleaseError ''arrivals read incomplete; retry''))
                else Done (Inr arrivals)))"

text \<open>The state the event's item holds, once the arrivals are known.\<close>

definition state_of_item :: "item \<Rightarrow> u64 list \<Rightarrow> controller_state" where
  "state_of_item m arrivals =
     \<lparr>cs_phase =
        (case Option.bind (get_s m ''phase'') (\<lambda>s. case phase_parse s of Inr p \<Rightarrow> Some p | Inl _ \<Rightarrow> None) of
           Some p \<Rightarrow> p | None \<Rightarrow> Idle),
      cs_stored_control = stored_control_of m,
      cs_fail_open_until = num m ''fail_open_until'',
      cs_inputs =
        \<lparr>ri_arrivals = arrivals,
         ri_last_arrivals_total = num m ''last_arrivals_total'',
         ri_last_serving_counter = num m ''last_serving_counter'',
         ri_serving_counter = num m ''serving_counter'',
         ri_queue_counter = num m ''queue_counter'',
         ri_target_rate = (case u32_try_from (num m ''target_rate'') of Some r \<Rightarrow> r | None \<Rightarrow> 0),
         ri_last_open_pass_at = num m ''last_open_pass_at''\<rparr>,
      cs_prev_no_show =
        (case Option.bind (get_n m ''no_show_rate'') parse_f64 of
           None \<Rightarrow> None
         | Some r \<Rightarrow> if 0 \<le> r \<and> r \<le> 1 then Some \<lparr>ns_smoothed_rate = r\<rparr> else None)\<rparr>"

definition read_state :: "string \<Rightarrow> string \<Rightarrow> (release_error + controller_state) prog" where
  "read_state counters_table event_id =
     GetItem counters_table (key_build (KEvent event_id)) True (\<lambda>r.
       case r of
         Inl e \<Rightarrow> Done (Inl (ReleaseError (''get_item counters: '' @ sdk_display e)))
       | Inr None \<Rightarrow> Done (Inl (ReleaseError (''no Counters item for event '' @ event_id)))
       | Inr (Some m) \<Rightarrow>
           bind_ok (read_arrivals counters_table event_id) (\<lambda>arrivals.
             Done (Inr (state_of_item m arrivals))))"

definition release_clauses :: "release_decision \<Rightarrow> update_clause list" where
  "release_clauses decision =
     [USet ''serving_counter'' (AN (show_u64 (rd_next_serving_counter decision))),
      USet ''last_serving_counter'' (AN (show_u64 (rd_previous_serving_counter decision))),
      USet ''last_arrivals_total'' (AN (show_u64 (rd_arrivals_total decision))),
      USet ''no_show_rate'' (AN (f64_display (ns_smoothed_rate (rd_no_show decision)))),
      USet ''last_open_pass_at'' (AN (show_u64 (rd_last_open_pass_at decision)))]"

definition release_guard :: "u64 \<Rightarrow> condition" where
  "release_guard expected =
     COr (CNotExists ''serving_counter'') (CEq ''serving_counter'' (AN (show_u64 expected)))"

definition write_release ::
  "string \<Rightarrow> string \<Rightarrow> release_decision \<Rightarrow> u64 \<Rightarrow> (release_error + release_outcome) prog" where
  "write_release counters_table event_id decision expected_serving_counter =
     UpdateItem counters_table (key_build (KEvent event_id)) (release_clauses decision)
       (Some (release_guard expected_serving_counter)) (\<lambda>r.
       case r of
         Inr _ \<Rightarrow> Done (Inr Advanced)
       | Inl (ConditionalCheckFailed _) \<Rightarrow> Done (Inr LostRace)
       | Inl e \<Rightarrow> Done (Inl (ReleaseError (''update_item release: '' @ sdk_display e))))"

definition dynamo_release_store :: "string \<Rightarrow> release_store" where
  "dynamo_release_store counters_table =
     \<lparr>rs_read_state = read_state counters_table, rs_write_release = write_release counters_table\<rparr>"

section \<open>The durable loop\<close>

text \<open>
  One execution of the schedule: \<open>left\<close> passes remain.  A pass runs at most once and its outcome
  is checkpointed; a failed pass ends the execution.  The waits between passes take time and
  nothing else, so they do not appear.
\<close>

fun controller_loop :: "string \<Rightarrow> string \<Rightarrow> nat \<Rightarrow> pass_outcome list \<Rightarrow> (string + pass_outcome list) prog" where
  "controller_loop counters_table event_id 0 outcomes = Done (Inr outcomes)"
| "controller_loop counters_table event_id (Suc left) outcomes =
     NowSecs (\<lambda>now.
       bind (run_pass (dynamo_release_store counters_table) event_id now) (\<lambda>r.
         case r of
           Inl (ReleaseError e) \<Rightarrow> Done (Inl (''controller store error: '' @ e))
         | Inr outcome \<Rightarrow> controller_loop counters_table event_id left (outcomes @ [outcome])))"

definition controller_handle :: "string \<Rightarrow> string \<Rightarrow> (string + pass_outcome list) prog" where
  "controller_handle counters_table event_id =
     controller_loop counters_table event_id PASSES_PER_INVOKE []"

section \<open>The correction\<close>

lemma target_release [u64_arith]:
  "unat (target_release_per_interval r) = 10 * unat r" "10 * unat r < 2 ^ 36"
proof -
  have "unat (ucast r :: u64) = unat r"
    using unat_lt2p [of r] by (simp add: unsigned_ucast_eq take_bit_nat_eq_self)
  moreover show "10 * unat r < 2 ^ 36"
    using unat_lt2p [of r] by simp
  ultimately show "unat (target_release_per_interval r) = 10 * unat r"
    by (simp add: target_release_per_interval_def INTERVAL_SECS_def u64_arith mult.commute)
qed

lemma f64_of_u64_exact: "unat n = t \<Longrightarrow> t \<le> 2 ^ 53 \<Longrightarrow> f64_of_u64 n = of_nat t"
  unfolding f64_of_u64_def using rnd_nat [of t] by hypsubst

lemma f64_sub_unit: "0 \<le> s \<Longrightarrow> s \<le> 1 \<Longrightarrow> 0 \<le> f64_sub 1 s \<and> f64_sub 1 s \<le> 1"
  by (simp add: f64_sub_def rnd_nonneg rnd_le_1)

lemma u64_of_f64_int:
  assumes "0 \<le> n" "n < 2 ^ 64"
  shows "u64_of_f64 (of_int n) = of_nat (nat n)"
proof -
  have "(of_int n :: rat) < of_int (2 ^ 64)"
    using assms(2) by (simp only: of_int_less_iff)
  then show ?thesis
    using assms(1) by (auto simp: u64_of_f64_def)
qed

text \<open>The corrected release before rounding, for a target a float holds exactly.\<close>

definition raw_release :: "nat \<Rightarrow> f64 \<Rightarrow> f64" where
  "raw_release t s = (if f64_sub 1 s \<le> 0 then of_nat (2 * t)
     else min (f64_div (of_nat t) (f64_sub 1 s)) (of_nat (2 * t)))"

lemma raw_release_bounds:
  assumes "0 \<le> s" "s \<le> 1" "t \<le> 2 ^ 52"
  shows "of_nat t \<le> raw_release t s" "raw_release t s \<le> of_nat (2 * t)"
proof -
  show "raw_release t s \<le> of_nat (2 * t)"
    by (simp add: raw_release_def)
  have "of_nat t \<le> f64_div (of_nat t) (f64_sub 1 s)" if "0 < f64_sub 1 s"
  proof -
    have "of_nat t * f64_sub 1 s \<le> of_nat t"
      using f64_sub_unit [OF assms(1,2)] by (simp add: mult_left_le)
    then have "of_nat t \<le> of_nat t / f64_sub 1 s"
      using that by (simp add: pos_le_divide_eq)
    then have "rnd (of_nat t) \<le> rnd (of_nat t / f64_sub 1 s)"
      by (rule rnd_mono)
    then show ?thesis
      using assms(3) by (simp add: f64_div_def rnd_nat)
  qed
  then show "of_nat t \<le> raw_release t s"
    by (simp add: raw_release_def not_le)
qed

lemma raw_release_mono:
  assumes "s \<le> s'"
  shows "raw_release t s \<le> raw_release t s'"
proof (cases "f64_sub 1 s' \<le> 0")
  case False
  have d: "f64_sub 1 s' \<le> f64_sub 1 s"
    using assms by (simp add: f64_sub_def rnd_mono)
  then have "f64_div (of_nat t) (f64_sub 1 s) \<le> f64_div (of_nat t) (f64_sub 1 s')"
    using False by (auto simp: f64_div_def not_le intro!: rnd_mono divide_left_mono mult_pos_pos)
  then show ?thesis
    using False d by (auto simp: raw_release_def min_def)
qed (simp add: raw_release_def)

lemma bounded_release_raw:
  assumes "0 \<le> s" "s \<le> 1" "unat target = t" "t < 2 ^ 36"
  shows "unat (bounded_release target s) = nat \<lfloor>raw_release t s + 1 / 2\<rfloor>"
proof -
  let ?r = "raw_release t s"
  have bnd: "of_nat t \<le> ?r" "?r \<le> of_nat (2 * t)"
    using raw_release_bounds [OF assms(1,2), of t] assms(4) by simp_all
  have tf: "f64_of_u64 target = of_nat t"
    using assms(4) by (intro f64_of_u64_exact assms(3)) simp
  have "rnd (of_nat (2 * t)) = of_nat (2 * t)"
    using assms(4) by (intro rnd_nat) simp
  then have cap: "f64_mul (of_nat t) MAX_CORRECTION_MULTIPLE = of_nat (2 * t)"
    by (simp add: f64_mul_def MAX_CORRECTION_MULTIPLE_def mult.commute)
  let ?n = "\<lfloor>?r + 1 / 2\<rfloor>"
  have r0: "0 \<le> ?r" using bnd(1) of_nat_0_le_iff [of t, where 'a = rat] by linarith
  then have n0: "0 \<le> ?n" by (simp add: le_floor_iff)
  have "(of_nat (2 * t) :: rat) < of_nat (2 ^ 37)"
    using assms(4) by (intro of_nat_less_iff [THEN iffD2]) simp
  then have n1: "?n < 2 ^ 37 + 1"
    using bnd(2) by (simp add: floor_less_iff)
  have r: "f64_round ?r = of_int ?n"
    using r0 by (simp add: f64_round_def)
  have mx: "2 ^ 53 \<le> f64_of_u64 (- 1)"
  proof -
    have "rnd (of_nat (2 ^ 53)) \<le> rnd (of_nat (unat (- 1 :: u64)))"
      by (intro rnd_mono of_nat_le_iff [THEN iffD2]) (simp add: u64_arith)
    moreover have "rnd (of_nat (2 ^ 53)) = of_nat (2 ^ 53)"
      by (rule rnd_nat) simp
    ultimately show ?thesis
      by (simp add: f64_of_u64_def)
  qed
  have lt: "(of_int ?n :: rat) < 2 ^ 53"
  proof -
    have "(of_int ?n :: rat) < of_int (2 ^ 53)"
      using n1 by (intro of_int_less_iff [THEN iffD2]) simp
    then show ?thesis by simp
  qed
  have u: "u64_of_f64 (of_int ?n) = of_nat (nat ?n)"
    using n0 n1 by (intro u64_of_f64_int) simp_all
  have clip: "(if n \<le> 0 then 0 else of_nat (nat n)) = (of_nat (nat n) :: u64)" for n :: int
    by simp
  have "\<not> f64_of_u64 (- 1) \<le> of_int ?n"
    using mx lt by linarith
  then have "bounded_release target s = (if of_int ?n \<le> (0 :: rat) then 0 else u64_of_f64 (of_int ?n))"
    unfolding bounded_release_def Let_def tf cap raw_release_def [symmetric] r by (simp only: if_False)
  also have "\<dots> = of_nat (nat ?n)"
    unfolding u of_int_le_0_iff by (rule clip)
  finally have eq: "bounded_release target s = of_nat (nat ?n)" .
  have "nat ?n < 2 ^ 64" using order.strict_trans [OF n1, of "2 ^ 64"] by (simp only: nat_less_numeral_power_cancel_iff) simp
  then show ?thesis
    unfolding eq by (intro unat_of_nat_small) simp
qed

lemma bounded_release_bounds:
  assumes "0 \<le> s" "s \<le> 1" "unat target < 2 ^ 36"
  shows "unat target \<le> unat (bounded_release target s)"
    "unat (bounded_release target s) \<le> 2 * unat target"
proof -
  obtain t where t: "unat target = t" by blast
  let ?r = "raw_release t s"
  have bnd: "of_nat t \<le> ?r" "?r \<le> of_nat (2 * t)"
    using raw_release_bounds [OF assms(1,2), of t] assms(3) t by simp_all
  have "int t \<le> \<lfloor>?r + 1 / 2\<rfloor>"
    using bnd(1) by (simp add: le_floor_iff)
  moreover have "\<lfloor>?r + 1 / 2\<rfloor> \<le> int (2 * t)"
    using bnd(2) by (simp add: floor_le_iff)
  ultimately have "t \<le> nat \<lfloor>?r + 1 / 2\<rfloor>" "nat \<lfloor>?r + 1 / 2\<rfloor> \<le> 2 * t"
    by linarith+
  then show "unat target \<le> unat (bounded_release target s)"
    "unat (bounded_release target s) \<le> 2 * unat target"
    using bounded_release_raw [OF assms(1,2) t] assms(3) t by simp_all
qed

lemma bounded_release_mono:
  assumes "0 \<le> s" "s \<le> s'" "s' \<le> 1" "unat target < 2 ^ 36"
  shows "bounded_release target s \<le> bounded_release target s'"
proof -
  obtain t where t: "unat target = t" by blast
  have "\<lfloor>raw_release t s + 1 / 2\<rfloor> \<le> \<lfloor>raw_release t s' + 1 / 2\<rfloor>"
    using raw_release_mono [OF assms(2)] by (intro floor_mono) simp
  then have "nat \<lfloor>raw_release t s + 1 / 2\<rfloor> \<le> nat \<lfloor>raw_release t s' + 1 / 2\<rfloor>"
    by (rule nat_mono)
  then show ?thesis
    using bounded_release_raw [of s target t] bounded_release_raw [of s' target t] assms t
    unfolding word_le_nat_alt by simp
qed

lemma bounded_release_0:
  assumes "unat target < 2 ^ 36"
  shows "bounded_release target 0 = target"
proof -
  obtain t where t: "unat target = t" by blast
  have "raw_release t 0 = of_nat t"
    using assms t by (simp add: raw_release_def f64_sub_def f64_div_def rnd_nat)
  then have "\<lfloor>raw_release t 0 + 1 / 2\<rfloor> = int t"
    by (simp add: floor_unique)
  then show ?thesis
    using bounded_release_raw [of 0 target t] assms t by (auto intro: unat_inj)
qed

section \<open>One release\<close>

definition prev_ok :: "no_show_state option \<Rightarrow> bool" where
  "prev_ok prev \<longleftrightarrow>
     (case prev of None \<Rightarrow> True | Some st \<Rightarrow> 0 \<le> ns_smoothed_rate st \<and> ns_smoothed_rate st \<le> 1)"

lemma smoothed_no_show_range: "0 \<le> smoothed_no_show a b prev" "smoothed_no_show a b prev \<le> 1"
  by (simp_all add: smoothed_no_show_def f64_clamp_def Let_def)

text \<open>What the interval measures: the people the cursor passed, and whether the last open pass is
  recent enough to compare them with the arrivals.\<close>

definition released_last_of :: "release_inputs \<Rightarrow> u64" where
  "released_last_of i = saturating_sub (ri_serving_counter i) (max (ri_last_serving_counter i) 1)"

definition observed_of :: "release_inputs \<Rightarrow> u64" where
  "observed_of i = saturating_sub (sum_arrivals (ri_arrivals i)) (ri_last_arrivals_total i)"

definition unmeasurable :: "release_inputs \<Rightarrow> u64 \<Rightarrow> bool" where
  "unmeasurable i now \<longleftrightarrow> released_last_of i = 0
     \<or> STALE_OPEN_PASS_SECS \<le> saturating_sub now (ri_last_open_pass_at i)"

definition kept_rate :: "no_show_state option \<Rightarrow> f64" where
  "kept_rate prev = (case prev of Some st \<Rightarrow> ns_smoothed_rate st | None \<Rightarrow> 0)"

definition floored :: "f64 \<Rightarrow> f64" where
  "floored r = (if 0 < r \<and> r < DDB_NUMBER_MIN_POSITIVE then 0 else r)"

definition asked_release :: "release_inputs \<Rightarrow> no_show_state option \<Rightarrow> u64 \<Rightarrow> u64" where
  "asked_release i prev now =
     (if unmeasurable i now then target_release_per_interval (ri_target_rate i)
      else bounded_release (target_release_per_interval (ri_target_rate i))
             (smoothed_no_show (observed_of i) (released_last_of i) prev))"

definition new_rate :: "release_inputs \<Rightarrow> no_show_state option \<Rightarrow> u64 \<Rightarrow> f64" where
  "new_rate i prev now =
     (if unmeasurable i now then kept_rate prev
      else smoothed_no_show (observed_of i) (released_last_of i) prev)"

lemma compute_release_fields:
  "rd_next_serving_counter (compute_release i prev now) =
     max (min (saturating_add (ri_serving_counter i) (asked_release i prev now))
              (saturating_add (ri_queue_counter i) 1)) (ri_serving_counter i)"
  "rd_release (compute_release i prev now) =
     saturating_sub (rd_next_serving_counter (compute_release i prev now)) (ri_serving_counter i)"
  "rd_previous_serving_counter (compute_release i prev now) = ri_serving_counter i"
  "rd_arrivals_total (compute_release i prev now) = sum_arrivals (ri_arrivals i)"
  "ns_smoothed_rate (rd_no_show (compute_release i prev now)) = floored (new_rate i prev now)"
  "rd_last_open_pass_at (compute_release i prev now) = now"
  by (simp_all add: compute_release_def Let_def asked_release_def new_rate_def unmeasurable_def
      kept_rate_def floored_def released_last_of_def observed_of_def split: prod.split)

lemma new_rate_range: "prev_ok prev \<Longrightarrow> 0 \<le> new_rate i prev now \<and> new_rate i prev now \<le> 1"
  by (auto simp: new_rate_def kept_rate_def prev_ok_def smoothed_no_show_range split: option.splits)

lemma asked_release_bounds:
  "10 * unat (ri_target_rate i) \<le> unat (asked_release i prev now)"
  "unat (asked_release i prev now) \<le> 20 * unat (ri_target_rate i)"
  using bounded_release_bounds [OF smoothed_no_show_range, of "target_release_per_interval (ri_target_rate i)"
      "observed_of i" "released_last_of i" prev] target_release [of "ri_target_rate i"]
  unfolding asked_release_def by (simp_all del: One_nat_def)

lemma unat_max_min [u64_arith]:
  "unat (max a b :: 'a::len word) = max (unat a) (unat b)" "unat (min a b :: 'a::len word) = min (unat a) (unat b)"
  by (simp_all add: max_def min_def word_le_nat_alt)

text \<open>The release is what was asked for, as far as the line goes.\<close>

lemma release_eq:
  "unat (rd_release (compute_release i prev now))
     = min (unat (asked_release i prev now))
           (unat (saturating_add (ri_queue_counter i) 1) - unat (ri_serving_counter i))"
proof -
  let ?s = "ri_serving_counter i" and ?c = "saturating_add (ri_queue_counter i) 1"
  have "unat ?c \<le> 18446744073709551615"
    using unat_u64_lt [of ?c] by linarith
  then show ?thesis
    by (simp only: compute_release_fields(1,2) unat_saturating_sub unat_max_min unat_saturating_add)
      (auto simp: min_def max_def)
qed

text \<open>The cursor: never backwards, never past one beyond the last position issued, by at most
  twice the operator's rate, and by at least that rate where the line is long enough.\<close>

lemma cursor_bounds:
  assumes "d = compute_release i prev now"
  shows "ri_serving_counter i \<le> rd_next_serving_counter d"
    and "rd_next_serving_counter d \<le> max (ri_serving_counter i) (saturating_add (ri_queue_counter i) 1)"
    and "unat (rd_next_serving_counter d) = unat (ri_serving_counter i) + unat (rd_release d)"
    and "unat (rd_release d) \<le> 20 * unat (ri_target_rate i)"
    and "min (10 * unat (ri_target_rate i)) (unat (saturating_add (ri_queue_counter i) 1) - unat (ri_serving_counter i))
           \<le> unat (rd_release d)"
proof -
  note n = compute_release_fields(1) [of i prev now, folded assms]
  note r = compute_release_fields(2) [of i prev now, folded assms]
  show le: "ri_serving_counter i \<le> rd_next_serving_counter d"
    by (simp add: n)
  show "rd_next_serving_counter d \<le> max (ri_serving_counter i) (saturating_add (ri_queue_counter i) 1)"
    by (auto simp: n min_def max_def)
  show "unat (rd_next_serving_counter d) = unat (ri_serving_counter i) + unat (rd_release d)"
    using le by (simp add: r unat_saturating_sub word_le_nat_alt)
  show "unat (rd_release d) \<le> 20 * unat (ri_target_rate i)"
    "min (10 * unat (ri_target_rate i)) (unat (saturating_add (ri_queue_counter i) 1) - unat (ri_serving_counter i))
      \<le> unat (rd_release d)"
    unfolding assms release_eq using asked_release_bounds [of i prev now] by auto
qed

section \<open>The contract\<close>

text \<open>What a pass relies on of any \<open>Store\<close>: one read of the state, and a write that moves the
  cursor forward from the value it expects.\<close>

locale release_port =
  fixes cfg :: ledger_cfg and st :: release_store
  assumes read_law: "(\<And>r g'. Q1 r g') \<Longrightarrow> lwp cfg (rs_read_state st (lc_event cfg)) Q1 g"
    and write_law:
    "rd_previous_serving_counter decision = expected \<Longrightarrow> expected \<le> rd_next_serving_counter decision \<Longrightarrow>
     (\<And>r g'. Q2 r g') \<Longrightarrow> lwp cfg (rs_write_release st (lc_event cfg) decision expected) Q2 g"
    and read_returns: "returns (rs_read_state st event_id) 2"
    and write_returns: "returns (rs_write_release st event_id decision expected) 1"
begin

lemma run_pass_ok:
  assumes "\<And>r g'. Q r g'"
  shows "lwp cfg (run_pass st (lc_event cfg) now) Q g"
proof -
  have w: "(\<And>r g'. Q' r g') \<Longrightarrow>
      lwp cfg (rs_write_release st (lc_event cfg) (compute_release i prev now) (ri_serving_counter i)) Q' g'"
    for i prev Q' g'
    using cursor_bounds(1) [OF refl, of i prev now]
    by (intro write_law) (simp_all add: compute_release_fields(3))
  then show ?thesis
    unfolding run_pass_def Let_def lwp_bind_ok using assms
    by (auto intro!: read_law w lwp_DoneI split: sum.split admission_control.split)
qed

lemma run_pass_returns: "returns (run_pass st event_id now) 3"
proof -
  let ?k = "\<lambda>state. if cs_phase state \<noteq> Active then Done (Inr (NotActive (cs_phase state)))
       else
         (case resolve (cs_stored_control state) (cs_fail_open_until state) now of
            AcOpen \<Rightarrow>
              let decision = compute_release (cs_inputs state) (cs_prev_no_show state) now in
              bind_ok (rs_write_release st event_id decision (ri_serving_counter (cs_inputs state)))
                (\<lambda>race.
                   if is_lost race then Done (Inr (Ran 0))
                   else Done (Inr (Ran (rd_release decision))))
          | control \<Rightarrow> Done (Inr (Held control)))"
  have w: "(\<And>x. returns (f x) 0) \<Longrightarrow> returns (bind_ok (rs_write_release st event_id decision expected) f) (Suc 0)"
    for f :: "release_outcome \<Rightarrow> (release_error + pass_outcome) prog" and decision expected
    using returns_bind_ok [OF write_returns, of f 0] by simp
  have "returns (?k state) 1" for state
    by (auto simp: Let_def intro!: w split: admission_control.split)
  from returns_bind_ok [OF read_returns this] show ?thesis
    unfolding run_pass_def by simp
qed

end

section \<open>The DynamoDB store meets the contract\<close>

lemma read_state_law:
  assumes "\<And>r g'. Q r g'"
  shows "lwp cfg (read_state (tb_counters (lc_tables cfg)) (lc_event cfg)) Q g"
  unfolding read_state_def read_arrivals_def using assms
  by (auto intro!: lwp_DoneI split: sum.split)

lemma release_clause_attrs:
  "clause_attr ` set (release_clauses d) =
     {''serving_counter'', ''last_serving_counter'', ''last_arrivals_total'', ''no_show_rate'',
      ''last_open_pass_at''}"
  by (simp add: release_clauses_def)

lemma release_move:
  assumes "expected \<le> rd_next_serving_counter d"
  shows "serving_move (release_clauses d) (Some (release_guard expected))"
proof -
  have "release_clauses d = USet ''serving_counter'' (AN (show_u64 (rd_next_serving_counter d))) # tl (release_clauses d)"
    "\<forall>u\<in>set (tl (release_clauses d)). clause_attr u \<noteq> ''serving_counter''"
    by (simp_all add: release_clauses_def)
  then show ?thesis
    unfolding serving_move_def release_guard_def using assms by blast
qed

lemma write_release_law:
  assumes "expected \<le> rd_next_serving_counter decision" "\<And>r g'. Q r g'"
  shows "lwp cfg (write_release (tb_counters (lc_tables cfg)) (lc_event cfg) decision expected) Q g"
proof -
  have "\<forall>u\<in>set (release_clauses decision). clause_attr u \<notin> protected_attrs \<and> phase_move g u"
    by (simp add: release_clauses_def protected_attrs_def phase_move_def)
  then have "event_update_ob g (release_clauses decision) (Some (release_guard expected))"
    using release_move [OF assms(1)] unfolding event_update_ob_def by blast
  then show ?thesis
    using assms(2) shard_key_ne [of cfg, symmetric]
    unfolding write_release_def event_key_def [symmetric]
    by (auto simp: ledger_ob_def counters_update_ob_def tables_ok_def
        intro!: lwp_UpdateItem lwp_DoneI split: sum.split sdk_error.split)
qed

lemma release_store_returns:
  "returns (read_state t ev) 2" "returns (write_release t ev d e) (Suc 0)"
  by (auto simp: read_state_def read_arrivals_def write_release_def bind_ok_def split: sum.split option.split sdk_error.split)

interpretation drs: release_port cfg "dynamo_release_store (tb_counters (lc_tables cfg))" for cfg
  by unfold_locales
    (auto simp: dynamo_release_store_def release_store_returns intro: read_state_law write_release_law)

section \<open>The handler\<close>

lemma controller_loop_ok:
  "(\<And>r g'. Q r g') \<Longrightarrow>
   lwp cfg (controller_loop (tb_counters (lc_tables cfg)) (lc_event cfg) left outcomes) Q g"
  by (induction left arbitrary: outcomes g)
    (auto intro!: lwp_DoneI drs.run_pass_ok split: sum.split release_error.split)

lemma controller_handle_honours:
  "honours cfg (controller_handle (tb_counters (lc_tables cfg)) (lc_event cfg))"
  unfolding honours_def controller_handle_def by (auto intro: controller_loop_ok)

lemma controller_loop_returns:
  fixes cfg :: ledger_cfg
  shows "returns (controller_loop (tb_counters (lc_tables cfg)) ev left outcomes) (4 * left)"
proof (induction left arbitrary: outcomes)
  case (Suc left)
  let ?k = "\<lambda>r. case r of
           Inl (ReleaseError e) \<Rightarrow> Done (Inl (''controller store error: '' @ e))
         | Inr outcome \<Rightarrow> controller_loop (tb_counters (lc_tables cfg)) ev left (outcomes @ [outcome])"
  have "returns (bind (run_pass (dynamo_release_store (tb_counters (lc_tables cfg))) ev now) ?k) (3 + 4 * left)" for now
    using Suc by (intro returns_bind drs.run_pass_returns) (simp split: sum.split release_error.split)
  then show ?case
    by (simp del: append.simps)
qed simp

text \<open>What a pass asked of the database, given what it was answered: it moves the cursor only
  when the item it read says the event is active, the operator's control is open and no fail-open
  window is in force, and then under a guard on the cursor it read.\<close>

definition pass_writes :: "string \<Rightarrow> string \<Rightarrow> u64 \<Rightarrow> resp list \<Rightarrow> req \<Rightarrow> bool" where
  "pass_writes t event_id now rs q \<longleftrightarrow> (\<exists>m arrivals.
     RGet (Inr (Some m)) \<in> set rs
     \<and> get_s m ''phase'' = Some (phase_wire Active) \<and> stored_control_of m = StOpen
     \<and> num m ''fail_open_until'' \<le> now
     \<and> (let d = compute_release (cs_inputs (state_of_item m arrivals)) (cs_prev_no_show (state_of_item m arrivals)) now
        in q = QUpdate t (key_build (KEvent event_id)) (release_clauses d) (Some (release_guard (num m ''serving_counter'')))))"

lemma state_active:
  assumes "cs_phase (state_of_item m a) = Active"
  shows "get_s m ''phase'' = Some (phase_wire Active)"
proof (cases "get_s m ''phase''")
  case (Some s)
  with assms have "phase_parse s = Inr Active"
    by (auto simp: state_of_item_def split: sum.splits)
  with Some show ?thesis
    by (simp add: phase_parse_Inr)
qed (use assms in \<open>simp add: state_of_item_def\<close>)

lemma asked_write_release:
  "q \<in> asked (write_release t ev d e) rs \<Longrightarrow>
   q = QUpdate t (key_build (KEvent ev)) (release_clauses d) (Some (release_guard e))"
  unfolding write_release_def asked_ops
  by (elim exE conjE disjE) (auto split: sum.splits sdk_error.splits)

lemma yields_read_state:
  assumes "yields (read_state t ev) rs (Inr st)"
  shows "\<exists>m arrivals. RGet (Inr (Some m)) \<in> set rs \<and> st = state_of_item m arrivals"
proof -
  obtain r rs' where rs: "rs = RGet r # rs'" and y: "yields (case r of
         Inl e \<Rightarrow> Done (Inl (ReleaseError (''get_item counters: '' @ sdk_display e)))
       | Inr None \<Rightarrow> Done (Inl (ReleaseError (''no Counters item for event '' @ ev)))
       | Inr (Some m) \<Rightarrow>
           bind_ok (read_arrivals t ev) (\<lambda>arrivals. Done (Inr (state_of_item m arrivals)))) rs' (Inr st)"
    using assms unfolding read_state_def yields_ops by blast
  then show ?thesis
    by (auto simp: yields_bind_ok split: sum.splits option.splits)
qed

lemma asked_read_arrivals: "QUpdate t' k us c \<notin> asked (read_arrivals t ev) rs"
proof
  assume "QUpdate t' k us c \<in> asked (read_arrivals t ev) rs"
  then obtain r rs' where y: "QUpdate t' k us c \<in> asked (case r of
         Inl e \<Rightarrow> Done (Inl (ReleaseError (''batch_get_item arrivals: '' @ sdk_display e)))
       | Inr (items, unprocessed) \<Rightarrow>
           (case arrivals_from_shard_items items (replicate SHARDS 0) of
              Inl e \<Rightarrow> Done (Inl e)
            | Inr arrivals \<Rightarrow>
                if unprocessed then Done (Inl (ReleaseError ''arrivals read incomplete; retry''))
                else Done (Inr arrivals))) rs'"
    unfolding read_arrivals_def asked_ops by blast
  show False
  proof (cases r)
    case (Inr p)
    then show False
      using y by (cases p; cases "arrivals_from_shard_items (fst p) (replicate SHARDS 0)") (auto split: if_splits)
  qed (use y in simp)
qed

lemma asked_read_state: "QUpdate t' k us c \<notin> asked (read_state t ev) rs"
proof
  assume "QUpdate t' k us c \<in> asked (read_state t ev) rs"
  then obtain r rs' where y: "QUpdate t' k us c \<in> asked (case r of
         Inl e \<Rightarrow> Done (Inl (ReleaseError (''get_item counters: '' @ sdk_display e)))
       | Inr None \<Rightarrow> Done (Inl (ReleaseError (''no Counters item for event '' @ ev)))
       | Inr (Some m) \<Rightarrow>
           bind_ok (read_arrivals t ev) (\<lambda>arrivals. Done (Inr (state_of_item m arrivals)))) rs'"
    unfolding read_state_def asked_ops by blast
  then show False
    by (auto simp: asked_bind_ok asked_read_arrivals split: sum.splits option.splits)
qed

text \<open>C11: a pass asks for a write only when the item it read is active, open and outside any
  fail-open window, and the write is then the computed release under the guard on the cursor that
  was read; every other request of it is a read.\<close>

theorem pass_write_gated:
  assumes "QUpdate t' k us c \<in> asked (run_pass (dynamo_release_store t) event_id now) rs"
  shows "pass_writes t event_id now rs (QUpdate t' k us c)"
proof -
  let ?q = "QUpdate t' k us c"
  obtain st rs1 rs2 where rs: "rs = rs1 @ rs2" and y: "yields (read_state t event_id) rs1 (Inr st)"
    and st: "cs_phase st = Active" "resolve (cs_stored_control st) (cs_fail_open_until st) now = AcOpen"
    and q: "?q \<in> asked (write_release t event_id (compute_release (cs_inputs st) (cs_prev_no_show st) now)
                (ri_serving_counter (cs_inputs st))) rs2"
    using assms asked_read_state [of t' k us c t event_id]
    by (auto simp: run_pass_def dynamo_release_store_def asked_bind_ok Let_def
        split: if_splits admission_control.splits)
  then obtain m arrivals where m: "RGet (Inr (Some m)) \<in> set rs1" "st = state_of_item m arrivals"
    using yields_read_state by blast
  show ?thesis
    using m st state_active [of m arrivals] asked_write_release [OF q] rs
    unfolding pass_writes_def Let_def resolve_open_iff
    by (auto simp: state_of_item_def)
qed

definition ex_active :: item where
  "ex_active = [''phase'' \<mapsto> AS ''active'']"

theorem pass_write_gated_witness:
  "\<exists>us c. QUpdate ''C'' (key_build (KEvent ''e'')) us c
        \<in> asked (run_pass (dynamo_release_store ''C'') ''e'' 1000)
            [RGet (Inr (Some ex_active)), RBatch (Inr ([], False)), RUpdate (Inr ex_active)]
     \<and> pass_writes ''C'' ''e'' 1000
         [RGet (Inr (Some ex_active)), RBatch (Inr ([], False)), RUpdate (Inr ex_active)]
         (QUpdate ''C'' (key_build (KEvent ''e'')) us c)"
proof -
  let ?st = "state_of_item ex_active (replicate SHARDS 0)"
  let ?q = "QUpdate ''C'' (key_build (KEvent ''e''))
     (release_clauses (compute_release (cs_inputs ?st) (cs_prev_no_show ?st) 1000))
     (Some (release_guard (ri_serving_counter (cs_inputs ?st))))"
  let ?rs = "[RGet (Inr (Some ex_active)), RBatch (Inr ([], False)), RUpdate (Inr ex_active)]"
  have st: "cs_phase ?st = Active" "resolve (cs_stored_control ?st) (cs_fail_open_until ?st) 1000 = AcOpen"
    by (simp_all add: state_of_item_def ex_active_def get_s_def get_n_def get_u64_def num_def phase_parse_def
        stored_control_of_def resolve_def)
  have "yields (read_state ''C'' ''e'') [RGet (Inr (Some ex_active)), RBatch (Inr ([], False))] (Inr ?st)"
    by (simp add: read_state_def yields_ops bind_ok_def read_arrivals_def)
  moreover have "?q \<in> asked (write_release ''C'' ''e''
      (compute_release (cs_inputs ?st) (cs_prev_no_show ?st) 1000) (ri_serving_counter (cs_inputs ?st)))
      [RUpdate (Inr ex_active)]"
    by (simp add: write_release_def asked_ops)
  ultimately have q: "?q \<in> asked (run_pass (dynamo_release_store ''C'') ''e'' 1000) ?rs"
    unfolding run_pass_def dynamo_release_store_def asked_bind_ok
    by (intro disjI2 exI [of _ "[RGet (Inr (Some ex_active)), RBatch (Inr ([], False))]"]
        exI [of _ "[RUpdate (Inr ex_active)]"] exI [of _ ?st])
      (simp add: st Let_def asked_bind_ok)
  then show ?thesis
    using pass_write_gated [OF q] by blast
qed

text \<open>C12: the controller returns after at most twenty-four answered requests, whatever the answers
  are: six passes of a clock reading and at most three requests each.\<close>

theorem controller_returns:
  fixes tb :: tables
  shows "returns (controller_handle (tb_counters tb) event_id) 24"
  using controller_loop_returns [of "\<lparr>lc_tables = tb, lc_event = event_id, lc_hmac = undefined\<rparr>" event_id PASSES_PER_INVOKE "[]"]
  by (simp add: controller_handle_def PASSES_PER_INVOKE_def)

text \<open>The sum of the shards never wraps.\<close>

lemma sum_arrivals_loop_sat:
  "unat (sum_arrivals_loop acc xs) = min (unat acc + sum_list (map unat xs)) (2 ^ 64 - 1)"
proof (induction xs arbitrary: acc)
  case Nil
  have "unat acc \<le> 18446744073709551615"
    using unat_u64_lt [of acc] by linarith
  then show ?case
    by simp
next
  case (Cons x xs)
  show ?case
    unfolding sum_arrivals_loop.simps Cons.IH by (simp add: unat_saturating_add)
qed

lemma sum_arrivals_sat: "unat (sum_arrivals xs) = min (sum_list (map unat xs)) (2 ^ 64 - 1)"
  by (simp add: sum_arrivals_def sum_arrivals_loop_sat)

lemma f64_clamp_mono: "lo \<le> hi \<Longrightarrow> x \<le> y \<Longrightarrow> f64_clamp x lo hi \<le> f64_clamp y lo hi"
  by (auto simp: f64_clamp_def)

lemma smoothed_no_show_anti:
  assumes "a \<le> b"
  shows "smoothed_no_show b n prev \<le> smoothed_no_show a n prev"
proof -
  have n0: "0 \<le> f64_of_u64 n"
    unfolding f64_of_u64_def by (intro rnd_nonneg of_nat_0_le_iff)
  define fr where "fr = (\<lambda>a. f64_sub 1 (f64_clamp (f64_div (f64_of_u64 a) (f64_of_u64 n)) 0 1))"
  have "f64_div (f64_of_u64 a) (f64_of_u64 n) \<le> f64_div (f64_of_u64 b) (f64_of_u64 n)"
    unfolding f64_div_def by (intro rnd_mono divide_right_mono f64_of_u64_mono assms n0)
  then have fr: "fr b \<le> fr a"
    unfolding fr_def f64_sub_def by (intro rnd_mono diff_mono f64_clamp_mono) simp_all
  have al: "0 \<le> EWMA_ALPHA"
    by (simp add: EWMA_ALPHA_def rnd_nonneg)
  have "f64_add (f64_mul EWMA_ALPHA (fr b)) c \<le> f64_add (f64_mul EWMA_ALPHA (fr a)) c" for c
    unfolding f64_add_def f64_mul_def by (intro rnd_mono add_mono mult_left_mono fr al order_refl)
  then show ?thesis
    using fr unfolding smoothed_no_show_def Let_def fr_def
    by (intro f64_clamp_mono) (auto split: option.split)
qed

text \<open>C10: one pass releases at least the operator's rate as far as the line goes and at most twice
  that rate; the cursor never moves backwards, and never past one beyond the last position
  issued.\<close>

theorem release_bounds:
  "let d = compute_release i prev now; line = saturating_add (ri_queue_counter i) 1 in
     ri_serving_counter i \<le> rd_next_serving_counter d
     \<and> unat (rd_next_serving_counter d) = unat (ri_serving_counter i) + unat (rd_release d)
     \<and> rd_next_serving_counter d \<le> max (ri_serving_counter i) line
     \<and> unat (rd_release d) \<le> 20 * unat (ri_target_rate i)
     \<and> min (10 * unat (ri_target_rate i)) (unat line - unat (ri_serving_counter i)) \<le> unat (rd_release d)"
  unfolding Let_def using cursor_bounds [OF refl, of i prev now] by blast

text \<open>C13: fewer arrivals never release less: of two intervals that differ only in the arrivals, the
  one that saw fewer releases at least as many.\<close>

theorem release_antitone:
  assumes "i' = i\<lparr>ri_arrivals := arrivals\<rparr>" "sum_arrivals (ri_arrivals i) \<le> sum_arrivals arrivals"
  shows "rd_release (compute_release i' prev now) \<le> rd_release (compute_release i prev now)"
proof -
  let ?t = "target_release_per_interval (ri_target_rate i)"
  have o: "observed_of i \<le> observed_of i'"
    using assms(2) by (simp add: observed_of_def assms(1) word_le_nat_alt unat_saturating_sub)
  have r: "released_last_of i' = released_last_of i" "unmeasurable i' now = unmeasurable i now"
    by (simp_all add: assms(1) released_last_of_def unmeasurable_def)
  have "bounded_release ?t (smoothed_no_show (observed_of i') (released_last_of i) prev)
      \<le> bounded_release ?t (smoothed_no_show (observed_of i) (released_last_of i) prev)"
    using target_release [of "ri_target_rate i"]
    by (intro bounded_release_mono smoothed_no_show_range smoothed_no_show_anti o) simp
  then have a: "asked_release i' prev now \<le> asked_release i prev now"
    using r by (simp add: asked_release_def assms(1))
  have "ri_serving_counter i' = ri_serving_counter i" "ri_queue_counter i' = ri_queue_counter i"
    by (simp_all add: assms(1))
  then show ?thesis
    using a unfolding word_le_nat_alt release_eq by (simp add: min_le_iff_disj)
qed

definition ex_inputs :: release_inputs where
  "ex_inputs = \<lparr>ri_arrivals = [3, 4], ri_last_arrivals_total = 2, ri_last_serving_counter = 1,
     ri_serving_counter = 11, ri_queue_counter = 100, ri_target_rate = 1, ri_last_open_pass_at = 990\<rparr>"

theorem release_antitone_witness:
  "rd_release (compute_release (ex_inputs\<lparr>ri_arrivals := [5, 7]\<rparr>) None 1000)
     \<le> rd_release (compute_release ex_inputs None 1000)
   \<and> 10 \<le> unat (rd_release (compute_release ex_inputs None 1000))"
proof -
  have "sum_arrivals (ri_arrivals ex_inputs) \<le> sum_arrivals [5, 7]"
    by (simp add: ex_inputs_def sum_arrivals_def saturating_add_def)
  moreover have "10 \<le> unat (rd_release (compute_release ex_inputs None 1000))"
    using cursor_bounds(5) [OF refl, of ex_inputs None 1000] by (simp add: ex_inputs_def saturating_add_def)
  ultimately show ?thesis
    using release_antitone [OF refl, of ex_inputs "[5, 7]" None 1000] by simp
qed

text \<open>An interval with nothing to measure, because nobody was released or the last open pass is
  stale, releases exactly the operator's rate as far as the line goes and keeps the no-show rate;
  so does an interval in which everybody released arrived and no no-show rate is carried.\<close>

theorem release_at_target:
  assumes "unmeasurable i now \<or> (released_last_of i \<le> observed_of i \<and> kept_rate prev = 0)"
  shows "unat (rd_release (compute_release i prev now))
       = min (10 * unat (ri_target_rate i))
             (unat (saturating_add (ri_queue_counter i) 1) - unat (ri_serving_counter i))
     \<and> ns_smoothed_rate (rd_no_show (compute_release i prev now)) = floored (kept_rate prev)"
proof -
  let ?t = "target_release_per_interval (ri_target_rate i)"
  have z: "smoothed_no_show (observed_of i) (released_last_of i) prev = 0"
    if h: "\<not> unmeasurable i now" "released_last_of i \<le> observed_of i" "kept_rate prev = 0"
  proof -
    let ?o = "f64_of_u64 (observed_of i)" and ?r = "f64_of_u64 (released_last_of i)"
    have "1 \<le> released_last_of i"
      using h(1) by (simp add: unmeasurable_def word_le_nat_alt Suc_le_eq unat_gt_0)
    then have "1 \<le> ?r"
      using f64_of_u64_mono [of 1] f64_of_u64_exact [of 1 1] by simp
    moreover have "?r \<le> ?o"
      by (rule f64_of_u64_mono) (rule h(2))
    ultimately have "1 \<le> ?o / ?r"
      by (simp add: pos_le_divide_eq)
    then have "1 \<le> f64_div ?o ?r"
      using rnd_mono [of 1 "?o / ?r"] by (simp add: f64_div_def)
    then have "f64_clamp (f64_div ?o ?r) 0 1 = 1"
      by (simp add: f64_clamp_def)
    then show ?thesis
      using h(3)
      by (auto simp: smoothed_no_show_def Let_def f64_sub_def f64_mul_def f64_add_def f64_clamp_def
          kept_rate_def split: option.splits)
  qed
  have t: "unat ?t < 2 ^ 36"
    using target_release [of "ri_target_rate i"] by simp
  have a: "asked_release i prev now = ?t"
    using assms z by (auto simp: asked_release_def bounded_release_0 [OF t])
  have rate: "new_rate i prev now = kept_rate prev"
    using assms z by (auto simp: new_rate_def)
  show ?thesis
    unfolding release_eq compute_release_fields(5) a rate target_release by (rule conjI refl)+
qed

theorem release_at_target_witness:
  "unat (rd_release (compute_release (ex_inputs\<lparr>ri_last_open_pass_at := 0\<rparr>) None 1000)) = 10"
proof -
  have "unmeasurable (ex_inputs\<lparr>ri_last_open_pass_at := 0\<rparr>) 1000"
    by (simp add: unmeasurable_def STALE_OPEN_PASS_SECS_def INTERVAL_SECS_def saturating_sub_def ex_inputs_def)
  from release_at_target [OF disjI1 [OF this], of None] show ?thesis
    by (simp add: ex_inputs_def saturating_add_def)
qed

text \<open>The no-show rate that is persisted is a fraction that DynamoDB can store: zero, or no
  smaller than the least positive \<open>Number\<close>, provided the rate read back was a fraction, as the
  store's reader ensures.\<close>

theorem rate_storable:
  assumes "prev_ok prev"
  shows "let r = ns_smoothed_rate (rd_no_show (compute_release i prev now)) in
    0 \<le> r \<and> r \<le> 1 \<and> (r = 0 \<or> DDB_NUMBER_MIN_POSITIVE \<le> r)"
  unfolding Let_def compute_release_fields floored_def
  using new_rate_range [OF assms(1), of i now] by (auto simp: not_less)

theorem rate_storable_witness:
  "0 \<le> ns_smoothed_rate (rd_no_show (compute_release ex_inputs (cs_prev_no_show (state_of_item Map.empty [])) 1000))"
proof -
  have "prev_ok (cs_prev_no_show (state_of_item Map.empty []))"
    by (simp add: state_of_item_def prev_ok_def get_n_def)
  from rate_storable [OF this] show ?thesis
    by (simp add: Let_def)
qed

end
