(* ===== verification/Rules.thy ===== *)
theory Rules
  imports Ids
begin

text \<open>
  \<open>crates/wr-common/src/rules.rs\<close>: the protection rules, their matching against a request, the
  normalisation of the path, the validation of rule fields and the tuple wire form.  The trait
  \<open>RequestView\<close> is the record \<open>request_view\<close>.  A \<open>str\<close> is the list of its bytes, so
  \<open>from_utf8_lossy\<close>, which the decoded path goes through, is written out on bytes.

  Lemmas: the loop of \<open>normalized_path\<close> ends, and what it computes is the segment-wise normal
  form (\<open>collapse_loop_segments\<close>): every empty or \<open>.\<close> segment between two slashes is dropped,
  in whatever stacking; validation accepts exactly the rules whose fields are printable and within
  the caps; the wire form is injective and read back.
\<close>

section \<open>Requests and rules\<close>

record request_view =
  rv_path :: string
  rv_header :: "string \<Rightarrow> string option"
  rv_cookie :: "string \<Rightarrow> string option"

datatype protection_rule =
    PathPrefix string
  | Header string string \<comment> \<open>name, value\<close>
  | Cookie string
  | UserAgent string

definition ascii_lower_byte :: "char \<Rightarrow> char" where
  "ascii_lower_byte c = (let k = of_char c :: nat in if 65 \<le> k \<and> k \<le> 90 then char_of (k + 32) else c)"

definition to_ascii_lowercase :: "string \<Rightarrow> string" where
  "to_ascii_lowercase s = map ascii_lower_byte s"

definition eq_ignore_ascii_case :: "string \<Rightarrow> string \<Rightarrow> bool" where
  "eq_ignore_ascii_case a b \<longleftrightarrow> to_ascii_lowercase a = to_ascii_lowercase b"

fun starts_with :: "string \<Rightarrow> string \<Rightarrow> bool" where
  "starts_with s [] = True"
| "starts_with [] (p # ps) = False"
| "starts_with (c # cs) (p # ps) = (c = p \<and> starts_with cs ps)"

fun contains :: "string \<Rightarrow> string \<Rightarrow> bool" where
  "contains [] needle = (needle = [])"
| "contains (c # cs) needle = (starts_with (c # cs) needle \<or> contains cs needle)"

section \<open>Path normalisation\<close>

definition hex_val :: "char \<Rightarrow> u8 option" where
  "hex_val b =
     (let k = of_char b :: nat in
      if 48 \<le> k \<and> k \<le> 57 then Some (of_nat k - 48)
      else if 65 \<le> k \<and> k \<le> 70 then Some (of_nat k - 65 + 10)
      else if 97 \<le> k \<and> k \<le> 102 then Some (of_nat k - 97 + 10)
      else None)"

text \<open>The loop of \<open>percent_decode\<close> over the bytes that are left.\<close>

fun percent_decode :: "string \<Rightarrow> string" where
  "percent_decode (a # b # c # rest) =
     (if a = CHR ''%'' then
        (case hex_val b of
           None \<Rightarrow> a # percent_decode (b # c # rest)
         | Some hi \<Rightarrow>
             (case hex_val c of
                None \<Rightarrow> a # percent_decode (b # c # rest)
              | Some lo \<Rightarrow> char_of (unat (hi * 16 + lo)) # percent_decode rest))
      else a # percent_decode (b # c # rest))"
| "percent_decode rest = rest"

text \<open>
  \<open>String::from_utf8_lossy\<close>: every maximal prefix of a sequence that is not UTF-8 becomes
  U+FFFD.  \<open>utf8_tail\<close> says, for the value of a lead byte and the bytes after it, whether a
  sequence follows and how many bytes it, or its broken prefix, takes.
\<close>

definition is_cont :: "char \<Rightarrow> bool" where
  "is_cont b \<longleftrightarrow> (let k = of_char b :: nat in 128 \<le> k \<and> k < 192)"

definition second_ok :: "nat \<Rightarrow> nat \<Rightarrow> bool" where
  "second_ok lead k \<longleftrightarrow>
     (if lead = 224 then 160 \<le> k \<and> k < 192
      else if lead = 237 then 128 \<le> k \<and> k < 160
      else if lead = 240 then 144 \<le> k \<and> k < 192
      else if lead = 244 then 128 \<le> k \<and> k < 144
      else 128 \<le> k \<and> k < 192)"

fun conts :: "nat \<Rightarrow> string \<Rightarrow> bool \<times> nat" where
  "conts 0 bs = (True, 0)"
| "conts (Suc n) [] = (False, 0)"
| "conts (Suc n) (b # bs) = (if is_cont b then (case conts n bs of (ok, m) \<Rightarrow> (ok, Suc m)) else (False, 0))"

definition utf8_tail :: "nat \<Rightarrow> string \<Rightarrow> bool \<times> nat" where
  "utf8_tail lead bs =
     (if 194 \<le> lead \<and> lead < 224 then conts 1 bs
      else if 224 \<le> lead \<and> lead < 245 then
        (case bs of
           [] \<Rightarrow> (False, 0)
         | b # rest \<Rightarrow>
             if second_ok lead (of_char b)
             then (case conts (if lead < 240 then 1 else 2) rest of (ok, m) \<Rightarrow> (ok, Suc m))
             else (False, 0))
      else (False, 0))"

definition REPLACEMENT :: string where
  "REPLACEMENT = [char_of (239::nat), char_of (191::nat), char_of (189::nat)]"

function from_utf8_lossy :: "string \<Rightarrow> string" where
  "from_utf8_lossy [] = []"
| "from_utf8_lossy (b # bs) =
     (let lead = of_char b :: nat in
      if lead < 128 then b # from_utf8_lossy bs
      else (case utf8_tail lead bs of
              (ok, n) \<Rightarrow> (if ok then b # take n bs else REPLACEMENT) @ from_utf8_lossy (drop n bs)))"
  by pat_completeness auto
termination by (relation "measure length") auto

text \<open>\<open>String::from_utf8\<close> accepts exactly the well-formed sequences.\<close>

function utf8_valid :: "string \<Rightarrow> bool" where
  "utf8_valid [] = True"
| "utf8_valid (b # bs) =
     (let lead = of_char b :: nat in
      if lead < 128 then utf8_valid bs
      else (case utf8_tail lead bs of (ok, n) \<Rightarrow> ok \<and> utf8_valid (drop n bs)))"
  by pat_completeness auto
termination by (relation "measure length") auto

definition from_utf8 :: "string \<Rightarrow> string option" where
  "from_utf8 bs = (if utf8_valid bs then Some bs else None)"

lemma lossy_valid: "utf8_valid s \<Longrightarrow> from_utf8_lossy s = s"
proof (induction s rule: utf8_valid.induct)
  case (2 b bs)
  obtain ok n where u: "utf8_tail (of_char b) bs = (ok, n)" by (cases "utf8_tail (of_char b) bs")
  show ?case
    using 2(1) [OF refl] 2(2) [OF refl _ u [symmetric]] 2(3) u
    by (auto simp: Let_def split: if_splits)
qed simp

text \<open>\<open>collapse_slashes\<close> with the last character written to \<open>out\<close>: a slash after a slash is
  skipped.\<close>

fun collapse_slashes_from :: "bool \<Rightarrow> string \<Rightarrow> string" where
  "collapse_slashes_from after_slash [] = []"
| "collapse_slashes_from after_slash (c # cs) =
     (if c = CHR ''/'' \<and> after_slash then collapse_slashes_from True cs
      else c # collapse_slashes_from (c = CHR ''/'') cs)"

definition collapse_slashes :: "string \<Rightarrow> string" where
  "collapse_slashes p = collapse_slashes_from False p"

text \<open>\<open>replace("/./", "/")\<close>.\<close>

fun replace_dot :: "string \<Rightarrow> string" where
  "replace_dot (a # b # c # rest) =
     (if a = CHR ''/'' \<and> b = CHR ''.'' \<and> c = CHR ''/'' then CHR ''/'' # replace_dot rest
      else a # replace_dot (b # c # rest))"
| "replace_dot rest = rest"

lemma length_collapse_from: "length (collapse_slashes_from f p) \<le> length p"
  by (induction f p rule: collapse_slashes_from.induct) auto

lemma length_replace_dot: "length (replace_dot p) \<le> length p"
  by (induction p rule: replace_dot.induct) auto

lemma collapse_from_same: "length (collapse_slashes_from f p) = length p \<Longrightarrow> collapse_slashes_from f p = p"
proof (induction f p rule: collapse_slashes_from.induct)
  case (2 f c cs)
  then show ?case
    using length_collapse_from [of True cs] by (auto split: if_splits)
qed simp

lemma replace_dot_same: "length (replace_dot p) = length p \<Longrightarrow> replace_dot p = p"
proof (induction p rule: replace_dot.induct)
  case (1 a b c rest)
  then show ?case
    using length_replace_dot [of rest] by (auto split: if_splits)
qed simp_all

definition normalize_step :: "string \<Rightarrow> string" where
  "normalize_step p = replace_dot (collapse_slashes p)"

lemma normalize_step_shorter: "normalize_step p \<noteq> p \<Longrightarrow> length (normalize_step p) < length p"
  unfolding normalize_step_def collapse_slashes_def
  using length_replace_dot [of "collapse_slashes_from False p"] length_collapse_from [of False p]
    collapse_from_same [of False p] replace_dot_same [of "collapse_slashes_from False p"]
  by (metis le_antisym le_trans linorder_not_less)

function collapse_loop :: "string \<Rightarrow> string" where
  "collapse_loop p =
     (let q = normalize_step p in if q = p then p else collapse_loop q)"
  by pat_completeness auto
termination by (relation "measure length") (simp_all add: normalize_step_shorter)

declare collapse_loop.simps [simp del]

definition strip_suffix :: "string \<Rightarrow> string \<Rightarrow> string option" where
  "strip_suffix s suf =
     (let n = length s - length suf in
      if length suf \<le> length s \<and> drop n s = suf then Some (take n s) else None)"

definition normalized_path :: "string \<Rightarrow> string" where
  "normalized_path path =
     (let p = collapse_loop (from_utf8_lossy (percent_decode path));
          p = (case strip_suffix p ''/.'' of Some stem \<Rightarrow> stem @ ''/'' | None \<Rightarrow> p)
      in to_ascii_lowercase p)"

section \<open>Matching\<close>

definition rule_matches :: "protection_rule \<Rightarrow> request_view \<Rightarrow> bool" where
  "rule_matches rule req =
     (case rule of
        PathPrefix pre \<Rightarrow> starts_with (normalized_path (rv_path req)) (to_ascii_lowercase pre)
      | Header name value \<Rightarrow>
          (case rv_header req name of Some actual \<Rightarrow> eq_ignore_ascii_case actual value | None \<Rightarrow> False)
      | Cookie name \<Rightarrow> rv_cookie req name \<noteq> None
      | UserAgent needle \<Rightarrow>
          (case rv_header req ''user-agent'' of Some ua \<Rightarrow> contains ua needle | None \<Rightarrow> False))"

definition matches_any :: "protection_rule list \<Rightarrow> request_view \<Rightarrow> bool" where
  "matches_any rules req \<longleftrightarrow> list_ex (\<lambda>r. rule_matches r req) rules"

section \<open>Validation\<close>

definition MAX_PATH_PREFIX_BYTES :: nat where "MAX_PATH_PREFIX_BYTES = 128"
definition MAX_HEADER_NAME_BYTES :: nat where "MAX_HEADER_NAME_BYTES = 64"
definition MAX_HEADER_VALUE_BYTES :: nat where "MAX_HEADER_VALUE_BYTES = 128"
definition MAX_COOKIE_NAME_BYTES :: nat where "MAX_COOKIE_NAME_BYTES = 64"
definition MAX_USER_AGENT_BYTES :: nat where "MAX_USER_AGENT_BYTES = 64"

lemmas rule_caps = MAX_PATH_PREFIX_BYTES_def MAX_HEADER_NAME_BYTES_def MAX_HEADER_VALUE_BYTES_def
  MAX_COOKIE_NAME_BYTES_def MAX_USER_AGENT_BYTES_def

datatype rule_field_error =
    TooLong nat string nat nat \<comment> \<open>rule index, field, limit, actual\<close>
  | NotAscii nat string

definition printable :: "char \<Rightarrow> bool" where
  "printable b \<longleftrightarrow> (let k = of_char b :: nat in 32 \<le> k \<and> k \<le> 126)"

definition check_field :: "nat \<Rightarrow> string \<Rightarrow> string \<Rightarrow> nat \<Rightarrow> rule_field_error + unit" where
  "check_field rule_index field value limit =
     (if \<not> list_all printable value then Inl (NotAscii rule_index field)
      else if limit < length value then Inl (TooLong rule_index field limit (length value))
      else Inr ())"

definition validate_rule :: "nat \<Rightarrow> protection_rule \<Rightarrow> rule_field_error + unit" where
  "validate_rule i rule =
     (case rule of
        PathPrefix p \<Rightarrow> check_field i ''path prefix'' p MAX_PATH_PREFIX_BYTES
      | Cookie name \<Rightarrow> check_field i ''cookie name'' name MAX_COOKIE_NAME_BYTES
      | UserAgent ua \<Rightarrow> check_field i ''user agent substring'' ua MAX_USER_AGENT_BYTES
      | Header name value \<Rightarrow>
          (case check_field i ''header name'' name MAX_HEADER_NAME_BYTES of
             Inl e \<Rightarrow> Inl e
           | Inr _ \<Rightarrow> check_field i ''header value'' value MAX_HEADER_VALUE_BYTES))"

fun validate_from :: "nat \<Rightarrow> protection_rule list \<Rightarrow> rule_field_error + unit" where
  "validate_from i [] = Inr ()"
| "validate_from i (rule # rules) =
     (case validate_rule i rule of Inl e \<Rightarrow> Inl e | Inr _ \<Rightarrow> validate_from (i + 1) rules)"

definition validate_rule_fields :: "protection_rule list \<Rightarrow> rule_field_error + unit" where
  "validate_rule_fields rules = validate_from 0 rules"

section \<open>The wire form\<close>

datatype rule_wire = Two string string | Three string string string

datatype unknown_rule_tag = UnknownRuleTag string

definition rule_try_from :: "rule_wire \<Rightarrow> unknown_rule_tag + protection_rule" where
  "rule_try_from wire =
     (case wire of
        Two tag a \<Rightarrow>
          if tag = ''p'' then Inr (PathPrefix a)
          else if tag = ''c'' then Inr (Cookie a)
          else if tag = ''u'' then Inr (UserAgent a)
          else Inl (UnknownRuleTag tag)
      | Three tag name value \<Rightarrow>
          if tag = ''h'' then Inr (Header name value) else Inl (UnknownRuleTag tag))"

definition rule_to_wire :: "protection_rule \<Rightarrow> rule_wire" where
  "rule_to_wire rule =
     (case rule of
        PathPrefix pre \<Rightarrow> Two ''p'' pre
      | Cookie name \<Rightarrow> Two ''c'' name
      | UserAgent needle \<Rightarrow> Two ''u'' needle
      | Header name value \<Rightarrow> Three ''h'' name value)"

section \<open>Segments\<close>

text \<open>The pieces of a path between its slashes.\<close>

fun segments :: "string \<Rightarrow> string list" where
  "segments [] = [[]]"
| "segments (c # cs) =
     (if c = CHR ''/'' then [] # segments cs
      else (case segments cs of s # ss \<Rightarrow> (c # s) # ss | [] \<Rightarrow> [[c]]))"

fun unsegments :: "string list \<Rightarrow> string" where
  "unsegments [] = []"
| "unsegments [s] = s"
| "unsegments (s # ss) = s @ CHR ''/'' # unsegments ss"

definition droppable :: "string \<Rightarrow> bool" where
  "droppable s \<longleftrightarrow> s = [] \<or> s = ''.''"

text \<open>What follows a slash, without the empty and \<open>.\<close> segments that another slash follows.\<close>

fun tail_form :: "string list \<Rightarrow> string list" where
  "tail_form [] = []"
| "tail_form [s] = [s]"
| "tail_form (s # ss) = (if droppable s then tail_form ss else s # tail_form ss)"

definition segment_form :: "string \<Rightarrow> string" where
  "segment_form p = (case segments p of [] \<Rightarrow> [] | s # ss \<Rightarrow> unsegments (s # tail_form ss))"

lemma segments_not_Nil [simp]: "segments p \<noteq> []"
  by (induction p) (auto split: list.splits)

lemma unsegments_segments [simp]: "unsegments (segments p) = p"
proof (induction p)
  case (Cons c cs)
  obtain s ss where s: "segments cs = s # ss"
    by (cases "segments cs") auto
  with Cons show ?case
    by (cases ss) auto
qed simp

lemma tail_form_Cons: "ss \<noteq> [] \<Longrightarrow> tail_form (s # ss) = (if droppable s then tail_form ss else s # tail_form ss)"
  by (cases ss) auto

lemma tail_form_Nil [simp]: "tail_form ss = [] \<longleftrightarrow> ss = []" "[] = tail_form ss \<longleftrightarrow> ss = []"
  by (induction ss rule: tail_form.induct) auto

text \<open>Two paths of the same form: the same first segment, and the same rest.\<close>

definition same_form :: "string \<Rightarrow> string \<Rightarrow> bool" where
  "same_form p q \<longleftrightarrow> hd (segments p) = hd (segments q)
     \<and> tail_form (tl (segments p)) = tail_form (tl (segments q))"

lemma same_form_refl [simp]: "same_form p p"
  by (simp add: same_form_def)

lemma same_form_trans: "same_form p q \<Longrightarrow> same_form q r \<Longrightarrow> same_form p r"
  by (simp add: same_form_def)

lemma same_form_segment: "same_form p q \<Longrightarrow> segment_form p = segment_form q"
  by (cases "segments p"; cases "segments q") (auto simp: same_form_def segment_form_def)

lemma segments_split: "\<exists>s ss. segments p = s # ss"
  by (cases "segments p") auto

lemma same_form_Cons:
  assumes "same_form p q"
  shows "same_form (c # p) (c # q)"
proof -
  obtain s ss t ts where "segments p = s # ss" "segments q = t # ts"
    using segments_split by blast
  with assms show ?thesis
    by (cases ss; cases ts) (auto simp: same_form_def tail_form_Cons)
qed

lemma same_form_after_slash:
  assumes "tail_form (segments p) = tail_form (segments q)"
  shows "same_form (CHR ''/'' # p) (CHR ''/'' # q)"
  using assms by (simp add: same_form_def)

lemma same_form_tail: "same_form p q \<Longrightarrow> tail_form (segments p) = tail_form (segments q)"
proof -
  assume "same_form p q"
  moreover obtain s ss t ts where "segments p = s # ss" "segments q = t # ts"
    using segments_split by blast
  ultimately show ?thesis
    by (cases ss; cases ts) (auto simp: same_form_def tail_form_Cons)
qed

lemma tail_form_droppable:
  "droppable s \<Longrightarrow> tail_form (s # segments p) = tail_form (segments p)"
  by (simp add: tail_form_Cons)

lemma replace_dot_form: "same_form (replace_dot p) p"
proof (induction p rule: replace_dot.induct)
  case (1 a b c rest)
  show ?case
  proof (cases "a = CHR ''/'' \<and> b = CHR ''.'' \<and> c = CHR ''/''")
    case True
    then have "tail_form (segments (replace_dot rest)) = tail_form (segments (b # c # rest))"
      using same_form_tail [OF 1(1) [OF True]] tail_form_droppable [of "''.''" rest]
      by (simp add: droppable_def)
    with True show ?thesis
      using same_form_after_slash by simp
  next
    case False
    then have "replace_dot (a # b # c # rest) = a # replace_dot (b # c # rest)"
      by (simp only: replace_dot.simps if_False)
    then show ?thesis
      using same_form_Cons [OF 1(2) [OF False], of a] by simp
  qed
qed simp_all

lemma collapse_form:
  "tail_form (segments (collapse_slashes_from True p)) = tail_form (segments p)"
  "same_form (collapse_slashes_from False p) p"
proof (induction p)
  case (Cons c cs)
  {
    case 1
    show ?case
    proof (cases "c = CHR ''/''")
      case True
      then show ?thesis
        using Cons(1) tail_form_droppable [of "[]" cs] by (simp add: droppable_def)
    next
      case False
      then show ?thesis
        using same_form_tail [OF same_form_Cons [OF Cons(2)], of c] by simp
    qed
  next
    case 2
    show ?case
      using same_form_after_slash [OF Cons(1)] same_form_Cons [OF Cons(2), of c]
      by (cases "c = CHR ''/''") auto
  }
qed simp_all

lemma normalize_step_form: "same_form (normalize_step p) p"
  unfolding normalize_step_def collapse_slashes_def
  by (rule same_form_trans [OF replace_dot_form collapse_form(2)])

text \<open>A path that a step leaves alone is in segment form.\<close>

lemma replace_dot_fixed:
  assumes "replace_dot p = p"
  shows "''.'' \<notin> set (butlast (tl (segments p)))"
  using assms
proof (induction p rule: replace_dot.induct)
  case (1 a b c rest)
  let ?r = "b # c # rest"
  have no: "\<not> (a = CHR ''/'' \<and> b = CHR ''.'' \<and> c = CHR ''/'')"
  proof
    assume y: "a = CHR ''/'' \<and> b = CHR ''.'' \<and> c = CHR ''/''"
    then have "length (replace_dot (a # b # c # rest)) \<le> Suc (length rest)"
      using length_replace_dot [of rest] by simp
    with 1(3) show False by simp
  qed
  then have "replace_dot (a # ?r) = a # replace_dot ?r"
    by (simp only: replace_dot.simps if_False)
  with 1(3) have ih: "''.'' \<notin> set (butlast (tl (segments ?r)))"
    using 1(2) [OF no] by simp
  obtain s ss where s: "segments ?r = s # ss"
    using segments_split by blast
  show ?case
  proof (cases "a = CHR ''/''")
    case True
    have "s \<noteq> ''.''" if "ss \<noteq> []"
    proof
      assume d: "s = ''.''"
      have "unsegments (s # ss) = ?r"
        using unsegments_segments [of ?r] s by simp
      with d that have "b = CHR ''.''" "c = CHR ''/''"
        by (cases ss; simp)+
      with no True show False by simp
    qed
    then have "''.'' \<notin> set (butlast (segments ?r))"
      using ih s by (cases ss) auto
    then show ?thesis
      using True by simp
  next
    case False
    have "segments (a # ?r) = (a # s) # ss"
      using False s by (simp del: segments.simps add: segments.simps(2) [of a])
    then show ?thesis
      using ih s by (simp del: segments.simps)
  qed
qed (auto split: list.splits)

lemma collapse_fixed:
  "collapse_slashes_from f p = p \<Longrightarrow> [] \<notin> set (butlast (if f then segments p else tl (segments p)))"
proof (induction f p rule: collapse_slashes_from.induct)
  case (2 f c cs)
  obtain s ss where s: "segments cs = s # ss"
    using segments_split by blast
  have n: "\<not> (c = CHR ''/'' \<and> f)"
    using 2(3) length_collapse_from [of True cs] by (auto dest: arg_cong [of _ _ length])
  then have eq: "collapse_slashes_from (c = CHR ''/'') cs = cs"
    using 2(3) by auto
  show ?case
    using 2(2) [OF n eq] n s by (cases ss) (auto split: if_splits)
qed simp

lemma tail_form_id:
  "(\<And>s. s \<in> set (butlast ss) \<Longrightarrow> \<not> droppable s) \<Longrightarrow> tail_form ss = ss"
  by (induction ss rule: tail_form.induct) auto

lemma normalize_fixed:
  assumes "normalize_step p = p"
  shows "segment_form p = p"
proof -
  have "length (collapse_slashes_from False p) = length p"
    using assms length_replace_dot [of "collapse_slashes_from False p"] length_collapse_from [of False p]
    unfolding normalize_step_def collapse_slashes_def by (metis le_antisym)
  then have c: "collapse_slashes_from False p = p"
    by (rule collapse_from_same)
  with assms have r: "replace_dot p = p"
    by (simp add: normalize_step_def collapse_slashes_def)
  obtain s ss where s: "segments p = s # ss"
    using segments_split by blast
  have "tail_form ss = ss"
    using replace_dot_fixed [OF r] collapse_fixed [OF c] s
    by (intro tail_form_id) (auto simp: droppable_def)
  then show ?thesis
    using unsegments_segments [of p] by (simp add: segment_form_def s)
qed

lemma collapse_loop_segments: "collapse_loop p = segment_form p"
proof (induction p rule: collapse_loop.induct)
  case (1 p)
  show ?case
  proof (cases "normalize_step p = p")
    case True
    then show ?thesis
      by (simp add: collapse_loop.simps [of p] normalize_fixed)
  next
    case False
    then show ?thesis
      using 1 [OF refl False] same_form_segment [OF normalize_step_form, of p]
      by (simp add: collapse_loop.simps [of p])
  qed
qed

section \<open>Properties\<close>

text \<open>C14: the normalisation loop ends on every path and computes the segment-wise form: the path
  with every empty and every \<open>.\<close> segment between two slashes removed, however they are stacked.\<close>

theorem collapse_loop_is_segment_form: "collapse_loop p = segment_form p"
  by (rule collapse_loop_segments)

text \<open>Redundant separators: any sequence of \<open>/\<close> and \<open>./\<close>.\<close>

definition separators :: "bool list \<Rightarrow> string" where
  "separators xs = concat (map (\<lambda>dot. if dot then ''./'' else ''/'') xs)"

lemma tail_form_separators: "tail_form (segments (separators xs @ p)) = tail_form (segments p)"
proof (induction xs)
  case (Cons x xs)
  show ?case
    using Cons tail_form_droppable [of "[]" "separators xs @ p"] tail_form_droppable [of "''.''" "separators xs @ p"]
    by (cases x) (auto simp: separators_def droppable_def)
qed (simp add: separators_def)

lemma same_form_append: "same_form p q \<Longrightarrow> same_form (a @ p) (a @ q)"
  by (induction a) (auto intro: same_form_Cons)

text \<open>C15: a path prefix rule cannot be evaded by redundant separators: inserting any sequence of
  \<open>/\<close> and \<open>./\<close> after a slash anywhere in the decoded path changes neither its normal form nor the
  verdict of any rule.\<close>

theorem separators_no_evasion:
  assumes "from_utf8_lossy (percent_decode (rv_path req)) = a @ ''/'' @ b"
    and "from_utf8_lossy (percent_decode path') = a @ ''/'' @ separators xs @ b"
  shows "rule_matches rule (req\<lparr>rv_path := path'\<rparr>) = rule_matches rule req"
proof -
  have "same_form (a @ ''/'' @ separators xs @ b) (a @ ''/'' @ b)"
    using same_form_append [OF same_form_after_slash [OF tail_form_separators], of a xs b] by simp
  then have "collapse_loop (a @ ''/'' @ separators xs @ b) = collapse_loop (a @ ''/'' @ b)"
    unfolding collapse_loop_segments by (rule same_form_segment)
  then have "normalized_path path' = normalized_path (rv_path req)"
    using assms by (simp add: normalized_path_def Let_def)
  then show ?thesis
    by (cases rule) (simp_all add: rule_matches_def)
qed

lemma ex_decoded:
  "from_utf8_lossy (percent_decode ''/shop/checkout'') = ''/shop'' @ ''/'' @ ''checkout''"
  "from_utf8_lossy (percent_decode ''/shop//%2E/checkout'') = ''/shop'' @ ''/'' @ separators [False, True] @ ''checkout''"
  by code_simp+

theorem separators_no_evasion_witness:
  "rule_matches (PathPrefix ''/shop/checkout'')
     \<lparr>rv_path = ''/shop//%2E/checkout'', rv_header = (\<lambda>_. None), rv_cookie = (\<lambda>_. None)\<rparr>"
proof -
  let ?r = "\<lparr>rv_path = ''/shop/checkout'', rv_header = (\<lambda>_. None), rv_cookie = (\<lambda>_. None)\<rparr>"
  have "rule_matches (PathPrefix ''/shop/checkout'') ?r"
    by code_simp
  then show ?thesis
    using separators_no_evasion [of ?r "''/shop''" "''checkout''" "''/shop//%2E/checkout''" "[False, True]"
        "PathPrefix ''/shop/checkout''"] ex_decoded
    by simp
qed

definition rule_fields :: "protection_rule \<Rightarrow> (string \<times> nat) list" where
  "rule_fields rule =
     (case rule of
        PathPrefix p \<Rightarrow> [(p, 128)]
      | Cookie n \<Rightarrow> [(n, 64)]
      | UserAgent u \<Rightarrow> [(u, 64)]
      | Header n v \<Rightarrow> [(n, 64), (v, 128)])"

definition field_ok :: "string \<times> nat \<Rightarrow> bool" where
  "field_ok f \<longleftrightarrow> list_all printable (fst f) \<and> length (fst f) \<le> snd f"

lemma check_field_ok: "check_field i n v l = Inr () \<longleftrightarrow> field_ok (v, l)"
  by (auto simp: check_field_def field_ok_def)

lemma validate_rule_ok: "validate_rule i rule = Inr () \<longleftrightarrow> list_all field_ok (rule_fields rule)"
  by (cases rule)
    (auto simp: validate_rule_def rule_fields_def check_field_ok rule_caps split: sum.splits,
      (metis check_field_ok sum.distinct(1) old.unit.exhaust sum.exhaust)+)

lemma validate_from_Cons:
  "validate_from i (r # rs) = Inr () \<longleftrightarrow> validate_rule i r = Inr () \<and> validate_from (i + 1) rs = Inr ()"
  by (cases "validate_rule i r") simp_all

lemma validate_from_ok:
  "validate_from i rules = Inr () \<longleftrightarrow> (\<forall>r\<in>set rules. list_all field_ok (rule_fields r))"
proof (induction rules arbitrary: i)
  case (Cons r rs)
  show ?case
    unfolding validate_from_Cons validate_rule_ok Cons by simp
qed simp

text \<open>Validation accepts a rule list exactly when every field of every rule is printable ASCII
  and within its cap.\<close>

theorem validation_exact:
  "validate_rule_fields rules = Inr () \<longleftrightarrow> list_all (\<lambda>r. list_all field_ok (rule_fields r)) rules"
  unfolding validate_rule_fields_def validate_from_ok by (simp add: list_all_iff)

text \<open>The tuple wire form loses nothing and has no second spelling: every rule reads back as
  itself, and every tuple that reads as a rule is that rule's own form.\<close>

theorem rule_wire_roundtrip:
  "rule_try_from wire = Inr rule \<longleftrightarrow> wire = rule_to_wire rule"
  by (cases rule; cases wire) (auto simp: rule_try_from_def rule_to_wire_def)

end
