(* ===== verification/Dynamo.thy ===== *)
theory Dynamo
  imports Ledger
begin

text \<open>
  The documented behaviour of the database service, as a hypothesis.  The service itself is a
  parameter, a relation between a request, a response and the database before and after;
  \<open>documented\<close> says what every answer of it must satisfy: a conditional write is atomic, a
  failed condition changes nothing, the response of an update is the item it left, a
  consistent read is the current item and any other read some version of it, and a request
  without effect leaves the database alone, a delete returns the item it deleted.  Writes that land while their response is lost
  (timeouts, retries of the SDK) and the background reclamation of expired rows (of any table but
  the event's and the pre-queue's) are relations of their own.

  The database keeps the versions of every item, latest first; \<open>None\<close> is a deleted item.
\<close>

type_synonym db = "string \<times> primary_key \<Rightarrow> item option list"

definition current :: "db \<Rightarrow> string \<Rightarrow> primary_key \<Rightarrow> item option" where
  "current d t k = (case d (t, k) of [] \<Rightarrow> None | v # _ \<Rightarrow> v)"

definition push :: "db \<Rightarrow> string \<Rightarrow> primary_key \<Rightarrow> item option \<Rightarrow> db" where
  "push d t k v = d((t, k) := v # d (t, k))"

text \<open>A version of an item that was ever stored.\<close>

definition version :: "db \<Rightarrow> string \<Rightarrow> primary_key \<Rightarrow> item \<Rightarrow> bool" where
  "version d t k m \<longleftrightarrow> Some m \<in> set (d (t, k))"

text \<open>Conditions; a comparison is of integers, the only numbers that are compared.\<close>

fun cond_holds :: "condition \<Rightarrow> item option \<Rightarrow> bool" where
  "cond_holds (CNotExists a) m = (Option.bind m (\<lambda>i. i a) = None)"
| "cond_holds (CEq a v) m = (Option.bind m (\<lambda>i. i a) = Some v)"
| "cond_holds (CLe a v) m =
     (case (Option.bind (Option.bind (Option.bind m (\<lambda>i. i a)) as_n) parse_int, Option.bind (as_n v) parse_int) of
        (Some x, Some y) \<Rightarrow> x \<le> y
      | _ \<Rightarrow> False)"
| "cond_holds (CAnd a b) m = (cond_holds a m \<and> cond_holds b m)"
| "cond_holds (COr a b) m = (cond_holds a m \<or> cond_holds b m)"

text \<open>A stored value is the value written; only the text of a number that is not a plain
  decimal natural may be normalised.\<close>

definition stored_as :: "attr \<Rightarrow> attr \<Rightarrow> bool" where
  "stored_as x v \<longleftrightarrow> v = x \<or> (\<exists>s s'. x = AN s \<and> v = AN s' \<and> (\<forall>n. s \<noteq> show_nat n))"

text \<open>One clause of an update: the attribute it sets, and the values it may set it to.  \<open>ADD\<close> to
  an absent attribute stores the operand; the sum of two natural numbers is natural.\<close>

definition clause_ok :: "update_clause \<Rightarrow> item \<Rightarrow> attr option \<Rightarrow> bool" where
  "clause_ok u m v \<longleftrightarrow>
     (case u of
        USet a x \<Rightarrow> (\<exists>y. v = Some y \<and> stored_as x y)
      | USetIfNotExists a x \<Rightarrow>
          (case m a of None \<Rightarrow> \<exists>y. v = Some y \<and> stored_as x y | Some y \<Rightarrow> v = Some y)
      | UAdd a x \<Rightarrow>
          (m a = None \<longrightarrow> (\<exists>y. v = Some y \<and> stored_as x y))
          \<and> (\<forall>i j. m a = Some (AN (show_nat i)) \<longrightarrow> x = AN (show_nat j) \<longrightarrow> v = Some (AN (show_nat (i + j))))
      | URemove a \<Rightarrow> v = None)"

text \<open>The effect of an update expression on an item: every clause names another attribute, the
  operands are those of the item before, and nothing else changes.\<close>

definition update_effect :: "update_clause list \<Rightarrow> item \<Rightarrow> item \<Rightarrow> bool" where
  "update_effect us m m' \<longleftrightarrow>
     (\<forall>u\<in>set us. clause_ok u m (m' (clause_attr u)))
     \<and> (\<forall>a. a \<notin> clause_attr ` set us \<longrightarrow> m' a = m a)"

text \<open>The item an update starts from: the current one, or a new one with its key attribute.\<close>

definition base_item :: "primary_key \<Rightarrow> item option \<Rightarrow> item" where
  "base_item k m = (case m of Some i \<Rightarrow> i | None \<Rightarrow> [fst k \<mapsto> AS (snd k)])"

definition opt_cond :: "condition option \<Rightarrow> item option \<Rightarrow> bool" where
  "opt_cond c m = (case c of None \<Rightarrow> True | Some c \<Rightarrow> cond_holds c m)"

text \<open>A write lands; \<open>schema\<close> gives the key attribute of each table.\<close>

definition lands :: "(string \<Rightarrow> string) \<Rightarrow> req \<Rightarrow> db \<Rightarrow> item \<Rightarrow> db \<Rightarrow> bool" where
  "lands schema q d m d' \<longleftrightarrow>
     (case q of
        QUpdate t k us c \<Rightarrow>
          opt_cond c (current d t k) \<and> update_effect us (base_item k (current d t k)) m
          \<and> d' = push d t k (Some m)
      | QPut t i c \<Rightarrow>
          (\<exists>v. i (schema t) = Some (AS v) \<and> opt_cond c (current d t (schema t, v))
             \<and> m = i \<and> d' = push d t (schema t, v) (Some i))
      | QDelete t k b \<Rightarrow> d' = push d t k None
      | _ \<Rightarrow> False)"

definition answered :: "(string \<Rightarrow> string) \<Rightarrow> req \<Rightarrow> resp \<Rightarrow> db \<Rightarrow> db \<Rightarrow> bool" where
  "answered schema q r d d' \<longleftrightarrow>
     (case (q, r) of
        (QGet t k c, RGet (Inr v)) \<Rightarrow>
          d' = d \<and> (if c then v = current d t k else v = None \<or> v \<in> set (d (t, k)))
      | (QUpdate t k us c, RUpdate (Inr m)) \<Rightarrow> lands schema q d m d'
      | (QUpdate t k us c, RUpdate (Inl (ConditionalCheckFailed _))) \<Rightarrow>
          d' = d \<and> \<not> opt_cond c (current d t k)
      | (QPut t i c, RPut (Inr _)) \<Rightarrow> lands schema q d i d'
      | (QPut t i c, RPut (Inl (ConditionalCheckFailed _))) \<Rightarrow>
          d' = d \<and> (\<forall>v. i (schema t) = Some (AS v) \<longrightarrow> \<not> opt_cond c (current d t (schema t, v)))
      | (QDelete t k b, RDelete (Inr v)) \<Rightarrow> d' = push d t k None \<and> v = (if b then current d t k else None)
      | _ \<Rightarrow> d' = d)"

record service =
  sv_answer :: "req \<Rightarrow> resp \<Rightarrow> db \<Rightarrow> db \<Rightarrow> bool"
  sv_late :: "req \<Rightarrow> db \<Rightarrow> db \<Rightarrow> bool" \<comment> \<open>a write landed and its response was lost\<close>
  sv_reclaim :: "db \<Rightarrow> db \<Rightarrow> bool"

text \<open>The key attributes of the deployment's tables.\<close>

definition schema_ok :: "tables \<Rightarrow> (string \<Rightarrow> string) \<Rightarrow> bool" where
  "schema_ok tb schema \<longleftrightarrow> schema (tb_counters tb) = KEY_ATTR
     \<and> schema (tb_prequeue tb) = PREQUEUE_KEY_ATTR \<and> schema (tb_positions tb) = POSITIONS_KEY_ATTR"

definition documented :: "tables \<Rightarrow> (string \<Rightarrow> string) \<Rightarrow> service \<Rightarrow> bool" where
  "documented tb schema sv \<longleftrightarrow> schema_ok tb schema
     \<and> (\<forall>q r d d'. sv_answer sv q r d d' \<longrightarrow> answered schema q r d d')
     \<and> (\<forall>q d d'. sv_late sv q d d' \<longrightarrow> (\<exists>m. lands schema q d m d'))
     \<and> (\<forall>d d'. sv_reclaim sv d d' \<longrightarrow> (\<exists>t k. d' = push d t k None \<and> t \<noteq> tb_counters tb \<and> t \<noteq> tb_prequeue tb))"

section \<open>Versions\<close>

lemma version_push:
  "version (push d t k v) t' k' m \<longleftrightarrow> (t' = t \<and> k' = k \<and> v = Some m) \<or> version d t' k' m"
  by (auto simp: version_def push_def)

lemma current_push: "current (push d t k v) t' k' = (if t' = t \<and> k' = k then v else current d t' k')"
  by (auto simp: current_def push_def)

lemma current_version: "current d t k = Some m \<Longrightarrow> version d t k m"
  by (auto simp: current_def version_def split: list.splits)

lemma lands_delete [simp]: "lands schema (QDelete t k b) d m d' \<longleftrightarrow> d' = push d t k None"
  by (simp add: lands_def)

lemma answered_lands:
  assumes "answered schema q r d d'"
  shows "d' = d \<or> (\<exists>m. lands schema q d m d')"
  using assms
  by (cases q; cases r) (auto simp: answered_def split: sum.splits sdk_error.splits)

lemma get_version:
  assumes "answered schema (QGet t k c) (RGet (Inr (Some m))) d d'"
  shows "version d t k m"
  using assms current_version [of d t k m]
  by (cases c) (auto simp: answered_def version_def)

lemma stored_as_simps [simp]:
  "stored_as (AS s) v \<longleftrightarrow> v = AS s" "stored_as (AB b) v \<longleftrightarrow> v = AB b" "stored_as (AL l) v \<longleftrightarrow> v = AL l"
  "stored_as (AN (show_nat n)) v \<longleftrightarrow> v = AN (show_nat n)"
  "stored_as (AN (show_u64 x)) v \<longleftrightarrow> v = AN (show_u64 x)"
  by (auto simp: stored_as_def show_u64_def)

lemma update_frame: "update_effect us m m' \<Longrightarrow> a \<notin> clause_attr ` set us \<Longrightarrow> m' a = m a"
  by (simp add: update_effect_def)

lemma update_clause: "update_effect us m m' \<Longrightarrow> u \<in> set us \<Longrightarrow> clause_ok u m (m' (clause_attr u))"
  by (simp add: update_effect_def)

end
