(* ===== verification/Deployment.thy ===== *)
theory Deployment
  imports Dynamo
begin

text \<open>
  Any number of handler invocations running against one database.  A state is the database
  and a pool of programs; one step starts a handler, answers the request a program waits on
  (the database changes with the same answer), lets a write land whose response is lost,
  reports an error to a program while its write stays in flight and may land at any later time,
  kills an invocation, or reclaims an expired row.  Interleavings, retries, lost responses
  and crashes are therefore all runs of \<open>step\<close>.

  \<open>holds_position\<close> says which visitors hold a queue position in a database; theory
  \<open>Accounting\<close> proves that in every reachable state at most one does.
\<close>

section \<open>Runs\<close>

primrec waiting :: "'a prog \<Rightarrow> req option" where
  "waiting (Done x) = None"
| "waiting (Ask q k) = Some q"

record state =
  sy_db :: db
  sy_pool :: "nat \<Rightarrow> unit prog option"

text \<open>An error that says nothing of whether the write took place.\<close>

fun timed_out :: "resp \<Rightarrow> bool" where
  "timed_out (RUpdate (Inl (SdkOther e))) = True"
| "timed_out (RPut (Inl (SdkOther e))) = True"
| "timed_out (RDelete (Inl (SdkOther e))) = True"
| "timed_out _ = False"

text \<open>A request in flight that nobody waits for.\<close>

definition orphan :: "req \<Rightarrow> unit prog" where
  "orphan q = Ask q (\<lambda>_. None)"

inductive step :: "service \<Rightarrow> unit prog set \<Rightarrow> state \<Rightarrow> state \<Rightarrow> bool" for sv H where
  spawn: "p \<in> H \<Longrightarrow> sy_pool s i = None \<Longrightarrow> step sv H s (s\<lparr>sy_pool := (sy_pool s)(i \<mapsto> p)\<rparr>)"
| reply: "sy_pool s i = Some p \<Longrightarrow> answer p r = Some (q, p') \<Longrightarrow> sv_answer sv q r (sy_db s) d' \<Longrightarrow>
    step sv H s \<lparr>sy_db = d', sy_pool = (sy_pool s)(i \<mapsto> p')\<rparr>"
| late: "sy_pool s i = Some p \<Longrightarrow> waiting p = Some q \<Longrightarrow> sv_late sv q (sy_db s) d' \<Longrightarrow>
    step sv H s (s\<lparr>sy_db := d'\<rparr>)"
| abandon: "sy_pool s i = Some p \<Longrightarrow> answer p r = Some (q, p') \<Longrightarrow> timed_out r \<Longrightarrow> sy_pool s j = None \<Longrightarrow>
    step sv H s (s\<lparr>sy_pool := (sy_pool s)(i \<mapsto> orphan q, j \<mapsto> p')\<rparr>)"
| crash: "step sv H s (s\<lparr>sy_pool := (sy_pool s)(i := None)\<rparr>)"
| reclaim: "sv_reclaim sv (sy_db s) d' \<Longrightarrow> step sv H s (s\<lparr>sy_db := d'\<rparr>)"

definition event_item_of :: "ledger_cfg \<Rightarrow> db \<Rightarrow> item option" where
  "event_item_of cfg d = current d (tb_counters (lc_tables cfg)) (event_key cfg)"

text \<open>A fresh deployment: no visitor, no shard, and an event that has not been opened.\<close>

text \<open>An item the open has not touched: no seed, no cohort, and not the phase that says it is open.\<close>

definition unopened_item :: "item \<Rightarrow> bool" where
  "unopened_item m \<longleftrightarrow> m ''shuffle_seed'' = None \<and> m ''participant_count'' = None
     \<and> m ''phase'' \<noteq> Some (AS (phase_wire Active))"

definition fresh :: "ledger_cfg \<Rightarrow> state \<Rightarrow> bool" where
  "fresh cfg s \<longleftrightarrow> sy_pool s = (\<lambda>_. None)
     \<and> (\<forall>k. sy_db s (tb_positions (lc_tables cfg), k) = [])
     \<and> (\<forall>k. sy_db s (tb_prequeue (lc_tables cfg), k) = [])
     \<and> (\<forall>sh. sy_db s (tb_counters (lc_tables cfg), shard_key cfg sh) = [])
     \<and> (\<forall>m. version (sy_db s) (tb_counters (lc_tables cfg)) (event_key cfg) m \<longrightarrow> unopened_item m)"

inductive reachable :: "service \<Rightarrow> unit prog set \<Rightarrow> ledger_cfg \<Rightarrow> state \<Rightarrow> bool" for sv H cfg where
  start: "fresh cfg s \<Longrightarrow> reachable sv H cfg s"
| more: "reachable sv H cfg s \<Longrightarrow> step sv H s s' \<Longrightarrow> reachable sv H cfg s'"

text \<open>A Lambda's return value goes to its caller and is of no consequence for the run.\<close>

definition invocation :: "'a prog \<Rightarrow> unit prog" where
  "invocation p = bind p (\<lambda>_. Done ())"

lemma invocation_honours: "honours cfg p \<Longrightarrow> honours cfg (invocation p)"
  by (auto simp: honours_def invocation_def intro: lwp_mono lwp_DoneI)

text \<open>A stretch of one invocation that nothing else interleaves with.\<close>

fun replies :: "service \<Rightarrow> unit prog \<Rightarrow> db \<Rightarrow> (resp \<times> db) list \<Rightarrow> bool" where
  "replies sv p d [] = True"
| "replies sv p d ((r, d1) # rs) =
     (case answer p r of
        None \<Rightarrow> False
      | Some (q, p1) \<Rightarrow> sv_answer sv q r d d1 \<and> replies sv p1 d1 rs)"

lemma replies_reachable_aux:
  "replies sv p d rs \<Longrightarrow> reachable sv H cfg s \<Longrightarrow> sy_db s = d \<Longrightarrow> sy_pool s i = Some p \<Longrightarrow>
   \<exists>s' p'. reachable sv H cfg s' \<and> sy_db s' = last (d # map snd rs) \<and> sy_pool s' = (sy_pool s)(i \<mapsto> p')"
proof (induction sv p d rs arbitrary: s rule: replies.induct)
  case (1 sv p d)
  then show ?case
    by (intro exI [of _ s] exI [of _ p]) (simp add: fun_upd_idem)
next
  case (2 sv p d r d1 rs)
  obtain q p1 where a: "answer p r = Some (q, p1)" "sv_answer sv q r d d1" "replies sv p1 d1 rs"
    using 2(2) by (auto split: option.splits)
  let ?s = "\<lparr>sy_db = d1, sy_pool = (sy_pool s)(i \<mapsto> p1)\<rparr>"
  have "reachable sv H cfg ?s"
    using more [OF 2(3) step.reply] a(1,2) 2(4,5) by blast
  from 2(1) [OF a(1) refl a(3) this] show ?case
    by (simp del: fun_upd_apply add: fun_upd_same)
qed

lemma replies_reachable:
  assumes "reachable sv H cfg s" "sy_pool s = (\<lambda>_. None)" "p \<in> H" "replies sv p (sy_db s) rs"
  shows "\<exists>s'. reachable sv H cfg s' \<and> sy_db s' = last (sy_db s # map snd rs) \<and> sy_pool s' = (\<lambda>_. None)"
proof -
  have "reachable sv H cfg (s\<lparr>sy_pool := (sy_pool s)(0 \<mapsto> p)\<rparr>)"
    using more [OF assms(1) step.spawn [OF assms(3), of s 0]] assms(2) by simp
  from replies_reachable_aux [OF assms(4) this, of 0] obtain s' p' where
    s': "reachable sv H cfg s'" "sy_db s' = last (sy_db s # map snd rs)" "sy_pool s' = (\<lambda>_. None)(0 \<mapsto> p')"
    using assms(2) by auto
  have "reachable sv H cfg (s'\<lparr>sy_pool := (sy_pool s')(0 := None)\<rparr>)"
    by (rule more [OF s'(1) step.crash])
  with s'(2,3) show ?thesis
    by (intro exI [of _ "s'\<lparr>sy_pool := (sy_pool s')(0 := None)\<rparr>"]) auto
qed

section \<open>Who holds what\<close>

definition position_key :: "string \<Rightarrow> primary_key" where
  "position_key r = key_build (KPosition r)"

definition prequeue_key :: "string \<Rightarrow> primary_key" where
  "prequeue_key r = key_build (KPrequeue r)"

definition row_position :: "ledger_cfg \<Rightarrow> db \<Rightarrow> (string \<times> u64) set" where
  "row_position cfg d = {(r, p). \<exists>m. version d (tb_positions (lc_tables cfg)) (position_key r) m
     \<and> get_u64 m QUEUE_POSITION_ATTR = Some p}"

definition row_index :: "ledger_cfg \<Rightarrow> db \<Rightarrow> (string \<times> (nat \<times> u64)) set" where
  "row_index cfg d = {(r, sl). \<exists>m. version d (tb_prequeue (lc_tables cfg)) (prequeue_key r) m
     \<and> row_slot m = Some sl}"

text \<open>The visitor \<open>r\<close> holds, or held, position \<open>p\<close>: by a \<open>Positions\<close> row, or by a pre-queue
  registration that resolves to it under outputs of the open the event's item has had.\<close>

definition holds_position :: "ledger_cfg \<Rightarrow> db \<Rightarrow> string \<Rightarrow> u64 \<Rightarrow> bool" where
  "holds_position cfg d r p \<longleftrightarrow> (r, p) \<in> row_position cfg d
     \<or> (\<exists>s l m oo. (r, s, l) \<in> row_index cfg d
          \<and> version d (tb_counters (lc_tables cfg)) (event_key cfg) m
          \<and> open_outputs (from_item (lc_event cfg) m) = Some oo
          \<and> cohort_position (lc_hmac cfg) oo s l p)"

end
