(* ===== verification/Accounting.thy ===== *)
theory Accounting
  imports Deployment
begin

text \<open>
  The proof that the ledger is kept in every run.  \<open>ledger_inv\<close> ties the ghost accounts of the
  running programs to the database: every live position and every pre-queue index has one owner
  at most, a program or a visitor's row, and what a program has read is in the database.

  Lemmas: the rules of one kind of token (\<open>tok_issue\<close>, \<open>tok_land\<close>, \<open>tok_next\<close>); one
  \<open>lands_\<close> lemma for every write a ledger-honouring program may make, gathered in \<open>lands_inv\<close>; one
  \<open>reply_\<close> lemma for every kind of response, gathered in \<open>step_reply\<close>; \<open>reachable_inv\<close> proves the
  invariant of every reachable state, for every service that meets its documentation and every
  set of handlers that honour the ledger.  \<open>unique_holder\<close> and \<open>outputs_fixed\<close> are its
  consequences: a queue position has at most one visitor, and the open is published once.
\<close>

section \<open>Tokens\<close>

text \<open>
  One kind of token (live positions, pre-queue indices): \<open>iss\<close>ued so far, \<open>own\<close>ed by a running
  program, \<open>held\<close> by a visitor's row, and the write a program has \<open>pend\<close>ing.
\<close>

definition tok_inv ::
  "'t set \<Rightarrow> (nat \<Rightarrow> 't set) \<Rightarrow> (string \<times> 't) set \<Rightarrow> (nat \<Rightarrow> (string \<times> 't) option) \<Rightarrow> bool" where
  "tok_inv iss own held pend \<longleftrightarrow>
     (\<forall>i. own i \<subseteq> iss) \<and> (\<forall>i j. i \<noteq> j \<longrightarrow> own i \<inter> own j = {})
     \<and> (\<forall>r t. (r, t) \<in> held \<longrightarrow> t \<in> iss) \<and> (\<forall>r r' t. (r, t) \<in> held \<longrightarrow> (r', t) \<in> held \<longrightarrow> r = r')
     \<and> (\<forall>i r t. t \<in> own i \<longrightarrow> (r, t) \<in> held \<longrightarrow> pend i = Some (r, t))"

lemma tok_invD:
  assumes "tok_inv iss own held pend"
  shows "own i \<subseteq> iss" "i \<noteq> j \<Longrightarrow> own i \<inter> own j = {}" "(r, t) \<in> held \<Longrightarrow> t \<in> iss"
    "(r, t) \<in> held \<Longrightarrow> (r', t) \<in> held \<Longrightarrow> r = r'" "t \<in> own i \<Longrightarrow> (r, t) \<in> held \<Longrightarrow> pend i = Some (r, t)"
proof -
  note * = assms [unfolded tok_inv_def]
  show "own i \<subseteq> iss" using * by blast
  show "i \<noteq> j \<Longrightarrow> own i \<inter> own j = {}" using * by blast
  show "(r, t) \<in> held \<Longrightarrow> t \<in> iss" using * by blast
  show "(r, t) \<in> held \<Longrightarrow> (r', t) \<in> held \<Longrightarrow> r = r'" using * by blast
  show "t \<in> own i \<Longrightarrow> (r, t) \<in> held \<Longrightarrow> pend i = Some (r, t)" using * by blast
qed

lemma tok_invI:
  assumes "\<And>i. own i \<subseteq> iss" "\<And>i j. i \<noteq> j \<Longrightarrow> own i \<inter> own j = {}" "\<And>r t. (r, t) \<in> held \<Longrightarrow> t \<in> iss"
    "\<And>r r' t. (r, t) \<in> held \<Longrightarrow> (r', t) \<in> held \<Longrightarrow> r = r'"
    "\<And>i r t. t \<in> own i \<Longrightarrow> (r, t) \<in> held \<Longrightarrow> pend i = Some (r, t)"
  shows "tok_inv iss own held pend"
  unfolding tok_inv_def using assms by blast

text \<open>More tokens are issued, to nobody.\<close>

lemma tok_issue:
  assumes inv: "tok_inv iss own held pend" and sub: "iss \<subseteq> iss'"
  shows "tok_inv iss' own held pend"
proof (rule tok_invI)
  show "own i \<subseteq> iss'" for i using tok_invD(1) [OF inv, of i] sub by (rule subset_trans)
  show "t \<in> iss'" if "(r, t) \<in> held" for r t using tok_invD(3) [OF inv that] sub by (rule rev_subsetD)
qed (rule tok_invD(2,4,5) [OF inv]; assumption)+

text \<open>A pending write lands.\<close>

lemma tok_land:
  assumes inv: "tok_inv iss own held pend" and own: "t \<in> own i" "pend i = Some (r, t)"
  shows "tok_inv iss own (insert (r, t) held) pend"
proof (rule tok_invI)
  have same: "r' = r" if "(r', t) \<in> held" for r'
    using tok_invD(5) [OF inv own(1) that] own(2) by simp
  have mine: "j = i" if "t \<in> own j" for j
    using tok_invD(2) [OF inv, of i j] own(1) that by auto
  have iss: "t \<in> iss"
    using tok_invD(1) [OF inv, of i] own(1) by (rule subsetD)
  show "u \<in> iss" if "(x, u) \<in> insert (r, t) held" for x u
    using that iss tok_invD(3) [OF inv, of x u] by auto
  show "x = x'" if "(x, u) \<in> insert (r, t) held" "(x', u) \<in> insert (r, t) held" for x x' u
    using that same tok_invD(4) [OF inv, of x u x'] by auto
  show "pend j = Some (x, u)" if "u \<in> own j" "(x, u) \<in> insert (r, t) held" for j x u
    using that mine own(2) tok_invD(5) [OF inv that(1), of x] by auto
qed (rule tok_invD(1,2) [OF inv]; assumption?)+

text \<open>A program drops a token it had a write pending for, or waits on something else while it
  holds no written token, and may receive tokens nobody owns or holds.\<close>

lemma tok_next:
  assumes inv: "tok_inv iss own held pend"
    and sub: "\<And>t. t \<in> O' \<Longrightarrow> t \<in> B \<or> (t \<in> own i \<and> (\<forall>r. pend i \<noteq> Some (r, t)))" "B \<subseteq> iss"
    and new: "\<And>j. B \<inter> own j = {}" "\<And>r t. (r, t) \<in> held \<Longrightarrow> t \<notin> B"
  shows "tok_inv iss (own(i := O')) held (pend(i := x))"
proof (rule tok_invI)
  have free: "(r, t) \<notin> held" if "t \<in> O'" for r t
    using sub(1) [OF that] new(2) [of r t] tok_invD(5) [OF inv, of t i r] by blast
  have part: "O' \<subseteq> B \<union> own i"
    using sub(1) by auto
  show "(own(i := O')) j \<subseteq> iss" for j
    using part sub(2) tok_invD(1) [OF inv, of j] tok_invD(1) [OF inv, of i] by auto
  have apart: "O' \<inter> own j = {}" if "i \<noteq> j" for j
    using part new(1) [of j] tok_invD(2) [OF inv that] by blast
  show "(own(i := O')) j \<inter> (own(i := O')) k = {}" if "j \<noteq> k" for j k
    using that apart [of j] apart [of k] tok_invD(2) [OF inv that]
    by (cases "j = i"; cases "k = i") (simp_all add: Int_commute)
  show "(pend(i := x)) j = Some (r, t)" if "t \<in> (own(i := O')) j" "(r, t) \<in> held" for j r t
    using that free [of t r] tok_invD(5) [OF inv, of t j r] by (cases "j = i") auto
  show "t \<in> iss" if "(r, t) \<in> held" for r t using tok_invD(3) [OF inv that] .
  show "r = r'" if "(r, t) \<in> held" "(r', t) \<in> held" for r r' t using tok_invD(4) [OF inv that] .
qed

text \<open>A program's tokens are shared out between a write left in flight and the program that goes
  on.\<close>

lemma tok_split:
  assumes inv: "tok_inv iss own held pend" and j: "own j = {}"
    and sub: "O1 \<subseteq> own i" "O2 \<subseteq> own i" "O1 \<inter> O2 = {}"
    and free: "\<And>t r. t \<in> O2 \<Longrightarrow> pend i \<noteq> Some (r, t)"
  shows "tok_inv iss (own(i := O1, j := O2)) held (pend(j := x))"
proof (rule tok_invI)
  let ?own = "own(i := O1, j := O2)"
  show "?own k \<subseteq> iss" for k
    using sub(1,2) tok_invD(1) [OF inv, of i] tok_invD(1) [OF inv, of k] by auto
  have apart: "own i \<inter> own k = {}" if "k \<noteq> i" for k
    using tok_invD(2) [OF inv, of i k] that by simp
  show "?own k \<inter> ?own l = {}" if "k \<noteq> l" for k l
    using that sub apart [of k] apart [of l] tok_invD(2) [OF inv that]
    by (cases "k = i"; cases "k = j"; cases "l = i"; cases "l = j") auto
  have none: "(r, t) \<notin> held" if "t \<in> O2" for r t
    using sub(2) that free [OF that, of r] tok_invD(5) [OF inv, of t i r] by auto
  show "(pend(j := x)) k = Some (r, t)" if t: "t \<in> ?own k" and h: "(r, t) \<in> held" for k r t
  proof (cases "k = j")
    case True
    with t none h show ?thesis by auto
  next
    case False
    then have "t \<in> own k"
      using t sub(1) by (auto split: if_splits)
    from tok_invD(5) [OF inv this h] False show ?thesis by simp
  qed
qed (rule tok_invD(3,4) [OF inv]; assumption)+

section \<open>The invariant\<close>

type_synonym event_open = "(open_outputs_rec \<times> nat list) option"

definition opened_item :: "open_outputs_rec \<Rightarrow> item \<Rightarrow> bool" where
  "opened_item oo m \<longleftrightarrow> m ''shuffle_seed'' = Some (AB (oo_seed oo))
     \<and> m ''participant_count'' = Some (AN (show_u64 (co_participant_count (oo_offsets oo))))
     \<and> m ''prequeue_offsets'' = Some (AL (map (\<lambda>o'. AN (show_u64 o')) (co_offsets (oo_offsets oo))))"

definition good_opening :: "open_outputs_rec \<Rightarrow> nat list \<Rightarrow> bool" where
  "good_opening oo cs \<longleftrightarrow> cohort_of cs (oo_offsets oo) \<and> length (oo_seed oo) = 32"

definition event_versions :: "ledger_cfg \<Rightarrow> db \<Rightarrow> item set" where
  "event_versions cfg d = {m. version d (tb_counters (lc_tables cfg)) (event_key cfg) m}"

definition event_inv :: "event_open \<Rightarrow> nat \<Rightarrow> item set \<Rightarrow> item option \<Rightarrow> bool" where
  "event_inv op Q vs cur \<longleftrightarrow>
     (case op of
        None \<Rightarrow> (\<forall>m\<in>vs. unopened_item m)
      | Some (oo, cs) \<Rightarrow> good_opening oo cs \<and> sum_list cs \<le> Q
          \<and> (\<forall>m\<in>vs. unopened_item m \<or> opened_item oo m)
          \<and> (\<exists>m. cur = Some m \<and> opened_item oo m \<and> m ''queue_counter'' = Some (AN (show_nat Q))))"

definition shard_item_of :: "ledger_cfg \<Rightarrow> db \<Rightarrow> shard \<Rightarrow> item option" where
  "shard_item_of cfg d sh = current d (tb_counters (lc_tables cfg)) (shard_key cfg sh)"

definition count_inv :: "(shard \<Rightarrow> nat) \<Rightarrow> (shard \<Rightarrow> item option) \<Rightarrow> bool" where
  "count_inv cnt cur \<longleftrightarrow> (\<forall>sh.
     (case Option.bind (cur sh) (\<lambda>m. m SHARD_COUNT_ATTR) of
        None \<Rightarrow> cnt sh = 0
      | Some v \<Rightarrow> v = AN (show_nat (cnt sh))))"

definition cohort_size :: "event_open \<Rightarrow> nat" where
  "cohort_size op = (case op of None \<Rightarrow> 0 | Some (oo, cs) \<Rightarrow> sum_list cs)"

definition live_issued :: "event_open \<Rightarrow> nat \<Rightarrow> u64 set" where
  "live_issued op Q = (case op of None \<Rightarrow> {} | Some (oo, cs) \<Rightarrow> {p. sum_list cs < unat p \<and> unat p \<le> Q})"

definition index_issued :: "(shard \<Rightarrow> nat) \<Rightarrow> (nat \<times> u64) set" where
  "index_issued cnt = {(s, l). unat l < cnt (Shard s)}"

definition live_held :: "event_open \<Rightarrow> (string \<times> u64) set \<Rightarrow> (string \<times> u64) set" where
  "live_held op rows = {(r, p) \<in> rows. cohort_size op < unat p}"

definition cohort_claim ::
  "ledger_cfg \<Rightarrow> event_open \<Rightarrow> (string \<times> nat \<times> u64) set \<Rightarrow> string \<Rightarrow> u64 \<Rightarrow> bool" where
  "cohort_claim cfg op idx r p \<longleftrightarrow>
     (\<exists>oo cs s l. op = Some (oo, cs) \<and> (r, s, l) \<in> idx \<and> cohort_position (lc_hmac cfg) oo s l p)"

definition position_inv ::
  "ledger_cfg \<Rightarrow> event_open \<Rightarrow> nat \<Rightarrow> (string \<times> u64) set \<Rightarrow> (string \<times> nat \<times> u64) set \<Rightarrow> bool" where
  "position_inv cfg op Q rows idx \<longleftrightarrow>
     (\<forall>r p. (r, p) \<in> rows \<longrightarrow> p \<in> live_issued op Q \<or> cohort_claim cfg op idx r p)"

definition knows ::
  "event_open \<Rightarrow> (string \<times> u64) set \<Rightarrow> (string \<times> nat \<times> u64) set \<Rightarrow> ghost \<Rightarrow> bool" where
  "knows op rows idx g \<longleftrightarrow>
     (gh_open g = None \<or> gh_open g = map_option fst op) \<and> (gh_counted g \<longrightarrow> op \<noteq> None)
     \<and> (\<forall>p r. (p, r) \<in> gh_pos g \<longrightarrow> (r, p) \<in> rows) \<and> gh_row g \<subseteq> idx"

text \<open>The write a request would make, as visitor and token.\<close>

definition put_live :: "ledger_cfg \<Rightarrow> req \<Rightarrow> (string \<times> u64) option" where
  "put_live cfg q =
     (case q of
        QPut t m c \<Rightarrow>
          if t = tb_positions (lc_tables cfg)
          then Option.bind (get_s m POSITIONS_KEY_ATTR)
            (\<lambda>r. map_option (Pair r) (get_u64 m QUEUE_POSITION_ATTR))
          else None
      | _ \<Rightarrow> None)"

definition put_index :: "ledger_cfg \<Rightarrow> req \<Rightarrow> (string \<times> nat \<times> u64) option" where
  "put_index cfg q =
     (case q of
        QPut t m c \<Rightarrow>
          if t = tb_prequeue (lc_tables cfg)
          then Option.bind (get_s m PREQUEUE_KEY_ATTR) (\<lambda>r. map_option (Pair r) (row_slot m))
          else None
      | _ \<Rightarrow> None)"

definition pending :: "(req \<Rightarrow> 'b option) \<Rightarrow> (nat \<Rightarrow> unit prog option) \<Rightarrow> nat \<Rightarrow> 'b option" where
  "pending f pool i = Option.bind (Option.bind (pool i) waiting) f"

definition owned :: "(ghost \<Rightarrow> 't set) \<Rightarrow> (nat \<Rightarrow> ghost) \<Rightarrow> (nat \<Rightarrow> unit prog option) \<Rightarrow> nat \<Rightarrow> 't set" where
  "owned f gs pool i = (case pool i of None \<Rightarrow> {} | Some _ \<Rightarrow> f (gs i))"

definition ledger_inv ::
  "ledger_cfg \<Rightarrow> (nat \<Rightarrow> ghost) \<Rightarrow> event_open \<Rightarrow> nat \<Rightarrow> (shard \<Rightarrow> nat) \<Rightarrow> db \<Rightarrow> (nat \<Rightarrow> unit prog option) \<Rightarrow> bool" where
  "ledger_inv cfg gs op Q cnt d pool \<longleftrightarrow>
     event_inv op Q (event_versions cfg d) (event_item_of cfg d)
     \<and> count_inv cnt (shard_item_of cfg d)
     \<and> position_inv cfg op Q (row_position cfg d) (row_index cfg d)
     \<and> tok_inv (live_issued op Q) (owned gh_live gs pool) (live_held op (row_position cfg d))
         (pending (put_live cfg) pool)
     \<and> tok_inv (index_issued cnt) (owned gh_pq gs pool) (row_index cfg d) (pending (put_index cfg) pool)
     \<and> (\<forall>i p. pool i = Some p \<longrightarrow>
          lwp cfg p (\<lambda>_ _. True) (gs i) \<and> knows op (row_position cfg d) (row_index cfg d) (gs i))"

section \<open>Positions of the cohort\<close>

lemma cohort_position_below:
  assumes "good_opening oo cs" "cohort_position hmac oo s l p"
  shows "unat p < sum_list cs"
proof -
  obtain i where i: "assign (oo_offsets oo) s l = AssignPreQueue i"
      "p = prp_value hmac (oo_seed oo) i (co_participant_count (oo_offsets oo))"
    using assms(2) by (auto simp: cohort_position_def)
  have co: "cohort_of cs (oo_offsets oo)"
    using assms(1) by (simp add: good_opening_def)
  then have n: "unat (co_participant_count (oo_offsets oo)) = sum_list cs"
    by (auto simp: cohort_of_def from_parts_def unat_of_nat_small)
  then have "i < co_participant_count (oo_offsets oo)"
    using assign_index_bound [OF co i(1)] by (simp add: word_less_nat_alt)
  from prp_value_below [OF this] show ?thesis
    using i(2) n by (simp add: word_less_nat_alt)
qed

lemma cohort_position_inj:
  assumes "good_opening oo cs" "cohort_position hmac oo s l p" "cohort_position hmac oo s' l' p"
  shows "(s, l) = (s', l')"
proof -
  let ?n = "co_participant_count (oo_offsets oo)"
  obtain i j where ij: "assign (oo_offsets oo) s l = AssignPreQueue i"
      "assign (oo_offsets oo) s' l' = AssignPreQueue j"
      "prp_value hmac (oo_seed oo) i ?n = prp_value hmac (oo_seed oo) j ?n"
    using assms(2,3) by (auto simp: cohort_position_def)
  have co: "cohort_of cs (oo_offsets oo)"
    using assms(1) by (simp add: good_opening_def)
  then have n: "unat ?n = sum_list cs"
    by (auto simp: cohort_of_def from_parts_def unat_of_nat_small)
  have "i < ?n" "j < ?n"
    using assign_index_bound [OF co ij(1)] assign_index_bound [OF co ij(2)] n
    by (simp_all add: word_less_nat_alt)
  from prp_value_inj [OF this ij(3)] show ?thesis
    using assign_inj [OF co ij(1)] ij(2) by simp
qed

lemma cohort_not_live:
  assumes "event_inv op Q vs cur" "cohort_claim cfg op idx r p"
  shows "unat p < cohort_size op" "p \<notin> live_issued op Q"
  using assms cohort_position_below
  by (fastforce simp: event_inv_def cohort_claim_def cohort_size_def live_issued_def)+

section \<open>What the open publishes\<close>

lemma parse_offsets_map: "parse_offsets (map (\<lambda>o'. AN (show_u64 o')) xs) = Some xs"
  by (induction xs) (simp_all add: dec_simps)

lemma open_outputs_opened:
  assumes "good_opening oo cs" "opened_item oo m"
  shows "open_outputs (from_item ev m) = Some oo"
proof -
  have "length (co_offsets (oo_offsets oo)) = SHARDS"
    using assms(1) by (auto simp: good_opening_def cohort_of_def from_parts_def)
  then show ?thesis
    using assms
    by (cases oo; cases "oo_offsets oo")
      (simp add: open_outputs_def from_item_def opened_item_def get_u64_def get_n_def sized_def
        parse_offsets_map dec_simps good_opening_def from_parts_def)
qed

lemma open_outputs_closed: "unopened_item m \<Longrightarrow> open_outputs (from_item ev m) = None"
  by (simp add: open_outputs_def from_item_def unopened_item_def)

lemma event_outputs:
  assumes "event_inv op Q vs cur" "m \<in> vs" "open_outputs (from_item ev m) = Some oo"
  shows "map_option fst op = Some oo"
proof (cases op)
  case None
  then have "unopened_item m"
    using assms(1,2) by (simp add: event_inv_def)
  with assms(3) show ?thesis
    by (simp add: open_outputs_closed)
next
  case (Some oc)
  obtain o' cs where oc: "oc = (o', cs)" by (cases oc)
  have "good_opening o' cs" "unopened_item m \<or> opened_item o' m"
    using assms(1,2) by (simp_all add: event_inv_def Some oc)
  with assms(3) show ?thesis
    using open_outputs_opened [of o' cs m ev] open_outputs_closed [of m ev] by (auto simp: Some oc)
qed

section \<open>What one write changes\<close>

lemma row_position_push:
  "row_position cfg (push d t k v) = row_position cfg d \<union>
     {(r, p). t = tb_positions (lc_tables cfg) \<and> k = position_key r
        \<and> (\<exists>m. v = Some m \<and> get_u64 m QUEUE_POSITION_ATTR = Some p)}"
  by (auto simp: row_position_def version_push)

lemma row_index_push:
  "row_index cfg (push d t k v) = row_index cfg d \<union>
     {(r, sl). t = tb_prequeue (lc_tables cfg) \<and> k = prequeue_key r
        \<and> (\<exists>m. v = Some m \<and> row_slot m = Some sl)}"
  by (auto simp: row_index_def version_push)

lemma event_versions_push:
  "event_versions cfg (push d t k v) = event_versions cfg d \<union>
     {m. t = tb_counters (lc_tables cfg) \<and> k = event_key cfg \<and> v = Some m}"
  by (auto simp: event_versions_def version_push)

lemma event_item_push:
  "event_item_of cfg (push d t k v) =
     (if t = tb_counters (lc_tables cfg) \<and> k = event_key cfg then v else event_item_of cfg d)"
  by (simp add: event_item_of_def current_push)

lemma shard_item_push:
  "shard_item_of cfg (push d t k v) =
     (\<lambda>sh. if t = tb_counters (lc_tables cfg) \<and> k = shard_key cfg sh then v else shard_item_of cfg d sh)"
  by (simp add: fun_eq_iff shard_item_of_def current_push)

lemmas push_views = row_position_push row_index_push event_versions_push event_item_push shard_item_push

lemma ledger_invD:
  assumes "ledger_inv cfg gs op Q cnt d pool"
  shows "event_inv op Q (event_versions cfg d) (event_item_of cfg d)"
    and "count_inv cnt (shard_item_of cfg d)"
    and "position_inv cfg op Q (row_position cfg d) (row_index cfg d)"
    and "tok_inv (live_issued op Q) (owned gh_live gs pool) (live_held op (row_position cfg d))
         (pending (put_live cfg) pool)"
    and "tok_inv (index_issued cnt) (owned gh_pq gs pool) (row_index cfg d) (pending (put_index cfg) pool)"
    and "pool i = Some p \<Longrightarrow> lwp cfg p (\<lambda>_ _. True) (gs i)"
    and "pool i = Some p \<Longrightarrow> knows op (row_position cfg d) (row_index cfg d) (gs i)"
  using assms unfolding ledger_inv_def by blast+

text \<open>A write that no part of the invariant looks at.\<close>

lemma inv_other_write:
  assumes "ledger_inv cfg gs op Q cnt d pool"
    and "t \<noteq> tb_positions (lc_tables cfg) \<or> v = None" "t \<noteq> tb_prequeue (lc_tables cfg)"
    and "t = tb_counters (lc_tables cfg) \<longrightarrow> k \<noteq> event_key cfg \<and> (\<forall>sh. k \<noteq> shard_key cfg sh)"
  shows "ledger_inv cfg gs op Q cnt (push d t k v) pool"
proof -
  have "row_position cfg (push d t k v) = row_position cfg d" "row_index cfg (push d t k v) = row_index cfg d"
    "event_versions cfg (push d t k v) = event_versions cfg d"
    "event_item_of cfg (push d t k v) = event_item_of cfg d"
    "shard_item_of cfg (push d t k v) = shard_item_of cfg d"
    using assms(2-4) by (auto simp: push_views)
  with assms(1) show ?thesis
    by (simp add: ledger_inv_def)
qed

text \<open>A write of the event's item leaves the rows and the shards alone.\<close>

lemma event_push_views:
  assumes "tables_ok (lc_tables cfg)"
  shows "row_position cfg (push d (tb_counters (lc_tables cfg)) (event_key cfg) v) = row_position cfg d"
    and "row_index cfg (push d (tb_counters (lc_tables cfg)) (event_key cfg) v) = row_index cfg d"
    and "shard_item_of cfg (push d (tb_counters (lc_tables cfg)) (event_key cfg) v) = shard_item_of cfg d"
    and "event_item_of cfg (push d (tb_counters (lc_tables cfg)) (event_key cfg) v) = v"
    and "event_versions cfg (push d (tb_counters (lc_tables cfg)) (event_key cfg) (Some m))
      = insert m (event_versions cfg d)"
  using assms shard_key_ne [of cfg, symmetric] by (auto simp: push_views tables_ok_def)

lemma live_issued_mono: "Q \<le> Q' \<Longrightarrow> live_issued op Q \<subseteq> live_issued op Q'"
  by (auto simp: live_issued_def split: option.splits)

lemma cohort_claim_mono: "cohort_claim cfg op idx r p \<Longrightarrow> idx \<subseteq> idx' \<Longrightarrow> cohort_claim cfg op idx' r p"
  unfolding cohort_claim_def by blast

lemma position_inv_mono:
  assumes "position_inv cfg op Q rows idx" "Q \<le> Q'" "idx \<subseteq> idx'"
  shows "position_inv cfg op Q' rows idx'"
  unfolding position_inv_def
proof (intro allI impI)
  fix r p
  assume "(r, p) \<in> rows"
  then have "p \<in> live_issued op Q \<or> cohort_claim cfg op idx r p"
    using assms(1) by (simp add: position_inv_def)
  then show "p \<in> live_issued op Q' \<or> cohort_claim cfg op idx' r p"
    using live_issued_mono [OF assms(2), of op] cohort_claim_mono [OF _ assms(3)] by (elim disjE) auto
qed

lemma show_u64_nat: "show_u64 x = show_nat (unat x)"
  by (simp add: show_u64_def)

lemma lands_claim:
  assumes t: "tables_ok (lc_tables cfg)" and inv: "ledger_inv cfg gs op Q cnt d pool" and "op \<noteq> None"
    and l: "lands schema (QUpdate (tb_counters (lc_tables cfg)) (event_key cfg) (claim_clauses n) c) d m d'"
  shows "ledger_inv cfg gs op (Q + unat n) cnt d' pool"
    and "m ''queue_counter'' = Some (AN (show_nat (Q + unat n)))"
proof -
  obtain oo cs where op: "op = Some (oo, cs)" using assms(3) by auto
  obtain m0 where m0: "event_item_of cfg d = Some m0" "opened_item oo m0"
      "m0 ''queue_counter'' = Some (AN (show_nat Q))"
    using ledger_invD(1) [OF inv] by (auto simp: event_inv_def op)
  have d': "d' = push d (tb_counters (lc_tables cfg)) (event_key cfg) (Some m)"
    and eff: "update_effect (claim_clauses n) m0 m"
    using l m0(1) by (auto simp: lands_def base_item_def event_item_of_def)
  show qc: "m ''queue_counter'' = Some (AN (show_nat (Q + unat n)))"
    using update_clause [OF eff, of "UAdd ''queue_counter'' (AN (show_u64 n))"] m0(3)
    by (simp add: claim_clauses_def clause_ok_def show_u64_nat)
  have "opened_item oo m"
    using m0(2) update_frame [OF eff] by (simp add: opened_item_def claim_clauses_def)
  then have ev: "event_inv op (Q + unat n) (insert m (event_versions cfg d)) (Some m)"
    using ledger_invD(1) [OF inv] qc by (auto simp: event_inv_def op)
  show "ledger_inv cfg gs op (Q + unat n) cnt d' pool"
    using inv ev tok_issue [OF ledger_invD(4) [OF inv] live_issued_mono [of Q "Q + unat n" op]]
      position_inv_mono [OF ledger_invD(3) [OF inv], of "Q + unat n"]
    unfolding ledger_inv_def d' event_push_views [OF t] by simp
qed

lemma opened_item_cong:
  "(\<And>a. a \<in> protected_attrs \<Longrightarrow> m a = m' a) \<Longrightarrow> opened_item oo m = opened_item oo m'"
  by (simp add: opened_item_def protected_attrs_def)

text \<open>What a program that has not seen the cohort can write to the phase.\<close>

lemma phase_move_written:
  assumes eff: "update_effect us m0 m" and us: "\<forall>u\<in>set us. phase_move g u" and g: "\<not> gh_counted g"
    and m: "m ''phase'' = Some (AS (phase_wire Active))"
  shows "m0 ''phase'' = Some (AS (phase_wire Active))"
proof (cases "\<exists>u\<in>set us. clause_attr u = ''phase''")
  case True
  then obtain u p where u: "u \<in> set us" "u = USet ''phase'' (AS (phase_wire p))" "p \<noteq> Active"
    using us g by (auto simp: phase_move_def)
  have "m ''phase'' = Some (AS (phase_wire p))"
    using update_clause [OF eff u(1)] by (auto simp: u(2) clause_ok_def)
  then have "phase_parse (phase_wire p) = phase_parse (phase_wire Active)"
    using m by simp
  then show ?thesis
    using u(3) by (simp only: phase_wire_roundtrip sum.inject)
next
  case False
  then have "m ''phase'' = m0 ''phase''"
    by (intro update_frame [OF eff]) auto
  then show ?thesis
    using m by simp
qed

lemma lands_benign:
  assumes t: "tables_ok (lc_tables cfg)" and inv: "ledger_inv cfg gs op Q cnt d pool"
    and p: "pool i = Some p"
    and us: "\<forall>u\<in>set us. clause_attr u \<notin> protected_attrs \<and> phase_move (gs i) u"
    and l: "lands schema (QUpdate (tb_counters (lc_tables cfg)) (event_key cfg) us c) d m d'"
  shows "ledger_inv cfg gs op Q cnt d' pool"
proof -
  let ?m0 = "base_item (event_key cfg) (event_item_of cfg d)"
  note ev = ledger_invD(1) [OF inv]
  have d': "d' = push d (tb_counters (lc_tables cfg)) (event_key cfg) (Some m)"
    and eff: "update_effect us ?m0 m"
    using l by (auto simp: lands_def event_item_of_def)
  have same: "m a = ?m0 a" if "a \<in> protected_attrs" for a
    using update_frame [OF eff, of a] us that by auto
  have "event_inv op Q (insert m (event_versions cfg d)) (Some m)"
  proof (cases op)
    case None
    have m0: "unopened_item ?m0"
    proof (cases "event_item_of cfg d")
      case (Some m1)
      then have "m1 \<in> event_versions cfg d"
        using current_version by (simp add: event_versions_def event_item_of_def)
      with ev None Some show ?thesis by (simp add: base_item_def event_inv_def)
    qed (simp add: unopened_item_def base_item_def event_key_def key_build_def attr_names)
    have "\<not> gh_counted (gs i)"
      using ledger_invD(7) [OF inv p] None by (simp add: knows_def)
    then have "m ''phase'' \<noteq> Some (AS (phase_wire Active))"
      using phase_move_written [OF eff] us m0 by (auto simp: unopened_item_def)
    then have "unopened_item m"
      using same m0 by (simp add: protected_attrs_def unopened_item_def)
    with ev None show ?thesis by (simp add: event_inv_def)
  next
    case (Some x)
    obtain oo cs where x: "x = (oo, cs)" by (cases x)
    obtain m1 where m1: "event_item_of cfg d = Some m1" "opened_item oo m1"
        "m1 ''queue_counter'' = Some (AN (show_nat Q))"
      using ev by (auto simp: event_inv_def Some x)
    have "opened_item oo m" "m ''queue_counter'' = Some (AN (show_nat Q))"
      using m1 same opened_item_cong [of m m1 oo] by (simp_all add: base_item_def protected_attrs_def)
    with ev show ?thesis by (simp add: event_inv_def Some x)
  qed
  with inv show ?thesis
    unfolding ledger_inv_def d' event_push_views [OF t] by simp
qed

text \<open>Before the open no live position was issued, so nobody owns or holds one.\<close>

lemma closed_empty:
  assumes "ledger_inv cfg gs None Q cnt d pool"
  shows "row_position cfg d = {}" "owned gh_live gs pool i = {}"
  using ledger_invD(3,4) [OF assms] tok_invD(1) [OF ledger_invD(4) [OF assms], of i]
  by (auto simp: position_inv_def live_issued_def cohort_claim_def)

lemma lands_open:
  assumes t: "tables_ok (lc_tables cfg)" and inv: "ledger_inv cfg gs op Q cnt d pool"
    and co: "cohort_of cs co" "length seed = 32"
    and l: "lands schema (QUpdate (tb_counters (lc_tables cfg)) (event_key cfg)
        (open_clauses seed (co_participant_count co) (co_offsets co)) (Some open_condition)) d m d'"
  shows "op = None"
    and "ledger_inv cfg gs (Some (\<lparr>oo_offsets = co, oo_seed = seed\<rparr>, cs)) (sum_list cs) cnt d' pool"
proof -
  let ?oo = "\<lparr>oo_offsets = co, oo_seed = seed\<rparr>"
  let ?us = "open_clauses seed (co_participant_count co) (co_offsets co)"
  have d': "d' = push d (tb_counters (lc_tables cfg)) (event_key cfg) (Some m)"
    and eff: "update_effect ?us (base_item (event_key cfg) (event_item_of cfg d)) m"
    and closed: "Option.bind (event_item_of cfg d) (\<lambda>i. i ''shuffle_seed'') = None"
    using l by (auto simp: lands_def event_item_of_def opt_cond_def open_condition_def)
  show op: "op = None"
    using ledger_invD(1) [OF inv] closed by (auto simp: event_inv_def opened_item_def split: option.splits)
  have n: "unat (co_participant_count co) = sum_list cs"
    using co(1) by (auto simp: cohort_of_def from_parts_def unat_of_nat_small)
  have set: "m a = Some v" if "USet a v \<in> set ?us" "\<And>y. stored_as v y \<Longrightarrow> y = v" for a v
    using update_clause [OF eff that(1)] that(2) by (auto simp: clause_ok_def)
  have "m ''shuffle_seed'' = Some (AB seed)"
    "m ''participant_count'' = Some (AN (show_u64 (co_participant_count co)))"
    "m ''queue_counter'' = Some (AN (show_u64 (co_participant_count co)))"
    "m ''prequeue_offsets'' = Some (AL (map (\<lambda>o'. AN (show_u64 o')) (co_offsets co)))"
    by (rule set, simp_all add: open_clauses_def)+
  then have "opened_item ?oo m" "m ''queue_counter'' = Some (AN (show_nat (sum_list cs)))"
    using n by (simp_all add: opened_item_def show_u64_nat [of "co_participant_count co"])
  then have ev: "event_inv (Some (?oo, cs)) (sum_list cs) (insert m (event_versions cfg d)) (Some m)"
    using ledger_invD(1) [OF inv] co by (auto simp: event_inv_def op good_opening_def)
  note empty = closed_empty [OF inv [unfolded op]]
  have "tok_inv (live_issued (Some (?oo, cs)) (sum_list cs)) (owned gh_live gs pool)
      (live_held (Some (?oo, cs)) {}) (pending (put_live cfg) pool)"
    by (rule tok_invI) (simp_all add: empty live_held_def)
  moreover have "knows (Some (?oo, cs)) {} (row_index cfg d) (gs i)" if "pool i = Some p" for i p
    using ledger_invD(7) [OF inv that] empty op by (auto simp: knows_def)
  ultimately show "ledger_inv cfg gs (Some (?oo, cs)) (sum_list cs) cnt d' pool"
    using inv ev unfolding ledger_inv_def d' event_push_views [OF t] empty
    by (simp add: position_inv_def)
qed

lemma shard_push_views:
  assumes "tables_ok (lc_tables cfg)"
  shows "row_position cfg (push d (tb_counters (lc_tables cfg)) (shard_key cfg sh) v) = row_position cfg d"
    and "row_index cfg (push d (tb_counters (lc_tables cfg)) (shard_key cfg sh) v) = row_index cfg d"
    and "event_item_of cfg (push d (tb_counters (lc_tables cfg)) (shard_key cfg sh) v) = event_item_of cfg d"
    and "event_versions cfg (push d (tb_counters (lc_tables cfg)) (shard_key cfg sh) v) = event_versions cfg d"
    and "shard_item_of cfg (push d (tb_counters (lc_tables cfg)) (shard_key cfg sh) v)
      = (shard_item_of cfg d)(sh := v)"
  using assms shard_key_ne [of cfg] by (auto simp: push_views tables_ok_def shard_key_inj fun_eq_iff)

lemma lands_shard:
  assumes t: "tables_ok (lc_tables cfg)" and inv: "ledger_inv cfg gs op Q cnt d pool"
    and l: "lands schema (QUpdate (tb_counters (lc_tables cfg)) (shard_key cfg sh)
        (shard_claim_clauses sh n) c) d m d'"
  shows "ledger_inv cfg gs op Q (cnt(sh := cnt sh + unat n)) d' pool"
    and "m SHARD_COUNT_ATTR = Some (AN (show_nat (cnt sh + unat n)))"
proof -
  let ?m0 = "base_item (shard_key cfg sh) (shard_item_of cfg d sh)"
  have d': "d' = push d (tb_counters (lc_tables cfg)) (shard_key cfg sh) (Some m)"
    and eff: "update_effect (shard_claim_clauses sh n) ?m0 m"
    using l by (auto simp: lands_def shard_item_of_def)
  have "?m0 SHARD_COUNT_ATTR = Option.bind (shard_item_of cfg d sh) (\<lambda>m. m SHARD_COUNT_ATTR)"
    by (auto simp: base_item_def shard_key_def key_build_def attr_names split: option.split)
  then have before: "?m0 SHARD_COUNT_ATTR = None \<and> cnt sh = 0 \<or> ?m0 SHARD_COUNT_ATTR = Some (AN (show_nat (cnt sh)))"
    using ledger_invD(2) [OF inv, unfolded count_inv_def, rule_format, of sh]
    by (cases "Option.bind (shard_item_of cfg d sh) (\<lambda>m. m SHARD_COUNT_ATTR)") simp_all
  show after: "m SHARD_COUNT_ATTR = Some (AN (show_nat (cnt sh + unat n)))"
    using update_clause [OF eff, of "UAdd SHARD_COUNT_ATTR (AN (show_u64 n))"] before
    by (auto simp: shard_claim_clauses_def clause_ok_def show_u64_nat)
  then have "count_inv (cnt(sh := cnt sh + unat n)) ((shard_item_of cfg d)(sh := Some m))"
    using ledger_invD(2) [OF inv] by (simp add: count_inv_def cong: option.case_cong)
  moreover have "index_issued cnt \<subseteq> index_issued (cnt(sh := cnt sh + unat n))"
    by (auto simp: index_issued_def)
  ultimately show "ledger_inv cfg gs op Q (cnt(sh := cnt sh + unat n)) d' pool"
    using inv tok_issue [OF ledger_invD(5) [OF inv]]
    unfolding ledger_inv_def d' shard_push_views [OF t] by simp
qed

text \<open>An update of a row names only a position its visitor is entitled to.\<close>

lemma entitled_claim:
  assumes "knows op rows idx g" "entitled cfg g r p"
  shows "(r, p) \<in> rows \<or> cohort_claim cfg op idx r p"
  using assms by (fastforce simp: knows_def entitled_def cohort_claim_def split: option.splits)

lemma position_push_views:
  assumes "tables_ok (lc_tables cfg)"
  shows "row_index cfg (push d (tb_positions (lc_tables cfg)) k v) = row_index cfg d"
    and "event_item_of cfg (push d (tb_positions (lc_tables cfg)) k v) = event_item_of cfg d"
    and "event_versions cfg (push d (tb_positions (lc_tables cfg)) k v) = event_versions cfg d"
    and "shard_item_of cfg (push d (tb_positions (lc_tables cfg)) k v) = shard_item_of cfg d"
  using assms by (auto simp: push_views tables_ok_def)

lemma knows_mono: "knows op rows idx g \<Longrightarrow> rows \<subseteq> rows' \<Longrightarrow> idx \<subseteq> idx' \<Longrightarrow> knows op rows' idx' g"
  unfolding knows_def by blast

text \<open>Rows that gain only positions already held or derived from the cohort change nothing the
  tokens see.\<close>

lemma inv_more_rows:
  assumes inv: "ledger_inv cfg gs op Q cnt d pool" and t: "tables_ok (lc_tables cfg)"
    and d': "d' = push d (tb_positions (lc_tables cfg)) k v"
    and new: "\<And>r p. (r, p) \<in> row_position cfg d' \<Longrightarrow>
      (r, p) \<in> row_position cfg d \<or> cohort_claim cfg op (row_index cfg d) r p"
  shows "ledger_inv cfg gs op Q cnt d' pool"
proof -
  have sub: "row_position cfg d \<subseteq> row_position cfg d'"
    by (auto simp: d' row_position_push)
  have "live_held op (row_position cfg d') = live_held op (row_position cfg d)"
    using sub new cohort_not_live(1) [OF ledger_invD(1) [OF inv]] by (fastforce simp: live_held_def)
  moreover have "position_inv cfg op Q (row_position cfg d') (row_index cfg d)"
    using ledger_invD(3) [OF inv] new unfolding position_inv_def by blast
  ultimately show ?thesis
    using inv knows_mono [OF _ sub subset_refl]
    unfolding ledger_inv_def by (simp add: d' position_push_views [OF t])
qed

lemma lands_position_update:
  assumes t: "tables_ok (lc_tables cfg)" and inv: "ledger_inv cfg gs op Q cnt d pool"
    and p: "pool i = Some p"
    and ob: "ledger_ob cfg (QUpdate (tb_positions (lc_tables cfg)) k us c) (gs i)"
    and l: "lands schema (QUpdate (tb_positions (lc_tables cfg)) k us c) d m d'"
  shows "ledger_inv cfg gs op Q cnt d' pool"
proof (rule inv_more_rows [OF inv t])
  let ?cur = "current d (tb_positions (lc_tables cfg)) k"
  show d': "d' = push d (tb_positions (lc_tables cfg)) k (Some m)"
    using l by (simp add: lands_def)
  have eff: "update_effect us (base_item k ?cur) m"
    using l by (simp add: lands_def)
  have k: "fst k = POSITIONS_KEY_ATTR" and cl: "\<forall>u\<in>set us. position_clause_ob cfg (gs i) (snd k) u"
    using ob by (simp_all add: ledger_ob_def)
  fix r x
  assume "(r, x) \<in> row_position cfg d'"
  then consider "(r, x) \<in> row_position cfg d"
    | "k = position_key r" "get_u64 m QUEUE_POSITION_ATTR = Some x"
    unfolding d' row_position_push by auto
  then show "(r, x) \<in> row_position cfg d \<or> cohort_claim cfg op (row_index cfg d) r x"
  proof cases
    case 2
    have r: "snd k = r"
      using 2(1) by (simp add: position_key_def key_build_def)
    show ?thesis
    proof (cases "QUEUE_POSITION_ATTR \<in> clause_attr ` set us")
      case True
      then obtain u where u: "u \<in> set us" "clause_attr u = QUEUE_POSITION_ATTR" by auto
      then obtain y where y: "u = USet QUEUE_POSITION_ATTR (AN (show_u64 y))" "entitled cfg (gs i) r y"
        using cl r by (auto simp: position_clause_ob_def)
      then have "m QUEUE_POSITION_ATTR = Some (AN (show_u64 y))"
        using update_clause [OF eff u(1)] by (simp add: clause_ok_def)
      then have "y = x"
        using 2(2) by (simp add: get_u64_def get_n_def dec_simps)
      then show ?thesis
        using entitled_claim [OF ledger_invD(7) [OF inv p] y(2)] by simp
    next
      case False
      then have same: "m QUEUE_POSITION_ATTR = base_item k ?cur QUEUE_POSITION_ATTR"
        by (rule update_frame [OF eff])
      show ?thesis
      proof (cases ?cur)
        case None
        then have "m QUEUE_POSITION_ATTR = None"
          using same k by (simp add: base_item_def attr_names)
        then show ?thesis
          using 2(2) by (simp add: get_u64_def get_n_def)
      next
        case (Some m0)
        then have "get_u64 m0 QUEUE_POSITION_ATTR = Some x"
          using same 2(2) by (simp add: base_item_def get_u64_def get_n_def)
        then show ?thesis
          using current_version [OF Some] 2(1) by (auto simp: row_position_def)
      qed
    qed
  qed simp
qed

lemma lands_put_position:
  assumes t: "tables_ok (lc_tables cfg)" and inv: "ledger_inv cfg gs op Q cnt d pool"
    and sc: "schema (tb_positions (lc_tables cfg)) = POSITIONS_KEY_ATTR"
    and p: "pool i = Some p" "waiting p = Some (QPut (tb_positions (lc_tables cfg)) x c)"
    and ob: "ledger_ob cfg (QPut (tb_positions (lc_tables cfg)) x c) (gs i)"
    and l: "lands schema (QPut (tb_positions (lc_tables cfg)) x c) d m d'"
  shows "ledger_inv cfg gs op Q cnt d' pool"
proof -
  obtain row where row: "x = position_to_item row" "po_queue_position row \<in> gh_live (gs i)"
    using ob by (auto simp: ledger_ob_def put_position_ob_def)
  let ?r = "po_request_id row" and ?q = "po_queue_position row"
  have key: "position_to_item row POSITIONS_KEY_ATTR = Some (AS ?r)"
    by (simp add: position_to_item_def put_opt_def attr_names split: option.split)
  have d': "d' = push d (tb_positions (lc_tables cfg)) (position_key ?r) (Some x)"
    using l sc key row(1) by (auto simp: lands_def position_key_def key_build_def)
  have rows: "row_position cfg d' = insert (?r, ?q) (row_position cfg d)"
    by (auto simp: d' row_position_push row(1) position_key_def key_build_def QUEUE_POSITION_ATTR_def)
  have own: "?q \<in> owned gh_live gs pool i"
    using p(1) row(2) by (simp add: owned_def)
  have iss: "?q \<in> live_issued op Q"
    using own tok_invD(1) [OF ledger_invD(4) [OF inv]] by (rule rev_subsetD)
  then have held: "live_held op (row_position cfg d') = insert (?r, ?q) (live_held op (row_position cfg d))"
    unfolding rows by (auto simp: live_held_def live_issued_def cohort_size_def split: option.splits)
  have "pending (put_live cfg) pool i = Some (?r, ?q)"
    using p key by (simp add: pending_def put_live_def row(1) get_s_def QUEUE_POSITION_ATTR_def)
  note land = tok_land [OF ledger_invD(4) [OF inv] own this]
  have "position_inv cfg op Q (row_position cfg d') (row_index cfg d)"
    using ledger_invD(3) [OF inv] iss unfolding rows by (auto simp: position_inv_def)
  moreover have "knows op (row_position cfg d') (row_index cfg d) (gs j)" if "pool j = Some y" for j y
    by (rule knows_mono [OF ledger_invD(7) [OF inv that]]) (simp_all add: rows subset_insertI)
  ultimately show ?thesis
    using inv land unfolding ledger_inv_def held [symmetric]
    by (simp add: d' position_push_views [OF t])
qed

lemma prequeue_push_views:
  assumes "tables_ok (lc_tables cfg)"
  shows "row_position cfg (push d (tb_prequeue (lc_tables cfg)) k v) = row_position cfg d"
    and "event_item_of cfg (push d (tb_prequeue (lc_tables cfg)) k v) = event_item_of cfg d"
    and "event_versions cfg (push d (tb_prequeue (lc_tables cfg)) k v) = event_versions cfg d"
    and "shard_item_of cfg (push d (tb_prequeue (lc_tables cfg)) k v) = shard_item_of cfg d"
  using assms by (auto simp: push_views tables_ok_def)

lemma lands_put_prequeue:
  assumes t: "tables_ok (lc_tables cfg)" and inv: "ledger_inv cfg gs op Q cnt d pool"
    and sc: "schema (tb_prequeue (lc_tables cfg)) = PREQUEUE_KEY_ATTR"
    and p: "pool i = Some p" "waiting p = Some (QPut (tb_prequeue (lc_tables cfg)) x c)"
    and ob: "ledger_ob cfg (QPut (tb_prequeue (lc_tables cfg)) x c) (gs i)"
    and l: "lands schema (QPut (tb_prequeue (lc_tables cfg)) x c) d m d'"
  shows "ledger_inv cfg gs op Q cnt d' pool"
proof -
  obtain row where row: "x = prequeue_to_item row" "(unat (pq_s row), pq_l row) \<in> gh_pq (gs i)"
    using ob by (auto simp: ledger_ob_def put_prequeue_ob_def)
  let ?r = "pq_r row" and ?sl = "(unat (pq_s row), pq_l row)"
  have key: "prequeue_to_item row PREQUEUE_KEY_ATTR = Some (AS ?r)"
    by (simp add: prequeue_to_item_def put_opt_def attr_names split: option.split)
  have d': "d' = push d (tb_prequeue (lc_tables cfg)) (prequeue_key ?r) (Some x)"
    using l sc key row(1) by (auto simp: lands_def prequeue_key_def key_build_def)
  have idx: "row_index cfg d' = insert (?r, ?sl) (row_index cfg d)"
    by (auto simp: d' row_index_push row(1) prequeue_key_def key_build_def)
  have own: "?sl \<in> owned gh_pq gs pool i"
    using p(1) row(2) by (simp add: owned_def)
  have "pending (put_index cfg) pool i = Some (?r, ?sl)"
    using p key t by (simp add: pending_def put_index_def row(1) get_s_def)
  note land = tok_land [OF ledger_invD(5) [OF inv] own this]
  have "position_inv cfg op Q (row_position cfg d) (row_index cfg d')"
    by (rule position_inv_mono [OF ledger_invD(3) [OF inv]]) (simp_all add: idx subset_insertI)
  moreover have "knows op (row_position cfg d) (row_index cfg d') (gs j)" if "pool j = Some y" for j y
    by (rule knows_mono [OF ledger_invD(7) [OF inv that]]) (simp_all add: idx subset_insertI)
  ultimately show ?thesis
    using inv land unfolding ledger_inv_def idx [symmetric]
    by (simp add: d' prequeue_push_views [OF t])
qed

section \<open>Every write that a ledger-honouring program may make\<close>

lemma event_ob_cases:
  assumes "event_update_ob g us c"
  obtains (claim) n where "us = claim_clauses n" "gh_open g \<noteq> None"
  | (opens) cs co seed where "cohort_of cs co" "length seed = 32" "c = Some open_condition"
      "us = open_clauses seed (co_participant_count co) (co_offsets co)"
  | (benign) "\<forall>u\<in>set us. clause_attr u \<notin> protected_attrs \<and> phase_move g u"
      "(\<forall>u\<in>set us. clause_attr u \<noteq> ''serving_counter'') \<or> serving_move us c"
  using assms unfolding event_update_ob_def by blast

lemma knows_open: "knows op rows idx g \<Longrightarrow> gh_open g \<noteq> None \<Longrightarrow> op \<noteq> None"
  by (auto simp: knows_def)

lemma lands_event:
  assumes t: "tables_ok (lc_tables cfg)" and inv: "ledger_inv cfg gs op Q cnt d pool"
    and p: "pool i = Some p"
    and ob: "event_update_ob (gs i) us c"
    and l: "lands schema (QUpdate (tb_counters (lc_tables cfg)) (event_key cfg) us c) d m d'"
  shows "\<exists>op' Q'. ledger_inv cfg gs op' Q' cnt d' pool"
  using ob
proof (cases rule: event_ob_cases)
  case (claim n)
  show ?thesis
    using lands_claim(1) [OF t inv knows_open [OF ledger_invD(7) [OF inv p] claim(2)] l [unfolded claim(1)]]
    by blast
next
  case (opens cs co seed)
  show ?thesis
    using lands_open(2) [OF t inv opens(1,2) l [unfolded opens(3,4)]] by blast
next
  case benign
  show ?thesis
    using lands_benign [OF t inv p benign(1) l] by blast
qed

lemma lands_inv:
  assumes t: "tables_ok (lc_tables cfg)" and sc: "schema_ok (lc_tables cfg) schema"
    and inv: "ledger_inv cfg gs op Q cnt d pool"
    and p: "pool i = Some p" "waiting p = Some q" and ob: "ledger_ob cfg q (gs i)"
    and l: "lands schema q d m d'"
  shows "\<exists>op' Q' cnt'. ledger_inv cfg gs op' Q' cnt' d' pool"
proof (cases q)
  case (QUpdate tab k us c)
  have d': "d' = push d tab k (Some m)"
    using l by (simp add: QUpdate lands_def)
  have npq: "tab \<noteq> tb_prequeue (lc_tables cfg)"
    using ob by (simp add: QUpdate ledger_ob_def)
  consider (pos) "tab = tb_positions (lc_tables cfg)"
    | (event) "tab = tb_counters (lc_tables cfg)" "k = event_key cfg"
    | (shard) sh where "tab = tb_counters (lc_tables cfg)" "k = shard_key cfg sh"
    | (other) "tab \<noteq> tb_positions (lc_tables cfg)"
        "tab = tb_counters (lc_tables cfg) \<longrightarrow> k \<noteq> event_key cfg \<and> (\<forall>sh. k \<noteq> shard_key cfg sh)"
    by blast
  then show ?thesis
  proof cases
    case pos
    show ?thesis
      using lands_position_update [OF t inv p(1) ob [unfolded QUpdate pos] l [unfolded QUpdate pos]] by blast
  next
    case event
    have "event_update_ob (gs i) us c"
      using ob by (simp add: QUpdate event ledger_ob_def counters_update_ob_def)
    from lands_event [OF t inv p(1) this l [unfolded QUpdate event]] show ?thesis by blast
  next
    case (shard sh)
    then obtain n where n: "us = shard_claim_clauses sh n"
      using ob by (auto simp: QUpdate ledger_ob_def counters_update_ob_def)
    show ?thesis
      using lands_shard(1) [OF t inv l [unfolded QUpdate shard n]] by blast
  next
    case other
    have "ledger_inv cfg gs op Q cnt d' pool"
      unfolding d' by (rule inv_other_write [OF inv]) (use other npq in auto)
    then show ?thesis by blast
  qed
next
  case (QPut tab x c)
  consider (pos) "tab = tb_positions (lc_tables cfg)" | (pq) "tab = tb_prequeue (lc_tables cfg)"
    | (other) "tab \<noteq> tb_positions (lc_tables cfg)" "tab \<noteq> tb_prequeue (lc_tables cfg)"
    by blast
  then show ?thesis
  proof cases
    case pos
    show ?thesis
      using lands_put_position [OF t inv _ p(1) p(2) [unfolded QPut pos] ob [unfolded QPut pos]
          l [unfolded QPut pos]] sc by (auto simp: schema_ok_def)
  next
    case pq
    show ?thesis
      using lands_put_prequeue [OF t inv _ p(1) p(2) [unfolded QPut pq] ob [unfolded QPut pq]
          l [unfolded QPut pq]] sc by (auto simp: schema_ok_def)
  next
    case other
    then obtain v where d': "d' = push d tab (schema tab, v) (Some x)"
      using l by (auto simp: QPut lands_def)
    have "ledger_inv cfg gs op Q cnt d' pool"
      unfolding d' by (rule inv_other_write [OF inv]) (use other ob in \<open>auto simp: QPut ledger_ob_def\<close>)
    then show ?thesis by blast
  qed
next
  case (QDelete tab k b)
  have "ledger_inv cfg gs op Q cnt d' pool"
    using l ob inv_other_write [OF inv, of tab None k] by (simp add: QDelete ledger_ob_def)
  then show ?thesis by blast
qed (use l in \<open>simp_all add: lands_def\<close>)

section \<open>The account after a response\<close>

text \<open>A program continues with a new account: what it owns is fresh, or was its own and is not
  what it was waiting to write.\<close>

lemma inv_continue:
  assumes inv: "ledger_inv cfg gs op Q cnt d pool" and p: "pool i = Some p" "waiting p = Some q"
    and wp: "lwp cfg p' (\<lambda>_ _. True) g'" and kn: "knows op (row_position cfg d) (row_index cfg d) g'"
    and live: "\<And>x. x \<in> gh_live g' \<Longrightarrow> x \<in> B \<or> (x \<in> gh_live (gs i) \<and> (\<forall>r. put_live cfg q \<noteq> Some (r, x)))"
      "B \<subseteq> live_issued op Q" "\<And>j. B \<inter> owned gh_live gs pool j = {}"
      "\<And>r x. (r, x) \<in> live_held op (row_position cfg d) \<Longrightarrow> x \<notin> B"
    and pq: "\<And>x. x \<in> gh_pq g' \<Longrightarrow> x \<in> C \<or> (x \<in> gh_pq (gs i) \<and> (\<forall>r. put_index cfg q \<noteq> Some (r, x)))"
      "C \<subseteq> index_issued cnt" "\<And>j. C \<inter> owned gh_pq gs pool j = {}"
      "\<And>r x. (r, x) \<in> row_index cfg d \<Longrightarrow> x \<notin> C"
  shows "ledger_inv cfg (gs(i := g')) op Q cnt d (pool(i \<mapsto> p'))"
proof -
  have own: "owned f (gs(i := g')) (pool(i \<mapsto> p')) = (owned f gs pool)(i := f g')" for f :: "ghost \<Rightarrow> 'x set"
    by (rule ext) (simp add: owned_def split: option.split)
  have pend: "pending f (pool(i \<mapsto> p')) = (pending f pool)(i := Option.bind (waiting p') f)"
    for f :: "req \<Rightarrow> 'y option"
    by (auto simp: pending_def fun_eq_iff)
  have now: "pending f pool i = f q" for f :: "req \<Rightarrow> 'z option"
    using p by (simp add: pending_def)
  have mine: "owned f gs pool i = f (gs i)" for f :: "ghost \<Rightarrow> 'w set"
    using p by (simp add: owned_def)
  have 1: "tok_inv (live_issued op Q) ((owned gh_live gs pool)(i := gh_live g'))
      (live_held op (row_position cfg d))
      ((pending (put_live cfg) pool)(i := Option.bind (waiting p') (put_live cfg)))"
    by (rule tok_next [OF ledger_invD(4) [OF inv], where B = B]) (use live in \<open>simp_all add: now mine\<close>)
  have 2: "tok_inv (index_issued cnt) ((owned gh_pq gs pool)(i := gh_pq g'))
      (row_index cfg d)
      ((pending (put_index cfg) pool)(i := Option.bind (waiting p') (put_index cfg)))"
    by (rule tok_next [OF ledger_invD(5) [OF inv], where B = C]) (use pq in \<open>simp_all add: now mine\<close>)
  show ?thesis
    using inv 1 2 wp kn unfolding ledger_inv_def own pend by simp
qed

lemma claim_clauses_inj: "claim_clauses n = claim_clauses n' \<longleftrightarrow> n = n'"
  by (simp add: claim_clauses_def dec_simps)

text \<open>What the account gains by the response of an update.\<close>

lemma up_update_cases:
  assumes t: "tables_ok (lc_tables cfg)" and ob: "ledger_ob cfg (QUpdate tab k us c) g"
  obtains (same) "up_update cfg tab k us m g = g"
  | (claim) n e where "tab = tb_counters (lc_tables cfg)" "k = event_key cfg" "us = claim_clauses n"
      "gh_open g \<noteq> None" "get_u64 m ''queue_counter'' = Some e"
      "up_update cfg tab k us m g = g\<lparr>gh_live := gh_live g \<union> block e n\<rparr>"
  | (shard) sh n e where "tab = tb_counters (lc_tables cfg)" "k = shard_key cfg sh"
      "us = shard_claim_clauses sh n" "get_u64 m SHARD_COUNT_ATTR = Some e" "n \<le> e"
      "up_update cfg tab k us m g =
        g\<lparr>gh_pq := gh_pq g \<union> {(shard_index sh, l) | l. unat e \<le> unat l + unat n \<and> l < e}\<rparr>"
proof (cases "up_update cfg tab k us m g = g")
  case False
  then have tab: "tab = tb_counters (lc_tables cfg)"
    by (metis up_update_def)
  then have ne: "up_counters cfg k us m g \<noteq> g"
    using False by (simp add: up_update_def)
  have cob: "counters_update_ob cfg g k us c"
    using ob tab by (simp add: ledger_ob_def)
  consider (one) x where "us = [UAdd ''queue_counter'' (AN x)]" "k = event_key cfg"
    | (two) s x where "us = [USet SHARD_INDEX_ATTR (AN s), UAdd SHARD_COUNT_ATTR (AN x)]"
        "\<exists>i. parse_uint (2 ^ 64) s = Some i \<and> k = shard_key cfg (Shard i)"
    using ne unfolding up_counters_def
    by (auto split: list.splits update_clause.splits attr.splits option.splits if_splits)
  then show thesis
  proof cases
    case one
    then have "event_update_ob g us c"
      using cob by (simp add: counters_update_ob_def)
    then have "\<exists>n. us = claim_clauses n \<and> gh_open g \<noteq> None"
    proof (cases rule: event_ob_cases)
      case (claim n)
      then show ?thesis by blast
    qed (use one(1) in \<open>simp_all add: open_clauses_def protected_attrs_def\<close>)
    then obtain n where n: "us = claim_clauses n" "gh_open g \<noteq> None" by blast
    then obtain e where e: "get_u64 m ''queue_counter'' = Some e"
      using ne by (cases "get_u64 m ''queue_counter''") (simp_all add: up_counters_def claim_clauses_def dec_simps)
    have "up_update cfg tab k us m g = g\<lparr>gh_live := gh_live g \<union> block e n\<rparr>"
      using n(1) e one(2) by (simp add: up_update_def up_counters_def tab claim_clauses_def dec_simps)
    from claim [OF tab one(2) n e this] show thesis .
  next
    case two
    then obtain i where i: "parse_uint (2 ^ 64) s = Some i" "k = shard_key cfg (Shard i)" by blast
    then obtain n where n: "us = shard_claim_clauses (Shard i) n"
      using cob by (auto simp: counters_update_ob_def)
    have s: "s = show_nat i"
      using two(1) n by (simp add: shard_claim_clauses_def)
    obtain e where e: "get_u64 m SHARD_COUNT_ATTR = Some e" "n \<le> e"
      using ne n i(1) s
      by (cases "get_u64 m SHARD_COUNT_ATTR") (auto simp: up_counters_def shard_claim_clauses_def dec_simps split: if_splits)
    have "up_update cfg tab k us m g =
        g\<lparr>gh_pq := gh_pq g \<union> {(shard_index (Shard i), l) | l. unat e \<le> unat l + unat n \<and> l < e}\<rparr>"
      using n i s e by (simp add: up_update_def up_counters_def tab shard_claim_clauses_def dec_simps)
    from shard [OF tab i(2) n e this] show thesis .
  qed
qed (rule same)

lemma get_u64_show_nat: "m a = Some (AN (show_nat n)) \<Longrightarrow> get_u64 m a = Some e \<Longrightarrow> unat e = n"
  by (auto simp: get_u64_def get_n_def dec_simps unat_of_nat_small split: if_splits)

text \<open>A program that owns nothing new continues.\<close>

lemma inv_quiet:
  assumes inv: "ledger_inv cfg gs op Q cnt d pool" and p: "pool i = Some p" "waiting p = Some q"
    and wp: "lwp cfg p' (\<lambda>_ _. True) g'" and kn: "knows op (row_position cfg d) (row_index cfg d) g'"
    and live: "\<And>x. x \<in> gh_live g' \<Longrightarrow> x \<in> gh_live (gs i) \<and> (\<forall>r. put_live cfg q \<noteq> Some (r, x))"
    and pq: "\<And>x. x \<in> gh_pq g' \<Longrightarrow> x \<in> gh_pq (gs i) \<and> (\<forall>r. put_index cfg q \<noteq> Some (r, x))"
  shows "ledger_inv cfg (gs(i := g')) op Q cnt d (pool(i \<mapsto> p'))"
  by (rule inv_continue [OF inv p wp kn, where B = "{}" and C = "{}"]) (use live pq in auto)

lemma reply_claim:
  assumes t: "tables_ok (lc_tables cfg)" and inv: "ledger_inv cfg gs op Q cnt d pool"
    and p: "pool i = Some p" "waiting p = Some q" and op: "op \<noteq> None"
    and q: "q = QUpdate (tb_counters (lc_tables cfg)) (event_key cfg) (claim_clauses n) c"
    and l: "lands schema q d m d'" and e: "get_u64 m ''queue_counter'' = Some e"
    and wp: "lwp cfg p' (\<lambda>_ _. True) g'" and g': "g' = (gs i)\<lparr>gh_live := gh_live (gs i) \<union> block e n\<rparr>"
  shows "ledger_inv cfg (gs(i := g')) op (Q + unat n) cnt d' (pool(i \<mapsto> p'))"
proof -
  note l' = l [unfolded q]
  note inv' = lands_claim(1) [OF t inv op l']
  have "unat e = Q + unat n"
    using lands_claim(2) [OF t inv op l'] e
    by (rule get_u64_show_nat)
  then have B: "block e n = {x. Q < unat x \<and> unat x \<le> Q + unat n}"
    by (auto simp: block_def word_le_nat_alt)
  obtain oo cs where x: "op = Some (oo, cs)" using op by auto
  have "sum_list cs \<le> Q"
    using ledger_invD(1) [OF inv] by (simp add: event_inv_def x)
  then have sub: "block e n \<subseteq> live_issued op (Q + unat n)"
    by (auto simp: B live_issued_def x)
  have new: "x \<notin> block e n" if "x \<in> live_issued op Q" for x
    using that by (auto simp: B live_issued_def split: option.splits)
  have rows: "row_position cfg d' = row_position cfg d"
    using l' event_push_views(1) [OF t] by (simp add: lands_def)
  show ?thesis
  proof (rule inv_continue [OF inv' p wp, where B = "block e n" and C = "{}"])
    show "knows op (row_position cfg d') (row_index cfg d') g'"
      using ledger_invD(7) [OF inv' p(1)] by (simp add: knows_def g')
    show "block e n \<inter> owned gh_live gs pool j = {}" for j
      using new tok_invD(1) [OF ledger_invD(4) [OF inv], of j] by blast
    show "x \<notin> block e n" if "(r, x) \<in> live_held op (row_position cfg d')" for r x
      using new tok_invD(3) [OF ledger_invD(4) [OF inv], of r x] that rows by simp
  qed (use sub in \<open>auto simp: g' q put_live_def put_index_def\<close>)
qed

lemma reply_shard:
  assumes t: "tables_ok (lc_tables cfg)" and inv: "ledger_inv cfg gs op Q cnt d pool"
    and p: "pool i = Some p" "waiting p = Some q"
    and q: "q = QUpdate (tb_counters (lc_tables cfg)) (shard_key cfg sh) (shard_claim_clauses sh n) c"
    and l: "lands schema q d m d'" and e: "get_u64 m SHARD_COUNT_ATTR = Some e"
    and wp: "lwp cfg p' (\<lambda>_ _. True) g'"
    and g': "g' = (gs i)\<lparr>gh_pq := gh_pq (gs i) \<union> {(shard_index sh, l) | l. unat e \<le> unat l + unat n \<and> l < e}\<rparr>"
  shows "ledger_inv cfg (gs(i := g')) op Q (cnt(sh := cnt sh + unat n)) d' (pool(i \<mapsto> p'))"
proof -
  let ?C = "{(shard_index sh, l) | l. unat e \<le> unat l + unat n \<and> l < e}"
  note l' = l [unfolded q]
  note inv' = lands_shard(1) [OF t inv l']
  have ue: "unat e = cnt sh + unat n"
    using lands_shard(2) [OF t inv l'] e by (rule get_u64_show_nat)
  have sh: "Shard (shard_index sh) = sh"
    by (cases sh) simp
  have sub: "?C \<subseteq> index_issued (cnt(sh := cnt sh + unat n))"
    using ue sh by (auto simp: index_issued_def word_less_nat_alt)
  have new: "x \<notin> ?C" if "x \<in> index_issued cnt" for x
    using that ue sh by (auto simp: index_issued_def)
  have rows: "row_index cfg d' = row_index cfg d"
    using l' shard_push_views(2) [OF t] by (simp add: lands_def)
  show ?thesis
  proof (rule inv_continue [OF inv' p wp, where B = "{}" and C = ?C])
    show "knows op (row_position cfg d') (row_index cfg d') g'"
      using ledger_invD(7) [OF inv' p(1)] by (simp add: knows_def g')
    show "?C \<inter> owned gh_pq gs pool j = {}" for j
      using new tok_invD(1) [OF ledger_invD(5) [OF inv], of j] by blast
    show "x \<notin> ?C" if "(r, x) \<in> row_index cfg d'" for r x
      using new tok_invD(3) [OF ledger_invD(5) [OF inv], of r x] that rows by simp
  qed (use sub in \<open>auto simp: g' q put_live_def put_index_def\<close>)
qed

lemma event_counted:
  "event_inv op Q vs cur \<Longrightarrow> m \<in> vs \<Longrightarrow> get_u64 m ''participant_count'' \<noteq> None \<Longrightarrow> op \<noteq> None"
  by (cases op) (auto simp: event_inv_def unopened_item_def get_u64_def get_n_def)

lemma reply_get:
  assumes t: "tables_ok (lc_tables cfg)" and inv: "ledger_inv cfg gs op Q cnt d pool"
    and p: "pool i = Some p" "waiting p = Some (QGet tab k c)" and v: "version d tab k m"
    and wp: "lwp cfg p' (\<lambda>_ _. True) (up_get cfg tab k m (gs i))"
  shows "ledger_inv cfg (gs(i := up_get cfg tab k m (gs i))) op Q cnt d (pool(i \<mapsto> p'))"
proof (rule inv_quiet [OF inv p wp])
  note kn = ledger_invD(7) [OF inv p(1)]
  show "knows op (row_position cfg d) (row_index cfg d) (up_get cfg tab k m (gs i))"
  proof (cases "tab = tb_counters (lc_tables cfg) \<and> k = event_key cfg")
    case True
    then have "map_option fst op = Some oo" if "open_outputs (from_item (lc_event cfg) m) = Some oo" for oo
      using event_outputs [OF ledger_invD(1) [OF inv] _ that] v by (simp add: event_versions_def)
    moreover have "get_u64 m ''participant_count'' \<noteq> None \<Longrightarrow> op \<noteq> None"
      using event_counted [OF ledger_invD(1) [OF inv]] True v by (simp add: event_versions_def)
    ultimately show ?thesis
      using True kn by (auto simp: up_get_def knows_def split: option.split)
  next
    case False
    have pos: "(snd k, x) \<in> row_position cfg d"
      if "tab = tb_positions (lc_tables cfg)" "fst k = POSITIONS_KEY_ATTR" "get_u64 m QUEUE_POSITION_ATTR = Some x" for x
    proof -
      have "k = position_key (snd k)"
        using that(2) by (cases k) (simp add: position_key_def key_build_def)
      then show ?thesis
        using that v unfolding row_position_def by auto
    qed
    have row: "(snd k, unat (pq_s w), pq_l w) \<in> row_index cfg d"
      if "tab = tb_prequeue (lc_tables cfg)" "fst k = PREQUEUE_KEY_ATTR" "prequeue_from_item m = Some w" for w
    proof -
      have "k = prequeue_key (snd k)"
        using that(2) by (cases k) (simp add: prequeue_key_def key_build_def)
      then show ?thesis
        using that v row_slot_from_item unfolding row_index_def by auto
    qed
    show ?thesis
      using kn False pos row by (auto simp: up_get_def knows_def split: option.split)
  qed
qed (auto simp: up_get_def put_live_def put_index_def split: if_splits option.splits)

lemma reply_update:
  assumes t: "tables_ok (lc_tables cfg)" and sc: "schema_ok (lc_tables cfg) schema"
    and inv: "ledger_inv cfg gs op Q cnt d pool"
    and p: "pool i = Some p" "waiting p = Some q" and q: "q = QUpdate tab k us c"
    and ob: "ledger_ob cfg q (gs i)" and l: "lands schema q d m d'"
    and wp: "lwp cfg p' (\<lambda>_ _. True) (up_update cfg tab k us m (gs i))"
  shows "\<exists>g' op' Q' cnt'. ledger_inv cfg (gs(i := g')) op' Q' cnt' d' (pool(i \<mapsto> p'))"
  using t ob [unfolded q]
proof (cases rule: up_update_cases [where m = m])
  case same
  obtain op' Q' cnt' where inv': "ledger_inv cfg gs op' Q' cnt' d' pool"
    using lands_inv [OF t sc inv p ob l] by blast
  have "ledger_inv cfg (gs(i := gs i)) op' Q' cnt' d' (pool(i \<mapsto> p'))"
    by (rule inv_quiet [OF inv' p wp [unfolded same] ledger_invD(7) [OF inv' p(1)]])
      (simp_all add: q put_live_def put_index_def)
  then show ?thesis by blast
next
  case (claim n e)
  have "op \<noteq> None"
    using knows_open [OF ledger_invD(7) [OF inv p(1)] claim(4)] .
  from reply_claim [OF t inv p this q [unfolded claim(1-3)] l claim(5) wp claim(6)]
  show ?thesis by blast
next
  case (shard sh n e)
  from reply_shard [OF t inv p q [unfolded shard(1-3)] l shard(4) wp shard(6)]
  show ?thesis by blast
qed

text \<open>After a put, whatever its answer, its token is the program's no more.\<close>

lemma up_put_drops:
  assumes t: "tables_ok (lc_tables cfg)" and ob: "ledger_ob cfg (QPut tab x c) g"
  shows "y \<in> gh_live (up_put cfg tab x g) \<Longrightarrow> y \<in> gh_live g \<and> (\<forall>r. put_live cfg (QPut tab x c) \<noteq> Some (r, y))"
    and "z \<in> gh_pq (up_put cfg tab x g) \<Longrightarrow> z \<in> gh_pq g \<and> (\<forall>r. put_index cfg (QPut tab x c) \<noteq> Some (r, z))"
    and "knows op rows idx (up_put cfg tab x g) = knows op rows idx g"
  using t by (auto simp: up_put_def put_live_def put_index_def knows_def tables_ok_def bind_eq_Some_conv
      split: option.splits if_splits)

lemma reply_put:
  assumes t: "tables_ok (lc_tables cfg)" and sc: "schema_ok (lc_tables cfg) schema"
    and inv: "ledger_inv cfg gs op Q cnt d pool"
    and p: "pool i = Some p" "waiting p = Some q" and q: "q = QPut tab x c"
    and ob: "ledger_ob cfg q (gs i)" and l: "d' = d \<or> (\<exists>m. lands schema q d m d')"
    and wp: "lwp cfg p' (\<lambda>_ _. True) (up_put cfg tab x (gs i))"
  shows "\<exists>g' op' Q' cnt'. ledger_inv cfg (gs(i := g')) op' Q' cnt' d' (pool(i \<mapsto> p'))"
proof -
  obtain op' Q' cnt' where inv': "ledger_inv cfg gs op' Q' cnt' d' pool"
    using l lands_inv [OF t sc inv p ob] inv by blast
  have "ledger_inv cfg (gs(i := up_put cfg tab x (gs i))) op' Q' cnt' d' (pool(i \<mapsto> p'))"
    by (rule inv_quiet [OF inv' p wp])
      (use up_put_drops [OF t ob [unfolded q]] ledger_invD(7) [OF inv' p(1)] in \<open>simp_all add: q\<close>)
  then show ?thesis by blast
qed

lemma answer_waiting: "answer p r = Some (q, p') \<Longrightarrow> waiting p = Some q"
  by (cases p) auto

lemma ledger_okI:
  assumes t: "tables_ok (lc_tables cfg)" and inv: "ledger_inv cfg gs op Q cnt d pool"
    and p: "pool i = Some p" and ob: "ledger_ob cfg q (gs i)" and a: "answered schema q r d d'"
  shows "ledger_ok cfg q r (gs i)"
  unfolding ledger_ok_def
proof (intro allI impI)
  fix n c m e
  assume q: "q = QUpdate (tb_counters (lc_tables cfg)) (event_key cfg) (claim_clauses n) c"
    and r: "r = RUpdate (Inr m)" and e: "get_u64 m ''queue_counter'' = Some e"
  have l: "lands schema (QUpdate (tb_counters (lc_tables cfg)) (event_key cfg) (claim_clauses n) c) d m d'"
    using a by (simp add: q r answered_def)
  have "event_update_ob (gs i) (claim_clauses n) c"
    using ob by (simp add: q ledger_ob_def counters_update_ob_def)
  then have "gh_open (gs i) \<noteq> None"
    by (cases rule: event_ob_cases) (simp_all add: claim_clauses_def open_clauses_def protected_attrs_def)
  then have "op \<noteq> None"
    using knows_open ledger_invD(7) [OF inv p] by blast
  then have "unat e = Q + unat n"
    using get_u64_show_nat [OF lands_claim(2) [OF t inv _ l] e] by simp
  then show "n \<le> e"
    by (simp add: word_le_nat_alt)
qed

lemma step_reply:
  assumes t: "tables_ok (lc_tables cfg)" and sc: "schema_ok (lc_tables cfg) schema"
    and inv: "ledger_inv cfg gs op Q cnt d pool"
    and p: "pool i = Some p" and an: "answer p r = Some (q, p')" and a: "answered schema q r d d'"
  shows "\<exists>g' op' Q' cnt'. ledger_inv cfg (gs(i := g')) op' Q' cnt' d' (pool(i \<mapsto> p'))"
proof -
  note w = answer_waiting [OF an]
  have wp: "wp (ledger_ob cfg) (ledger_ok cfg) (ledger_up cfg) p (\<lambda>_ _. True) (gs i)"
    using ledger_invD(6) [OF inv p] by (simp add: lwp_wp [OF t])
  note ob = wp_answer_ob [OF wp an]
  have cont: "lwp cfg p' (\<lambda>_ _. True) (ledger_up cfg q r (gs i))"
    using wp_answer [OF wp an ledger_okI [OF t inv p ob a]] by (simp add: lwp_wp [OF t])
  have quiet: ?thesis if "ledger_up cfg q r (gs i) = gs i" "put_live cfg q = None" "put_index cfg q = None"
    "d' = d"
  proof -
    have "ledger_inv cfg (gs(i := gs i)) op Q cnt d (pool(i \<mapsto> p'))"
      by (rule inv_quiet [OF inv p w cont [unfolded that(1)] ledger_invD(7) [OF inv p]])
        (simp_all add: that)
    with that(4) show ?thesis by blast
  qed
  show ?thesis
  proof (cases q)
    case (QGet tab k c)
    show ?thesis
    proof (cases "\<exists>m. r = RGet (Inr (Some m))")
      case True
      then obtain m where m: "r = RGet (Inr (Some m))" by blast
      have "d' = d" using a by (simp add: QGet m answered_def)
      moreover have "version d tab k m"
        using a get_version by (simp add: QGet m)
      ultimately show ?thesis
        using reply_get [OF t inv p w [unfolded QGet], of m p'] cont by (auto simp: QGet m ledger_up_def)
    next
      case False
      then have "ledger_up cfg q r (gs i) = gs i"
        by (auto simp: QGet ledger_up_def split: resp.split sum.split option.split)
      moreover have "d' = d"
        using a by (auto simp: QGet answered_def split: resp.splits sum.splits)
      ultimately show ?thesis
        by (intro quiet) (simp_all add: QGet put_live_def put_index_def)
    qed
  next
    case (QUpdate tab k us c)
    show ?thesis
    proof (cases "\<exists>m. r = RUpdate (Inr m)")
      case True
      then obtain m where m: "r = RUpdate (Inr m)" by blast
      have "lands schema q d m d'" using a by (simp add: QUpdate m answered_def)
      from reply_update [OF t sc inv p w QUpdate ob this] cont show ?thesis
        by (simp add: QUpdate m ledger_up_def)
    next
      case False
      then have "ledger_up cfg q r (gs i) = gs i"
        by (auto simp: QUpdate ledger_up_def split: resp.split sum.split)
      moreover have "d' = d"
        using a False by (auto simp: QUpdate answered_def split: resp.splits sum.splits sdk_error.splits)
      ultimately show ?thesis
        by (intro quiet) (simp_all add: QUpdate put_live_def put_index_def)
    qed
  next
    case (QPut tab x c)
    show ?thesis
      using reply_put [OF t sc inv p w QPut ob answered_lands [OF a]] cont
      by (simp add: QPut ledger_up_def)
  next
    case (QDelete tab k b)
    have d': "d' = d \<or> d' = push d tab k None"
      using a by (auto simp: QDelete answered_def split: resp.splits sum.splits)
    have inv': "ledger_inv cfg gs op Q cnt d' pool"
      using d' ob inv inv_other_write [OF inv, of tab None k] by (auto simp: QDelete ledger_ob_def)
    have "ledger_inv cfg (gs(i := gs i)) op Q cnt d' (pool(i \<mapsto> p'))"
      by (rule inv_quiet [OF inv' p w _ ledger_invD(7) [OF inv' p]])
        (use cont in \<open>simp_all add: QDelete ledger_up_def put_live_def put_index_def\<close>)
    then show ?thesis by blast
  qed (rule quiet; use a in \<open>simp add: ledger_up_def put_live_def put_index_def answered_def
      split: resp.splits\<close>)+
qed

section \<open>Every run keeps the invariant\<close>

lemma inv_fresh:
  assumes "fresh cfg s"
  shows "ledger_inv cfg (\<lambda>_. ghost0) None 0 (\<lambda>_. 0) (sy_db s) (sy_pool s)"
proof -
  have "row_position cfg (sy_db s) = {}" "row_index cfg (sy_db s) = {}"
    using assms by (auto simp: fresh_def row_position_def row_index_def version_def position_key_def
        prequeue_key_def key_build_def)
  moreover have "shard_item_of cfg (sy_db s) sh = None" for sh
    using assms by (simp add: fresh_def shard_item_of_def current_def)
  moreover have "pool = Map.empty \<Longrightarrow> owned f gs pool i = {}" for f gs pool i
    by (simp add: owned_def)
  ultimately show ?thesis
    using assms
    by (auto simp: ledger_inv_def fresh_def event_inv_def event_versions_def count_inv_def
        position_inv_def tok_inv_def live_held_def owned_def)
qed

lemma inv_spawn:
  assumes inv: "ledger_inv cfg gs op Q cnt d pool" and i: "pool i = None"
    and h: "honours cfg p"
  shows "ledger_inv cfg (gs(i := ghost0)) op Q cnt d (pool(i \<mapsto> p))"
proof -
  have own: "owned f (gs(i := ghost0)) (pool(i \<mapsto> p)) = owned f gs pool"
    if "f ghost0 = {}" for f :: "ghost \<Rightarrow> 'x set"
    using i that by (auto simp: owned_def fun_eq_iff split: option.splits if_splits)
  have own0: "owned f gs pool i = {}" for f :: "ghost \<Rightarrow> 'x set"
    using i by (simp add: owned_def)
  have pend: "pending f (pool(i \<mapsto> p)) = (pending f pool)(i := Option.bind (waiting p) f)"
    for f :: "req \<Rightarrow> 'y option"
    by (auto simp: pending_def fun_eq_iff)
  have tok: "tok_inv iss (owned f gs pool) held ((pending w pool)(i := x))"
    if "tok_inv iss (owned f gs pool) held (pending w pool)"
    for iss and f :: "ghost \<Rightarrow> 'z set" and held and w :: "req \<Rightarrow> (string \<times> 'z) option" and x
    using tok_next [OF that, where B = "{}" and O' = "{}" and i = i and x = x]
    by (simp add: own0 fun_upd_idem)
  have live: "owned gh_live (gs(i := ghost0)) (pool(i \<mapsto> p)) = owned gh_live gs pool"
    and pq: "owned gh_pq (gs(i := ghost0)) (pool(i \<mapsto> p)) = owned gh_pq gs pool"
    by (rule own, simp add: ghost0_def)+
  have "knows op rows idx ghost0" for rows idx
    by (simp add: knows_def ghost0_def)
  then show ?thesis
    using inv tok [OF ledger_invD(4) [OF inv]] tok [OF ledger_invD(5) [OF inv]] h
    unfolding ledger_inv_def pend live pq
    by (simp add: honours_def)
qed

lemma inv_crash:
  assumes inv: "ledger_inv cfg gs op Q cnt d pool"
  shows "ledger_inv cfg gs op Q cnt d (pool(i := None))"
proof -
  have own: "owned f gs (pool(i := None)) = (owned f gs pool)(i := {})" for f :: "ghost \<Rightarrow> 'x set"
    by (auto simp: owned_def fun_eq_iff)
  have pend: "pending f (pool(i := None)) = (pending f pool)(i := None)" for f :: "req \<Rightarrow> 'y option"
    by (auto simp: pending_def fun_eq_iff)
  have tok: "tok_inv iss (own(i := {})) held (pend(i := None))" if "tok_inv iss own held pend"
    for iss and own :: "nat \<Rightarrow> 'z set" and held pend
    by (rule tok_next [OF that, where B = "{}"]) simp_all
  show ?thesis
    using inv tok [OF ledger_invD(4) [OF inv]] tok [OF ledger_invD(5) [OF inv]]
    unfolding ledger_inv_def own pend by simp
qed

text \<open>A request left in flight keeps what it would write and what its program had read.\<close>

definition in_flight :: "ledger_cfg \<Rightarrow> req \<Rightarrow> ghost \<Rightarrow> ghost" where
  "in_flight cfg q g =
     g\<lparr>gh_live := {x \<in> gh_live g. \<exists>r. put_live cfg q = Some (r, x)},
       gh_pq := {x \<in> gh_pq g. \<exists>r. put_index cfg q = Some (r, x)}\<rparr>"

lemma in_flight_ob:
  assumes "tables_ok (lc_tables cfg)" "ledger_ob cfg q g"
  shows "ledger_ob cfg q (in_flight cfg q g)"
proof (cases q)
  case (QUpdate t k us c)
  have "event_update_ob (in_flight cfg q g) us c = event_update_ob g us c"
    "entitled cfg (in_flight cfg q g) = entitled cfg g"
    by (simp_all add: event_update_ob_def phase_move_def in_flight_def entitled_def fun_eq_iff)
  then have "counters_update_ob cfg (in_flight cfg q g) k us c = counters_update_ob cfg g k us c"
    "position_clause_ob cfg (in_flight cfg q g) (snd k) = position_clause_ob cfg g (snd k)"
    by (simp_all add: counters_update_ob_def position_clause_ob_def fun_eq_iff)
  with assms(2) [unfolded QUpdate ledger_ob_def req.case] show ?thesis
    unfolding ledger_ob_def QUpdate req.case by (simp only: QUpdate simp_thms) blast
next
  case (QPut t m c)
  have key: "get_s (position_to_item row) POSITIONS_KEY_ATTR = Some (po_request_id row)"
    "get_u64 (position_to_item row) QUEUE_POSITION_ATTR = Some (po_queue_position row)" for row
    by (simp_all add: POSITIONS_KEY_ATTR_def QUEUE_POSITION_ATTR_def)
      (simp add: get_s_def position_to_item_def put_opt_def split: option.split)
  have pq: "get_s (prequeue_to_item row) PREQUEUE_KEY_ATTR = Some (pq_r row)" for row
    by (simp add: PREQUEUE_KEY_ATTR_def get_s_def prequeue_to_item_def put_opt_def split: option.split)
  have ob: "(t = tb_positions (lc_tables cfg) \<longrightarrow> put_position_ob g m c)
      \<and> (t = tb_prequeue (lc_tables cfg) \<longrightarrow> put_prequeue_ob g m c)"
    using assms(2) unfolding QPut ledger_ob_def by simp
  have 1: "put_position_ob (in_flight cfg q g) m c" if tab: "t = tb_positions (lc_tables cfg)"
  proof -
    obtain row where "c = Some (CNotExists POSITIONS_KEY_ATTR)" "m = position_to_item row"
        "po_queue_position row \<in> gh_live g"
      using ob tab unfolding put_position_ob_def by blast
    then show ?thesis
      using tab by (auto simp: QPut put_position_ob_def in_flight_def put_live_def key)
  qed
  have 2: "put_prequeue_ob (in_flight cfg q g) m c" if tab: "t = tb_prequeue (lc_tables cfg)"
  proof -
    obtain row where "c = Some (CNotExists PREQUEUE_KEY_ATTR)" "m = prequeue_to_item row"
        "(unat (pq_s row), pq_l row) \<in> gh_pq g"
      using ob tab unfolding put_prequeue_ob_def by blast
    then show ?thesis
      using tab assms(1) by (auto simp: QPut put_prequeue_ob_def in_flight_def put_index_def pq tables_ok_def)
  qed
  show ?thesis
    using assms(2) 1 2 by (simp add: QPut ledger_ob_def)
qed (use assms(2) in \<open>simp_all add: ledger_ob_def\<close>)

lemma timed_out_account:
  assumes t: "tables_ok (lc_tables cfg)" and ob: "ledger_ob cfg q g" and "timed_out r" "answer p r = Some (q, p')"
  shows "x \<in> gh_live (ledger_up cfg q r g) \<Longrightarrow> x \<in> gh_live g \<and> (\<forall>v. put_live cfg q \<noteq> Some (v, x))"
    and "y \<in> gh_pq (ledger_up cfg q r g) \<Longrightarrow> y \<in> gh_pq g \<and> (\<forall>v. put_index cfg q \<noteq> Some (v, y))"
    and "knows op rows idx (ledger_up cfg q r g) = knows op rows idx g"
    and "ledger_ok cfg q r g"
proof -
  have up: "ledger_up cfg q r g = (case q of QPut tab m c \<Rightarrow> up_put cfg tab m g | _ \<Rightarrow> g)"
    using assms(3) by (cases r rule: timed_out.cases) (simp_all add: ledger_up_def split: req.split)
  have "(x \<in> gh_live (ledger_up cfg q r g) \<longrightarrow> x \<in> gh_live g \<and> (\<forall>v. put_live cfg q \<noteq> Some (v, x)))
    \<and> (y \<in> gh_pq (ledger_up cfg q r g) \<longrightarrow> y \<in> gh_pq g \<and> (\<forall>v. put_index cfg q \<noteq> Some (v, y)))
    \<and> knows op rows idx (ledger_up cfg q r g) = knows op rows idx g"
  proof (cases q)
    case (QPut tab m c)
    show ?thesis
      unfolding up unfolding QPut req.case
      using up_put_drops [OF t ob [unfolded QPut]] by blast
  qed (use up in \<open>simp_all add: put_live_def put_index_def\<close>)
  then show "x \<in> gh_live (ledger_up cfg q r g) \<Longrightarrow> x \<in> gh_live g \<and> (\<forall>v. put_live cfg q \<noteq> Some (v, x))"
    and "y \<in> gh_pq (ledger_up cfg q r g) \<Longrightarrow> y \<in> gh_pq g \<and> (\<forall>v. put_index cfg q \<noteq> Some (v, y))"
    and "knows op rows idx (ledger_up cfg q r g) = knows op rows idx g"
    by blast+
  show "ledger_ok cfg q r g"
    using assms(3) by (cases r rule: timed_out.cases) (simp_all add: ledger_ok_def)
qed

lemma inv_abandon:
  assumes t: "tables_ok (lc_tables cfg)" and inv: "ledger_inv cfg gs op Q cnt d pool"
    and p: "pool i = Some p" and an: "answer p r = Some (q, p')" and to: "timed_out r"
    and j: "pool j = None"
  shows "ledger_inv cfg (gs(i := in_flight cfg q (gs i), j := ledger_up cfg q r (gs i))) op Q cnt d
    (pool(i \<mapsto> orphan q, j \<mapsto> p'))"
proof -
  let ?g1 = "in_flight cfg q (gs i)" and ?g2 = "ledger_up cfg q r (gs i)"
  note w = answer_waiting [OF an]
  have ij: "i \<noteq> j" using p j by auto
  have wp: "wp (ledger_ob cfg) (ledger_ok cfg) (ledger_up cfg) p (\<lambda>_ _. True) (gs i)"
    using ledger_invD(6) [OF inv p] by (simp add: lwp_wp [OF t])
  note ob = wp_answer_ob [OF wp an]
  note acc = timed_out_account [OF t ob to an]
  have cont: "lwp cfg p' (\<lambda>_ _. True) ?g2"
    using wp_answer [OF wp an acc(4)] by (simp add: lwp_wp [OF t])
  have flight: "lwp cfg (orphan q) (\<lambda>_ _. True) ?g1"
    using in_flight_ob [OF t ob] by (simp add: lwp_wp [OF t] orphan_def)
  have own: "owned f (gs(i := ?g1, j := ?g2)) (pool(i \<mapsto> orphan q, j \<mapsto> p'))
      = (owned f gs pool)(i := f ?g1, j := f ?g2)" for f :: "ghost \<Rightarrow> 'x set"
    by (rule ext) (simp add: owned_def split: option.split)
  have pend: "pending f (pool(i \<mapsto> orphan q, j \<mapsto> p')) = (pending f pool)(j := Option.bind (waiting p') f)"
    for f :: "req \<Rightarrow> 'y option"
    using p w by (auto simp: pending_def fun_eq_iff orphan_def)
  have now: "pending f pool i = f q" for f :: "req \<Rightarrow> 'z option"
    using p w by (simp add: pending_def)
  have mine: "owned f gs pool i = f (gs i)" "owned f gs pool j = {}" for f :: "ghost \<Rightarrow> 'w set"
    using p j by (simp_all add: owned_def)
  have 1: "tok_inv (live_issued op Q) ((owned gh_live gs pool)(i := gh_live ?g1, j := gh_live ?g2))
      (live_held op (row_position cfg d)) ((pending (put_live cfg) pool)(j := Option.bind (waiting p') (put_live cfg)))"
    by (rule tok_split [OF ledger_invD(4) [OF inv] mine(2)])
      (use acc(1) in \<open>auto simp: now mine in_flight_def\<close>)
  have 2: "tok_inv (index_issued cnt) ((owned gh_pq gs pool)(i := gh_pq ?g1, j := gh_pq ?g2))
      (row_index cfg d) ((pending (put_index cfg) pool)(j := Option.bind (waiting p') (put_index cfg)))"
    by (rule tok_split [OF ledger_invD(5) [OF inv] mine(2)])
      (use acc(2) in \<open>auto simp: now mine in_flight_def\<close>)
  have "knows op (row_position cfg d) (row_index cfg d) ?g1"
    using ledger_invD(7) [OF inv p] by (simp add: knows_def in_flight_def)
  then show ?thesis
    using inv 1 2 cont flight acc(3) ledger_invD(7) [OF inv p] ij unfolding ledger_inv_def own pend by simp
qed

lemma inv_reclaim:
  assumes inv: "ledger_inv cfg gs op Q cnt d pool"
    and "t \<noteq> tb_counters (lc_tables cfg)" "t \<noteq> tb_prequeue (lc_tables cfg)"
  shows "ledger_inv cfg gs op Q cnt (push d t k None) pool"
  by (rule inv_other_write [OF inv]) (use assms(2,3) in simp_all)

definition ledger_reachable :: "ledger_cfg \<Rightarrow> state \<Rightarrow> bool" where
  "ledger_reachable cfg s \<longleftrightarrow> (\<exists>gs op Q cnt. ledger_inv cfg gs op Q cnt (sy_db s) (sy_pool s))"

lemma documentedD:
  assumes "documented tb schema sv"
  shows "schema_ok tb schema" "sv_answer sv q r d d' \<Longrightarrow> answered schema q r d d'"
    "sv_late sv q d d' \<Longrightarrow> \<exists>m. lands schema q d m d'"
    "sv_reclaim sv d d' \<Longrightarrow> \<exists>t k. d' = push d t k None \<and> t \<noteq> tb_counters tb \<and> t \<noteq> tb_prequeue tb"
proof -
  note * = assms [unfolded documented_def]
  show "schema_ok tb schema" using * by blast
  show "sv_answer sv q r d d' \<Longrightarrow> answered schema q r d d'" using * by blast
  show "sv_late sv q d d' \<Longrightarrow> \<exists>m. lands schema q d m d'" using * by blast
  show "sv_reclaim sv d d' \<Longrightarrow> \<exists>t k. d' = push d t k None \<and> t \<noteq> tb_counters tb \<and> t \<noteq> tb_prequeue tb"
    using * by blast
qed

lemma ledger_reachableI: "ledger_inv cfg gs op Q cnt (sy_db s) (sy_pool s) \<Longrightarrow> ledger_reachable cfg s"
  unfolding ledger_reachable_def by blast

text \<open>Every request of a running program meets its obligation.\<close>

lemma inv_obligation:
  assumes "tables_ok (lc_tables cfg)" "ledger_inv cfg gs op Q cnt d pool" "pool i = Some p" "waiting p = Some q"
  shows "ledger_ob cfg q (gs i)"
proof -
  have "wp (ledger_ob cfg) (ledger_ok cfg) (ledger_up cfg) p Q' g \<Longrightarrow> ledger_ob cfg q g" for Q' g
    using assms(4) by (cases p) auto
  then show ?thesis
    using ledger_invD(6) [OF assms(2,3)] by (simp add: lwp_wp [OF assms(1)])
qed

lemma step_inv:
  assumes t: "tables_ok (lc_tables cfg)" and sv: "documented (lc_tables cfg) schema sv"
    and h: "\<forall>p\<in>H. honours cfg p"
    and s: "step sv H s s'" and inv: "ledger_inv cfg gs op Q cnt (sy_db s) (sy_pool s)"
  shows "ledger_reachable cfg s'"
  using s
proof cases
  case (spawn p i)
  then show ?thesis
    using inv_spawn [OF inv, of i p] h by (intro ledger_reachableI) simp
next
  case (reply i p r q p' d')
  from step_reply [OF t documentedD(1) [OF sv] inv reply(2,3) documentedD(2) [OF sv reply(4)]] show ?thesis
    by (auto simp: ledger_reachable_def reply(1))
next
  case (late i p q d')
  obtain m where l: "lands schema q (sy_db s) m d'"
    using documentedD(3) [OF sv late(4)] by blast
  show ?thesis
    using lands_inv [OF t documentedD(1) [OF sv] inv late(2,3) inv_obligation [OF t inv late(2,3)] l] by (auto simp: ledger_reachable_def late(1))
next
  case (abandon i p r q p' j)
  then show ?thesis
    using inv_abandon [OF t inv abandon(2,3,4,5)] by (intro ledger_reachableI) simp
next
  case (crash i)
  then show ?thesis
    using inv_crash [OF inv] by (intro ledger_reachableI) simp
next
  case (reclaim d')
  obtain tab k where "d' = push (sy_db s) tab k None"
      "tab \<noteq> tb_counters (lc_tables cfg)" "tab \<noteq> tb_prequeue (lc_tables cfg)"
    using documentedD(4) [OF sv reclaim(2)] by blast
  then show ?thesis
    using inv_reclaim [OF inv, of tab k] by (intro ledger_reachableI) (simp add: reclaim(1))
qed

lemma reachable_inv:
  assumes "tables_ok (lc_tables cfg)" "documented (lc_tables cfg) schema sv" "\<forall>p\<in>H. honours cfg p"
    and "reachable sv H cfg s"
  shows "ledger_reachable cfg s"
  using assms(4)
proof induction
  case (start s)
  then show ?case
    by (rule ledger_reachableI [OF inv_fresh])
next
  case (more s s')
  then show ?case
    using step_inv [OF assms(1-3)] by (auto simp: ledger_reachable_def)
qed

lemma inv_unique_holder:
  assumes inv: "ledger_inv cfg gs op Q cnt d pool"
    and "holds_position cfg d r p" "holds_position cfg d r' p"
  shows "r = r'"
proof -
  note ev = ledger_invD(1) [OF inv]
  have claim: "cohort_claim cfg op (row_index cfg d) x p \<or> ((x, p) \<in> row_position cfg d \<and> p \<in> live_issued op Q)"
    if "holds_position cfg d x p" for x
    using that [unfolded holds_position_def]
  proof
    assume "(x, p) \<in> row_position cfg d"
    then show ?thesis
      using ledger_invD(3) [OF inv] by (auto simp: position_inv_def)
  next
    assume "\<exists>s l m oo. (x, s, l) \<in> row_index cfg d
          \<and> version d (tb_counters (lc_tables cfg)) (event_key cfg) m
          \<and> open_outputs (from_item (lc_event cfg) m) = Some oo
          \<and> cohort_position (lc_hmac cfg) oo s l p"
    then obtain s l m oo where *: "(x, s, l) \<in> row_index cfg d" "m \<in> event_versions cfg d"
        "open_outputs (from_item (lc_event cfg) m) = Some oo" "cohort_position (lc_hmac cfg) oo s l p"
      by (auto simp: event_versions_def)
    have "map_option fst op = Some oo"
      using event_outputs [OF ev *(2,3)] .
    then show ?thesis
      using *(1,4) unfolding cohort_claim_def by (cases op) auto
  qed
  have live: "r = r'" if "p \<in> live_issued op Q" "(r, p) \<in> row_position cfg d" "(r', p) \<in> row_position cfg d"
  proof -
    have "cohort_size op < unat p"
      using that(1) by (auto simp: live_issued_def cohort_size_def split: option.splits)
    then show ?thesis
      using that tok_invD(4) [OF ledger_invD(4) [OF inv], of r p r'] by (simp add: live_held_def)
  qed
  have cohort: "r = r'" if c: "cohort_claim cfg op (row_index cfg d) r p" "cohort_claim cfg op (row_index cfg d) r' p"
  proof -
    obtain oo cs s l s' l' where o: "op = Some (oo, cs)"
      and r: "(r, s, l) \<in> row_index cfg d" "cohort_position (lc_hmac cfg) oo s l p"
      and r': "(r', s', l') \<in> row_index cfg d" "cohort_position (lc_hmac cfg) oo s' l' p"
      using c unfolding cohort_claim_def by auto
    have "good_opening oo cs"
      using ev by (simp add: event_inv_def o)
    then have "(s, l) = (s', l')"
      by (rule cohort_position_inj [OF _ r(2) r'(2)])
    then show ?thesis
      using tok_invD(4) [OF ledger_invD(5) [OF inv] r(1), of r'] r'(1) by simp
  qed
  show ?thesis
    using claim [OF assms(2)] claim [OF assms(3)] cohort_not_live(2) [OF ev] live cohort by blast
qed

lemma unique_holder:
  assumes "ledger_reachable cfg s"
    and "holds_position cfg (sy_db s) r p" "holds_position cfg (sy_db s) r' p"
  shows "r = r'"
  using assms inv_unique_holder unfolding ledger_reachable_def by blast

text \<open>The outputs of the open are written once: every version of the item that has any has the
  same.\<close>

lemma outputs_fixed:
  assumes "ledger_reachable cfg s"
    and "version (sy_db s) (tb_counters (lc_tables cfg)) (event_key cfg) m"
      "open_outputs (from_item (lc_event cfg) m) = Some oo"
    and "version (sy_db s) (tb_counters (lc_tables cfg)) (event_key cfg) m'"
      "open_outputs (from_item (lc_event cfg) m') = Some oo'"
  shows "oo = oo'"
proof -
  obtain gs op Q cnt where "ledger_inv cfg gs op Q cnt (sy_db s) (sy_pool s)"
    using assms(1) by (auto simp: ledger_reachable_def)
  note ev = ledger_invD(1) [OF this]
  have "Some oo = Some oo'"
    using event_outputs [OF ev _ assms(3)] event_outputs [OF ev _ assms(5)] assms(2,4)
    by (simp add: event_versions_def)
  then show ?thesis by simp
qed

text \<open>An item in the active phase carries the outputs of the open.\<close>

lemma active_phase_attr: "ct_phase (from_item ev m) = Active \<Longrightarrow> m ''phase'' = Some (AS (phase_wire Active))"
  by (auto simp: from_item_def get_s_def phase_parse_Inr bind_eq_Some_conv
      split: option.splits sum.splits elim!: as_s.elims)

lemma active_opened:
  assumes "ledger_reachable cfg s"
    and "version (sy_db s) (tb_counters (lc_tables cfg)) (event_key cfg) m"
      "ct_phase (from_item (lc_event cfg) m) = Active"
  shows "\<exists>oo. open_outputs (from_item (lc_event cfg) m) = Some oo"
proof -
  obtain gs op Q cnt where "ledger_inv cfg gs op Q cnt (sy_db s) (sy_pool s)"
    using assms(1) by (auto simp: ledger_reachable_def)
  note ev = ledger_invD(1) [OF this]
  have m: "m \<in> event_versions cfg (sy_db s)" "\<not> unopened_item m"
    using assms(2) active_phase_attr [OF assms(3)] by (simp_all add: event_versions_def unopened_item_def)
  show ?thesis
  proof (cases op)
    case None
    then show ?thesis
      using ev m by (simp add: event_inv_def)
  next
    case (Some oc)
    obtain oo cs where oc: "oc = (oo, cs)" by (cases oc)
    have "good_opening oo cs" "opened_item oo m"
      using ev m by (auto simp: event_inv_def Some oc)
    then show ?thesis
      using open_outputs_opened by blast
  qed
qed

end
