(* ===== verification/ReadPath.thy ===== *)
theory ReadPath
  imports Accounting Http
begin

text \<open>
  \<open>crates/read/src/\<close>: the public endpoints \<open>/status\<close> and \<open>/queue_num\<close>, the cache of the event's
  item that each execution environment holds, and the poll policy.  The cache slot is state that a
  handler takes and returns; clock readings are numbers, the monotonic clock in nanoseconds.
  Response bodies are JSON trees in the order the \<open>Serialize\<close> derivation writes the fields.

  Lemmas: the cache answers only within its time to live; every handler returns; a position that
  \<open>/queue_num\<close> answers is one the visitor is entitled to (\<open>queue_num_entitled\<close>), from which theory
  \<open>Answers\<close> concludes that no two visitors are ever told the same position.
\<close>

section \<open>The cache\<close>

definition COUNTERS_TTL :: u64 where "COUNTERS_TTL = 1000000000" \<comment> \<open>one second\<close>

type_synonym counters_slot = "(u64 \<times> counters option) option"

text \<open>\<open>duration_since\<close> saturates at zero.  The lock is never poisoned: no code panics while it is
  held.\<close>

definition cache_get :: "u64 \<Rightarrow> counters_slot \<Rightarrow> u64 \<Rightarrow> counters option option" where
  "cache_get ttl slot now =
     (case slot of
        None \<Rightarrow> None
      | Some (stored_at, v) \<Rightarrow> if saturating_sub now stored_at < ttl then Some v else None)"

definition cache_put :: "u64 \<Rightarrow> counters option \<Rightarrow> counters_slot" where
  "cache_put now v = Some (now, v)"

section \<open>The poll policy\<close>

record poll_policy =
  pp_floor_ms :: u32
  pp_ceiling_ms :: u32
  pp_divisor :: u32

definition MIN_INTERVAL_MS :: u32 where "MIN_INTERVAL_MS = 1000"
definition MAX_INTERVAL_MS :: u32 where "MAX_INTERVAL_MS = 300000"
definition MAX_DIVISOR :: u32 where "MAX_DIVISOR = 1000"

definition parse_poll_policy ::
  "string option \<Rightarrow> string option \<Rightarrow> string option \<Rightarrow> poll_policy option" where
  "parse_poll_policy floor_ms ceiling_ms divisor =
     Option.bind (Option.bind floor_ms parse_u32) (\<lambda>floor_ms.
     Option.bind (Option.bind ceiling_ms parse_u32) (\<lambda>ceiling_ms.
     Option.bind (Option.bind divisor parse_u32) (\<lambda>divisor.
       if \<not> (MIN_INTERVAL_MS \<le> floor_ms \<and> floor_ms \<le> MAX_INTERVAL_MS)
          \<or> \<not> (MIN_INTERVAL_MS \<le> ceiling_ms \<and> ceiling_ms \<le> MAX_INTERVAL_MS)
          \<or> \<not> (1 \<le> divisor \<and> divisor \<le> MAX_DIVISOR)
          \<or> ceiling_ms < floor_ms
       then None
       else Some \<lparr>pp_floor_ms = floor_ms, pp_ceiling_ms = ceiling_ms, pp_divisor = divisor\<rparr>)))"

section \<open>The payloads\<close>

record status_response =
  sr_event_id :: string
  sr_phase :: phase
  sr_serving_state :: serving_state
  sr_serving_position :: u64
  sr_participant_count :: "u64 option"
  sr_prequeue_offsets :: "u64 list option"
  sr_shuffle_seed :: "string option"
  sr_message :: "string option"
  sr_target_rate :: "u32 option"
  sr_poll_policy :: "poll_policy option"
  sr_starts_at :: "u64 option"

definition hex_encode :: "u8 list \<Rightarrow> string" where
  "hex_encode bs = concat (map (\<lambda>b. [hex_char (unat b div 16), hex_char (unat b mod 16)]) bs)"

definition status :: "counters \<Rightarrow> poll_policy option \<Rightarrow> u64 \<Rightarrow> status_response" where
  "status c poll_policy now =
     \<lparr>sr_event_id = ct_event_id c,
      sr_phase = ct_phase c,
      sr_serving_state =
        serving_state_of (ct_phase c) (resolve (ct_stored_control c) (ct_fail_open_until c) now),
      sr_serving_position = ct_serving_counter c,
      sr_participant_count = ct_participant_count c,
      sr_prequeue_offsets = ct_prequeue_offsets c,
      sr_shuffle_seed = map_option hex_encode (ct_shuffle_seed c),
      sr_message = ct_message c,
      sr_target_rate = ct_target_rate c,
      sr_poll_policy = poll_policy,
      sr_starts_at = ct_starts_at c\<rparr>"

record queue_num_response =
  qn_position :: u64
  qn_live_join :: bool

datatype resolved_queue_num = QnPreQueue queue_num_response | QnStraggler

datatype queue_num_error = QnNotOpen | QnBadShard

definition queue_num ::
  "hmac_sha256 \<Rightarrow> counters \<Rightarrow> prequeue_item \<Rightarrow> queue_num_error + resolved_queue_num" where
  "queue_num hmac c row =
     (case resolve_prequeue hmac c row of
        Inr (RPreQueue position) \<Rightarrow>
          Inr (QnPreQueue \<lparr>qn_position = position, qn_live_join = False\<rparr>)
      | Inr RLiveJoin \<Rightarrow> Inr QnStraggler
      | Inl NotOpen \<Rightarrow> Inl QnNotOpen
      | Inl BadShard \<Rightarrow> Inl QnBadShard)"

text \<open>\<open>Serialize\<close>: an absent optional field is skipped.\<close>

fun serving_state_wire :: "serving_state \<Rightarrow> string" where
  "serving_state_wire SvRunning = ''running''"
| "serving_state_wire SvPaused = ''paused''"
| "serving_state_wire SvClosed = ''closed''"
| "serving_state_wire SvFailOpen = ''fail_open''"

definition opt_field :: "string \<Rightarrow> ('a \<Rightarrow> json) \<Rightarrow> 'a option \<Rightarrow> (string \<times> json) list" where
  "opt_field k f v = (case v of None \<Rightarrow> [] | Some x \<Rightarrow> [(k, f x)])"

definition poll_policy_json :: "poll_policy \<Rightarrow> json" where
  "poll_policy_json p = JObj [(''floor_ms'', JNum (ucast (pp_floor_ms p))),
     (''ceiling_ms'', JNum (ucast (pp_ceiling_ms p))), (''divisor'', JNum (ucast (pp_divisor p)))]"

definition status_json :: "status_response \<Rightarrow> json" where
  "status_json s = JObj
     ([(''event_id'', JStr (sr_event_id s)),
       (''phase'', JStr (phase_wire (sr_phase s))),
       (''serving_state'', JStr (serving_state_wire (sr_serving_state s))),
       (''serving_position'', JNum (sr_serving_position s))]
      @ opt_field ''participant_count'' JNum (sr_participant_count s)
      @ opt_field ''prequeue_offsets'' (\<lambda>xs. JArr (map JNum xs)) (sr_prequeue_offsets s)
      @ opt_field ''shuffle_seed'' JStr (sr_shuffle_seed s)
      @ opt_field ''message'' JStr (sr_message s)
      @ opt_field ''target_rate'' (\<lambda>r. JNum (ucast r)) (sr_target_rate s)
      @ opt_field ''poll_policy'' poll_policy_json (sr_poll_policy s)
      @ opt_field ''starts_at'' JNum (sr_starts_at s))"

definition queue_num_json :: "queue_num_response \<Rightarrow> json" where
  "queue_num_json q = JObj [(''position'', JNum (qn_position q)), (''live_join'', JBool (qn_live_join q))]"

section \<open>The Lambda handler\<close>

record read_ctx =
  rx_tables :: tables
  rx_event_id :: string
  rx_poll_policy :: "poll_policy option"
  rx_hmac :: hmac_sha256

definition read_json :: "nat \<Rightarrow> json \<Rightarrow> http_response" where
  "read_json code body =
     \<lparr>rs_status = code,
      rs_headers = [(''content-type'', ''application/json''), (''cache-control'', ''max-age=0, s-maxage=1'')],
      rs_body = body\<rparr>"

definition read_error :: "nat \<Rightarrow> string \<Rightarrow> http_response" where
  "read_error code message = read_json code (JObj [(''error'', JStr message)])"

definition read_load_counters ::
  "read_ctx \<Rightarrow> counters_slot \<Rightarrow> ((string + counters option) \<times> counters_slot) prog" where
  "read_load_counters ctx slot =
     NowSecs (\<lambda>now.
       case cache_get COUNTERS_TTL slot now of
         Some hit \<Rightarrow> Done (Inr hit, slot)
       | None \<Rightarrow>
           GetItem (tb_counters (rx_tables ctx)) (key_build (KEvent (rx_event_id ctx))) False (\<lambda>r.
             case r of
               Inl e \<Rightarrow> Done (Inl (sdk_display e), slot)
             | Inr m \<Rightarrow>
                 let c = map_option (from_item (rx_event_id ctx)) m in
                 NowSecs (\<lambda>later. Done (Inr c, cache_put later c))))"

definition read_load_prequeue :: "read_ctx \<Rightarrow> string \<Rightarrow> (string + prequeue_item option) prog" where
  "read_load_prequeue ctx request_id =
     GetItem (tb_prequeue (rx_tables ctx)) (''r'', request_id) False (\<lambda>r.
       case r of
         Inl e \<Rightarrow> Done (Inl (sdk_display e))
       | Inr None \<Rightarrow> Done (Inr None)
       | Inr (Some m) \<Rightarrow>
           (case prequeue_from_item m of
              Some row \<Rightarrow> Done (Inr (Some row))
            | None \<Rightarrow> Done (Inl ''malformed PreQueue row'')))"

definition read_position_from_item :: "item \<Rightarrow> u64 option" where
  "read_position_from_item m = get_u64 m ''queue_position''"

definition read_load_position :: "read_ctx \<Rightarrow> string \<Rightarrow> (string + u64 option) prog" where
  "read_load_position ctx request_id =
     GetItem (tb_positions (rx_tables ctx)) (''request_id'', request_id) False (\<lambda>r.
       case r of
         Inl e \<Rightarrow> Done (Inl (sdk_display e))
       | Inr None \<Rightarrow> Done (Inr None)
       | Inr (Some m) \<Rightarrow> Done (Inr (read_position_from_item m)))"

definition position_response :: "u64 option \<Rightarrow> nat \<times> json" where
  "position_response position =
     (case position of
        Some position \<Rightarrow> (200, JObj [(''position'', JNum position), (''live_join'', JBool True)])
      | None \<Rightarrow> (404, JObj [(''error'', JStr ''not registered'')]))"

definition respond_from_position :: "read_ctx \<Rightarrow> string \<Rightarrow> (string + http_response) prog" where
  "respond_from_position ctx request_id =
     bind_ok (read_load_position ctx request_id) (\<lambda>p.
       case position_response p of (code, body) \<Rightarrow> Done (Inr (read_json code body)))"

text \<open>The part of \<open>handle_queue_num\<close> after the counters.\<close>

definition queue_num_of :: "read_ctx \<Rightarrow> counters \<Rightarrow> string \<Rightarrow> (string + http_response) prog" where
  "queue_num_of ctx c request_id =
     bind_ok (read_load_prequeue ctx request_id) (\<lambda>row.
       case row of
         None \<Rightarrow> respond_from_position ctx request_id
       | Some row \<Rightarrow>
           (case queue_num (rx_hmac ctx) c row of
              Inr (QnPreQueue resp) \<Rightarrow> Done (Inr (read_json 200 (queue_num_json resp)))
            | Inr QnStraggler \<Rightarrow> respond_from_position ctx request_id
            | Inl QnNotOpen \<Rightarrow> Done (Inr (read_error 409 ''event not yet open''))
            | Inl QnBadShard \<Rightarrow> Done (Inr (read_error 500 ''corrupt registration''))))"

definition handle_queue_num ::
  "read_ctx \<Rightarrow> counters_slot \<Rightarrow> http_request \<Rightarrow> ((string + http_response) \<times> counters_slot) prog" where
  "handle_queue_num ctx slot req =
     (case rq_query req ''request_id'' of
        None \<Rightarrow> Done (Inr (read_error 400 ''request_id required''), slot)
      | Some request_id \<Rightarrow>
          bind (read_load_counters ctx slot) (\<lambda>(r, slot).
            case r of
              Inl e \<Rightarrow> Done (Inl e, slot)
            | Inr None \<Rightarrow> Done (Inr (read_error 404 ''event not found''), slot)
            | Inr (Some c) \<Rightarrow>
                bind (queue_num_of ctx c request_id) (\<lambda>a. Done (a, slot))))"

definition handle_status ::
  "read_ctx \<Rightarrow> counters_slot \<Rightarrow> ((string + http_response) \<times> counters_slot) prog" where
  "handle_status ctx slot =
     bind (read_load_counters ctx slot) (\<lambda>(r, slot).
       case r of
         Inl e \<Rightarrow> Done (Inl e, slot)
       | Inr None \<Rightarrow> Done (Inr (read_error 404 ''event not found''), slot)
       | Inr (Some c) \<Rightarrow>
           NowSecs (\<lambda>now.
             Done (Inr (read_json 200 (status_json (status c (rx_poll_policy ctx) now))), slot)))"

definition ends_with :: "string \<Rightarrow> string \<Rightarrow> bool" where
  "ends_with s suf \<longleftrightarrow> length suf \<le> length s \<and> drop (length s - length suf) s = suf"

definition read_route ::
  "read_ctx \<Rightarrow> counters_slot \<Rightarrow> http_request \<Rightarrow> ((string + http_response) \<times> counters_slot) prog" where
  "read_route ctx slot req =
     (if ends_with (rq_path req) ''/status'' then handle_status ctx slot
      else if ends_with (rq_path req) ''/queue_num'' then handle_queue_num ctx slot req
      else Done (Inr (read_error 404 ''not found''), slot))"

section \<open>The cache\<close>

lemma cache_get_Some:
  "cache_get ttl slot now = Some v \<longleftrightarrow>
     (\<exists>t. slot = Some (t, v) \<and> unat now - unat t < unat ttl)"
  by (auto simp: cache_get_def word_less_nat_alt unat_saturating_sub split: option.splits)

section \<open>What an answered position rests on\<close>

text \<open>A cached item is one whose open outputs the ledger knows.\<close>

definition slot_ok :: "counters_slot \<Rightarrow> ghost \<Rightarrow> bool" where
  "slot_ok slot g \<longleftrightarrow> (\<forall>t c oo. slot = Some (t, Some c) \<longrightarrow> open_outputs c = Some oo \<longrightarrow> gh_open g = Some oo)"

definition answers_position :: "string + http_response \<Rightarrow> u64 \<Rightarrow> bool" where
  "answers_position r p \<longleftrightarrow> (\<exists>resp. r = Inr resp \<and> rs_status resp = 200
     \<and> json_get (rs_body resp) ''position'' = Some (JNum p))"

lemma answers_simps [simp]:
  "\<not> answers_position (Inl e) p"
  "answers_position (Inr (read_json 200 (queue_num_json q))) p \<longleftrightarrow> qn_position q = p"
  "answers_position (Inr (read_json st (JObj [(''position'', JNum x), b]))) p \<longleftrightarrow> st = 200 \<and> x = p"
  "\<not> answers_position (Inr (read_error st m)) p"
  by (auto simp: answers_position_def read_json_def read_error_def queue_num_json_def json_get_def)

lemma queue_num_position:
  assumes "queue_num hmac c row = Inr (QnPreQueue resp)"
  shows "\<exists>oo. open_outputs c = Some oo \<and> cohort_position hmac oo (unat (pq_s row)) (pq_l row) (qn_position resp)"
  using assms
  by (auto simp: queue_num_def resolve_prequeue_def cohort_position_def Let_def not_le
      split: sum.splits resolve_error.splits resolved_position.splits option.splits if_splits assignment.splits)

lemma respond_entitled:
  assumes "rx_tables ctx = lc_tables cfg"
  shows "lwp cfg (respond_from_position ctx rid)
    (\<lambda>r g. \<forall>p. answers_position r p \<longrightarrow> entitled cfg g rid p) g"
proof (rule lwpI)
  assume t: "tables_ok (lc_tables cfg)"
  show ?thesis
    using up_get_simps(3) [OF t, of "(''request_id'', rid)"]
    unfolding respond_from_position_def read_load_position_def bind_ok_def
    by (simp add: assms t lwp_Done position_response_def read_position_from_item_def attr_names entitled_def
        read_error_def [symmetric] split: option.split)
qed

lemma queue_num_of_entitled:
  assumes "rx_tables ctx = lc_tables cfg" "rx_hmac ctx = lc_hmac cfg"
    and oo: "\<And>oo. open_outputs c = Some oo \<Longrightarrow> gh_open g = Some oo"
  shows "lwp cfg (queue_num_of ctx c rid)
    (\<lambda>r g'. gh_open g' = gh_open g \<and> (\<forall>p. answers_position r p \<longrightarrow> entitled cfg g' rid p)) g"
    (is "lwp cfg _ ?Q g")
proof -
  have pos: "lwp cfg (respond_from_position ctx rid) ?Q g'" if h: "gh_open g' = gh_open g" for g'
  proof (rule lwpI)
    assume t: "tables_ok (lc_tables cfg)"
    show "lwp cfg (respond_from_position ctx rid) ?Q g'"
      using up_get_simps(3) [OF t, of "(''request_id'', rid)"] h
      unfolding respond_from_position_def read_load_position_def bind_ok_def
      by (simp add: assms(1) t lwp_Done position_response_def read_position_from_item_def attr_names
          entitled_def read_error_def [symmetric] split: option.split)
  qed
  have found: "lwp cfg (case queue_num (rx_hmac ctx) c row of
              Inr (QnPreQueue resp) \<Rightarrow> Done (Inr (read_json 200 (queue_num_json resp)))
            | Inr QnStraggler \<Rightarrow> respond_from_position ctx rid
            | Inl QnNotOpen \<Rightarrow> Done (Inr (read_error 409 ''event not yet open''))
            | Inl QnBadShard \<Rightarrow> Done (Inr (read_error 500 ''corrupt registration''))) ?Q g'"
    if h: "gh_open g' = gh_open g" "(rid, unat (pq_s row), pq_l row) \<in> gh_row g'" for row g'
  proof (cases "queue_num (rx_hmac ctx) c row")
    case (Inr a)
    show ?thesis
    proof (cases a)
      case (QnPreQueue resp)
      then obtain o' where "open_outputs c = Some o'"
          "cohort_position (lc_hmac cfg) o' (unat (pq_s row)) (pq_l row) (qn_position resp)"
        using queue_num_position [of "rx_hmac ctx" c row resp] Inr assms(2) by auto
      then have "entitled cfg g' rid (qn_position resp)"
        using oo h unfolding entitled_def by auto
      then show ?thesis
        using Inr QnPreQueue h(1) by (auto intro!: lwp_DoneI)
    qed (use Inr pos [OF h(1)] in simp)
  next
    case (Inl e)
    then show ?thesis
      using h(1) by (cases e) (auto intro!: lwp_DoneI)
  qed
  show ?thesis
    unfolding queue_num_of_def lwp_bind_ok read_load_prequeue_def
  proof (rule lwp_GetItemI)
    fix m
    assume t: "tables_ok (lc_tables cfg)"
    show "lwp cfg (case Inr (Some m) of
         Inl e \<Rightarrow> Done (Inl (sdk_display e))
       | Inr None \<Rightarrow> Done (Inr None)
       | Inr (Some m) \<Rightarrow>
           (case prequeue_from_item m of
              Some row \<Rightarrow> Done (Inr (Some row))
            | None \<Rightarrow> Done (Inl ''malformed PreQueue row'')))
       (\<lambda>r g. case r of Inl e \<Rightarrow> lwp cfg (Done (Inl e)) ?Q g
          | Inr row \<Rightarrow> lwp cfg (case row of
               None \<Rightarrow> respond_from_position ctx rid
             | Some row \<Rightarrow>
                 (case queue_num (rx_hmac ctx) c row of
                    Inr (QnPreQueue resp) \<Rightarrow> Done (Inr (read_json 200 (queue_num_json resp)))
                  | Inr QnStraggler \<Rightarrow> respond_from_position ctx rid
                  | Inl QnNotOpen \<Rightarrow> Done (Inr (read_error 409 ''event not yet open''))
                  | Inl QnBadShard \<Rightarrow> Done (Inr (read_error 500 ''corrupt registration'')))) ?Q g)
       (up_get cfg (tb_prequeue (rx_tables ctx)) (''r'', rid) m g)"
    proof (cases "prequeue_from_item m")
      case (Some row)
      then show ?thesis
        using found [of "up_get cfg (tb_prequeue (rx_tables ctx)) (''r'', rid) m g" row] t
        by (simp add: lwp_Done up_get_simps assms(1) PREQUEUE_KEY_ATTR_def)
    qed (simp add: lwp_Done t up_get_simps assms(1) PREQUEUE_KEY_ATTR_def)
  qed (simp_all add: lwp_Done pos)
qed

lemma read_load_counters_law:
  assumes "rx_tables ctx = lc_tables cfg" "rx_event_id ctx = lc_event cfg" "slot_ok slot g"
    and "\<And>e slot'. slot_ok slot' g \<Longrightarrow> Q (Inl e, slot') g"
    and "\<And>slot'. slot_ok slot' g \<Longrightarrow> Q (Inr None, slot') g"
    and "\<And>c slot' g'. slot_ok slot' g' \<Longrightarrow> (\<And>oo. open_outputs c = Some oo \<Longrightarrow> gh_open g' = Some oo) \<Longrightarrow>
           Q (Inr (Some c), slot') g'"
  shows "lwp cfg (read_load_counters ctx slot) Q g"
proof -
  have miss: "lwp cfg (GetItem (tb_counters (rx_tables ctx)) (key_build (KEvent (rx_event_id ctx))) False (\<lambda>r.
             case r of
               Inl e \<Rightarrow> Done (Inl (sdk_display e), slot)
             | Inr m \<Rightarrow>
                 let c = map_option (from_item (rx_event_id ctx)) m in
                 NowSecs (\<lambda>later. Done (Inr c, cache_put later c)))) Q g"
    unfolding assms(1,2) event_key_def [symmetric]
  proof (rule lwp_GetItemI)
    fix m
    assume t: "tables_ok (lc_tables cfg)"
    let ?g = "up_get cfg (tb_counters (lc_tables cfg)) (event_key cfg) m g"
    have k: "gh_open ?g = Some oo" if "open_outputs (from_item (lc_event cfg) m) = Some oo" for oo
      using that by (simp add: up_get_simps t)
    then have "slot_ok (cache_put later (Some (from_item (lc_event cfg) m))) ?g" for later
      by (simp add: slot_ok_def cache_put_def)
    then show "lwp cfg (case Inr (Some m) of
               Inl e \<Rightarrow> Done (Inl (sdk_display e), slot)
             | Inr m \<Rightarrow>
                 let c = map_option (from_item (lc_event cfg)) m in
                 NowSecs (\<lambda>later. Done (Inr c, cache_put later c))) Q ?g"
      using k by (auto simp: t Let_def intro!: lwp_DoneI assms(6))
  qed (auto simp: slot_ok_def cache_put_def intro!: lwp_DoneI assms(3,4,5))
  have hit: "Q (Inr v, slot) g" if hit: "cache_get COUNTERS_TTL slot now = Some v" for now v
  proof (cases v)
    case (Some c)
    obtain t where "slot = Some (t, v)"
      using hit unfolding cache_get_Some by blast
    then show ?thesis
      using assms(3) Some by (auto simp: slot_ok_def intro!: assms(6))
  qed (simp add: assms(3,5))
  show ?thesis
    unfolding read_load_counters_def lwp_quiet
    using hit miss by (auto intro!: lwp_DoneI split: option.split)
qed

text \<open>A position that \<open>/queue_num\<close> answers is the visitor's, and the cache stays good.\<close>

lemma queue_num_entitled:
  assumes "rx_tables ctx = lc_tables cfg" "rx_hmac ctx = lc_hmac cfg" "rx_event_id ctx = lc_event cfg"
    and "slot_ok slot g" "rq_query req ''request_id'' = Some rid"
  shows "lwp cfg (handle_queue_num ctx slot req)
    (\<lambda>(r, slot') g'. slot_ok slot' g' \<and> (\<forall>p. answers_position r p \<longrightarrow> entitled cfg g' rid p)) g"
    (is "lwp cfg _ ?Q g")
proof -
  have *: "lwp cfg (queue_num_of ctx c rid)
      (\<lambda>a g. slot_ok slot' g \<and> (\<forall>p. answers_position a p \<longrightarrow> entitled cfg g rid p)) g'"
    if h: "slot_ok slot' g'" "\<And>oo. open_outputs c = Some oo \<Longrightarrow> gh_open g' = Some oo" for c slot' g'
    by (rule lwp_mono [OF queue_num_of_entitled [OF assms(1,2) h(2)]]) (use h(1) in \<open>auto simp: slot_ok_def\<close>)
  have some: "lwp cfg (bind (queue_num_of ctx c rid) (\<lambda>a. Done (a, slot'))) ?Q g'"
    if "slot_ok slot' g'" "\<And>oo. open_outputs c = Some oo \<Longrightarrow> gh_open g' = Some oo" for c slot' g'
    unfolding lwp_bind by (rule lwp_mono [OF * [OF that]]) (auto intro!: lwp_DoneI)
  show ?thesis
    unfolding handle_queue_num_def assms(5) option.case lwp_bind
    by (rule read_load_counters_law [OF assms(1,3,4)]) (auto intro!: lwp_DoneI some [unfolded lwp_bind])
qed

lemma read_returns:
  "returns (read_load_counters ctx slot) 3" "returns (respond_from_position ctx rid) 1"
  "returns (queue_num_of ctx c rid) 2"
  "returns (handle_queue_num ctx slot req) 5" "returns (handle_status ctx slot) 4"
proof -
  show 1: "returns (read_load_counters ctx slot) 3"
    by (simp add: read_load_counters_def Let_def split: option.split sum.split)
  show 2: "returns (respond_from_position ctx rid) 1" for rid
    by (simp add: respond_from_position_def read_load_position_def bind_ok_def split: option.split sum.split prod.split)
  have pq: "returns (read_load_prequeue ctx rid) 1" for rid
    by (simp add: read_load_prequeue_def split: option.split sum.split)
  have "returns (case row of
         None \<Rightarrow> respond_from_position ctx rid
       | Some row \<Rightarrow>
           (case queue_num (rx_hmac ctx) c row of
              Inr (QnPreQueue resp) \<Rightarrow> Done (Inr (read_json 200 (queue_num_json resp)))
            | Inr QnStraggler \<Rightarrow> respond_from_position ctx rid
            | Inl QnNotOpen \<Rightarrow> Done (Inr (read_error 409 ''event not yet open''))
            | Inl QnBadShard \<Rightarrow> Done (Inr (read_error 500 ''corrupt registration'')))) 1" for row c rid
    using 2 [of rid] by (simp split: option.split sum.split resolved_queue_num.split queue_num_error.split)
  from returns_bind_ok [OF pq this] show 3: "returns (queue_num_of ctx c rid) 2" for c rid
    unfolding queue_num_of_def by (simp add: numeral_2_eq_2)
  have b: "returns (bind (queue_num_of ctx c rid) (\<lambda>a. Done (a, slot))) 2" for c rid and slot :: counters_slot
    by (rule returns_bind [OF 3, where n = 0, simplified]) simp
  have q: "returns (case x of (r, slot) \<Rightarrow> (case r of
              Inl e \<Rightarrow> Done (Inl e, slot)
            | Inr None \<Rightarrow> Done (Inr (read_error 404 ''event not found''), slot)
            | Inr (Some c) \<Rightarrow> bind (queue_num_of ctx c rid) (\<lambda>a. Done (a, slot)))) 2" for x :: "(string + counters option) \<times> counters_slot" and rid
    using b by (simp split: option.split sum.split prod.split)
  show "returns (handle_queue_num ctx slot req) 5"
    unfolding handle_queue_num_def using returns_bind [OF 1 q] by (simp split: option.split)
  show "returns (handle_status ctx slot) 4"
    unfolding handle_status_def
    by (rule returns_bind [OF 1, of _ 1, simplified]) (simp split: option.split sum.split prod.split)
qed

end
