(* ===== verification/Cursor.thy ===== *)
theory Cursor
  imports Accounting
begin

text \<open>
  The admission cursor over whole runs.  Every handler of the deployment leaves
  \<open>serving_counter\<close> alone or moves it forward under a guard on the value it moves from
  (\<open>Ledger.event_update_ob\<close>), so whatever is interleaved, retried or late, the cursor never
  moves backwards (\<open>cursor_run\<close>).
\<close>

definition serving_at :: "item option \<Rightarrow> u64" where
  "serving_at m = (case Option.bind m (\<lambda>i. get_u64 i ''serving_counter'') of Some n \<Rightarrow> n | None \<Rightarrow> 0)"

definition cursor :: "ledger_cfg \<Rightarrow> db \<Rightarrow> u64" where
  "cursor cfg d = serving_at (event_item_of cfg d)"

lemma serving_base: "serving_at (Some (base_item k m)) = serving_at m" if "fst k \<noteq> ''serving_counter''"
  using that by (cases m) (auto simp: serving_at_def base_item_def get_u64_def get_n_def)

lemma serving_cong: "m a = m' a \<Longrightarrow> a = ''serving_counter'' \<Longrightarrow> serving_at (Some m) = serving_at (Some m')"
  by (simp add: serving_at_def get_u64_def get_n_def)

lemma event_key_attr: "fst (event_key cfg) \<noteq> ''serving_counter''"
  by (simp add: event_key_def key_build_def attr_names)

lemma serving_move_le:
  assumes "serving_move us c" "opt_cond c m" "update_effect us (base_item k m) m'"
  shows "serving_at m \<le> serving_at (Some m')"
proof -
  obtain e n rest where s: "e \<le> n" "us = USet ''serving_counter'' (AN (show_u64 n)) # rest"
      "c = Some (COr (CNotExists ''serving_counter'') (CEq ''serving_counter'' (AN (show_u64 e))))"
    using assms(1) by (auto simp: serving_move_def)
  have "clause_ok (USet ''serving_counter'' (AN (show_u64 n))) (base_item k m) (m' ''serving_counter'')"
    using update_clause [OF assms(3), of "USet ''serving_counter'' (AN (show_u64 n))"] s(2) by simp
  then have "m' ''serving_counter'' = Some (AN (show_u64 n))"
    by (auto simp: clause_ok_def)
  then have "serving_at (Some m') = n"
    by (simp add: serving_at_def get_u64_def get_n_def dec_simps)
  moreover have "serving_at m \<le> e"
    using assms(2) unfolding s(3)
    by (cases m) (auto simp: serving_at_def get_u64_def get_n_def opt_cond_def dec_simps split: option.splits)
  ultimately show ?thesis
    using s(1) by simp
qed

lemma event_update_cursor:
  assumes ob: "event_update_ob g us c" and oc: "opt_cond c m"
    and ue: "update_effect us (base_item (event_key cfg) m) m'"
  shows "serving_at m \<le> serving_at (Some m')"
proof (cases "\<forall>u\<in>set us. clause_attr u \<noteq> ''serving_counter''")
  case True
  then have "m' ''serving_counter'' = base_item (event_key cfg) m ''serving_counter''"
    by (intro update_frame [OF ue]) auto
  then show ?thesis
    using serving_cong [OF _ refl] serving_base [OF event_key_attr, of cfg m] by (metis order_refl)
next
  case False
  have "serving_move us c"
    using ob
  proof (cases rule: event_ob_cases)
    case benign
    then show ?thesis
      using False by blast
  qed (use False in \<open>simp_all add: claim_clauses_def open_clauses_def\<close>)
  then show ?thesis
    by (rule serving_move_le [OF _ oc ue])
qed

lemma lands_cursor:
  assumes t: "tables_ok (lc_tables cfg)" and ob: "ledger_ob cfg q g" and l: "lands schema q d m d'"
  shows "cursor cfg d \<le> cursor cfg d'"
proof (cases q)
  case (QUpdate t k us c)
  then have d': "d' = push d t k (Some m)" and oc: "opt_cond c (current d t k)"
    and ue: "update_effect us (base_item k (current d t k)) m"
    using l by (auto simp: lands_def)
  show ?thesis
  proof (cases "t = tb_counters (lc_tables cfg) \<and> k = event_key cfg")
    case True
    then have "event_update_ob g us c"
      using ob by (simp add: QUpdate ledger_ob_def counters_update_ob_def)
    from event_update_cursor [OF this oc] ue show ?thesis
      using True by (simp add: cursor_def event_item_of_def d' current_push)
  next
    case False
    then show ?thesis
      by (auto simp: cursor_def event_item_of_def d' current_push)
  qed
next
  case (QPut t i c)
  then have "t \<noteq> tb_counters (lc_tables cfg)"
    using ob by (simp add: ledger_ob_def)
  then show ?thesis
    using l by (auto simp: QPut lands_def cursor_def event_item_of_def current_push)
next
  case (QDelete t k b)
  then have "t \<noteq> tb_counters (lc_tables cfg)"
    using ob by (simp add: ledger_ob_def)
  then show ?thesis
    using l by (simp add: QDelete cursor_def event_item_of_def current_push)
qed (use l in \<open>simp_all add: lands_def\<close>)

lemma step_cursor:
  assumes t: "tables_ok (lc_tables cfg)" and sv: "documented (lc_tables cfg) schema sv"
    and r: "ledger_reachable cfg s" and s: "step sv H s s'"
  shows "cursor cfg (sy_db s) \<le> cursor cfg (sy_db s')"
proof -
  obtain gs op Q cnt where inv: "ledger_inv cfg gs op Q cnt (sy_db s) (sy_pool s)"
    using r by (auto simp: ledger_reachable_def)
  show ?thesis
    using s
  proof cases
    case (reply i p r q p' d')
    have ob: "ledger_ob cfg q (gs i)"
      by (rule inv_obligation [OF t inv reply(2) answer_waiting [OF reply(3)]])
    from answered_lands [OF documentedD(2) [OF sv reply(4)]] show ?thesis
      using lands_cursor [OF t ob] by (auto simp: reply(1))
  next
    case (late i p q d')
    obtain m where "lands schema q (sy_db s) m d'"
      using documentedD(3) [OF sv late(4)] by blast
    from lands_cursor [OF t inv_obligation [OF t inv late(2,3)] this] show ?thesis
      by (simp add: late(1))
  next
    case (reclaim d')
    obtain tab k where "d' = push (sy_db s) tab k None" "tab \<noteq> tb_counters (lc_tables cfg)"
      using documentedD(4) [OF sv reclaim(2)] by blast
    then show ?thesis
      by (simp add: reclaim(1) cursor_def event_item_of_def current_push)
  qed simp_all
qed

inductive run :: "service \<Rightarrow> unit prog set \<Rightarrow> state \<Rightarrow> state \<Rightarrow> bool" for sv H where
  run_refl: "run sv H s s"
| run_step: "run sv H s s' \<Longrightarrow> step sv H s' s'' \<Longrightarrow> run sv H s s''"

lemma run_reachable: "run sv H s s' \<Longrightarrow> reachable sv H cfg s \<Longrightarrow> reachable sv H cfg s'"
  by (induction rule: run.induct) (auto intro: more)

lemma cursor_run:
  assumes "tables_ok (lc_tables cfg)" "documented (lc_tables cfg) schema sv" "\<forall>p\<in>H. honours cfg p"
    and "reachable sv H cfg s" "run sv H s s'"
  shows "cursor cfg (sy_db s) \<le> cursor cfg (sy_db s')"
  using assms(5,4)
proof (induction rule: run.induct)
  case (run_step s s' s'')
  have "ledger_reachable cfg s'"
    using reachable_inv [OF assms(1-3)] run_reachable [OF run_step(1,4)] by blast
  from step_cursor [OF assms(1,2) this run_step(2)] show ?case
    using run_step.IH [OF run_step.prems] by (rule order_trans [rotated])
qed simp

text \<open>A release computed from a cursor value lands only while the cursor still has that value, so of
  two passes that read the same one at most one moves it.\<close>

lemma stale_release:
  assumes "opt_cond (Some (COr (CNotExists ''serving_counter'') (CEq ''serving_counter'' (AN (show_u64 e)))))
      (event_item_of cfg d)"
  shows "cursor cfg d = e \<or> cursor cfg d = 0"
  using assms
  by (cases "event_item_of cfg d")
    (auto simp: cursor_def serving_at_def get_u64_def get_n_def opt_cond_def dec_simps split: option.splits)

end
