(* ===== verification/Answers.thy ===== *)
theory Answers
  imports ReadPath Cursor
begin

text \<open>
  What visitors are told.  \<open>served\<close> runs one handler to its value while the deployment goes on
  around it, in any interleaving; \<open>informed\<close> says that what a handler's account holds was indeed
  read from the database.  A position that a handler answers only when it is entitled to it is a
  position the visitor holds (\<open>served_entitled\<close>).
\<close>

section \<open>The database only grows\<close>

definition extends :: "db \<Rightarrow> db \<Rightarrow> bool" where
  "extends d d' \<longleftrightarrow> (\<forall>tk. \<exists>pre. d' tk = pre @ d tk)"

lemma extends_refl [simp]: "extends d d"
  by (auto simp: extends_def)

lemma extends_trans: "extends d d' \<Longrightarrow> extends d' d'' \<Longrightarrow> extends d d''"
  unfolding extends_def by (metis append_assoc)

lemma extends_push: "extends d (push d t k v)"
  unfolding extends_def push_def by (metis append_Cons append_Nil fun_upd_apply)

lemma extends_version: "extends d d' \<Longrightarrow> version d t k m \<Longrightarrow> version d' t k m"
  unfolding extends_def version_def by (metis Un_iff set_append)

lemma extends_rows: "extends d d' \<Longrightarrow> row_position cfg d \<subseteq> row_position cfg d'"
    "extends d d' \<Longrightarrow> row_index cfg d \<subseteq> row_index cfg d'"
  unfolding row_position_def row_index_def using extends_version by blast+

lemma holds_extends: "extends d d' \<Longrightarrow> holds_position cfg d r p \<Longrightarrow> holds_position cfg d' r p"
  unfolding holds_position_def using extends_rows [of d d' cfg] extends_version [of d d'] by blast

lemma lands_extends: "lands schema q d m d' \<Longrightarrow> extends d d'"
  by (cases q) (auto simp: lands_def extends_push)

lemma answered_extends: "answered schema q r d d' \<Longrightarrow> extends d d'"
  using answered_lands [of schema q r d d'] lands_extends by auto

lemma step_extends:
  assumes "documented tb schema sv" "step sv H s s'"
  shows "extends (sy_db s) (sy_db s')"
  using assms(2)
proof cases
  case (reply i p r q p' d')
  then show ?thesis
    using answered_extends [OF documentedD(2) [OF assms(1)]] by simp
next
  case (late i p q d')
  then show ?thesis
    using lands_extends documentedD(3) [OF assms(1) late(4)] by auto
next
  case (reclaim d')
  then show ?thesis
    using documentedD(4) [OF assms(1) reclaim(2)] by (auto simp: extends_push)
qed simp_all

lemma run_extends:
  "run sv H s s' \<Longrightarrow> documented tb schema sv \<Longrightarrow> extends (sy_db s) (sy_db s')"
proof (induction rule: run.induct)
  case (run_step s s' s'')
  then show ?case
    using extends_trans step_extends by blast
qed simp

section \<open>Accounts that tell the truth\<close>

definition informed :: "ledger_cfg \<Rightarrow> db \<Rightarrow> ghost \<Rightarrow> bool" where
  "informed cfg d g \<longleftrightarrow>
     (\<forall>oo. gh_open g = Some oo \<longrightarrow> (\<exists>m. version d (tb_counters (lc_tables cfg)) (event_key cfg) m
        \<and> open_outputs (from_item (lc_event cfg) m) = Some oo))
     \<and> (\<forall>p r. (p, r) \<in> gh_pos g \<longrightarrow> (r, p) \<in> row_position cfg d)
     \<and> gh_row g \<subseteq> row_index cfg d"

lemma informed_extends: "informed cfg d g \<Longrightarrow> extends d d' \<Longrightarrow> informed cfg d' g"
  unfolding informed_def using extends_rows [of d d' cfg] extends_version [of d d'] by blast

lemma informed_entitled: "informed cfg d g \<Longrightarrow> entitled cfg g r p \<Longrightarrow> holds_position cfg d r p"
  unfolding informed_def entitled_def holds_position_def by blast

lemma informed_get:
  assumes "informed cfg d g" "version d t k m"
  shows "informed cfg d (up_get cfg t k m g)"
proof -
  have pos: "(snd k, p) \<in> row_position cfg d"
    if "t = tb_positions (lc_tables cfg)" "fst k = POSITIONS_KEY_ATTR" "get_u64 m QUEUE_POSITION_ATTR = Some p" for p
    using assms(2) that by (cases k) (auto simp: row_position_def position_key_def key_build_def)
  have row: "(snd k, unat (pq_s x), pq_l x) \<in> row_index cfg d"
    if "t = tb_prequeue (lc_tables cfg)" "fst k = PREQUEUE_KEY_ATTR" "prequeue_from_item m = Some x" for x
    using assms(2) that row_slot_from_item
    by (cases k) (auto simp: row_index_def prequeue_key_def key_build_def)
  show ?thesis
    using assms pos row
    by (auto simp: up_get_def informed_def split: option.split)
qed

lemma up_update_account:
  "gh_open (up_update cfg t k us m g) = gh_open g" "gh_pos (up_update cfg t k us m g) = gh_pos g"
  "gh_row (up_update cfg t k us m g) = gh_row g"
  by (auto simp: up_update_def up_counters_def split: list.split update_clause.split attr.split option.split)

lemma up_put_account:
  "gh_open (up_put cfg t m g) = gh_open g" "gh_pos (up_put cfg t m g) = gh_pos g"
  "gh_row (up_put cfg t m g) = gh_row g"
  by (auto simp: up_put_def split: option.split)

lemma informed_answered:
  assumes "informed cfg d g" "answered schema q r d d'"
  shows "informed cfg d' (ledger_up cfg q r g)"
proof -
  have d': "informed cfg d' g"
    by (rule informed_extends [OF assms(1) answered_extends [OF assms(2)]])
  have eq: "informed cfg d' g' = informed cfg d' g"
    if "gh_open g' = gh_open g" "gh_pos g' = gh_pos g" "gh_row g' = gh_row g" for g' :: ghost
    using that by (simp add: informed_def)
  show ?thesis
  proof (cases q)
    case (QGet t k c)
    show ?thesis
    proof (cases "\<exists>m. r = RGet (Inr (Some m))")
      case True
      then obtain m where m: "r = RGet (Inr (Some m))" by blast
      have "answered schema (QGet t k c) (RGet (Inr (Some m))) d d'"
        using assms(2) by (simp add: QGet m)
      then have "version d t k m" "d' = d"
        using get_version by (blast, auto simp: answered_def)
      then show ?thesis
        using informed_get [OF assms(1)] by (simp add: QGet ledger_up_def m)
    next
      case False
      then have "ledger_up cfg q r g = g"
        by (auto simp: ledger_up_def QGet split: resp.split sum.split option.split)
      then show ?thesis using d' by simp
    qed
  next
    case (QUpdate t k us c)
    then show ?thesis
      using d' eq [OF up_update_account] by (simp add: ledger_up_def split: resp.split sum.split)
  next
    case (QPut t m c)
    then show ?thesis
      using d' eq [OF up_put_account] by (simp add: ledger_up_def)
  qed (simp_all add: ledger_up_def d')
qed

section \<open>Serving one request\<close>

inductive served :: "service \<Rightarrow> unit prog set \<Rightarrow> state \<Rightarrow> 'a prog \<Rightarrow> 'a \<Rightarrow> state \<Rightarrow> bool" for sv H where
  served_done: "served sv H s (Done x) x s"
| served_answer: "answer p r = Some (q, p') \<Longrightarrow> sv_answer sv q r (sy_db s) d' \<Longrightarrow>
    served sv H (s\<lparr>sy_db := d'\<rparr>) p' x s' \<Longrightarrow> served sv H s p x s'"
| served_meanwhile: "step sv H s s1 \<Longrightarrow> served sv H s1 p x s' \<Longrightarrow> served sv H s p x s'"

lemma answer_bind: "answer p r = Some (q, p') \<Longrightarrow> answer (bind p f) r = Some (q, bind p' f)"
  by (cases p) (auto split: option.splits)

lemma served_bind:
  "served sv H s p x s1 \<Longrightarrow> served sv H s1 (f x) y s2 \<Longrightarrow> served sv H s (bind p f) y s2"
proof (induction rule: served.induct)
  case (served_answer p r q p' s d' x s')
  show ?case
    by (rule served.served_answer [OF answer_bind [OF served_answer.hyps(1)] served_answer.hyps(2)
          served_answer.IH [OF served_answer.prems]])
next
  case (served_meanwhile s s1 p x s')
  show ?case
    by (rule served.served_meanwhile [OF served_meanwhile.hyps(1) served_meanwhile.IH [OF served_meanwhile.prems]])
qed simp

text \<open>A handler that only reads.\<close>

fun is_read :: "req \<Rightarrow> bool" where
  "is_read (QUpdate t k us c) = False"
| "is_read (QPut t m c) = False"
| "is_read (QDelete t k b) = False"
| "is_read _ = True"

definition reads_only :: "'a prog \<Rightarrow> bool" where
  "reads_only p \<longleftrightarrow> wp (\<lambda>q _. is_read q) (\<lambda>_ _ _. True) (\<lambda>_ _ g. g) p (\<lambda>_ _. True) ()"

lemma reads_only_Done [simp]: "reads_only (Done x)"
  by (simp add: reads_only_def)

lemma reads_only_ops [simp]:
  "reads_only (GetItem t k c h1) \<longleftrightarrow> (\<forall>r. reads_only (h1 r))"
  "reads_only (BatchGetItem t ks c h2) \<longleftrightarrow> (\<forall>r. reads_only (h2 r))"
  "reads_only (NowSecs h6) \<longleftrightarrow> (\<forall>r. reads_only (h6 r))"
  by (simp_all add: reads_only_def wp_step_def)

lemma reads_only_bind: "reads_only p \<Longrightarrow> (\<And>x. reads_only (f x)) \<Longrightarrow> reads_only (bind p f)"
  unfolding reads_only_def wp_bind by (erule wp_mono) simp

lemma reads_only_bind_ok: "reads_only p \<Longrightarrow> (\<And>x. reads_only (f x)) \<Longrightarrow> reads_only (bind_ok p f)"
  unfolding bind_ok_def by (rule reads_only_bind) (auto split: sum.split)

lemma reads_only_answer:
  assumes "reads_only p" "answer p r = Some (q, p')"
  shows "is_read q" "reads_only p'"
  using wp_answer_ob [OF assms(1) [unfolded reads_only_def] assms(2)]
    wp_answer [OF assms(1) [unfolded reads_only_def] assms(2) TrueI]
  by (simp_all add: reads_only_def)

lemma reads_only_honours: "reads_only p \<Longrightarrow> honours cfg p"
proof -
  have "reads_only p \<Longrightarrow> wp (ledger_ob cfg) (ledger_ok cfg) (ledger_up cfg) p (\<lambda>_ _. True) g" for g
  proof (induction p arbitrary: g rule: prog_induct)
    case (Ask q k)
    have q: "is_read q" and k: "\<And>r p. k r = Some p \<Longrightarrow> reads_only p"
      using Ask(2) by (auto simp: reads_only_def split: option.splits)
    have "ledger_ob cfg q g'" for g'
      using q by (cases q) (auto simp: ledger_ob_def)
    then show ?case
      using Ask(1) k by (auto split: option.split)
  qed simp
  then show "reads_only p \<Longrightarrow> honours cfg p"
    by (simp add: honours_def lwp_def)
qed

text \<open>Whatever a reading handler establishes of its value and its account holds when it is done, and
  the account is true of the database then.\<close>

lemma served_lwp:
  assumes "served sv H s p x s'" "documented (lc_tables cfg) schema sv" "tables_ok (lc_tables cfg)"
    and "lwp cfg p Q g" "reads_only p" "informed cfg (sy_db s) g"
  shows "\<exists>g'. Q x g' \<and> informed cfg (sy_db s') g'"
  using assms(1,4,5,6)
proof (induction arbitrary: g rule: served.induct)
  case (served_answer p r q p' s d' x s')
  have "ledger_ok cfg q r g"
    using reads_only_answer(1) [OF served_answer.prems(2) served_answer.hyps(1)]
    by (cases q) (auto simp: ledger_ok_def)
  then have "lwp cfg p' Q (ledger_up cfg q r g)"
    using wp_answer [OF _ served_answer.hyps(1)] served_answer.prems(1) by (auto simp: lwp_wp [OF assms(3)])
  moreover have "informed cfg d' (ledger_up cfg q r g)"
    by (rule informed_answered [OF served_answer.prems(3) documentedD(2) [OF assms(2) served_answer.hyps(2)]])
  ultimately show ?case
    using served_answer.IH reads_only_answer(2) [OF served_answer.prems(2) served_answer.hyps(1)] by simp
next
  case (served_meanwhile s s1 p x s')
  show ?case
    by (rule served_meanwhile.IH [OF served_meanwhile.prems(1,2)
          informed_extends [OF served_meanwhile.prems(3) step_extends [OF assms(2) served_meanwhile.hyps(1)]]])
qed (use assms(3) in auto)

section \<open>What \<open>/queue_num\<close> answers\<close>

lemma queue_num_reads_only: "reads_only (handle_queue_num ctx slot req)"
proof -
  have p: "reads_only (respond_from_position ctx rid)" for rid
    unfolding respond_from_position_def
    by (rule reads_only_bind_ok) (auto simp: read_load_position_def split: sum.split option.split prod.split)
  have n: "reads_only (queue_num_of ctx c rid)" for c rid
    unfolding queue_num_of_def
    by (rule reads_only_bind_ok)
      (auto simp: read_load_prequeue_def p split: sum.split option.split resolved_queue_num.split queue_num_error.split)
  show ?thesis
    unfolding handle_queue_num_def
    by (auto simp: read_load_counters_def Let_def n intro!: reads_only_bind
        split: option.split sum.split prod.split)
qed

lemma read_route_reads_only: "reads_only (read_route ctx slot req)"
proof -
  have "reads_only (handle_status ctx slot)"
    unfolding handle_status_def
    by (auto simp: read_load_counters_def Let_def intro!: reads_only_bind
        split: option.split sum.split prod.split)
  then show ?thesis
    by (simp add: read_route_def queue_num_reads_only)
qed

text \<open>A cached item is a version of the event's item that some earlier request of the same execution
  environment read.\<close>

definition cached :: "ledger_cfg \<Rightarrow> db \<Rightarrow> counters_slot \<Rightarrow> bool" where
  "cached cfg d slot \<longleftrightarrow> (\<forall>t c. slot = Some (t, Some c) \<longrightarrow>
     (\<exists>m. version d (tb_counters (lc_tables cfg)) (event_key cfg) m \<and> c = from_item (lc_event cfg) m))"

definition slot_account :: "counters_slot \<Rightarrow> ghost" where
  "slot_account slot = ghost0\<lparr>gh_open := (case slot of Some (t, Some c) \<Rightarrow> open_outputs c | _ \<Rightarrow> None)\<rparr>"

lemma slot_account_ok: "slot_ok slot (slot_account slot)"
  by (auto simp: slot_ok_def slot_account_def)

lemma cached_informed: "cached cfg d slot \<Longrightarrow> informed cfg d (slot_account slot)"
  by (auto simp: cached_def informed_def slot_account_def ghost0_def split: option.splits)

lemma queue_num_holds:
  assumes "documented (lc_tables cfg) schema sv" "tables_ok (lc_tables cfg)"
    and "rx_tables ctx = lc_tables cfg" "rx_hmac ctx = lc_hmac cfg" "rx_event_id ctx = lc_event cfg"
    and "served sv H s (handle_queue_num ctx slot req) (a, slot') s'" "cached cfg (sy_db s) slot"
    and "rq_query req ''request_id'' = Some rid" "answers_position a p"
  shows "holds_position cfg (sy_db s') rid p"
proof -
  have "lwp cfg (handle_queue_num ctx slot req)
      (\<lambda>(r, slot') g'. slot_ok slot' g' \<and> (\<forall>p. answers_position r p \<longrightarrow> entitled cfg g' rid p)) (slot_account slot)"
    by (rule queue_num_entitled [OF assms(3-5) slot_account_ok assms(8)])
  from served_lwp [OF assms(6,1,2) this queue_num_reads_only cached_informed [OF assms(7)]]
  obtain g' where "entitled cfg g' rid p" "informed cfg (sy_db s') g'"
    using assms(9) by auto
  then show ?thesis
    using informed_entitled by blast
qed

end
