(* ===== verification/Text.thy ===== *)
theory Text
  imports Prelude "HOL-Library.Sublist"
begin

text \<open>
  The string operations of the operator's forms, on UTF-8 texts: \<open>char::is_whitespace\<close>, \<open>str::trim\<close>,
  \<open>split_once(char::is_whitespace)\<close>, \<open>str::lines\<close> and \<open>str::split\<close>.  A text is its bytes; a white-space character
  is one to three of them (Unicode's \<open>White_Space\<close>).

  Lemmas: what a trimmed text looks like (\<open>trimmed\<close>), that trimming yields it and leaves it alone, and
  that a part cut off at white space has none of it.
\<close>

section \<open>White space\<close>

text \<open>U+0009 to U+000D, U+0020; U+0085, U+00A0; U+1680, U+2000 to U+200A, U+2028, U+2029, U+202F,
  U+205F, U+3000.\<close>

definition ws_chars :: "string list" where
  "ws_chars =
     [[CHR 0x09], [CHR 0x0A], [CHR 0x0B], [CHR 0x0C], [CHR 0x0D], [CHR 0x20],
      [CHR 0xC2, CHR 0x85], [CHR 0xC2, CHR 0xA0], [CHR 0xE1, CHR 0x9A, CHR 0x80],
      [CHR 0xE2, CHR 0x80, CHR 0x80], [CHR 0xE2, CHR 0x80, CHR 0x81], [CHR 0xE2, CHR 0x80, CHR 0x82],
      [CHR 0xE2, CHR 0x80, CHR 0x83], [CHR 0xE2, CHR 0x80, CHR 0x84], [CHR 0xE2, CHR 0x80, CHR 0x85],
      [CHR 0xE2, CHR 0x80, CHR 0x86], [CHR 0xE2, CHR 0x80, CHR 0x87], [CHR 0xE2, CHR 0x80, CHR 0x88],
      [CHR 0xE2, CHR 0x80, CHR 0x89], [CHR 0xE2, CHR 0x80, CHR 0x8A], [CHR 0xE2, CHR 0x80, CHR 0xA8],
      [CHR 0xE2, CHR 0x80, CHR 0xA9], [CHR 0xE2, CHR 0x80, CHR 0xAF], [CHR 0xE2, CHR 0x81, CHR 0x9F],
      [CHR 0xE3, CHR 0x80, CHR 0x80]]"

text \<open>The length of the white-space character a text begins or ends with, zero if with none.\<close>

definition ws_head :: "string \<Rightarrow> nat" where
  "ws_head s = (case find (\<lambda>w. prefix w s) ws_chars of Some w \<Rightarrow> length w | None \<Rightarrow> 0)"

definition ws_tail :: "string \<Rightarrow> nat" where
  "ws_tail s = (case find (\<lambda>w. suffix w s) ws_chars of Some w \<Rightarrow> length w | None \<Rightarrow> 0)"

lemma ws_chars_ne: "w \<in> set ws_chars \<Longrightarrow> w \<noteq> []"
  by (auto simp: ws_chars_def)

lemma ws_head_0: "ws_head s = 0 \<longleftrightarrow> (\<forall>w\<in>set ws_chars. \<not> prefix w s)"
  using ws_chars_ne by (auto simp: ws_head_def find_None_iff find_Some_iff split: option.splits)

lemma ws_tail_0: "ws_tail s = 0 \<longleftrightarrow> (\<forall>w\<in>set ws_chars. \<not> suffix w s)"
  using ws_chars_ne by (auto simp: ws_tail_def find_None_iff find_Some_iff split: option.splits)

lemma find_sound: "find P xs = Some x \<Longrightarrow> x \<in> set xs \<and> P x"
  by (induction xs) (auto split: if_splits)

lemma ws_head_cases:
  assumes "ws_head s \<noteq> 0"
  obtains w where "w \<in> set ws_chars" "s = w @ drop (ws_head s) s" "ws_head s = length w"
proof -
  obtain w where f: "find (\<lambda>w. prefix w s) ws_chars = Some w"
    using assms by (auto simp: ws_head_def split: option.splits)
  show ?thesis
    using find_sound [OF f] f by (intro that [of w]) (auto simp: ws_head_def prefix_def)
qed

lemma ws_tail_cases:
  assumes "ws_tail s \<noteq> 0"
  obtains w where "w \<in> set ws_chars" "s = take (length s - ws_tail s) s @ w" "ws_tail s = length w"
proof -
  obtain w where f: "find (\<lambda>w. suffix w s) ws_chars = Some w"
    using assms by (auto simp: ws_tail_def split: option.splits)
  show ?thesis
    using find_sound [OF f] f by (intro that [of w]) (auto simp: ws_tail_def suffix_def)
qed

section \<open>Trimming\<close>

function trim_start :: "string \<Rightarrow> string" where
  "trim_start s = (if ws_head s = 0 then s else trim_start (drop (ws_head s) s))"
  by auto

termination
proof (relation "measure length")
  fix s :: string
  assume h: "ws_head s \<noteq> 0"
  then have "s \<noteq> []"
    using ws_chars_ne by (auto simp: ws_head_0 prefix_def)
  then show "(drop (ws_head s) s, s) \<in> measure length"
    using h by simp
qed simp

function trim_end :: "string \<Rightarrow> string" where
  "trim_end s = (if ws_tail s = 0 then s else trim_end (take (length s - ws_tail s) s))"
  by auto

termination
proof (relation "measure length")
  fix s :: string
  assume h: "ws_tail s \<noteq> 0"
  then have "s \<noteq> []"
    using ws_chars_ne by (auto simp: ws_tail_0)
  then show "(take (length s - ws_tail s) s, s) \<in> measure length"
    using h by simp
qed simp

declare trim_start.simps [simp del] trim_end.simps [simp del]

definition utrim :: "string \<Rightarrow> string" where
  "utrim s = trim_end (trim_start s)"

section \<open>Splitting\<close>

fun split_ws :: "string \<Rightarrow> (string \<times> string) option" where
  "split_ws [] = None"
| "split_ws (c # cs) =
     (if ws_head (c # cs) \<noteq> 0 then Some ([], drop (ws_head (c # cs)) (c # cs))
      else map_option (\<lambda>(a, b). (c # a, b)) (split_ws cs))"

definition strip_cr :: "string \<Rightarrow> string" where
  "strip_cr l = (if l \<noteq> [] \<and> last l = CHR 0x0D then butlast l else l)"

text \<open>\<open>cur\<close> is the line read so far.\<close>

fun lines_from :: "string \<Rightarrow> string \<Rightarrow> string list" where
  "lines_from cur [] = (if cur = [] then [] else [cur])"
| "lines_from cur (c # cs) =
     (if c = CHR 0x0A then strip_cr cur # lines_from [] cs else lines_from (cur @ [c]) cs)"

definition lines :: "string \<Rightarrow> string list" where
  "lines s = lines_from [] s"

text \<open>\<open>str::split\<close> with a character, and \<open>find_map\<close>.\<close>

fun split_char :: "char \<Rightarrow> string \<Rightarrow> string list" where
  "split_char d [] = [[]]"
| "split_char d (c # cs) =
     (if c = d then [] # split_char d cs
      else (case split_char d cs of s # ss \<Rightarrow> (c # s) # ss | [] \<Rightarrow> [[c]]))"

fun find_map :: "('a \<Rightarrow> 'b option) \<Rightarrow> 'a list \<Rightarrow> 'b option" where
  "find_map f [] = None"
| "find_map f (x # xs) = (case f x of Some y \<Rightarrow> Some y | None \<Rightarrow> find_map f xs)"

section \<open>Trimmed texts\<close>

definition trimmed :: "string \<Rightarrow> bool" where
  "trimmed s \<longleftrightarrow> s \<noteq> [] \<and> ws_head s = 0 \<and> ws_tail s = 0"

lemma utrim_trimmed: "trimmed s \<Longrightarrow> utrim s = s"
  by (simp add: trimmed_def utrim_def trim_start.simps trim_end.simps)

lemma trim_start_suffix: "suffix (trim_start s) s \<and> ws_head (trim_start s) = 0"
proof (induction s rule: trim_start.induct)
  case (1 s)
  show ?case
    using 1 suffix_drop [of "ws_head s" s] suffix_order.trans
    by (subst (1 2) trim_start.simps) auto
qed

lemma trim_end_prefix: "prefix (trim_end s) s \<and> ws_tail (trim_end s) = 0"
proof (induction s rule: trim_end.induct)
  case (1 s)
  show ?case
    using 1 take_is_prefix [of "length s - ws_tail s" s] prefix_order.trans
    by (subst (1 2) trim_end.simps) auto
qed

lemma ws_head_prefix: "prefix t s \<Longrightarrow> ws_head s = 0 \<Longrightarrow> ws_head t = 0"
  using prefix_order.trans by (auto simp: ws_head_0)

lemma ws_tail_suffix: "suffix t s \<Longrightarrow> ws_tail s = 0 \<Longrightarrow> ws_tail t = 0"
  using suffix_order.trans by (auto simp: ws_tail_0)

lemma utrim_ends: "ws_head (utrim s) = 0" "ws_tail (utrim s) = 0"
  using trim_start_suffix [of s] trim_end_prefix [of "trim_start s"] ws_head_prefix
  unfolding utrim_def by blast+

lemma utrim_is_trimmed: "utrim s \<noteq> [] \<Longrightarrow> trimmed (utrim s)"
  by (simp add: trimmed_def utrim_ends)

lemma set_utrim: "set (utrim s) \<subseteq> set s"
  using trim_start_suffix [of s] trim_end_prefix [of "trim_start s"]
  unfolding utrim_def by (meson set_mono_prefix set_mono_suffix subset_trans)

text \<open>A text that trims to nothing ends in white space.\<close>

lemma trim_start_nothing: "trim_start s = [] \<Longrightarrow> s \<noteq> [] \<Longrightarrow> ws_tail s \<noteq> 0"
proof (induction s rule: trim_start.induct)
  case (1 s)
  have h: "ws_head s \<noteq> 0"
    using 1(2,3) by (metis trim_start.simps)
  then obtain w where w: "w \<in> set ws_chars" "s = w @ drop (ws_head s) s"
    by (rule ws_head_cases)
  show ?case
  proof (cases "drop (ws_head s) s = []")
    case True
    then have "suffix w s"
      using w(2) by simp
    then show ?thesis
      using w(1) by (auto simp: ws_tail_0)
  next
    case False
    moreover have "trim_start (drop (ws_head s) s) = []"
      using 1(2) h by (metis trim_start.simps)
    ultimately have "ws_tail (drop (ws_head s) s) \<noteq> 0"
      by (rule 1(1) [OF h, rotated])
    then show ?thesis
      by (metis ws_tail_suffix suffix_drop)
  qed
qed

lemma utrim_tail:
  assumes "ws_tail s = 0" "s \<noteq> []"
  shows "utrim s = trim_start s" "utrim s \<noteq> []"
proof -
  have "ws_tail (trim_start s) = 0"
    using trim_start_suffix [of s] ws_tail_suffix assms(1) by blast
  then show t: "utrim s = trim_start s"
    unfolding utrim_def by (simp add: trim_end.simps)
  show "utrim s \<noteq> []"
    unfolding t using trim_start_nothing [of s] assms by blast
qed

section \<open>Cutting at white space\<close>

lemma split_ws_SomeD:
  "split_ws s = Some (a, b) \<Longrightarrow>
     (\<exists>w\<in>set ws_chars. s = a @ w @ b) \<and> (\<forall>k<length a. ws_head (drop k s) = 0)"
proof (induction s arbitrary: a)
  case (Cons c cs)
  show ?case
  proof (cases "ws_head (c # cs) = 0")
    case True
    then obtain a' where a: "a = c # a'" "split_ws cs = Some (a', b)"
      using Cons(2) by auto
    have "ws_head (drop k (c # cs)) = 0" if "k < length a" for k
      using that Cons(1) [OF a(2)] True a(1) by (cases k) auto
    then show ?thesis
      using Cons(1) [OF a(2)] a(1) by auto
  next
    case False
    then obtain w where w: "w \<in> set ws_chars" "c # cs = w @ drop (ws_head (c # cs)) (c # cs)"
      by (rule ws_head_cases)
    have "a = []" "b = drop (ws_head (c # cs)) (c # cs)"
      using Cons(2) False by auto
    then show ?thesis
      using w by auto
  qed
qed simp

lemma space_char: "w \<in> set ws_chars \<Longrightarrow> CHR '' '' \<in> set w \<Longrightarrow> w = '' ''"
  by (auto simp: ws_chars_def)

lemma space_in: "'' '' \<in> set ws_chars"
  by (simp add: ws_chars_def)

lemma ws_head_space: "ws_head (CHR '' '' # s) = 1"
proof -
  have "ws_head (CHR '' '' # s) \<noteq> 0"
    unfolding ws_head_0 using space_in by (auto intro!: bexI [OF _ space_in])
  then obtain w where w: "w \<in> set ws_chars" "CHR '' '' # s = w @ drop (ws_head (CHR '' '' # s)) (CHR '' '' # s)"
      "ws_head (CHR '' '' # s) = length w"
    by (rule ws_head_cases)
  obtain x w' where x: "w = x # w'"
    using ws_chars_ne [OF w(1)] by (cases w) simp_all
  then have "CHR '' '' \<in> set w"
    using w(2) by (metis append_Cons list.inject list.set_intros(1))
  then have "w = '' ''"
    by (rule space_char [OF w(1)])
  then show ?thesis
    using w(3) by simp
qed

lemma ws_head_before_space:
  assumes "ws_head a = 0" "a \<noteq> []"
  shows "ws_head (a @ CHR '' '' # b) = 0"
proof -
  have False if w: "w \<in> set ws_chars" "prefix w (a @ CHR '' '' # b)" for w
  proof -
    have "prefix w a \<or> (\<exists>x. w = a @ CHR '' '' # x)"
      using w(2) by (auto simp: prefix_append prefix_Cons)
    then show False
    proof
      assume "prefix w a"
      then show False
        using w(1) assms(1) by (auto simp: ws_head_0)
    next
      assume "\<exists>x. w = a @ CHR '' '' # x"
      then obtain x where x: "w = a @ CHR '' '' # x" by blast
      then have "w = '' ''"
        by (intro space_char [OF w(1)]) simp
      then show False
        using x assms(2) by (cases a) simp_all
    qed
  qed
  then show ?thesis
    by (auto simp: ws_head_0)
qed

lemma split_ws_space:
  "(\<And>k. k < length a \<Longrightarrow> ws_head (drop k a) = 0) \<Longrightarrow> split_ws (a @ CHR '' '' # b) = Some (a, b)"
proof (induction a)
  case (Cons c cs)
  have "ws_head (drop k cs) = 0" if "k < length cs" for k
    using Cons(2) [of "Suc k"] that by simp
  then show ?case
    using Cons(1) Cons(2) [of 0] ws_head_before_space [of "c # cs" b] by simp
qed (simp add: ws_head_space)

lemma trimmed_behind_space:
  assumes "ws_head (a @ CHR '' '' # v) = 0" "trimmed v"
  shows "trimmed (a @ CHR '' '' # v)"
proof -
  have False if w: "w \<in> set ws_chars" "suffix w (a @ CHR '' '' # v)" for w
  proof -
    have "suffix w v \<or> (\<exists>x. w = x @ CHR '' '' # v)"
      using w(2) by (auto simp: suffix_append suffix_Cons)
    then show False
    proof
      assume "suffix w v"
      then show False
        using w(1) assms(2) by (auto simp: trimmed_def ws_tail_0)
    next
      assume "\<exists>x. w = x @ CHR '' '' # v"
      then obtain x where x: "w = x @ CHR '' '' # v" by blast
      then have "w = '' ''"
        by (intro space_char [OF w(1)]) simp
      then show False
        using x assms(2) by (cases x) (simp_all add: trimmed_def)
    qed
  qed
  then show ?thesis
    using assms(1) by (auto simp: trimmed_def ws_tail_0)
qed

section \<open>Lines\<close>

lemma lines_from_line:
  "CHR 0x0A \<notin> set l \<Longrightarrow> lines_from cur (l @ CHR 0x0A # rest) = strip_cr (cur @ l) # lines_from [] rest"
  by (induction l arbitrary: cur) auto

lemma lines_from_no_newline: "CHR 0x0A \<notin> set cur \<Longrightarrow> l \<in> set (lines_from cur s) \<Longrightarrow> CHR 0x0A \<notin> set l"
proof (induction cur s rule: lines_from.induct)
  case (2 cur c cs)
  have "set (strip_cr cur) \<subseteq> set cur"
    by (auto simp: strip_cr_def dest: in_set_butlastD)
  then show ?case
    using 2 by (auto split: if_splits)
qed (auto split: if_splits)

lemma strip_cr_trimmed: "ws_tail l = 0 \<Longrightarrow> strip_cr l = l"
proof -
  assume t: "ws_tail l = 0"
  have "[CHR 0x0D] \<in> set ws_chars"
    by (simp add: ws_chars_def)
  then have "\<not> suffix [CHR 0x0D] l"
    using t by (simp add: ws_tail_0)
  then show ?thesis
    by (cases l rule: rev_cases) (auto simp: strip_cr_def suffix_def)
qed

end
