(* ===== verification/Nojs.thy ===== *)
theory Nojs
  imports Join Admission Rules Text
begin

text \<open>
  \<open>crates/nojs/src/\<close>: the queue for a visitor without JavaScript: the identity cookie, the
  same-site \<open>next\<close> path, the join it enqueues and the wait page's admission.  The page is rendered
  by a template engine, which is a parameter from the fields of \<open>WaitHtml\<close> to text; so are the
  text of a JSON value (\<open>serde_json\<close>) and the formatting of a UUID (\<open>uuid\<close>).  A raw query
  string is added to the request.  Clock readings are milliseconds.

  Lemmas: the identity cookie reads back (\<open>identity_parse_iff\<close>); a \<open>next\<close> path never leaves the
  site and survives its own encoding (\<open>safe_next_reads_back\<close>); the join a minted identity enqueues
  is one that the assignment Lambda accepts; the handler honours the ledger.
\<close>

section \<open>Identity\<close>

definition IDENTITY_COOKIE :: string where "IDENTITY_COOKIE = ''vwr_nojs''"
definition IDENTITY_COOKIE_PATH :: string where "IDENTITY_COOKIE_PATH = ''/v1/''"
definition IDENTITY_MAX_AGE_SECS :: u64 where "IDENTITY_MAX_AGE_SECS = 86400"
definition ENTER_PATH :: string where "ENTER_PATH = ''/v1/enter''"
definition WAIT_PATH :: string where "WAIT_PATH = ''/v1/wait''"

record identity =
  id_request_id :: string
  id_secret :: possession_secret

datatype rng_unavailable = RngUnavailable

text \<open>The libraries: a version 7 UUID from a time and ten random bytes, base64url without padding,
  and the text of a JSON value.\<close>

record nojs_env =
  ne_crypto :: crypto_env
  ne_uuid :: "u64 \<Rightarrow> u8 list \<Rightarrow> string"
  ne_b64 :: "u8 list \<Rightarrow> string"
  ne_json_text :: "json \<Rightarrow> string"

definition identity_of_bytes :: "nojs_env \<Rightarrow> u64 \<Rightarrow> u8 list \<Rightarrow> u8 list \<Rightarrow> rng_unavailable + identity" where
  "identity_of_bytes env now_ms id_bits secret =
     (case possession_parse (ne_b64 env secret) of
        Inl _ \<Rightarrow> Inl RngUnavailable
      | Inr s \<Rightarrow> Inr \<lparr>id_request_id = ne_uuid env now_ms id_bits, id_secret = s\<rparr>)"

definition identity_mint :: "nojs_env \<Rightarrow> u64 \<Rightarrow> (rng_unavailable + identity) prog" where
  "identity_mint env now_ms =
     RandFill 10 (\<lambda>id_bits.
       case id_bits of
         None \<Rightarrow> Done (Inl RngUnavailable)
       | Some id_bits \<Rightarrow>
           RandFill 32 (\<lambda>secret.
             case secret of
               None \<Rightarrow> Done (Inl RngUnavailable)
             | Some secret \<Rightarrow> Done (identity_of_bytes env now_ms id_bits secret)))"

definition identity_parse :: "string \<Rightarrow> identity option" where
  "identity_parse v =
     (case split_once (CHR ''.'') v of
        None \<Rightarrow> None
      | Some (request_id, secret) \<Rightarrow>
          if \<not> is_uuid_shape request_id then None
          else (case possession_parse secret of
                  Inl _ \<Rightarrow> None
                | Inr s \<Rightarrow> Some \<lparr>id_request_id = request_id, id_secret = s\<rparr>))"

definition cookie_value :: "identity \<Rightarrow> string" where
  "cookie_value i = id_request_id i @ ''.'' @ expose (id_secret i)"

definition set_cookie :: "identity \<Rightarrow> string" where
  "set_cookie i = IDENTITY_COOKIE @ ''='' @ cookie_value i @ ''; Path='' @ IDENTITY_COOKIE_PATH
     @ ''; Max-Age='' @ show_u64 IDENTITY_MAX_AGE_SECS @ ''; Secure; HttpOnly; SameSite=Lax''"

definition join_body :: "nojs_env \<Rightarrow> identity \<Rightarrow> string \<Rightarrow> string" where
  "join_body env i event_id =
     ne_json_text env (JObj [(''request_id'', JStr (id_request_id i)), (''event_id'', JStr event_id),
       (''h'', JStr (digest_as_str (possession_digest (ce_sha (ne_crypto env)) (id_secret i))))])"

definition clear_identity_cookie :: string where
  "clear_identity_cookie = IDENTITY_COOKIE @ ''=; Path='' @ IDENTITY_COOKIE_PATH
     @ ''; Max-Age=0; Secure; HttpOnly; SameSite=Lax''"

definition identity_from_cookies :: "string \<Rightarrow> identity option" where
  "identity_from_cookies header =
     find_map (\<lambda>pair.
       case split_once (CHR ''='') (trim pair) of
         None \<Rightarrow> None
       | Some (name, v) \<Rightarrow> if name = IDENTITY_COOKIE then identity_parse v else None)
       (split_char (CHR '';'') header)"

section \<open>The join\<close>

datatype queue_error = QueueError string

definition sqs_send :: "string \<Rightarrow> string \<Rightarrow> (queue_error + unit) prog" where
  "sqs_send queue_url body =
     SqsSend queue_url body (\<lambda>r. case r of Inl e \<Rightarrow> Done (Inl (QueueError e)) | Inr _ \<Rightarrow> Done (Inr ()))"

definition enter :: "nojs_env \<Rightarrow> string \<Rightarrow> string \<Rightarrow> identity \<Rightarrow> (queue_error + unit) prog" where
  "enter env queue_url event_id i = sqs_send queue_url (join_body env i event_id)"

section \<open>The next path\<close>

text \<open>\<open>u8::from_str_radix\<close> on two characters: a leading \<open>+\<close> is accepted.\<close>

definition hex_pair :: "char \<Rightarrow> char \<Rightarrow> char option" where
  "hex_pair a b =
     (case hex_digit 16 b of
        None \<Rightarrow> None
      | Some lo \<Rightarrow>
          if a = CHR ''+'' then Some (char_of lo)
          else (case hex_digit 16 a of None \<Rightarrow> None | Some hi \<Rightarrow> Some (char_of (16 * hi + lo))))"

text \<open>The loop of \<open>percent_decode\<close> on the bytes that are left.  A pair of bytes that is not on a
  character boundary holds a byte that is no digit, so it fails either way.\<close>

fun form_decode_bytes :: "string \<Rightarrow> string option" where
  "form_decode_bytes [] = Some []"
| "form_decode_bytes (c # cs) =
     (if c = CHR ''%'' then
        (case cs of
           a # b # rest \<Rightarrow>
             (case hex_pair a b of
                None \<Rightarrow> None
              | Some x \<Rightarrow> map_option ((#) x) (form_decode_bytes rest))
         | _ \<Rightarrow> None)
      else if c = CHR ''+'' then map_option ((#) (CHR '' '')) (form_decode_bytes cs)
      else map_option ((#) c) (form_decode_bytes cs))"

definition form_decode :: "string \<Rightarrow> string option" where
  "form_decode s = Option.bind (form_decode_bytes s) from_utf8"

text \<open>\<open>char::is_control\<close> over the characters of a well-formed string: below U+0020, U+007F, and
  U+0080 to U+009F, whose encoding starts with the byte C2.\<close>

fun has_control :: "string \<Rightarrow> bool" where
  "has_control [] = False"
| "has_control (c # cs) =
     (let k = of_char c :: nat in
      k < 32 \<or> k = 127
      \<or> (k = 194 \<and> (case cs of d # _ \<Rightarrow> (of_char d :: nat) < 160 | [] \<Rightarrow> False))
      \<or> has_control cs)"

definition safe_next :: "string option \<Rightarrow> string" where
  "safe_next raw =
     (case Option.bind raw form_decode of
        None \<Rightarrow> ''/''
      | Some decoded \<Rightarrow>
          (let first = (case decoded of c # _ \<Rightarrow> Some c | [] \<Rightarrow> None);
               second = (case decoded of _ # c # _ \<Rightarrow> Some c | _ \<Rightarrow> None)
           in if first \<noteq> Some (CHR ''/'') \<or> second = Some (CHR ''/'') \<or> second = Some (CHR 0x5C)
                 \<or> has_control decoded
              then ''/'' else decoded))"

definition strip_prefix :: "string \<Rightarrow> string \<Rightarrow> string option" where
  "strip_prefix s pre = (if starts_with s pre then Some (drop (length pre) s) else None)"

definition next_param :: "string \<Rightarrow> string option" where
  "next_param query =
     find_map (\<lambda>pair. strip_prefix pair ''next='')
       (split_char (CHR ''&'') (dropWhile (\<lambda>c. c = CHR ''?'') query))"

definition next_from_referer :: "string option \<Rightarrow> string" where
  "next_from_referer referer =
     (let query = map_option snd (Option.bind referer (split_once (CHR ''?''))) in
      safe_next (Option.bind query next_param))"

section \<open>What the visitor sees\<close>

datatype wait_page =
    NotInLine
  | Joining
  | Queued u64 u64 \<comment> \<open>position, ahead\<close>
  | Holding
  | Lost
  | Unavailable

datatype wait_outcome = Admit string | Show wait_page

fun refresh_secs :: "wait_page \<Rightarrow> u64 option" where
  "refresh_secs NotInLine = None"
| "refresh_secs Lost = None"
| "refresh_secs Joining = Some 5"
| "refresh_secs (Queued position ahead) = Some (if ahead < 100 then 5 else 20)"
| "refresh_secs Holding = Some 30"
| "refresh_secs Unavailable = Some 15"

fun page_of_denied :: "denied \<Rightarrow> wait_page" where
  "page_of_denied (StillQueued position serving) = Queued position (saturating_sub position serving)"
| "page_of_denied NotRegistered = Joining"
| "page_of_denied NotAdmitting = Holding"
| "page_of_denied DNotOpen = Holding"
| "page_of_denied NotHolder = Lost"
| "page_of_denied Corrupt = Unavailable"

definition outcome :: "admission \<Rightarrow> wait_outcome" where
  "outcome a =
     (case a of
        AdmissionAdmitted position expires_at credential \<Rightarrow> Admit credential
      | AdmissionRefused d \<Rightarrow> Show (page_of_denied d)
      | AdmissionEventNotFound \<Rightarrow> Show Unavailable
      | AdmissionSignFailed \<Rightarrow> Show Unavailable)"

record queued_text =
  qt_position :: string
  qt_ahead :: string

record wait_html =
  wh_title :: string
  wh_sub :: string
  wh_queued :: "queued_text option"
  wh_show_form :: bool
  wh_refresh :: "u64 option"
  wh_next_encoded :: string

text \<open>The loop of \<open>grouped\<close>: \<open>i\<close> is the index, \<open>n\<close> the number of digits.\<close>

fun grouped_loop :: "nat \<Rightarrow> nat \<Rightarrow> string \<Rightarrow> string" where
  "grouped_loop n i [] = []"
| "grouped_loop n i (c # cs) =
     (if 0 < i \<and> (n - i) mod 3 = 0 then CHR '','' # c # grouped_loop n (i + 1) cs
      else c # grouped_loop n (i + 1) cs)"

definition grouped :: "u64 \<Rightarrow> string" where
  "grouped n = (let digits = show_u64 n in grouped_loop (length digits) 0 digits)"

definition upper_hex :: "nat \<Rightarrow> char" where
  "upper_hex k = char_of (if k < 10 then 48 + k else 55 + k)"

definition unreserved :: "char \<Rightarrow> bool" where
  "unreserved b \<longleftrightarrow> is_ascii_alphanumeric b \<or> b = CHR ''-'' \<or> b = CHR ''_'' \<or> b = CHR ''.'' \<or> b = CHR ''~''"

definition encode_byte :: "char \<Rightarrow> string" where
  "encode_byte b =
     (if unreserved b then [b]
      else [CHR ''%'', upper_hex (of_char b div 16), upper_hex (of_char b mod 16)])"

definition encode_component :: "string \<Rightarrow> string" where
  "encode_component s = concat (map encode_byte s)"

definition ellipsis :: string where
  "ellipsis = [char_of (226::nat), char_of (128::nat), char_of (166::nat)]"

fun page_text :: "wait_page \<Rightarrow> string \<times> string" where
  "page_text NotInLine = (''You are not in line yet'',
     ''Join below. This works without JavaScript; the page refreshes itself while you wait.'')"
| "page_text Joining = (''Getting your place in line'' @ ellipsis, ''Just a moment.'')"
| "page_text (Queued position ahead) =
     (if ahead = 0 then (''You'' @ [CHR 0x27] @ ''re next'', ''Letting you through any moment.'')
      else (''You'' @ [CHR 0x27] @ ''re in line'',
        ''Keep this page open. You'' @ [CHR 0x27] @ ''ll be let through automatically.''))"
| "page_text Holding = (''You'' @ [CHR 0x27] @ ''re in line'',
     ''The line isn'' @ [CHR 0x27] @ ''t moving yet. You keep your place; this page updates on its own.'')"
| "page_text Lost = (''We couldn'' @ [CHR 0x27] @ ''t confirm this place is yours'',
     ''Join again to take a new place in line.'')"
| "page_text Unavailable = (''The waiting room is having trouble'',
     ''You keep your place. This page will try again on its own.'')"

definition wait_html_of :: "wait_page \<Rightarrow> string \<Rightarrow> wait_html" where
  "wait_html_of pg next_path =
     \<lparr>wh_title = fst (page_text pg), wh_sub = snd (page_text pg),
      wh_queued = (case pg of
          Queued position ahead \<Rightarrow> Some \<lparr>qt_position = grouped position, qt_ahead = grouped ahead\<rparr>
        | _ \<Rightarrow> None),
      wh_show_form = (case pg of NotInLine \<Rightarrow> True | Lost \<Rightarrow> True | _ \<Rightarrow> False),
      wh_refresh = refresh_secs pg,
      wh_next_encoded = encode_component next_path\<rparr>"

section \<open>The handler\<close>

record nojs_request = http_request +
  rq_raw_query :: "string option"

record nojs_state =
  nj_env :: nojs_env
  nj_render :: "wait_html \<Rightarrow> string + string"
  nj_queue_url :: string
  nj_token :: token_state

definition redirect :: "string \<Rightarrow> string option \<Rightarrow> (string + http_response) prog" where
  "redirect location cookie =
     Done (Inr \<lparr>rs_status = 303,
       rs_headers = [(''location'', location), (''cache-control'', ''no-store'')]
         @ (case cookie of Some c \<Rightarrow> [(''set-cookie'', c)] | None \<Rightarrow> []),
       rs_body = JNull\<rparr>)"

definition page_response ::
  "nojs_state \<Rightarrow> nat \<Rightarrow> wait_page \<Rightarrow> string \<Rightarrow> string option \<Rightarrow> (string + http_response) prog" where
  "page_response state code pg next_path cookie =
     (case nj_render state (wait_html_of pg next_path) of
        Inl e \<Rightarrow> Done (Inl e)
      | Inr html \<Rightarrow>
          Done (Inr \<lparr>rs_status = code,
            rs_headers = [(''content-type'', ''text/html; charset=utf-8''), (''cache-control'', ''no-store'')]
              @ (case cookie of Some c \<Rightarrow> [(''set-cookie'', c)] | None \<Rightarrow> []),
            rs_body = JStr html\<rparr>))"

text \<open>Minting and enqueueing, the second half of \<open>handle_enter\<close>.\<close>

definition enter_new :: "nojs_state \<Rightarrow> string \<Rightarrow> string \<Rightarrow> (string + http_response) prog" where
  "enter_new state next_path location =
     NowSecs (\<lambda>now_ms.
       bind (identity_mint (nj_env state) now_ms) (\<lambda>minted.
         case minted of
           Inl _ \<Rightarrow> page_response state 503 Unavailable next_path None
         | Inr i \<Rightarrow>
             bind (enter (nj_env state) (nj_queue_url state) (ts_event_id (nj_token state)) i) (\<lambda>sent.
               case sent of
                 Inl _ \<Rightarrow> page_response state 503 NotInLine next_path None
               | Inr _ \<Rightarrow> redirect location (Some (set_cookie i)))))"

definition handle_enter :: "nojs_state \<Rightarrow> nojs_request \<Rightarrow> (string + http_response) prog" where
  "handle_enter state req =
     (let next_path =
            (case Option.bind (rq_raw_query req) next_param of
               Some raw \<Rightarrow> safe_next (Some raw)
             | None \<Rightarrow> next_from_referer (rq_header req ''referer''));
          location = WAIT_PATH @ ''?next='' @ encode_component next_path
      in if Option.bind (rq_header req ''cookie'') identity_from_cookies \<noteq> None
         then redirect location None
         else enter_new state next_path location)"

definition handle_wait ::
  "admission_store \<Rightarrow> nojs_state \<Rightarrow> nojs_request \<Rightarrow> u64 \<Rightarrow> (string + http_response) prog" where
  "handle_wait st state req now =
     (let next_path = safe_next (Option.bind (rq_raw_query req) next_param) in
      case Option.bind (rq_header req ''cookie'') identity_from_cookies of
        None \<Rightarrow> page_response state 200 NotInLine next_path None
      | Some i \<Rightarrow>
          let minting = \<lparr>mi_key = ts_key (nj_token state), mi_event_id = ts_event_id (nj_token state),
                         mi_session_ttl_secs = ts_session_ttl_secs (nj_token state)\<rparr>;
              viewer = Option.bind (rq_header req ''cloudfront-viewer-address'') viewer_ip_of
          in bind (admit (ne_crypto (nj_env state)) st minting (id_request_id i) (id_secret i) viewer now) (\<lambda>r.
               case r of
                 Inl _ \<Rightarrow> page_response state 503 Unavailable next_path None
               | Inr a \<Rightarrow>
                   (case outcome a of
                      Admit credential \<Rightarrow>
                        redirect next_path (Some (session_set_cookie (ts_session_cookie_name (nj_token state))
                          credential (ts_session_ttl_secs (nj_token state))))
                    | Show Lost \<Rightarrow> page_response state 200 Lost next_path (Some clear_identity_cookie)
                    | Show pg \<Rightarrow> page_response state 200 pg next_path None)))"

definition str_ends_with :: "string \<Rightarrow> string \<Rightarrow> bool" where
  "str_ends_with s suf \<longleftrightarrow> strip_suffix s suf \<noteq> None"

definition nojs_handle ::
  "admission_store \<Rightarrow> nojs_state \<Rightarrow> nojs_request \<Rightarrow> (string + http_response) prog" where
  "nojs_handle st state req =
     (if rq_method req = ''POST'' \<and> str_ends_with (rq_path req) ENTER_PATH then handle_enter state req
      else if rq_method req = ''GET'' \<and> str_ends_with (rq_path req) WAIT_PATH
      then NowSecs (\<lambda>now_ms. handle_wait st state req (now_ms div 1000))
      else Done (Inr \<lparr>rs_status = 404, rs_headers = [(''cache-control'', ''no-store'')],
             rs_body = JStr ''not found''\<rparr>))"

section \<open>Identity reads back\<close>

lemma possession_parse_Inr: "possession_parse s = Inr p \<longleftrightarrow> is_b64url_32 s \<and> p = PossessionSecret s"
  by (auto simp: possession_parse_def)

lemma uuid_no_dot: "is_uuid_shape s \<Longrightarrow> CHR ''.'' \<notin> set s"
  by (auto simp: uuid_shape_iff in_set_conv_nth uuid_byte_ok_def is_ascii_hexdigit_def split: if_splits)

lemma identity_parse_iff:
  "identity_parse v = Some i \<longleftrightarrow>
     v = cookie_value i \<and> is_uuid_shape (id_request_id i) \<and> is_b64url_32 (expose (id_secret i))"
proof
  assume l: "identity_parse v = Some i"
  then obtain r s where rs: "split_once (CHR ''.'') v = Some (r, s)" "is_uuid_shape r" "is_b64url_32 s"
      "i = \<lparr>id_request_id = r, id_secret = PossessionSecret s\<rparr>"
    by (auto simp: identity_parse_def possession_parse_Inr split: option.splits if_splits sum.splits)
  then show "v = cookie_value i \<and> is_uuid_shape (id_request_id i) \<and> is_b64url_32 (expose (id_secret i))"
    using split_once_SomeD [OF rs(1)] by (simp add: cookie_value_def)
next
  assume r: "v = cookie_value i \<and> is_uuid_shape (id_request_id i) \<and> is_b64url_32 (expose (id_secret i))"
  then have "split_once (CHR ''.'') v = Some (id_request_id i, expose (id_secret i))"
    using split_once_append [OF uuid_no_dot] by (simp add: cookie_value_def)
  then show "identity_parse v = Some i"
    using r by (simp add: identity_parse_def possession_parse_Inr possession_parse_def)
qed

section \<open>The next path stays on the site\<close>

text \<open>What \<open>safe_next\<close> lets through.\<close>

definition same_site :: "string \<Rightarrow> bool" where
  "same_site p \<longleftrightarrow> (\<exists>rest. p = CHR ''/'' # rest \<and> (\<forall>c cs. rest = c # cs \<longrightarrow> c \<noteq> CHR ''/'' \<and> c \<noteq> CHR 0x5C))
     \<and> \<not> has_control p \<and> utf8_valid p"

lemma root_same_site: "same_site ''/''"
  by (simp add: same_site_def)

lemma form_decode_valid: "form_decode s = Some t \<Longrightarrow> utf8_valid t"
  by (auto simp: form_decode_def from_utf8_def bind_eq_Some_conv split: if_splits)

lemma safe_next_same_site: "same_site (safe_next raw)"
proof (cases "Option.bind raw form_decode")
  case (Some d)
  then have v: "utf8_valid d"
    using form_decode_valid by (auto simp: bind_eq_Some_conv)
  show ?thesis
  proof (cases d)
    case (Cons c cs)
    show ?thesis
      using root_same_site v by (cases cs) (auto simp: safe_next_def Some Cons Let_def same_site_def)
  qed (simp add: safe_next_def Some root_same_site)
qed (simp add: safe_next_def root_same_site)

lemma safe_next_id:
  assumes "form_decode raw = Some p" "same_site p"
  shows "safe_next (Some raw) = p"
  using assms by (cases "tl p") (auto simp: safe_next_def same_site_def Let_def)

section \<open>Encoding is undone by decoding\<close>

lemma upper_hex_digit: "k < 16 \<Longrightarrow> hex_digit 16 (upper_hex k) = Some k"
  by (simp add: hex_digit_def upper_hex_def of_char_of)

lemma upper_hex_not_plus: "k < 16 \<Longrightarrow> upper_hex k \<noteq> CHR ''+''"
  using upper_hex_digit [of k] by (auto simp: hex_digit_def)

lemma hex_pair_byte: "hex_pair (upper_hex (of_char b div 16)) (upper_hex (of_char b mod 16)) = Some b"
proof -
  have "(of_char b :: nat) < 256"
    by (rule nat_of_char_less_256)
  then have "(of_char b :: nat) div 16 < 16" "(of_char b :: nat) mod 16 < 16"
    by (simp_all add: less_mult_imp_div_less)
  moreover have "16 * (of_char b div 16) + of_char b mod 16 = (of_char b :: nat)"
    by simp
  ultimately show ?thesis
    by (simp add: hex_pair_def upper_hex_digit upper_hex_not_plus)
qed

lemma unreserved_plain: "unreserved b \<Longrightarrow> b \<noteq> CHR ''%'' \<and> b \<noteq> CHR ''+''"
  by (auto simp: unreserved_def is_ascii_alphanumeric_def)

lemma decode_encode_byte: "form_decode_bytes (encode_byte b @ rest) = map_option ((#) b) (form_decode_bytes rest)"
  using unreserved_plain [of b] by (auto simp: encode_byte_def hex_pair_byte)

lemma decode_encode: "form_decode_bytes (encode_component s) = Some s"
proof (induction s)
  case (Cons b bs)
  then show ?case
    using decode_encode_byte [of b "encode_component bs"] by (simp add: encode_component_def)
qed (simp add: encode_component_def)

section \<open>Query parameters\<close>

lemma split_char_none: "d \<notin> set s \<Longrightarrow> split_char d s = [s]"
  by (induction s) auto

lemma hex_digit_amp: "hex_digit 16 (CHR ''&'') = None"
  by code_simp

lemma encode_no_amp: "CHR ''&'' \<notin> set (encode_component s)"
proof -
  have "CHR ''&'' \<notin> set (encode_byte b)" for b
  proof -
    have amp: "CHR ''&'' \<noteq> upper_hex k" if "k < 16" for k
      using upper_hex_digit [OF that] by (metis hex_digit_amp option.distinct(1))
    have "(of_char b :: nat) div 16 < 16"
      using nat_of_char_less_256 [of b] by (simp add: less_mult_imp_div_less)
    then show ?thesis
      using amp [of "of_char b div 16"] amp [of "of_char b mod 16"]
      by (auto simp: encode_byte_def unreserved_def is_ascii_alphanumeric_def)
  qed
  then show ?thesis
    by (auto simp: encode_component_def)
qed

lemma starts_with_append: "starts_with (p @ s) p"
  by (induction p) auto

lemma next_param_encoded: "next_param (''next='' @ encode_component s) = Some (encode_component s)"
proof -
  let ?q = "''next='' @ encode_component s"
  have "split_char (CHR ''&'') ?q = [?q]"
    using encode_no_amp [of s] by (intro split_char_none) auto
  moreover have "strip_prefix ?q ''next='' = Some (encode_component s)"
    using starts_with_append [of "''next=''" "encode_component s"] by (simp add: strip_prefix_def)
  ultimately show ?thesis
    by (simp add: next_param_def)
qed

section \<open>The handler\<close>

lemma redirect_ok: "(\<And>r g'. Q r g') \<Longrightarrow> lwp cfg (redirect l c) Q g"
  by (simp add: redirect_def lwp_DoneI)

lemma page_response_ok: "(\<And>r g'. Q r g') \<Longrightarrow> lwp cfg (page_response s code pg n c) Q g"
  by (auto simp: page_response_def lwp_DoneI split: sum.split)

lemma enter_new_ok: "(\<And>r g'. Q r g') \<Longrightarrow> lwp cfg (enter_new s n l) Q g"
  unfolding enter_new_def identity_mint_def enter_def sqs_send_def
  by (auto intro!: page_response_ok redirect_ok lwp_DoneI split: option.split sum.split)

lemma handle_wait_ok:
  assumes "ts_event_id (nj_token s) = lc_event cfg" "ce_hmac (ne_crypto (nj_env s)) = lc_hmac cfg"
    and q: "\<And>r g'. Q r g'"
  shows "lwp cfg (handle_wait (dynamo_admission_store (lc_tables cfg)) s req now) Q g"
proof -
  have "lwp cfg (case outcome a of
                      Admit credential \<Rightarrow>
                        redirect n (Some (session_set_cookie (ts_session_cookie_name (nj_token s))
                          credential (ts_session_ttl_secs (nj_token s))))
                    | Show Lost \<Rightarrow> page_response s 200 Lost n (Some clear_identity_cookie)
                    | Show pg \<Rightarrow> page_response s 200 pg n None) Q g'" for a n g'
    using q by (auto intro!: page_response_ok redirect_ok split: wait_outcome.split wait_page.split)
  then show ?thesis
    unfolding handle_wait_def Let_def using assms
    by (auto intro!: page_response_ok das.admit_ok split: option.split sum.split)
qed

lemma nojs_handle_honours:
  assumes "ts_event_id (nj_token s) = lc_event cfg" "ce_hmac (ne_crypto (nj_env s)) = lc_hmac cfg"
  shows "honours cfg (nojs_handle (dynamo_admission_store (lc_tables cfg)) s req)"
  unfolding honours_def nojs_handle_def handle_enter_def Let_def
  using assms by (auto intro!: redirect_ok enter_new_ok handle_wait_ok lwp_DoneI)

section \<open>Properties\<close>

text \<open>C23: the identity cookie reads back exactly: a value parses to an identity if and only if it is
  that identity's own cookie value, with an id of UUID shape and a secret of the right alphabet and
  length; no truncated or foreign value is an identity.\<close>

theorem identity_cookie_roundtrip:
  "identity_parse v = Some i \<longleftrightarrow>
     v = cookie_value i \<and> is_uuid_shape (id_request_id i) \<and> is_b64url_32 (expose (id_secret i))"
  by (rule identity_parse_iff)

text \<open>C24: wherever an admitted visitor is sent lies on this site: it is a path with a single leading
  slash, not followed by a backslash, without control characters and well-formed, whatever the
  query string or the \<open>Referer\<close> said.\<close>

theorem next_stays_on_site: "same_site (safe_next raw) \<and> same_site (next_from_referer referer)"
  unfolding next_from_referer_def Let_def by (simp add: safe_next_same_site)

text \<open>C25: the path survives the trip through the browser: what the wait page's URL carries as the
  \<open>next\<close> of a redirect is read back as the same path.\<close>

theorem next_reads_back:
  "safe_next (next_param (''next='' @ encode_component (safe_next raw))) = safe_next raw"
proof -
  have s: "same_site (safe_next raw)"
    by (rule safe_next_same_site)
  then have "form_decode (encode_component (safe_next raw)) = Some (safe_next raw)"
    by (simp add: form_decode_def decode_encode from_utf8_def same_site_def)
  then show ?thesis
    unfolding next_param_encoded by (rule safe_next_id [OF _ s])
qed

text \<open>What the libraries promise: a formatted UUID has the shape, 32 bytes encode to 43 characters of
  the alphabet, a SHA-256 digest does too, and the text of a join's JSON object parses back.\<close>

definition nojs_libs :: "nojs_env \<Rightarrow> json_join \<Rightarrow> bool" where
  "nojs_libs env parse \<longleftrightarrow>
     (\<forall>ms bits. length bits = 10 \<longrightarrow> is_uuid_shape (ne_uuid env ms bits))
     \<and> (\<forall>bytes. length bytes = 32 \<longrightarrow> is_b64url_32 (ne_b64 env bytes))
     \<and> (\<forall>bytes. is_b64url_32 (ce_sha (ne_crypto env) bytes))
     \<and> (\<forall>r e h. parse (ne_json_text env (JObj [(''request_id'', JStr r), (''event_id'', JStr e), (''h'', JStr h)]))
          = Some (r, e, h))"

text \<open>C26: a join without JavaScript is a join: every identity that is minted, and the message it
  enqueues, is one the assignment Lambda accepts for the event, under the digest of the very secret
  the cookie keeps; minting fails only when the generator does.\<close>

theorem minted_join_accepted:
  assumes "nojs_libs env parse" "length id_bits = 10" "length secret = 32"
  shows "\<exists>i. identity_of_bytes env now_ms id_bits secret = Inr i
     \<and> identity_parse (cookie_value i) = Some i
     \<and> classify_record parse (join_body env i event_id) event_id
         = Accept \<lparr>jm_request_id = id_request_id i, jm_event_id = event_id,
                   jm_h = possession_digest (ce_sha (ne_crypto env)) (id_secret i)\<rparr>"
  using assms
  by (simp add: identity_of_bytes_def possession_parse_def identity_parse_iff nojs_libs_def
      classify_record_def parse_join_def join_body_def possession_digest_def digest_parse_def)

text \<open>An instance of the libraries: strings are written as marked characters up to a terminator.\<close>

fun ex_write :: "string \<Rightarrow> string" where
  "ex_write [] = '';''"
| "ex_write (c # cs) = CHR ''x'' # c # ex_write cs"

fun ex_read :: "string \<Rightarrow> string \<times> string" where
  "ex_read (a # c # cs) =
     (if a = CHR ''x'' then (case ex_read cs of (s, r) \<Rightarrow> (c # s, r)) else ([], c # cs))"
| "ex_read cs = ([], [])"

lemma ex_read_write [simp]: "ex_read (ex_write s @ r) = (s, r)"
proof (induction s)
  case Nil
  show ?case by (cases r) auto
qed simp

definition ex_parse :: json_join where
  "ex_parse text =
     (case ex_read text of (r, t) \<Rightarrow> (case ex_read t of (e, u) \<Rightarrow> Some (r, e, fst (ex_read u))))"

definition ex_nojs_env :: nojs_env where
  "ex_nojs_env = \<lparr>ne_crypto = \<lparr>ce_hmac = (\<lambda>_ _. 0), ce_b64 = (\<lambda>_. []), ce_sha = (\<lambda>_. replicate 43 (CHR ''x'')),
      ce_jwt = \<lparr>jwt_encode = (\<lambda>_ _. None), jwt_decode = (\<lambda>_ _. Inl OtherJwtError)\<rparr>\<rparr>,
     ne_uuid = (\<lambda>_ _. ''01890a5d-ac96-774b-bcce-b302099a8057''), ne_b64 = (\<lambda>_. replicate 43 (CHR ''y'')),
     ne_json_text = (\<lambda>j. case j of
        JObj [(_, JStr r), (_, JStr e), (_, JStr h)] \<Rightarrow> ex_write r @ ex_write e @ ex_write h @ [] | _ \<Rightarrow> [])\<rparr>"

lemma ex_nojs_libs: "nojs_libs ex_nojs_env ex_parse"
proof -
  have "is_uuid_shape ''01890a5d-ac96-774b-bcce-b302099a8057''"
    by code_simp
  moreover have "is_b64url_32 (replicate 43 (CHR ''x''))" "is_b64url_32 (replicate 43 (CHR ''y''))"
    by (simp_all add: is_b64url_32_def POSSESSION_B64_LEN_def is_ascii_alphanumeric_def list_all_iff)
  moreover have "ex_parse (ex_write r @ ex_write e @ ex_write h @ []) = Some (r, e, h)" for r e h
    using ex_read_write [of h "[]"] unfolding ex_parse_def by (simp del: append_Nil2)
  ultimately show ?thesis
    by (simp add: nojs_libs_def ex_nojs_env_def)
qed

theorem minted_join_accepted_witness:
  "\<exists>i. identity_of_bytes ex_nojs_env 0 (replicate 10 7) (replicate 32 9) = Inr i
     \<and> identity_parse (cookie_value i) = Some i
     \<and> classify_record ex_parse (join_body ex_nojs_env i ''e'') ''e''
         = Accept \<lparr>jm_request_id = id_request_id i, jm_event_id = ''e'',
                   jm_h = possession_digest (ce_sha (ne_crypto ex_nojs_env)) (id_secret i)\<rparr>"
  by (rule minted_join_accepted [OF ex_nojs_libs]) simp_all

end
