(* ===== verification/AdminState.thy ===== *)
theory AdminState
  imports Dynamo
begin

text \<open>
  \<open>crates/admin/src/arrival.rs\<close>, \<open>dynamo.rs\<close> and the store port of \<open>lib.rs\<close>: the instant a request
  arrived, the control state of an event as an operator sees it, and the guarded updates of the
  event's item with the audit fields they stamp.  Instants are nanoseconds; the conversions and the
  rendering of the \<open>jiff\<close> library are parameters (\<open>jiff_env\<close>).  Updates are clauses and conditions,
  as in the other stores.

  Lemmas: a program is \<open>harmless\<close> to the ledger when it meets its obligations whatever comes, which
  composes; every operation of the store is.  Two seconds in nanoseconds are the same window as in
  the milliseconds that the table keeps (\<open>window_millis\<close>).
\<close>

section \<open>Arrival\<close>

text \<open>\<open>Timestamp::as_second\<close>, \<open>as_millisecond\<close>, \<open>from_millisecond\<close>, \<open>strftime\<close> in the audit format.\<close>

record jiff_env =
  jf_second :: "int \<Rightarrow> int"
  jf_millis :: "int \<Rightarrow> int"
  jf_from_millis :: "int \<Rightarrow> int option"
  jf_audit_text :: "int \<Rightarrow> string"

record arrival =
  ar_at :: int
  ar_epoch_seconds :: u64
  ar_epoch_millis :: u64

definition u64_try_from :: "int \<Rightarrow> u64 option" where
  "u64_try_from x = (if 0 \<le> x \<and> x < 2 ^ 64 then Some (of_int x) else None)"

definition arrival_new :: "jiff_env \<Rightarrow> int \<Rightarrow> arrival option" where
  "arrival_new jf at =
     (case u64_try_from (jf_second jf at) of
        None \<Rightarrow> None
      | Some secs \<Rightarrow>
          (case u64_try_from (jf_millis jf at) of
             None \<Rightarrow> None
           | Some ms \<Rightarrow> Some \<lparr>ar_at = at, ar_epoch_seconds = secs, ar_epoch_millis = ms\<rparr>))"

section \<open>The control state\<close>

datatype admin_action =
    SetRate | SetMessage | Pause | Resume | ForceMaintenance | SetPhase | FailOpen | Recover
  | SetRules | SetStartTime | ClearStartTime | OpenNow | SetIpBinding

fun action_str :: "admin_action \<Rightarrow> string" where
  "action_str SetRate = ''set_rate''"
| "action_str SetMessage = ''set_message''"
| "action_str Pause = ''pause''"
| "action_str Resume = ''resume''"
| "action_str ForceMaintenance = ''force_maintenance''"
| "action_str SetPhase = ''set_phase''"
| "action_str FailOpen = ''fail_open''"
| "action_str Recover = ''recover''"
| "action_str SetRules = ''set_rules''"
| "action_str SetStartTime = ''set_start_time''"
| "action_str OpenNow = ''open_now''"
| "action_str SetIpBinding = ''set_ip_binding''"
| "action_str ClearStartTime = ''clear_start_time''"

datatype store_error = Conflict | Backend string

record control_state =
  co_event_id :: string
  co_phase :: phase
  co_serving_counter :: u64
  co_queue_counter :: u64
  co_participants :: "u64 option"
  co_target_rate :: "u32 option"
  co_message :: "string option"
  co_stored_control :: stored_control
  co_fail_open_until :: u64
  co_last_action :: "string option"
  co_last_action_by :: "string option"
  co_last_action_at :: "string option"
  co_last_action_time :: "int option"
  co_starts_at :: "u64 option"
  co_starts_at_timezone :: "string option"

definition DEBOUNCE_MILLIS :: int where "DEBOUNCE_MILLIS = 2000"

text \<open>\<open>DEBOUNCE\<close> as a signed duration, in nanoseconds.\<close>

definition DEBOUNCE :: int where "DEBOUNCE = DEBOUNCE_MILLIS * 1000000"

definition or_else :: "'a option \<Rightarrow> 'a \<Rightarrow> 'a" where
  "or_else x d = (case x of Some y \<Rightarrow> y | None \<Rightarrow> d)"

definition control_of_item :: "jiff_env \<Rightarrow> string \<Rightarrow> item \<Rightarrow> control_state" where
  "control_of_item jf event_id m =
     \<lparr>co_event_id = event_id,
      co_phase =
        or_else (Option.bind (get_s m ''phase'')
          (\<lambda>s. case phase_parse s of Inr p \<Rightarrow> Some p | Inl _ \<Rightarrow> None)) Idle,
      co_serving_counter = or_else (get_u64 m ''serving_counter'') 0,
      co_queue_counter = or_else (get_u64 m ''queue_counter'') 0,
      co_participants = get_u64 m ''participant_count'',
      co_target_rate = Option.bind (get_u64 m ''target_rate'') u32_try_from,
      co_message = get_s m ''message'',
      co_stored_control = stored_control_of m,
      co_fail_open_until = or_else (get_u64 m ''fail_open_until'') 0,
      co_last_action = get_s m ''last_action'',
      co_last_action_by = get_s m ''last_action_by'',
      co_last_action_at = get_s m ''last_action_at'',
      co_last_action_time =
        Option.bind (Option.bind (get_n m ''last_action_epoch_ms'') parse_i64) (jf_from_millis jf),
      co_starts_at = get_u64 m STARTS_AT_ATTR,
      co_starts_at_timezone = get_s m STARTS_AT_TZ_ATTR\<rparr>"

section \<open>The updates\<close>

definition audit_clauses :: "jiff_env \<Rightarrow> admin_action \<Rightarrow> string \<Rightarrow> arrival \<Rightarrow> update_clause list" where
  "audit_clauses jf action actor now =
     [USet ''last_action'' (AS (action_str action)),
      USet ''last_action_by'' (AS actor),
      USet ''last_action_at'' (AS (jf_audit_text jf (ar_at now))),
      USet ''last_action_epoch_ms'' (AN (show_int (jf_millis jf (ar_at now))))]"

definition i64_saturating_sub :: "int \<Rightarrow> int \<Rightarrow> int" where
  "i64_saturating_sub a b = max (- (2 ^ 63)) (min (2 ^ 63 - 1) (a - b))"

definition stamp_predicate :: "jiff_env \<Rightarrow> arrival \<Rightarrow> condition" where
  "stamp_predicate jf now =
     COr (CNotExists ''last_action_epoch_ms'')
       (CLe ''last_action_epoch_ms'' (AN (show_int (jf_millis jf (ar_at now)))))"

definition debounce_predicate :: "jiff_env \<Rightarrow> arrival \<Rightarrow> condition" where
  "debounce_predicate jf now =
     COr (CNotExists ''last_action_epoch_ms'')
       (CLe ''last_action_epoch_ms''
         (AN (show_int (i64_saturating_sub (jf_millis jf (ar_at now)) DEBOUNCE_MILLIS))))"

definition guard_debounce :: "jiff_env \<Rightarrow> condition option \<Rightarrow> arrival \<Rightarrow> condition" where
  "guard_debounce jf existing now =
     (case existing of
        Some c \<Rightarrow> CAnd c (debounce_predicate jf now)
      | None \<Rightarrow> debounce_predicate jf now)"

definition guard_expected_rate :: "u32 option \<Rightarrow> condition" where
  "guard_expected_rate expected =
     (case expected of
        Some r \<Rightarrow> CEq ''target_rate'' (AN (show_nat (unat r)))
      | None \<Rightarrow> CNotExists ''target_rate'')"

definition control_guard :: "stored_control \<Rightarrow> condition" where
  "control_guard from =
     (if from = StOpen
      then COr (CNotExists ''admission_control'') (CEq ''admission_control'' (AS (stored_wire from)))
      else CEq ''admission_control'' (AS (stored_wire from)))"

definition send_guarded ::
  "string \<Rightarrow> string \<Rightarrow> update_clause list \<Rightarrow> condition option \<Rightarrow> string \<Rightarrow> (store_error + unit) prog" where
  "send_guarded counters_table event_id clauses guard what =
     UpdateItem counters_table (key_build (KEvent event_id)) clauses guard (\<lambda>r.
       case r of
         Inr _ \<Rightarrow> Done (Inr ())
       | Inl (ConditionalCheckFailed _) \<Rightarrow> Done (Inl Conflict)
       | Inl e \<Rightarrow> Done (Inl (Backend (''update_item('' @ what @ ''): '' @ sdk_display e))))"

definition admin_load ::
  "jiff_env \<Rightarrow> string \<Rightarrow> string \<Rightarrow> (store_error + control_state option) prog" where
  "admin_load jf counters_table event_id =
     GetItem counters_table (key_build (KEvent event_id)) False (\<lambda>r.
       case r of
         Inl e \<Rightarrow> Done (Inl (Backend (''get_item: '' @ sdk_display e)))
       | Inr None \<Rightarrow> Done (Inr None)
       | Inr (Some m) \<Rightarrow> Done (Inr (Some (control_of_item jf event_id m))))"

definition phase_clauses :: "jiff_env \<Rightarrow> phase \<Rightarrow> admin_action \<Rightarrow> string \<Rightarrow> arrival \<Rightarrow> update_clause list" where
  "phase_clauses jf to action actor now =
     USet ''phase'' (AS (phase_wire to)) # audit_clauses jf action actor now"

definition phase_guard :: "phase \<Rightarrow> condition" where
  "phase_guard from = CEq ''phase'' (AS (phase_wire from))"

definition set_phase ::
  "jiff_env \<Rightarrow> string \<Rightarrow> string \<Rightarrow> phase \<Rightarrow> phase \<Rightarrow> admin_action \<Rightarrow> string \<Rightarrow> arrival \<Rightarrow> (store_error + unit) prog" where
  "set_phase jf tbl event_id from to action actor now =
     send_guarded tbl event_id (phase_clauses jf to action actor now) (Some (phase_guard from)) ''phase''"

definition set_rate ::
  "jiff_env \<Rightarrow> string \<Rightarrow> string \<Rightarrow> u32 option \<Rightarrow> u32 \<Rightarrow> string \<Rightarrow> arrival \<Rightarrow> (store_error + unit) prog" where
  "set_rate jf tbl event_id expected rate actor now =
     send_guarded tbl event_id
       (USet ''target_rate'' (AN (show_nat (unat rate))) # audit_clauses jf SetRate actor now)
       (Some (guard_debounce jf (Some (guard_expected_rate expected)) now)) ''rate''"

definition set_message ::
  "jiff_env \<Rightarrow> string \<Rightarrow> string \<Rightarrow> string \<Rightarrow> string \<Rightarrow> arrival \<Rightarrow> (store_error + unit) prog" where
  "set_message jf tbl event_id message actor now =
     send_guarded tbl event_id
       (USet ''message'' (AS message) # audit_clauses jf SetMessage actor now)
       (Some (guard_debounce jf None now)) ''message''"

definition set_stored_control ::
  "jiff_env \<Rightarrow> string \<Rightarrow> string \<Rightarrow> stored_control \<Rightarrow> stored_control \<Rightarrow> admin_action \<Rightarrow> string \<Rightarrow> arrival \<Rightarrow>
   (store_error + unit) prog" where
  "set_stored_control jf tbl event_id from to action actor now =
     send_guarded tbl event_id
       (USet ''admission_control'' (AS (stored_wire to)) # audit_clauses jf action actor now)
       (Some (guard_debounce jf (Some (control_guard from)) now)) ''admission_control''"

text \<open>The requests that later writes share: what they set, and their condition.\<close>

definition build_rules_audit_req ::
  "jiff_env \<Rightarrow> string \<Rightarrow> nat \<Rightarrow> string \<Rightarrow> arrival \<Rightarrow> update_clause list \<times> condition option" where
  "build_rules_audit_req jf rules_digest rules_count actor now =
     (USet ''rules_digest'' (AS rules_digest) # USet ''rules_count'' (AN (show_nat rules_count))
        # audit_clauses jf SetRules actor now,
      Some (stamp_predicate jf now))"

definition build_fail_open_until_req ::
  "jiff_env \<Rightarrow> u64 \<Rightarrow> admin_action \<Rightarrow> string \<Rightarrow> arrival \<Rightarrow> update_clause list \<times> condition option" where
  "build_fail_open_until_req jf until action actor now =
     (USet ''fail_open_until'' (AN (show_u64 until)) # audit_clauses jf action actor now,
      Some (stamp_predicate jf now))"

definition build_fail_open_until_fallback_req :: "u64 \<Rightarrow> update_clause list \<times> condition option" where
  "build_fail_open_until_fallback_req until = ([USet ''fail_open_until'' (AN (show_u64 until))], None)"

definition build_stamp_action_req ::
  "jiff_env \<Rightarrow> admin_action \<Rightarrow> string \<Rightarrow> arrival \<Rightarrow> update_clause list \<times> condition option" where
  "build_stamp_action_req jf action actor now =
     (audit_clauses jf action actor now, Some (stamp_predicate jf now))"

lemmas build_defs = build_rules_audit_req_def build_fail_open_until_req_def
  build_fail_open_until_fallback_req_def build_stamp_action_req_def

text \<open>The guarded write, and on a conflict the one that leaves the stamp alone.\<close>

definition set_fail_open_until ::
  "jiff_env \<Rightarrow> string \<Rightarrow> string \<Rightarrow> u64 \<Rightarrow> admin_action \<Rightarrow> string \<Rightarrow> arrival \<Rightarrow> (store_error + unit) prog" where
  "set_fail_open_until jf tbl event_id until action actor now =
     (case build_fail_open_until_req jf until action actor now of (clauses, guard) \<Rightarrow>
        bind (send_guarded tbl event_id clauses guard ''fail_open_until'') (\<lambda>r.
          case r of
            Inr _ \<Rightarrow> Done (Inr ())
          | Inl Conflict \<Rightarrow>
              (case build_fail_open_until_fallback_req until of (clauses, guard) \<Rightarrow>
                 UpdateItem tbl (key_build (KEvent event_id)) clauses guard (\<lambda>r.
                   case r of
                     Inr _ \<Rightarrow> Done (Inr ())
                   | Inl e \<Rightarrow> Done (Inl (Backend (''update_item(fail_open_until_fallback): '' @ sdk_display e)))))
          | Inl e \<Rightarrow> Done (Inl e)))"

definition set_starts_at ::
  "jiff_env \<Rightarrow> string \<Rightarrow> string \<Rightarrow> (u64 \<times> string) option \<Rightarrow> admin_action \<Rightarrow> string \<Rightarrow> arrival \<Rightarrow>
   (store_error + unit) prog" where
  "set_starts_at jf tbl event_id starts_at action actor now =
     send_guarded tbl event_id
       (case starts_at of
          Some (secs, tz) \<Rightarrow>
            USet STARTS_AT_ATTR (AN (show_u64 secs)) # USet STARTS_AT_TZ_ATTR (AS tz)
              # audit_clauses jf action actor now
        | None \<Rightarrow> audit_clauses jf action actor now @ [URemove STARTS_AT_ATTR, URemove STARTS_AT_TZ_ATTR])
       (Some (guard_debounce jf None now)) STARTS_AT_ATTR"

definition set_rules_audit ::
  "jiff_env \<Rightarrow> string \<Rightarrow> string \<Rightarrow> string \<Rightarrow> nat \<Rightarrow> string \<Rightarrow> arrival \<Rightarrow> (store_error + unit) prog" where
  "set_rules_audit jf tbl event_id rules_digest rules_count actor now =
     (case build_rules_audit_req jf rules_digest rules_count actor now of (clauses, guard) \<Rightarrow>
        send_guarded tbl event_id clauses guard ''rules_audit'')"

definition stamp_action ::
  "jiff_env \<Rightarrow> string \<Rightarrow> string \<Rightarrow> admin_action \<Rightarrow> string \<Rightarrow> arrival \<Rightarrow> (store_error + unit) prog" where
  "stamp_action jf tbl event_id action actor now =
     (case build_stamp_action_req jf action actor now of (clauses, guard) \<Rightarrow>
        send_guarded tbl event_id clauses guard ''stamp_action'')"

lemma set_fail_open_until_eq:
  "set_fail_open_until jf tbl event_id until action actor now =
     bind (send_guarded tbl event_id
         (USet ''fail_open_until'' (AN (show_u64 until)) # audit_clauses jf action actor now)
         (Some (stamp_predicate jf now)) ''fail_open_until'') (\<lambda>r.
       case r of
         Inr _ \<Rightarrow> Done (Inr ())
       | Inl Conflict \<Rightarrow>
           UpdateItem tbl (key_build (KEvent event_id)) [USet ''fail_open_until'' (AN (show_u64 until))] None (\<lambda>r.
             case r of
               Inr _ \<Rightarrow> Done (Inr ())
             | Inl e \<Rightarrow> Done (Inl (Backend (''update_item(fail_open_until_fallback): '' @ sdk_display e))))
       | Inl e \<Rightarrow> Done (Inl e))"
  unfolding set_fail_open_until_def build_defs prod.case ..

lemma stamped_eq:
  "set_rules_audit jf tbl event_id rules_digest rules_count actor now =
     send_guarded tbl event_id
       (USet ''rules_digest'' (AS rules_digest) # USet ''rules_count'' (AN (show_nat rules_count))
          # audit_clauses jf SetRules actor now)
       (Some (stamp_predicate jf now)) ''rules_audit''"
  "stamp_action jf tbl event_id action actor now =
     send_guarded tbl event_id (audit_clauses jf action actor now)
       (Some (stamp_predicate jf now)) ''stamp_action''"
  unfolding set_rules_audit_def stamp_action_def build_defs prod.case by (rule refl)+

definition force_maintenance ::
  "jiff_env \<Rightarrow> string \<Rightarrow> string \<Rightarrow> phase \<Rightarrow> string \<Rightarrow> arrival \<Rightarrow> (store_error + unit) prog" where
  "force_maintenance jf tbl event_id from actor now =
     send_guarded tbl event_id (phase_clauses jf Maintenance ForceMaintenance actor now)
       (Some (phase_guard from)) ''force_maintenance''"

text \<open>The store port.\<close>

record admin_store =
  ad_load :: "string \<Rightarrow> (store_error + control_state option) prog"
  ad_set_phase :: "string \<Rightarrow> phase \<Rightarrow> phase \<Rightarrow> admin_action \<Rightarrow> string \<Rightarrow> arrival \<Rightarrow> (store_error + unit) prog"
  ad_set_rate :: "string \<Rightarrow> u32 option \<Rightarrow> u32 \<Rightarrow> string \<Rightarrow> arrival \<Rightarrow> (store_error + unit) prog"
  ad_set_message :: "string \<Rightarrow> string \<Rightarrow> string \<Rightarrow> arrival \<Rightarrow> (store_error + unit) prog"
  ad_set_starts_at :: "string \<Rightarrow> (u64 \<times> string) option \<Rightarrow> admin_action \<Rightarrow> string \<Rightarrow> arrival \<Rightarrow> (store_error + unit) prog"
  ad_set_stored_control ::
    "string \<Rightarrow> stored_control \<Rightarrow> stored_control \<Rightarrow> admin_action \<Rightarrow> string \<Rightarrow> arrival \<Rightarrow> (store_error + unit) prog"
  ad_set_fail_open_until :: "string \<Rightarrow> u64 \<Rightarrow> admin_action \<Rightarrow> string \<Rightarrow> arrival \<Rightarrow> (store_error + unit) prog"
  ad_set_rules_audit :: "string \<Rightarrow> string \<Rightarrow> nat \<Rightarrow> string \<Rightarrow> arrival \<Rightarrow> (store_error + unit) prog"
  ad_stamp_action :: "string \<Rightarrow> admin_action \<Rightarrow> string \<Rightarrow> arrival \<Rightarrow> (store_error + unit) prog"
  ad_force_maintenance :: "string \<Rightarrow> phase \<Rightarrow> string \<Rightarrow> arrival \<Rightarrow> (store_error + unit) prog"

definition dynamo_admin_store :: "jiff_env \<Rightarrow> string \<Rightarrow> admin_store" where
  "dynamo_admin_store jf tbl =
     \<lparr>ad_load = admin_load jf tbl,
      ad_set_phase = set_phase jf tbl,
      ad_set_rate = set_rate jf tbl,
      ad_set_message = set_message jf tbl,
      ad_set_starts_at = set_starts_at jf tbl,
      ad_set_stored_control = set_stored_control jf tbl,
      ad_set_fail_open_until = set_fail_open_until jf tbl,
      ad_set_rules_audit = set_rules_audit jf tbl,
      ad_stamp_action = stamp_action jf tbl,
      ad_force_maintenance = force_maintenance jf tbl\<rparr>"

section \<open>Programs that never touch the ledger\<close>

definition harmless :: "ledger_cfg \<Rightarrow> 'a prog \<Rightarrow> bool" where
  "harmless cfg p \<longleftrightarrow> (\<forall>Q g. (\<forall>r g'. Q r g') \<longrightarrow> lwp cfg p Q g)"

lemma harmless_honours: "harmless cfg p \<Longrightarrow> honours cfg p"
  by (simp add: harmless_def honours_def)

lemma harmless_Done [simp, intro]: "harmless cfg (Done x)"
  by (simp add: harmless_def lwp_DoneI)

lemma harmless_bind: "harmless cfg p \<Longrightarrow> (\<And>x. harmless cfg (f x)) \<Longrightarrow> harmless cfg (bind p f)"
  unfolding harmless_def lwp_bind by metis

lemma harmless_bind_ok:
  "harmless cfg p \<Longrightarrow> (\<And>x. harmless cfg (f x)) \<Longrightarrow> harmless cfg (bind_ok p f)"
  unfolding bind_ok_def by (rule harmless_bind) (auto split: sum.split)

lemma harmless_quiet:
  "(\<And>r. harmless cfg (h1 r)) \<Longrightarrow> harmless cfg (RandFill n h1)"
  "(\<And>r. harmless cfg (h2 r)) \<Longrightarrow> harmless cfg (NowSecs h2)"
  "(\<And>r. harmless cfg (h4 r)) \<Longrightarrow> harmless cfg (KvDescribe v h4)"
  "(\<And>r. harmless cfg (h4 r)) \<Longrightarrow> harmless cfg (KvGet v w h4)"
  "(\<And>r. harmless cfg (h4 r)) \<Longrightarrow> harmless cfg (ExchangeCode v w h4)"
  "(\<And>r. harmless cfg (h3 r)) \<Longrightarrow> harmless cfg (KvPut v w x y h3)"
  "(\<And>r. harmless cfg (h5 r)) \<Longrightarrow> harmless cfg (SchedGet v h5)"
  "(\<And>r. harmless cfg (h3 r)) \<Longrightarrow> harmless cfg (SchedUpdate s h3)"
  "(\<And>r. harmless cfg (h6 r)) \<Longrightarrow> harmless cfg (InvokeLambda v w h6)"
  "(\<And>r. harmless cfg (h7 r)) \<Longrightarrow> harmless cfg (GetItem t k c h7)"
  by (simp_all add: harmless_def)

text \<open>An update of the event's item that leaves the counters, the outputs of the open, the phase and
  the cursor alone.\<close>

definition benign :: "update_clause list \<Rightarrow> bool" where
  "benign us \<longleftrightarrow>
     list_all (\<lambda>u. clause_attr u \<notin> insert ''phase'' (insert ''serving_counter'' protected_attrs)) us"

lemma benign_simps [simp]:
  "benign []"
  "benign (u # us) \<longleftrightarrow>
     clause_attr u \<notin> insert ''phase'' (insert ''serving_counter'' protected_attrs) \<and> benign us"
  "benign (us @ vs) \<longleftrightarrow> benign us \<and> benign vs"
  by (simp_all add: benign_def)

lemma lwp_event_update:
  assumes "\<forall>u\<in>set us. clause_attr u \<notin> insert ''serving_counter'' protected_attrs \<and> phase_move g u"
    and "\<And>r. harmless cfg (h r)" "\<forall>r g'. Q r g'"
  shows "lwp cfg (UpdateItem (tb_counters (lc_tables cfg)) (key_build (KEvent (lc_event cfg))) us c h) Q g"
proof -
  have "event_update_ob g us c"
    using assms(1) by (auto simp: event_update_ob_def)
  then show ?thesis
    using assms(2,3) shard_key_ne [of cfg, symmetric]
    unfolding harmless_def event_key_def [symmetric]
    by (auto simp: ledger_ob_def counters_update_ob_def tables_ok_def intro!: lwp_UpdateItem)
qed

lemma harmless_update:
  assumes "benign us" "\<And>r. harmless cfg (h r)"
  shows "harmless cfg (UpdateItem (tb_counters (lc_tables cfg)) (key_build (KEvent (lc_event cfg))) us c h)"
  unfolding harmless_def
  using assms by (auto simp: benign_def list_all_iff phase_move_def intro!: lwp_event_update)

lemma harmless_send_guarded:
  "benign us \<Longrightarrow> harmless cfg (send_guarded (tb_counters (lc_tables cfg)) (lc_event cfg) us c what)"
  unfolding send_guarded_def by (rule harmless_update) (auto split: sum.split sdk_error.split)

text \<open>A write of the phase: to the active phase only with the cohort seen.\<close>

lemma lwp_send_phase:
  assumes "benign us" "to = Active \<longrightarrow> gh_counted g" "\<forall>r g'. Q r g'"
  shows "lwp cfg (send_guarded (tb_counters (lc_tables cfg)) (lc_event cfg)
    (USet ''phase'' (AS (phase_wire to)) # us) c what) Q g"
  unfolding send_guarded_def
proof (rule lwp_event_update)
  show "\<forall>u\<in>set (USet ''phase'' (AS (phase_wire to)) # us).
      clause_attr u \<notin> insert ''serving_counter'' protected_attrs \<and> phase_move g u"
    using assms(1,2) by (auto simp: benign_def list_all_iff phase_move_def protected_attrs_def)
qed (use assms(3) in \<open>auto split: sum.split sdk_error.split\<close>)

lemma benign_audit [simp]: "benign (audit_clauses jf action actor now)"
  by (simp add: audit_clauses_def protected_attrs_def)

section \<open>The port\<close>

text \<open>What the operator's actions rely on for the ledger: no operation of the store touches it, and the
  active phase is written only by a program that has seen the cohort's size in a loaded state.\<close>

locale admin_port =
  fixes cfg :: ledger_cfg and st :: admin_store
  assumes load_seen:
      "(\<And>r g'. (\<And>s. r = Inr (Some s) \<Longrightarrow> co_participants s \<noteq> None \<Longrightarrow> gh_counted g') \<Longrightarrow> Q r g') \<Longrightarrow>
       lwp cfg (ad_load st (lc_event cfg)) Q g"
    and set_phase_seen:
      "(p' = Active \<longrightarrow> gh_counted g) \<Longrightarrow> (\<forall>r g'. Q' r g') \<Longrightarrow>
       lwp cfg (ad_set_phase st (lc_event cfg) p p' action actor now) Q' g"
    and writes_harmless:
      "harmless cfg (ad_set_rate st (lc_event cfg) expected rate actor now)"
      "harmless cfg (ad_set_message st (lc_event cfg) message actor now)"
      "harmless cfg (ad_set_starts_at st (lc_event cfg) starts action actor now)"
      "harmless cfg (ad_set_stored_control st (lc_event cfg) c c' action actor now)"
      "harmless cfg (ad_set_fail_open_until st (lc_event cfg) until action actor now)"
      "harmless cfg (ad_set_rules_audit st (lc_event cfg) rules_digest n actor now)"
      "harmless cfg (ad_stamp_action st (lc_event cfg) action actor now)"
      "harmless cfg (ad_force_maintenance st (lc_event cfg) p actor now)"
begin

lemma load_harmless: "harmless cfg (ad_load st (lc_event cfg))"
  by (simp add: harmless_def load_seen)

end

lemma admin_load_seen:
  assumes "\<And>r g'. (\<And>s. r = Inr (Some s) \<Longrightarrow> co_participants s \<noteq> None \<Longrightarrow> gh_counted g') \<Longrightarrow> Q r g'"
  shows "lwp cfg (admin_load jf (tb_counters (lc_tables cfg)) (lc_event cfg)) Q g"
  unfolding admin_load_def event_key_def [symmetric]
proof (rule lwp_GetItemI)
  fix m assume t: "tables_ok (lc_tables cfg)"
  show "lwp cfg (case Inr (Some m) of Inl e \<Rightarrow> Done (Inl (Backend (''get_item: '' @ sdk_display e)))
      | Inr None \<Rightarrow> Done (Inr None) | Inr (Some m) \<Rightarrow> Done (Inr (Some (control_of_item jf (lc_event cfg) m)))) Q
      (up_get cfg (tb_counters (lc_tables cfg)) (event_key cfg) m g)"
    unfolding up_get_simps(1) [OF t] sum.case option.case
    by (rule lwp_DoneI, rule assms) (auto simp: control_of_item_def split: option.split)
qed (auto intro!: lwp_DoneI assms)

lemma set_fail_open_harmless:
  "harmless cfg (set_fail_open_until jf (tb_counters (lc_tables cfg)) (lc_event cfg) until action actor now)"
  unfolding set_fail_open_until_eq
  by (intro harmless_bind harmless_send_guarded)
    (auto simp: protected_attrs_def split: sum.split store_error.split intro!: harmless_update)

lemma set_phase_seen:
  "(p' = Active \<longrightarrow> gh_counted g) \<Longrightarrow> (\<forall>r g'. Q r g') \<Longrightarrow>
   lwp cfg (set_phase jf (tb_counters (lc_tables cfg)) (lc_event cfg) p p' action actor now) Q g"
  unfolding set_phase_def phase_clauses_def by (rule lwp_send_phase) simp_all

lemma force_maintenance_harmless:
  "harmless cfg (force_maintenance jf (tb_counters (lc_tables cfg)) (lc_event cfg) p actor now)"
  unfolding harmless_def force_maintenance_def phase_clauses_def
  by (intro allI impI lwp_send_phase) simp_all

lemma set_writes_harmless:
  "harmless cfg (set_rate jf (tb_counters (lc_tables cfg)) (lc_event cfg) expected rate actor now)"
  "harmless cfg (set_message jf (tb_counters (lc_tables cfg)) (lc_event cfg) message actor now)"
  "harmless cfg (set_starts_at jf (tb_counters (lc_tables cfg)) (lc_event cfg) starts action actor now)"
  "harmless cfg (set_stored_control jf (tb_counters (lc_tables cfg)) (lc_event cfg) c c' action actor now)"
  "harmless cfg (set_rules_audit jf (tb_counters (lc_tables cfg)) (lc_event cfg) dig n actor now)"
  "harmless cfg (stamp_action jf (tb_counters (lc_tables cfg)) (lc_event cfg) action actor now)"
  unfolding set_rate_def set_message_def set_starts_at_def set_stored_control_def stamped_eq
  by (auto intro!: harmless_send_guarded simp: protected_attrs_def attr_names split: option.split)

interpretation dad: admin_port cfg "dynamo_admin_store jf (tb_counters (lc_tables cfg))" for cfg jf
  by unfold_locales
    (simp_all add: dynamo_admin_store_def admin_load_seen set_phase_seen set_writes_harmless
      set_fail_open_harmless force_maintenance_harmless)

section \<open>The debounce\<close>

text \<open>What \<open>jiff\<close> documents of the conversions of an instant at or after the epoch.\<close>

definition jiff_ok :: "jiff_env \<Rightarrow> bool" where
  "jiff_ok jf \<longleftrightarrow>
     (\<forall>t. 0 \<le> t \<longrightarrow> jf_millis jf t = t div 1000000 \<and> jf_second jf t = t div 1000000000)
     \<and> (\<forall>ms. 0 \<le> ms \<and> ms \<le> 253402207200999 \<longrightarrow> jf_from_millis jf ms = Some (ms * 1000000))"

lemma window_millis: "t - l * 1000000 < 2000 * 1000000 \<longleftrightarrow> t div 1000000 - 2000 < (l::int)"
proof -
  define q r where "q = t div 1000000" and "r = t mod 1000000"
  have "t = 1000000 * q + r" "0 \<le> r" "r < 1000000"
    by (simp_all add: q_def r_def)
  then show ?thesis
    unfolding q_def [symmetric] by linarith
qed

end
