(* ===== verification/Edge.thy ===== *)
theory Edge
  imports Rules AdminState Http
begin

text \<open>
  The edge half of the admin Lambda: the gate's configuration document and its encoder
  (\<open>crates/admin/src/lib.rs\<close>), the \<open>KeyValueStore\<close> behind it (\<open>edge.rs\<close>) and the read-modify-write
  every change of the document goes through.  The text of a JSON value, the decoder that
  \<open>serde\<close> derives and SHA-256 are parameters.

  Lemmas: \<open>kv_wp\<close> is a weakest precondition for a program that shares the store with any number
  of other writers; \<open>rmw_safe\<close> shows with it that a read-modify-write only ever replaces a document
  by its own image, so no concurrent change is lost.
\<close>

section \<open>The gate's document\<close>

record gate_config =
  gc_v :: u8
  gc_enforce_from :: u64
  gc_fail_open_until :: u64
  gc_rules :: "protection_rule list"
  gc_bind_ip :: bool

definition MAX_RULES :: nat where "MAX_RULES = 35"
definition MAX_CONFIG_BYTES :: nat where "MAX_CONFIG_BYTES = 950"
definition RULES_WRITE_CEILING :: nat where "RULES_WRITE_CEILING = MAX_CONFIG_BYTES - 20"
definition CONFIG_KEY :: string where "CONFIG_KEY = ''c''"

datatype gate_config_error =
    TooManyRules nat nat \<comment> \<open>actual, max\<close>
  | TooLarge nat nat
  | SerializeError string
  | FieldError rule_field_error

fun field_error_display :: "rule_field_error \<Rightarrow> string" where
  "field_error_display (TooLong i field limit actual) =
     ''rule '' @ show_nat i @ '': '' @ field @ '' is '' @ show_nat actual @ '' bytes, over the ''
       @ show_nat limit @ ''-byte limit''"
| "field_error_display (NotAscii i field) =
     ''rule '' @ show_nat i @ '': '' @ field @ '' contains a non-printable-ASCII byte''"

fun config_error_display :: "gate_config_error \<Rightarrow> string" where
  "config_error_display (TooManyRules actual mx) =
     ''ruleset has '' @ show_nat actual @ '' rules, over the '' @ show_nat mx @ '' limit''"
| "config_error_display (TooLarge actual mx) =
     ''encoded config is '' @ show_nat actual @ '' bytes, over the '' @ show_nat mx
       @ ''-byte KeyValueStore value limit''"
| "config_error_display (SerializeError e) = ''could not serialize the config: '' @ e"
| "config_error_display (FieldError e) = field_error_display e"

text \<open>\<open>serde_json::to_string\<close> on a value, the derived decoder on a text, and SHA-256.\<close>

record edge_env =
  ge_json_text :: "json \<Rightarrow> string + string"
  ge_decode :: "string \<Rightarrow> string + gate_config"
  ge_sha256 :: "u8 list \<Rightarrow> u8 list"

fun wire_json :: "rule_wire \<Rightarrow> json" where
  "wire_json (Two a b) = JArr [JStr a, JStr b]"
| "wire_json (Three a b c) = JArr [JStr a, JStr b, JStr c]"

definition gate_json :: "gate_config \<Rightarrow> json" where
  "gate_json cfg =
     JObj ([(''v'', JNum (ucast (gc_v cfg))), (''s'', JNum (gc_enforce_from cfg)),
            (''f'', JNum (gc_fail_open_until cfg)),
            (''r'', JArr (map (\<lambda>r. wire_json (rule_to_wire r)) (gc_rules cfg)))]
           @ (if gc_bind_ip cfg then [(''b'', JBool True)] else []))"

definition encode_gate_config :: "edge_env \<Rightarrow> gate_config \<Rightarrow> gate_config_error + string" where
  "encode_gate_config env cfg =
     (if MAX_RULES < length (gc_rules cfg) then Inl (TooManyRules (length (gc_rules cfg)) MAX_RULES)
      else
        (case validate_rule_fields (gc_rules cfg) of
           Inl e \<Rightarrow> Inl (FieldError e)
         | Inr _ \<Rightarrow>
             (case ge_json_text env (gate_json cfg) of
                Inl e \<Rightarrow> Inl (SerializeError e)
              | Inr text \<Rightarrow>
                  if MAX_CONFIG_BYTES < length text then Inl (TooLarge (length text) MAX_CONFIG_BYTES)
                  else Inr text)))"

section \<open>The store\<close>

datatype etag = ETag (etag_text: string)

datatype edge_store_error = EdgeStoreError (edge_error_text: string)

fun edge_error_display :: "edge_store_error \<Rightarrow> string" where
  "edge_error_display (EdgeStoreError e) = ''edge config store error: '' @ e"

record edge_store =
  es_read_config :: "(edge_store_error + gate_config \<times> etag) prog"
  es_write_config :: "etag \<Rightarrow> gate_config \<Rightarrow> (edge_store_error + unit) prog"

definition kvs_etag :: "string \<Rightarrow> (edge_store_error + string) prog" where
  "kvs_etag kvs_arn =
     KvDescribe kvs_arn (\<lambda>r.
       case r of
         Inl e \<Rightarrow> Done (Inl (EdgeStoreError (''describe_key_value_store: '' @ e)))
       | Inr tag \<Rightarrow> Done (Inr tag))"

definition read_config :: "edge_env \<Rightarrow> string \<Rightarrow> (edge_store_error + gate_config \<times> etag) prog" where
  "read_config env kvs_arn =
     bind_ok (kvs_etag kvs_arn) (\<lambda>tag.
       KvGet kvs_arn CONFIG_KEY (\<lambda>r.
         case r of
           Inl e \<Rightarrow> Done (Inl (EdgeStoreError (''get_key: '' @ e)))
         | Inr v \<Rightarrow>
             (case ge_decode env v of
                Inl e \<Rightarrow> Done (Inl (EdgeStoreError (''decode gate config: '' @ e)))
              | Inr cfg \<Rightarrow> Done (Inr (cfg, ETag tag)))))"

definition write_config :: "edge_env \<Rightarrow> string \<Rightarrow> etag \<Rightarrow> gate_config \<Rightarrow> (edge_store_error + unit) prog" where
  "write_config env kvs_arn tag cfg =
     (case encode_gate_config env cfg of
        Inl e \<Rightarrow> Done (Inl (EdgeStoreError (config_error_display e)))
      | Inr encoded \<Rightarrow>
          KvPut kvs_arn CONFIG_KEY encoded (etag_text tag) (\<lambda>r.
            case r of
              Inl e \<Rightarrow> Done (Inl (EdgeStoreError (''put_key: '' @ e)))
            | Inr _ \<Rightarrow> Done (Inr ())))"

definition kvs_store :: "edge_env \<Rightarrow> string \<Rightarrow> edge_store" where
  "kvs_store env kvs_arn =
     \<lparr>es_read_config = read_config env kvs_arn, es_write_config = write_config env kvs_arn\<rparr>"

text \<open>One attempt, and the retry on a fresh read.\<close>

definition edge_read_modify_write ::
  "edge_store \<Rightarrow> (gate_config \<Rightarrow> gate_config) \<Rightarrow> (edge_store_error + gate_config) prog" where
  "edge_read_modify_write edge mutate =
     bind_ok (es_read_config edge) (\<lambda>(cfg, tag).
       bind (es_write_config edge tag (mutate cfg)) (\<lambda>w.
         case w of
           Inr _ \<Rightarrow> Done (Inr (mutate cfg))
         | Inl _ \<Rightarrow>
             bind_ok (es_read_config edge) (\<lambda>(cfg, tag).
               bind_ok (es_write_config edge tag (mutate cfg)) (\<lambda>_. Done (Inr (mutate cfg))))))"

text \<open>The audit digest: the first eight bytes in lower-case hexadecimal.\<close>

definition hex_byte :: "u8 \<Rightarrow> string" where
  "hex_byte b = (let d = (\<lambda>k. char_of (if k < 10 then 48 + k else 87 + k)) in
     [d (unat b div 16), d (unat b mod 16)])"

definition rules_digest :: "edge_env \<Rightarrow> string \<Rightarrow> string" where
  "rules_digest env encoded =
     concat (map hex_byte (take 8 (ge_sha256 env (map (\<lambda>c. of_nat (of_char c)) encoded))))"

section \<open>A shared store\<close>

text \<open>
  The document as the service keeps it: its value, the tag of its current version and every tag it
  has had; \<open>kv_log\<close> records what the program under consideration replaced, and by what.  Other
  writers move the document at any time, each time to a tag never used before.
\<close>

record kv =
  kv_value :: string
  kv_tag :: string
  kv_used :: "string set"
  kv_log :: "(string \<times> string) list"

definition kv_moves :: "kv \<Rightarrow> kv \<Rightarrow> bool" where
  "kv_moves s s' \<longleftrightarrow> kv_log s' = kv_log s \<and> kv_used s \<subseteq> kv_used s' \<and> kv_tag s' \<in> kv_used s'
     \<and> (if kv_tag s' = kv_tag s then kv_value s' = kv_value s else kv_tag s' \<notin> kv_used s)"

definition kv_put :: "string \<Rightarrow> kv \<Rightarrow> kv \<Rightarrow> bool" where
  "kv_put v s s' \<longleftrightarrow> kv_value s' = v \<and> kv_tag s' \<notin> kv_used s \<and> kv_used s' = insert (kv_tag s') (kv_used s)
     \<and> kv_log s' = kv_log s @ [(kv_value s, v)]"

text \<open>A put lands only under the current tag; an error says nothing of whether it landed.\<close>

definition kv_answers :: "req \<Rightarrow> resp \<Rightarrow> kv \<Rightarrow> kv \<Rightarrow> bool" where
  "kv_answers q r s s' \<longleftrightarrow>
     (case (q, r) of
        (QKvDescribe a, RText (Inr t)) \<Rightarrow> s' = s \<and> t = kv_tag s
      | (QKvGet a k, RText (Inr v)) \<Rightarrow> s' = s \<and> v = kv_value s
      | (QKvPut a k v m, RUnit (Inr _)) \<Rightarrow> m = kv_tag s \<and> kv_put v s s'
      | (QKvPut a k v m, RUnit (Inl _)) \<Rightarrow> s' = s \<or> (m = kv_tag s \<and> kv_put v s s')
      | _ \<Rightarrow> s' = s)"

inductive kv_run :: "'a prog \<Rightarrow> kv \<Rightarrow> 'a prog \<Rightarrow> kv \<Rightarrow> bool" for p s where
  begins: "kv_run p s p s"
| others: "kv_run p s p' s' \<Longrightarrow> kv_moves s' s'' \<Longrightarrow> kv_run p s p' s''"
| calls: "kv_run p s p' s' \<Longrightarrow> answer p' r = Some (q, p'') \<Longrightarrow> kv_answers q r s' s'' \<Longrightarrow> kv_run p s p'' s''"

text \<open>\<open>kv_wp I p Q s\<close>: whatever other writers do and the service answers, the log satisfies \<open>I\<close> at
  every step of \<open>p\<close>, and \<open>Q\<close> holds of its value and the store from when it is done.\<close>

primrec kv_wp ::
  "((string \<times> string) list \<Rightarrow> bool) \<Rightarrow> 'a prog \<Rightarrow> ('a \<Rightarrow> kv \<Rightarrow> bool) \<Rightarrow> kv \<Rightarrow> bool" where
  "kv_wp I (Done x) Q = (\<lambda>s. I (kv_log s) \<and> (\<forall>s'. kv_moves s s' \<longrightarrow> Q x s'))"
| "kv_wp I (Ask q k) Q = (\<lambda>s. I (kv_log s) \<and>
     (\<forall>s1 r s2. kv_moves s s1 \<longrightarrow> kv_answers q r s1 s2 \<longrightarrow>
        (case map_option (\<lambda>p. kv_wp I p Q) (k r) of None \<Rightarrow> I (kv_log s2) | Some h \<Rightarrow> h s2)))"

definition kv_ok :: "kv \<Rightarrow> bool" where
  "kv_ok s \<longleftrightarrow> kv_tag s \<in> kv_used s"

lemma kv_moves_refl: "kv_ok s \<Longrightarrow> kv_moves s s"
  by (simp add: kv_ok_def kv_moves_def)

lemma kv_moves_ok: "kv_moves s s' \<Longrightarrow> kv_ok s'"
  by (simp add: kv_ok_def kv_moves_def)

lemma kv_moves_trans: "kv_ok s \<Longrightarrow> kv_moves s s1 \<Longrightarrow> kv_moves s1 s2 \<Longrightarrow> kv_moves s s2"
  by (auto simp: kv_ok_def kv_moves_def split: if_splits)

lemma kv_answers_ok: "kv_answers q r s s' \<Longrightarrow> kv_ok s \<Longrightarrow> kv_ok s'"
  by (auto simp: kv_answers_def kv_ok_def kv_put_def split: req.splits resp.splits sum.splits)

lemma kv_wp_moves: "kv_ok s \<Longrightarrow> kv_moves s s' \<Longrightarrow> kv_wp I p Q s \<Longrightarrow> kv_wp I p Q s'"
proof -
  assume h: "kv_ok s" "kv_moves s s'" "kv_wp I p Q s"
  have "kv_log s' = kv_log s"
    using h(2) by (simp add: kv_moves_def)
  then show ?thesis
    using h kv_moves_trans [OF h(1,2)] by (cases p) auto
qed

lemma kv_wp_log: "kv_wp I p Q s \<Longrightarrow> I (kv_log s)"
  by (cases p) auto

lemma kv_run_wp:
  assumes "kv_run p s p' s'" "kv_ok s" "kv_wp I p Q s"
  shows "kv_ok s' \<and> kv_wp I p' Q s'"
  using assms(1)
proof induction
  case begins
  show ?case using assms(2,3) by simp
next
  case (others p' s' s'')
  then show ?case using kv_moves_ok kv_wp_moves by blast
next
  case (calls p' s' r q p'' s'')
  then obtain k where "p' = Ask q k" "k r = Some p''"
    by (cases p') auto
  then show ?case
    using calls kv_answers_ok kv_moves_refl by fastforce
qed

lemma kv_wp_bind:
  assumes "kv_ok s" "kv_wp I p (\<lambda>x s. kv_ok s \<longrightarrow> kv_wp I (f x) Q s) s"
  shows "kv_wp I (bind p f) Q s"
  using assms
proof (induction p arbitrary: s rule: prog_induct)
  case (Done x)
  then show ?case using kv_moves_refl by simp
next
  case (Ask q k)
  have i: "I (kv_log s)"
    using Ask(3) by simp
  have "case map_option (\<lambda>p. kv_wp I (bind p f) Q) (k r) of None \<Rightarrow> I (kv_log s2) | Some h \<Rightarrow> h s2"
    if m: "kv_moves s s1" "kv_answers q r s1 s2" for s1 r s2
  proof (cases "k r")
    case None
    then show ?thesis
      using Ask(3) m by fastforce
  next
    case (Some p)
    then show ?thesis
      using Ask(3) m Ask(1) [OF Some kv_answers_ok [OF m(2) kv_moves_ok [OF m(1)]]] by fastforce
  qed
  then show ?case
    using i by (simp add: option.map_comp comp_def)
qed

section \<open>Read, modify, write\<close>

text \<open>What a read establishes: the tag it returns is the current one only while the document is.\<close>

definition read_knows :: "edge_env \<Rightarrow> gate_config \<Rightarrow> string \<Rightarrow> kv \<Rightarrow> bool" where
  "read_knows env cfg tag s \<longleftrightarrow> tag \<in> kv_used s \<and> (kv_tag s = tag \<longrightarrow> ge_decode env (kv_value s) = Inr cfg)"

lemma read_knows_moves: "read_knows env cfg tag s \<Longrightarrow> kv_moves s s' \<Longrightarrow> read_knows env cfg tag s'"
  by (auto simp: read_knows_def kv_moves_def split: if_splits)

lemma read_config_wp:
  assumes "kv_ok s" "I (kv_log s)"
    and err: "\<And>e s'. kv_log s' = kv_log s \<Longrightarrow> Q (Inl e) s'"
    and ok: "\<And>cfg tag s'. kv_log s' = kv_log s \<Longrightarrow> read_knows env cfg tag s' \<Longrightarrow> Q (Inr (cfg, ETag tag)) s'"
  shows "kv_wp I (read_config env arn) Q s"
proof -
  have log: "kv_moves s s1 \<Longrightarrow> kv_log s1 = kv_log s" for s s1
    by (simp add: kv_moves_def)
  have get: "kv_wp I (KvGet arn CONFIG_KEY (\<lambda>r.
         case r of
           Inl e \<Rightarrow> Done (Inl (EdgeStoreError (''get_key: '' @ e)))
         | Inr v \<Rightarrow>
             (case ge_decode env v of
                Inl e \<Rightarrow> Done (Inl (EdgeStoreError (''decode gate config: '' @ e)))
              | Inr cfg \<Rightarrow> Done (Inr (cfg, ETag (kv_tag s0)))))) Q s0"
    if s0: "kv_log s0 = kv_log s" "kv_ok s0" for s0
  proof -
    have "Q (Inr (cfg, ETag (kv_tag s0))) s2"
      if m: "kv_moves s0 s1" "kv_moves s1 s2" "ge_decode env (kv_value s1) = Inr cfg" for s1 s2 cfg
    proof -
      have "read_knows env cfg (kv_tag s0) s1"
        using m(1,3) s0(2) by (auto simp: read_knows_def kv_moves_def kv_ok_def)
      then show ?thesis
        using ok read_knows_moves m(2) log [OF m(1)] log [OF m(2)] s0(1) by simp
    qed
    then show ?thesis
      using err log s0 assms(2)
      by (auto simp: KvGet_def kv_answers_def split: resp.splits sum.splits) 
  qed
  show ?thesis
    using assms(1,2) err log get kv_moves_ok
    unfolding read_config_def kvs_etag_def bind_ok_def
    by (auto simp: KvDescribe_def kv_answers_def simp del: append.simps split: resp.splits sum.splits)
qed

text \<open>A write of a document derived from a read replaces, when it lands, the very document read.\<close>

definition replaces :: "edge_env \<Rightarrow> (gate_config \<Rightarrow> gate_config) \<Rightarrow> string \<times> string \<Rightarrow> bool" where
  "replaces env mutate w \<longleftrightarrow>
     (\<exists>cfg. ge_decode env (fst w) = Inr cfg \<and> encode_gate_config env (mutate cfg) = Inr (snd w))"

definition landed_last :: "edge_env \<Rightarrow> gate_config \<Rightarrow> kv \<Rightarrow> bool" where
  "landed_last env cfg s \<longleftrightarrow> (\<exists>ws old new. kv_log s = ws @ [(old, new)] \<and> encode_gate_config env cfg = Inr new)"

lemma kv_wp_put:
  assumes "I (kv_log s)"
    and err: "\<And>s1 e. kv_moves s s1 \<Longrightarrow> kv_wp I (h (Inl e)) Q s1"
    and put: "\<And>s1 s2 r. kv_moves s s1 \<Longrightarrow> m = kv_tag s1 \<Longrightarrow> kv_put v s1 s2 \<Longrightarrow> kv_wp I (h r) Q s2"
  shows "kv_wp I (KvPut a k v m h) Q s"
proof -
  have "case map_option (\<lambda>p. kv_wp I p Q) (case r of RUnit x \<Rightarrow> Some (h x) | _ \<Rightarrow> None) of
          None \<Rightarrow> I (kv_log s2) | Some w \<Rightarrow> w s2"
    if m: "kv_moves s s1" "kv_answers (QKvPut a k v m) r s1 s2" for s1 s2 r
  proof (cases "\<exists>x. r = RUnit x")
    case True
    then obtain x where r: "r = RUnit x" by blast
    have "kv_wp I (h x) Q s2"
      using m(2) err [OF m(1)] put [OF m(1)] by (cases x) (auto simp: kv_answers_def r)
    then show ?thesis
      by (simp add: r)
  next
    case False
    then have "s2 = s1"
      using m(2) by (auto simp: kv_answers_def split: resp.splits)
    then show ?thesis
      using False assms(1) m(1) by (auto simp: kv_moves_def split: resp.split)
  qed
  then show ?thesis
    using assms(1) by (simp add: KvPut_def)
qed

lemma write_config_wp:
  assumes "kv_ok s" "list_all (replaces env mutate) (kv_log s)" "read_knows env cfg tag s"
    and err: "\<And>e s'. list_all (replaces env mutate) (kv_log s') \<Longrightarrow> Q (Inl e) s'"
    and ok: "\<And>s'. landed_last env (mutate cfg) s' \<Longrightarrow> list_all (replaces env mutate) (kv_log s') \<Longrightarrow> Q (Inr ()) s'"
  shows "kv_wp (list_all (replaces env mutate)) (write_config env arn (ETag tag) (mutate cfg)) Q s"
    (is "kv_wp ?I _ _ _")
proof (cases "encode_gate_config env (mutate cfg)")
  case (Inl e)
  then show ?thesis
    using assms(2) err by (simp add: write_config_def kv_moves_def)
next
  case (Inr new)
  have log: "kv_moves s s1 \<Longrightarrow> kv_log s1 = kv_log s" for s s1
    by (simp add: kv_moves_def)
  have put: "list_all (replaces env mutate) (kv_log s2) \<and> landed_last env (mutate cfg) s2"
    if h: "kv_moves s s1" "tag = kv_tag s1" "kv_put new s1 s2" for s1 s2
  proof -
    have "read_knows env cfg tag s1"
      using read_knows_moves assms(3) h(1) by blast
    then have "replaces env mutate (kv_value s1, new)"
      using h(2) Inr by (auto simp: replaces_def read_knows_def)
    then show ?thesis
      using h(3) log [OF h(1)] assms(2) Inr by (auto simp: kv_put_def landed_last_def)
  qed
  have log2: "kv_log s' = kv_log s2 \<Longrightarrow> landed_last env (mutate cfg) s' = landed_last env (mutate cfg) s2" for s' s2
    by (simp add: landed_last_def)
  have e: "kv_wp ?I (Done (Inl x)) Q s'" if "?I (kv_log s')" for x s'
    using that err log by simp
  show ?thesis
    unfolding write_config_def Inr sum.case etag.sel
  proof (rule kv_wp_put)
    fix s1 s2 r
    assume h: "kv_moves s s1" "tag = kv_tag s1" "kv_put new s1 s2"
    have p: "?I (kv_log s2)" "landed_last env (mutate cfg) s2"
      using put [OF h] by simp_all
    show "kv_wp ?I (case r of Inl x \<Rightarrow> Done (Inl (EdgeStoreError (''put_key: '' @ x))) | Inr _ \<Rightarrow> Done (Inr ())) Q s2"
    proof (cases r)
      case (Inr u)
      have "Q (Inr ()) s'" if "kv_moves s2 s'" for s'
        by (rule ok) (use log2 [OF log [OF that]] log [OF that] p in simp_all)
      then show ?thesis
        using p(1) by (simp add: Inr)
    next
      case (Inl x)
      show ?thesis
        unfolding Inl sum.case by (rule e) (rule p(1))
    qed
  next
    fix s1 x
    assume "kv_moves s s1"
    then show "kv_wp ?I (case Inl x of Inl x \<Rightarrow> Done (Inl (EdgeStoreError (''put_key: '' @ x))) | Inr _ \<Rightarrow> Done (Inr ())) Q s1"
      unfolding sum.case by (intro e) (simp add: log assms(2))
  qed (rule assms(2))
qed

definition rmw_post ::
  "edge_env \<Rightarrow> (gate_config \<Rightarrow> gate_config) \<Rightarrow> edge_store_error + gate_config \<Rightarrow> kv \<Rightarrow> bool" where
  "rmw_post env mutate r s \<longleftrightarrow> list_all (replaces env mutate) (kv_log s)
     \<and> (case r of Inl _ \<Rightarrow> True | Inr cfg \<Rightarrow> landed_last env cfg s)"

lemma rmw_done: "rmw_post env mutate r s \<Longrightarrow> kv_wp (list_all (replaces env mutate)) (Done r) (rmw_post env mutate) s"
  by (auto simp: rmw_post_def kv_moves_def landed_last_def split: sum.splits)

lemma rmw_second:
  assumes "kv_ok s" "list_all (replaces env mutate) (kv_log s)"
  shows "kv_wp (list_all (replaces env mutate)) (bind_ok (read_config env arn) (\<lambda>(cfg, tag).
      bind_ok (write_config env arn tag (mutate cfg)) (\<lambda>_. Done (Inr (mutate cfg))))) (rmw_post env mutate) s"
proof -
  have w: "kv_wp (list_all (replaces env mutate)) (bind_ok (write_config env arn (ETag tag) (mutate cfg))
      (\<lambda>_. Done (Inr (mutate cfg)))) (rmw_post env mutate) s'"
    if "kv_ok s'" "kv_log s' = kv_log s" "read_knows env cfg tag s'" for cfg tag s'
    unfolding bind_ok_def
    by (rule kv_wp_bind [OF that(1)], rule write_config_wp [OF that(1) _ that(3)])
      (auto simp: that(2) assms(2) rmw_post_def simp del: kv_wp.simps intro!: rmw_done)
  show ?thesis
    unfolding bind_ok_def [of "read_config env arn"]
    by (rule kv_wp_bind [OF assms(1)], rule read_config_wp)
      (auto simp: assms rmw_post_def simp del: kv_wp.simps intro!: rmw_done w)
qed

lemma rmw_safe:
  assumes "kv_ok s" "kv_log s = []"
  shows "kv_wp (list_all (replaces env mutate)) (edge_read_modify_write (kvs_store env arn) mutate)
    (rmw_post env mutate) s"
proof -
  let ?k = "\<lambda>cfg w. case w of
           Inr _ \<Rightarrow> Done (Inr (mutate cfg))
         | Inl _ \<Rightarrow>
             bind_ok (read_config env arn) (\<lambda>(cfg, tag).
               bind_ok (write_config env arn tag (mutate cfg)) (\<lambda>_. Done (Inr (mutate cfg))))"
  have w: "kv_wp (list_all (replaces env mutate)) (bind (write_config env arn (ETag tag) (mutate cfg)) (?k cfg))
      (rmw_post env mutate) s'"
    if "kv_ok s'" "kv_log s' = kv_log s" "read_knows env cfg tag s'" for cfg tag s'
    by (rule kv_wp_bind [OF that(1)], rule write_config_wp [OF that(1) _ that(3)])
      (auto simp: that(2) assms(2) rmw_post_def simp del: kv_wp.simps intro!: rmw_done rmw_second)
  show ?thesis
    unfolding edge_read_modify_write_def kvs_store_def edge_store.select_convs
      bind_ok_def [of "read_config env arn" "\<lambda>(cfg, tag). bind (write_config env arn tag (mutate cfg)) (?k cfg)"]
    by (rule kv_wp_bind [OF assms(1)], rule read_config_wp)
      (auto simp: assms rmw_post_def simp del: kv_wp.simps intro!: rmw_done w)
qed

section \<open>Properties\<close>

text \<open>C32: no change of the gate's document is ever lost: whatever other writers do and however the
  read-modify-write is interleaved, retried, cut short or left without an answer, each document it
  replaces is replaced by its own image under the change, and a result is only reported when its
  document was the last one to land.\<close>

theorem edge_no_lost_update:
  assumes "kv_tag s \<in> kv_used s" "kv_log s = []"
    and "kv_run (edge_read_modify_write (kvs_store env arn) mutate) s p' s'"
  shows "list_all (replaces env mutate) (kv_log s')
     \<and> (case p' of Done (Inr cfg) \<Rightarrow> landed_last env cfg s' | _ \<Rightarrow> True)"
proof -
  have w: "kv_ok s' \<and> kv_wp (list_all (replaces env mutate)) p' (rmw_post env mutate) s'"
    by (rule kv_run_wp [OF assms(3) _ rmw_safe]) (use assms(1,2) in \<open>simp_all add: kv_ok_def\<close>)
  then have "list_all (replaces env mutate) (kv_log s')"
    using kv_wp_log by blast
  then show ?thesis
    using w kv_moves_refl [of s'] by (auto simp: rmw_post_def split: prog.splits sum.splits)
qed

definition ex_config :: gate_config where
  "ex_config = \<lparr>gc_v = 1, gc_enforce_from = 0, gc_fail_open_until = 0, gc_rules = [PathPrefix ''/shop''],
     gc_bind_ip = False\<rparr>"

text \<open>A text that keeps the two numbers of the document, and a decoder of the one document.\<close>

definition ex_edge_env :: edge_env where
  "ex_edge_env = \<lparr>ge_json_text = (\<lambda>j. case j of
       JObj (v # (ks, JNum s) # (kf, JNum f) # rest) \<Rightarrow> Inr (show_u64 s @ show_u64 f) | _ \<Rightarrow> Inl []),
     ge_decode = (\<lambda>_. Inr ex_config), ge_sha256 = (\<lambda>_. replicate 32 0)\<rparr>"

definition ex_engage :: "gate_config \<Rightarrow> gate_config" where
  "ex_engage cfg = cfg\<lparr>gc_fail_open_until := 7\<rparr>"

definition ex_kv :: kv where
  "ex_kv = \<lparr>kv_value = ''00'', kv_tag = ''t0'', kv_used = {''t0''}, kv_log = []\<rparr>"

definition ex_kv' :: kv where
  "ex_kv' = \<lparr>kv_value = show_u64 0 @ show_u64 7, kv_tag = ''t1'', kv_used = {''t1'', ''t0''},
     kv_log = [(''00'', show_u64 0 @ show_u64 7)]\<rparr>"

lemma ex_valid: "validate_rule_fields [PathPrefix ''/shop''] = Inr ()"
  by (simp add: validate_rule_fields_def validate_rule_def check_field_def printable_def rule_caps)

lemma length_show_u64_digit: "unat x < 10 \<Longrightarrow> length (show_u64 x) = 1"
  by (simp add: show_u64_def show_nat.simps [of "unat x"])

lemma ex_encoded: "encode_gate_config ex_edge_env (ex_engage ex_config) = Inr (show_u64 0 @ show_u64 7)"
  using length_show_u64_digit [of 0] length_show_u64_digit [of 7]
  by (simp add: encode_gate_config_def gate_json_def ex_engage_def ex_config_def ex_edge_env_def ex_valid
      MAX_RULES_def MAX_CONFIG_BYTES_def)

lemma ex_edge_run:
  "kv_run (edge_read_modify_write (kvs_store ex_edge_env ''a'') ex_engage) ex_kv
     (Done (Inr (ex_engage ex_config))) ex_kv'"
proof -
  have d: "ge_decode ex_edge_env v = Inr ex_config" for v
    by (simp add: ex_edge_env_def)
  have "\<exists>p1 p2. answer (edge_read_modify_write (kvs_store ex_edge_env ''a'') ex_engage) (RText (Inr ''t0''))
        = Some (QKvDescribe ''a'', p1)
      \<and> answer p1 (RText (Inr ''00'')) = Some (QKvGet ''a'' CONFIG_KEY, p2)
      \<and> answer p2 (RUnit (Inr ())) = Some (QKvPut ''a'' CONFIG_KEY (show_u64 0 @ show_u64 7) ''t0'',
          Done (Inr (ex_engage ex_config)))"
    by (simp add: edge_read_modify_write_def kvs_store_def read_config_def kvs_etag_def bind_ok_def
        KvDescribe_def KvGet_def KvPut_def write_config_def d ex_encoded)
  then obtain p1 p2 where
    a: "answer (edge_read_modify_write (kvs_store ex_edge_env ''a'') ex_engage) (RText (Inr ''t0''))
        = Some (QKvDescribe ''a'', p1)"
      "answer p1 (RText (Inr ''00'')) = Some (QKvGet ''a'' CONFIG_KEY, p2)"
      "answer p2 (RUnit (Inr ())) = Some (QKvPut ''a'' CONFIG_KEY (show_u64 0 @ show_u64 7) ''t0'',
          Done (Inr (ex_engage ex_config)))"
    by blast
  have k: "kv_answers (QKvDescribe ''a'') (RText (Inr ''t0'')) ex_kv ex_kv"
      "kv_answers (QKvGet ''a'' CONFIG_KEY) (RText (Inr ''00'')) ex_kv ex_kv"
      "kv_answers (QKvPut ''a'' CONFIG_KEY (show_u64 0 @ show_u64 7) ''t0'') (RUnit (Inr ())) ex_kv ex_kv'"
    by (auto simp: kv_answers_def kv_put_def ex_kv_def ex_kv'_def)
  show ?thesis
    by (rule kv_run.calls [OF kv_run.calls [OF kv_run.calls [OF kv_run.begins a(1) k(1)] a(2) k(2)] a(3) k(3)])
qed

theorem edge_no_lost_update_witness:
  "kv_run (edge_read_modify_write (kvs_store ex_edge_env ''a'') ex_engage) ex_kv
     (Done (Inr (ex_engage ex_config))) ex_kv'
   \<and> list_all (replaces ex_edge_env ex_engage) (kv_log ex_kv')
   \<and> landed_last ex_edge_env (ex_engage ex_config) ex_kv'"
  using edge_no_lost_update [OF _ _ ex_edge_run] ex_edge_run by (simp add: ex_kv_def)

text \<open>What the encoder relies on: \<open>serde_json\<close> writes the two epochs of the document as decimal numbers, and
  the binding, when it is on, as nine more characters (a comma, the name, a colon and \<open>true\<close>).\<close>

definition binding_length :: "bool \<Rightarrow> nat" where
  "binding_length on = (if on then 9 else 0)"

definition compact_document :: "edge_env \<Rightarrow> bool" where
  "compact_document env \<longleftrightarrow> (\<forall>cfg text s f on. ge_json_text env (gate_json cfg) = Inr text \<longrightarrow>
     (\<exists>t. ge_json_text env (gate_json (cfg\<lparr>gc_enforce_from := s, gc_fail_open_until := f, gc_bind_ip := on\<rparr>)) = Inr t
        \<and> length t + length (show_u64 (gc_enforce_from cfg)) + length (show_u64 (gc_fail_open_until cfg))
            + binding_length (gc_bind_ip cfg)
          = length text + length (show_u64 s) + length (show_u64 f) + binding_length on))"

lemma length_show_nat_le: "n < 10 ^ k \<Longrightarrow> 0 < k \<Longrightarrow> length (show_nat n) \<le> k"
proof (induction n arbitrary: k rule: show_nat.induct)
  case (1 n)
  show ?case
  proof (cases "n < 10")
    case False
    then obtain k' where k: "k = Suc k'" "0 < k'"
      using 1(2) by (cases k; cases "k - 1") auto
    have "n div 10 < 10 ^ k'"
      using 1(2) by (simp add: k less_mult_imp_div_less mult.commute)
    then show ?thesis
      using 1(1) [OF False] k by (simp add: show_nat.simps [of n])
  qed (use 1(3) in \<open>simp add: show_nat.simps [of n]\<close>)
qed

lemma length_show_epoch: "x < 10000000000 \<Longrightarrow> 1 \<le> length (show_u64 x) \<and> length (show_u64 x) \<le> 10"
  using length_show_nat_le [of "unat x" 10] show_nat_not_Nil [of "unat x"]
  by (simp add: show_u64_def word_less_nat_alt Suc_le_eq)

lemma document_fits:
  assumes "compact_document env" "encode_gate_config env cfg = Inr text"
  shows "(\<exists>t. encode_gate_config env (cfg\<lparr>gc_enforce_from := s, gc_fail_open_until := f, gc_bind_ip := on\<rparr>) = Inr t)
    \<longleftrightarrow> length text + length (show_u64 s) + length (show_u64 f) + binding_length on
        \<le> 950 + length (show_u64 (gc_enforce_from cfg)) + length (show_u64 (gc_fail_open_until cfg))
            + binding_length (gc_bind_ip cfg)"
proof -
  have e: "\<not> MAX_RULES < length (gc_rules cfg)" "\<exists>u. validate_rule_fields (gc_rules cfg) = Inr u"
      "ge_json_text env (gate_json cfg) = Inr text"
    using assms(2) by (auto simp: encode_gate_config_def split: if_splits sum.splits)
  then obtain t where "ge_json_text env
        (gate_json (cfg\<lparr>gc_enforce_from := s, gc_fail_open_until := f, gc_bind_ip := on\<rparr>)) = Inr t"
      "length t + length (show_u64 (gc_enforce_from cfg)) + length (show_u64 (gc_fail_open_until cfg))
            + binding_length (gc_bind_ip cfg)
         = length text + length (show_u64 s) + length (show_u64 f) + binding_length on"
    using assms(1) unfolding compact_document_def by blast
  moreover from this have "(950 < length t) \<longleftrightarrow> \<not> length text + length (show_u64 s) + length (show_u64 f) + binding_length on
        \<le> 950 + length (show_u64 (gc_enforce_from cfg)) + length (show_u64 (gc_fail_open_until cfg))
            + binding_length (gc_bind_ip cfg)"
    by linarith
  ultimately show ?thesis
    using e by (auto simp: encode_gate_config_def MAX_CONFIG_BYTES_def)
qed

text \<open>C33: break-glass fits: when a ruleset passed the lower ceiling that saving it enforces, the document
  still encodes with any ten-digit fail-open epoch, however the IP binding was switched in between,
  because no operation of the program moves the start of enforcement; and it would even if that
  start moved to any ten-digit epoch too, unless the binding was switched on since.  In general it
  encodes exactly when the digits it gained and the nine characters of the binding fit.\<close>

theorem fail_open_always_fits:
  assumes "compact_document env" "encode_gate_config env cfg = Inr text" "length text \<le> RULES_WRITE_CEILING"
    and "f < 10000000000"
  shows "(\<exists>t. encode_gate_config env (cfg\<lparr>gc_fail_open_until := f, gc_bind_ip := on\<rparr>) = Inr t)
     \<and> (s < 10000000000 \<and> (on \<longrightarrow> gc_bind_ip cfg) \<longrightarrow>
         (\<exists>t. encode_gate_config env (cfg\<lparr>gc_enforce_from := s, gc_fail_open_until := f, gc_bind_ip := on\<rparr>) = Inr t))
     \<and> ((\<exists>t. encode_gate_config env (cfg\<lparr>gc_enforce_from := s, gc_fail_open_until := f, gc_bind_ip := on\<rparr>) = Inr t)
        \<longleftrightarrow> length text + length (show_u64 s) + length (show_u64 f) + binding_length on
            \<le> 950 + length (show_u64 (gc_enforce_from cfg)) + length (show_u64 (gc_fail_open_until cfg))
                + binding_length (gc_bind_ip cfg))"
proof -
  note fits = document_fits [OF assms(1,2)]
  have one: "1 \<le> length (show_u64 x)" for x
    using show_nat_not_Nil [of "unat x"] by (simp add: show_u64_def Suc_le_eq)
  have small: "length text \<le> 930"
    using assms(3) by (simp add: RULES_WRITE_CEILING_def MAX_CONFIG_BYTES_def)
  have f: "length (show_u64 f) \<le> 10"
    using length_show_epoch [OF assms(4)] by simp
  have same: "cfg\<lparr>gc_fail_open_until := f, gc_bind_ip := on\<rparr>
      = cfg\<lparr>gc_enforce_from := gc_enforce_from cfg, gc_fail_open_until := f, gc_bind_ip := on\<rparr>"
    by simp
  have "\<exists>t. encode_gate_config env (cfg\<lparr>gc_fail_open_until := f, gc_bind_ip := on\<rparr>) = Inr t"
    unfolding same fits using small f one [of "gc_fail_open_until cfg"] by (simp add: binding_length_def)
  moreover have "\<exists>t. encode_gate_config env (cfg\<lparr>gc_enforce_from := s, gc_fail_open_until := f, gc_bind_ip := on\<rparr>) = Inr t"
    if "s < 10000000000" "on \<longrightarrow> gc_bind_ip cfg"
    unfolding fits using small f length_show_epoch [OF that(1)] one [of "gc_enforce_from cfg"] one [of "gc_fail_open_until cfg"]
      that(2) by (simp add: binding_length_def)
  ultimately show ?thesis
    using fits by blast
qed

text \<open>A document at the ceiling: the fail-open fits with the binding switched on, but would not if the start
  of enforcement moved to a ten-digit epoch as well.\<close>

definition ex_full_env :: edge_env where
  "ex_full_env = \<lparr>ge_json_text = (\<lambda>j. case j of
       JObj (v # (ks, JNum s) # (kf, JNum f) # r # rest) \<Rightarrow>
         Inr (replicate 928 (CHR 0x20) @ show_u64 s @ show_u64 f @ (if rest = [] then [] else replicate 9 (CHR 0x20)))
     | _ \<Rightarrow> Inl []),
     ge_decode = (\<lambda>_. Inr ex_config), ge_sha256 = (\<lambda>_. replicate 32 0)\<rparr>"

lemma ex_full_compact: "compact_document ex_full_env"
  by (simp add: compact_document_def ex_full_env_def gate_json_def binding_length_def)

theorem fail_open_always_fits_witness:
  "(\<exists>t. encode_gate_config ex_full_env (ex_config\<lparr>gc_fail_open_until := 1800000000, gc_bind_ip := True\<rparr>) = Inr t)
   \<and> \<not> (\<exists>t. encode_gate_config ex_full_env
        (ex_config\<lparr>gc_enforce_from := 1700000000, gc_fail_open_until := 1800000000, gc_bind_ip := True\<rparr>) = Inr t)"
proof -
  have d: "length (show_u64 0) = 1" "length (show_u64 1700000000) = 10" "length (show_u64 1800000000) = 10"
    by (simp_all add: show_u64_def show_nat.simps)
  have "encode_gate_config ex_full_env ex_config = Inr (replicate 928 (CHR 0x20) @ show_u64 0 @ show_u64 0)"
    using d(1) by (simp add: encode_gate_config_def gate_json_def ex_config_def ex_full_env_def ex_valid
        MAX_RULES_def MAX_CONFIG_BYTES_def)
  moreover have "length (replicate 928 (CHR 0x20) @ show_u64 0 @ show_u64 0) \<le> RULES_WRITE_CEILING"
    using d(1) by (simp add: MAX_CONFIG_BYTES_def RULES_WRITE_CEILING_def)
  ultimately show ?thesis
    using fail_open_always_fits [OF ex_full_compact, of ex_config _ 1800000000 True 1700000000] d
    by (auto simp: ex_config_def binding_length_def)
qed

end
