(* ===== verification/RulesForm.thy ===== *)
theory RulesForm
  imports Rules Text
begin

text \<open>
  The operator's ruleset form (\<open>parse_rules\<close>, \<open>format_rules\<close> in \<open>crates/admin/src/lib.rs\<close>) and the
  entity-tag comparison of the static assets (\<open>if_none_match\<close>).  An error keeps the line and the
  offending text; \<open>rule_form_error_display\<close> (\<open>AdminHttp\<close>) puts them into the sentence the operator sees.

  Lemmas: every rule that parses has trimmed fields without a line break (\<open>parse_rule_ok\<close>), and
  such a rule's own line parses as that rule (\<open>parse_own_line\<close>), so what the form shows is what it
  saves.
\<close>

datatype rule_form_error =
    NoValue nat string
  | HeaderWithoutValue nat string
  | UnknownFormTag nat string

text \<open>The rule of one line, trimmed and neither empty nor a comment; \<open>i\<close> is its index.\<close>

definition parse_rule :: "nat \<Rightarrow> string \<Rightarrow> rule_form_error + protection_rule" where
  "parse_rule i line =
     (case split_ws line of
        None \<Rightarrow> Inl (NoValue (i + 1) line)
      | Some (tag, rest) \<Rightarrow>
          let rest = utrim rest in
          if tag = ''p'' then Inr (PathPrefix rest)
          else if tag = ''c'' then Inr (Cookie rest)
          else if tag = ''u'' then Inr (UserAgent rest)
          else if tag = ''h'' then
            (case split_ws rest of
               None \<Rightarrow> Inl (HeaderWithoutValue (i + 1) rest)
             | Some (name, v) \<Rightarrow> Inr (Header name (utrim v)))
          else Inl (UnknownFormTag (i + 1) tag))"

fun parse_rules_from :: "nat \<Rightarrow> string list \<Rightarrow> protection_rule list \<Rightarrow> rule_form_error + protection_rule list" where
  "parse_rules_from i [] rules = Inr rules"
| "parse_rules_from i (l # ls) rules =
     (let line = utrim l in
      if line = [] \<or> hd line = CHR ''#'' then parse_rules_from (i + 1) ls rules
      else
        (case parse_rule i line of
           Inl e \<Rightarrow> Inl e
         | Inr rule \<Rightarrow> parse_rules_from (i + 1) ls (rules @ [rule])))"

definition parse_rules :: "string \<Rightarrow> rule_form_error + protection_rule list" where
  "parse_rules text = parse_rules_from 0 (lines text) []"

definition rule_line :: "protection_rule \<Rightarrow> string" where
  "rule_line rule =
     (case rule of
        PathPrefix p \<Rightarrow> ''p '' @ p
      | Cookie name \<Rightarrow> ''c '' @ name
      | UserAgent ua \<Rightarrow> ''u '' @ ua
      | Header name v \<Rightarrow> ''h '' @ name @ '' '' @ v)"

definition format_rules :: "protection_rule list \<Rightarrow> string" where
  "format_rules rules = concat (map (\<lambda>rule. rule_line rule @ [CHR 0x0A]) rules)"

section \<open>What parses\<close>

definition value_ok :: "string \<Rightarrow> bool" where
  "value_ok v \<longleftrightarrow> trimmed v \<and> CHR 0x0A \<notin> set v"

definition name_ok :: "string \<Rightarrow> bool" where
  "name_ok n \<longleftrightarrow> n \<noteq> [] \<and> CHR 0x0A \<notin> set n \<and> (\<forall>k<length n. ws_head (drop k n) = 0)"

definition form_ok :: "protection_rule \<Rightarrow> bool" where
  "form_ok rule \<longleftrightarrow>
     (case rule of
        PathPrefix p \<Rightarrow> value_ok p
      | Cookie n \<Rightarrow> value_ok n
      | UserAgent u \<Rightarrow> value_ok u
      | Header n v \<Rightarrow> name_ok n \<and> value_ok v)"

lemma split_ws_rest:
  assumes "split_ws s = Some (a, b)" "ws_tail s = 0"
  shows "b \<noteq> []" "ws_tail b = 0" "set b \<subseteq> set s" "set a \<subseteq> set s"
proof -
  obtain w where w: "w \<in> set ws_chars" "s = a @ w @ b"
    using split_ws_SomeD [OF assms(1)] by blast
  have "suffix b s"
    unfolding w(2) by (simp add: suffix_def)
  then show "ws_tail b = 0"
    using ws_tail_suffix assms(2) by blast
  show "b \<noteq> []"
  proof
    assume "b = []"
    then have "suffix w s"
      using w(2) by (simp add: suffix_def)
    then show False
      using w(1) assms(2) by (simp add: ws_tail_0)
  qed
  show "set b \<subseteq> set s" "set a \<subseteq> set s"
    using w(2) by auto
qed

lemma value_ok_rest:
  assumes "split_ws s = Some (a, b)" "ws_tail s = 0" "CHR 0x0A \<notin> set s"
  shows "value_ok (utrim b)"
proof -
  note r = split_ws_rest [OF assms(1,2)]
  have "utrim b \<noteq> []"
    by (rule utrim_tail(2) [OF r(2,1)])
  then show ?thesis
    using utrim_is_trimmed [of b] set_utrim [of b] r(3) assms(3) by (auto simp: value_ok_def)
qed

lemma name_ok_head:
  assumes "split_ws s = Some (a, b)" "value_ok s"
  shows "name_ok a"
proof -
  obtain w where w: "w \<in> set ws_chars" "s = a @ w @ b" and k: "\<forall>k<length a. ws_head (drop k s) = 0"
    using split_ws_SomeD [OF assms(1)] by blast
  have "a \<noteq> []"
  proof
    assume "a = []"
    then have "prefix w s"
      using w(2) by simp
    then show False
      using w(1) assms(2) by (auto simp: value_ok_def trimmed_def ws_head_0)
  qed
  moreover have "ws_head (drop j a) = 0" if "j < length a" for j
  proof (rule ws_head_prefix)
    show "prefix (drop j a) (drop j s)"
      unfolding w(2) using that by (simp add: prefix_def)
  qed (use k that in simp)
  moreover have "CHR 0x0A \<notin> set a"
    using assms(2) w(2) by (simp add: value_ok_def)
  ultimately show ?thesis
    by (simp add: name_ok_def)
qed

lemma parse_rule_ok:
  assumes "parse_rule i line = Inr rule" "trimmed line" "CHR 0x0A \<notin> set line"
  shows "form_ok rule"
proof -
  obtain tag rest where s: "split_ws line = Some (tag, rest)"
    using assms(1) by (auto simp: parse_rule_def split: option.splits)
  have v: "value_ok (utrim rest)"
    by (rule value_ok_rest [OF s]) (use assms(2,3) in \<open>simp_all add: trimmed_def\<close>)
  have h: "name_ok n \<and> value_ok (utrim x)" if "split_ws (utrim rest) = Some (n, x)" for n x
    using name_ok_head [OF that v] value_ok_rest [OF that] v by (simp add: value_ok_def trimmed_def)
  show ?thesis
    using assms(1) v h by (auto simp: parse_rule_def s Let_def form_ok_def split: if_splits option.splits)
qed

lemma parse_rules_from_ok:
  "parse_rules_from i ls rules = Inr rs \<Longrightarrow> \<forall>l\<in>set ls. CHR 0x0A \<notin> set l \<Longrightarrow> list_all form_ok rules \<Longrightarrow>
   list_all form_ok rs"
proof (induction i ls rules rule: parse_rules_from.induct)
  case (2 i l ls rules)
  show ?case
  proof (cases "utrim l = [] \<or> hd (utrim l) = CHR ''#''")
    case True
    then show ?thesis
      using 2(1) [OF refl True] 2(3-5) by (auto simp: Let_def)
  next
    case False
    then obtain rule where r: "parse_rule i (utrim l) = Inr rule"
      using 2(3) by (auto simp: Let_def split: sum.splits)
    have "CHR 0x0A \<notin> set (utrim l)"
      using 2(4) set_utrim [of l] by auto
    then have "form_ok rule"
      using parse_rule_ok [OF r] utrim_is_trimmed [of l] False by auto
    then show ?thesis
      using 2(2) [OF refl False r] 2(3-5) False r by (auto simp: Let_def)
  qed
qed auto

section \<open>A rule's own line\<close>

lemma ascii_head:
  assumes "c \<in> {CHR ''p'', CHR ''c'', CHR ''u'', CHR ''h''}"
  shows "ws_head (c # s) = 0"
proof -
  have "\<not> prefix w (c # s)" if "w \<in> set ws_chars" for w
    using that assms by (auto simp: ws_chars_def)
  then show ?thesis
    by (simp add: ws_head_0)
qed

declare split_ws.simps(2) [simp del]

lemma tagged:
  assumes "c \<in> {CHR ''p'', CHR ''c'', CHR ''u'', CHR ''h''}" "trimmed v"
  shows "split_ws (c # CHR '' '' # v) = Some ([c], v)" "trimmed (c # CHR '' '' # v)"
  using split_ws_space [of "[c]" v] trimmed_behind_space [of "[c]" v] ascii_head [OF assms(1)] assms(2)
  by simp_all

lemma header_fields:
  assumes "name_ok n" "value_ok v"
  shows "split_ws (n @ CHR '' '' # v) = Some (n, v)" "trimmed (n @ CHR '' '' # v)"
proof -
  have h: "ws_head (drop k n) = 0" if "k < length n" for k
    using assms(1) that by (simp add: name_ok_def)
  show "split_ws (n @ CHR '' '' # v) = Some (n, v)"
    by (rule split_ws_space) (rule h)
  show "trimmed (n @ CHR '' '' # v)"
    by (rule trimmed_behind_space [OF ws_head_before_space])
      (use h [of 0] assms in \<open>simp_all add: name_ok_def value_ok_def\<close>)
qed

lemma own_line:
  "form_ok rule \<Longrightarrow> parse_rule i (rule_line rule) = Inr rule \<and> trimmed (rule_line rule)
     \<and> CHR 0x0A \<notin> set (rule_line rule) \<and> hd (rule_line rule) \<noteq> CHR ''#''"
proof (cases rule)
  case (Header n v)
  assume "form_ok rule"
  then have ok: "name_ok n" "value_ok v"
    by (simp_all add: form_ok_def Header)
  note f = header_fields [OF ok]
  show ?thesis
    using ok tagged [OF _ f(2), of "CHR ''h''"] f utrim_trimmed [OF f(2)]
    by (simp add: Header rule_line_def parse_rule_def Let_def utrim_trimmed name_ok_def value_ok_def)
qed (auto simp: form_ok_def value_ok_def rule_line_def parse_rule_def tagged utrim_trimmed)

lemmas parse_own_line = own_line [THEN conjunct1] own_line [THEN conjunct2, THEN conjunct1]
  own_line [THEN conjunct2, THEN conjunct2, THEN conjunct1]
  own_line [THEN conjunct2, THEN conjunct2, THEN conjunct2]

lemma lines_format: "list_all form_ok rs \<Longrightarrow> lines_from [] (format_rules rs) = map rule_line rs"
proof (induction rs)
  case (Cons r rs)
  then have r: "form_ok r" by simp
  have "strip_cr (rule_line r) = rule_line r"
    using parse_own_line(2) [OF r] by (intro strip_cr_trimmed) (simp add: trimmed_def)
  then show ?case
    using lines_from_line [OF parse_own_line(3) [OF r], of "[]" "format_rules rs"] Cons
    by (simp add: format_rules_def)
qed (simp add: format_rules_def)

lemma parse_formatted: "list_all form_ok rs \<Longrightarrow> parse_rules_from i (map rule_line rs) acc = Inr (acc @ rs)"
proof (induction rs arbitrary: i acc)
  case (Cons r rs)
  then have r: "form_ok r" by simp
  have t: "utrim (rule_line r) = rule_line r" "rule_line r \<noteq> []" "hd (rule_line r) \<noteq> CHR ''#''"
    using parse_own_line(2,4) [OF r] by (auto simp: utrim_trimmed trimmed_def)
  show ?case
    using Cons t parse_own_line(1) [OF r] by simp
qed simp

section \<open>Entity tags\<close>

fun strip_weak :: "string \<Rightarrow> string" where
  "strip_weak (CHR ''W'' # CHR ''/'' # cs) = strip_weak cs"
| "strip_weak s = s"

definition if_none_match :: "string \<Rightarrow> string \<Rightarrow> bool" where
  "if_none_match header_value tag =
     list_ex (\<lambda>candidate. utrim candidate = ''*'' \<or> strip_weak (utrim candidate) = strip_weak (utrim tag))
       (split_char (CHR '','') header_value)"

section \<open>Properties\<close>

text \<open>C37: what the form shows is what it saves: whatever text an operator saved, the form pre-filled
  from the saved ruleset parses back to exactly that ruleset, so opening and saving the form again
  changes nothing.\<close>

theorem rules_form_roundtrip:
  assumes "parse_rules text = Inr rules"
  shows "parse_rules (format_rules rules) = Inr rules"
proof -
  have "list_all form_ok rules"
    by (rule parse_rules_from_ok [OF assms [unfolded parse_rules_def]])
      (auto simp: lines_def dest: lines_from_no_newline [rotated])
  then show ?thesis
    by (simp add: parse_rules_def lines_def lines_format parse_formatted)
qed

definition ex_form :: string where
  "ex_form = ''p  /shop '' @ [CHR 0x0A] @ ''# note'' @ [CHR 0x0D, CHR 0x0A, CHR 0x0A] @ ''h x-bot a b''"

lemma ex_form_parses: "parse_rules ex_form = Inr [PathPrefix ''/shop'', Header ''x-bot'' ''a b'']"
  by code_simp

theorem rules_form_roundtrip_witness:
  "parse_rules (format_rules [PathPrefix ''/shop'', Header ''x-bot'' ''a b''])
     = Inr [PathPrefix ''/shop'', Header ''x-bot'' ''a b'']"
  by (rule rules_form_roundtrip [OF ex_form_parses])

end
