(* ===== verification/Admin.thy ===== *)
theory Admin
  imports AdminState Edge Schedule RulesForm
begin

text \<open>
  The operator's actions (\<open>crates/admin/src/lib.rs\<close>): each loads the event's control state, decides
  whether the action is legal, and writes through the ports of the stores.  The ports are the records
  of \<open>AdminState\<close>, \<open>Edge\<close> and \<open>Schedule\<close>; the log lines of a failed audit stamp are not modelled.

  Lemmas: an action meets the contract of the ledger when its ports do (\<open>actions_harmless\<close>), and
  \<open>asked\<close> on the model's own store says which writes an action can make.
\<close>

section \<open>Legality\<close>

datatype apply_error = ActionErr action_error | StoreErr store_error

definition MAX_ADMISSION_RATE :: u32 where "MAX_ADMISSION_RATE = 100000"
definition MAX_FAIL_OPEN_MINUTES :: u32 where "MAX_FAIL_OPEN_MINUTES = 1440"

definition parse_phase :: "string \<Rightarrow> action_error + phase" where
  "parse_phase s = (case phase_parse s of Inl _ \<Rightarrow> Inl UnknownPhaseName | Inr p \<Rightarrow> Inr p)"

definition transition_allowed :: "phase \<Rightarrow> phase \<Rightarrow> bool" where
  "transition_allowed from to =
     (if from = to \<or> to = Maintenance \<or> from = Maintenance then True
      else (from, to) \<in> {(Idle, PreQueue), (PreQueue, Active), (Active, PostEvent)})"

fun next_phases :: "phase \<Rightarrow> phase list" where
  "next_phases Idle = [PreQueue]"
| "next_phases Active = [PostEvent]"
| "next_phases PreQueue = []"
| "next_phases PostEvent = []"
| "next_phases Maintenance = [Active, Idle]"

definition debounce_check :: "control_state \<Rightarrow> arrival \<Rightarrow> action_error + unit" where
  "debounce_check state now =
     (case co_last_action_time state of
        None \<Rightarrow> Inr ()
      | Some prev \<Rightarrow>
          if 0 \<le> ar_at now - prev \<and> ar_at now - prev < DEBOUNCE then Inl TooFast else Inr ())"

section \<open>The actions\<close>

text \<open>The conversions of \<open>?\<close>: a rejected action, a store failure, a failure of another port as text.\<close>

definition reject :: "action_error \<Rightarrow> (apply_error + 'a) prog" where
  "reject e = Done (Inl (ActionErr e))"

definition require :: "action_error + 'a \<Rightarrow> (apply_error + 'a) prog" where
  "require r = Done (map_sum ActionErr (\<lambda>x. x) r)"

definition via_store :: "(store_error + 'a) prog \<Rightarrow> (apply_error + 'a) prog" where
  "via_store p = bind p (\<lambda>r. Done (map_sum StoreErr (\<lambda>x. x) r))"

definition via :: "('e \<Rightarrow> string) \<Rightarrow> ('e + 'a) prog \<Rightarrow> (apply_error + 'a) prog" where
  "via display p = bind p (\<lambda>r. Done (map_sum (\<lambda>e. StoreErr (Backend (display e))) (\<lambda>x. x) r))"

text \<open>\<open>let Some(state) = store.load(event_id).await? else { return Err(NotFound) }\<close>\<close>

definition loaded ::
  "admin_store \<Rightarrow> string \<Rightarrow> (control_state \<Rightarrow> (apply_error + 'a) prog) \<Rightarrow> (apply_error + 'a) prog" where
  "loaded store event_id f =
     bind_ok (via_store (ad_load store event_id)) (\<lambda>state.
       case state of None \<Rightarrow> reject NotFound | Some state \<Rightarrow> f state)"

definition apply_phase ::
  "admin_store \<Rightarrow> string \<Rightarrow> string \<Rightarrow> string \<Rightarrow> arrival \<Rightarrow> (apply_error + phase) prog" where
  "apply_phase store event_id to actor now =
     bind_ok (require (parse_phase to)) (\<lambda>to.
       loaded store event_id (\<lambda>state.
         if to = Maintenance then reject (IllegalTransition (co_phase state) to)
         else if \<not> transition_allowed (co_phase state) to then reject (IllegalTransition (co_phase state) to)
         else if to = Active \<and> co_participants state = None then reject NotOpened
         else bind_ok (via_store (ad_set_phase store event_id (co_phase state) to SetPhase actor now))
           (\<lambda>_. Done (Inr to))))"

definition apply_force_maintenance ::
  "admin_store \<Rightarrow> string \<Rightarrow> string \<Rightarrow> arrival \<Rightarrow> (apply_error + unit) prog" where
  "apply_force_maintenance store event_id actor now =
     loaded store event_id (\<lambda>state.
       via_store (ad_force_maintenance store event_id (co_phase state) actor now))"

definition apply_rate ::
  "admin_store \<Rightarrow> string \<Rightarrow> string \<Rightarrow> string \<Rightarrow> arrival \<Rightarrow> (apply_error + u32) prog" where
  "apply_rate store event_id rate actor now =
     (case parse_u32 rate of
        None \<Rightarrow> reject InvalidRate
      | Some rate \<Rightarrow>
          if rate = 0 then reject InvalidRate
          else if MAX_ADMISSION_RATE < rate then reject (RateTooHigh MAX_ADMISSION_RATE)
          else loaded store event_id (\<lambda>state.
            bind_ok (require (debounce_check state now)) (\<lambda>_.
              bind_ok (via_store (ad_set_rate store event_id (co_target_rate state) rate actor now))
                (\<lambda>_. Done (Inr rate)))))"

definition apply_control ::
  "admin_store \<Rightarrow> string \<Rightarrow> (stored_control \<Rightarrow> illegal_control + stored_control) \<Rightarrow> admin_action \<Rightarrow>
   string \<Rightarrow> arrival \<Rightarrow> (apply_error + unit) prog" where
  "apply_control store event_id transition action actor now =
     loaded store event_id (\<lambda>state.
       bind_ok (require (debounce_check state now)) (\<lambda>_.
         case transition (co_stored_control state) of
           Inl _ \<Rightarrow> reject ActionConflict
         | Inr to \<Rightarrow>
             via_store (ad_set_stored_control store event_id (co_stored_control state) to action actor now)))"

definition apply_pause :: "admin_store \<Rightarrow> string \<Rightarrow> string \<Rightarrow> arrival \<Rightarrow> (apply_error + unit) prog" where
  "apply_pause store event_id actor now = apply_control store event_id stored_pause Pause actor now"

definition apply_resume :: "admin_store \<Rightarrow> string \<Rightarrow> string \<Rightarrow> arrival \<Rightarrow> (apply_error + unit) prog" where
  "apply_resume store event_id actor now = apply_control store event_id stored_resume Resume actor now"

definition apply_message ::
  "admin_store \<Rightarrow> string \<Rightarrow> string \<Rightarrow> string \<Rightarrow> arrival \<Rightarrow> (apply_error + unit) prog" where
  "apply_message store event_id message actor now =
     loaded store event_id (\<lambda>state.
       bind_ok (require (debounce_check state now)) (\<lambda>_.
         via_store (ad_set_message store event_id message actor now)))"

definition apply_fail_open ::
  "admin_store \<Rightarrow> edge_store \<Rightarrow> string \<Rightarrow> string \<Rightarrow> string \<Rightarrow> arrival \<Rightarrow> (apply_error + unit) prog" where
  "apply_fail_open store edge event_id minutes actor now =
     (case parse_u32 minutes of
        None \<Rightarrow> reject InvalidDuration
      | Some minutes \<Rightarrow>
          if minutes = 0 \<or> MAX_FAIL_OPEN_MINUTES < minutes then reject InvalidDuration
          else loaded store event_id (\<lambda>_.
            let until = saturating_add (ar_epoch_seconds now) (saturating_mul (ucast minutes) 60) in
            bind_ok (via edge_error_display
                (edge_read_modify_write edge (\<lambda>cfg. cfg\<lparr>gc_fail_open_until := until\<rparr>))) (\<lambda>_.
              via_store (ad_set_fail_open_until store event_id until FailOpen actor now))))"

definition apply_recover ::
  "admin_store \<Rightarrow> edge_store \<Rightarrow> string \<Rightarrow> string \<Rightarrow> arrival \<Rightarrow> (apply_error + unit) prog" where
  "apply_recover store edge event_id actor now =
     loaded store event_id (\<lambda>_.
       bind_ok (via_store (ad_set_fail_open_until store event_id 0 Recover actor now)) (\<lambda>_.
         bind_ok (via edge_error_display
             (edge_read_modify_write edge (\<lambda>cfg. cfg\<lparr>gc_fail_open_until := 0\<rparr>))) (\<lambda>_.
           Done (Inr ()))))"

definition apply_start_time ::
  "admin_store \<Rightarrow> open_schedule \<Rightarrow> 'c zone_env \<Rightarrow> string \<Rightarrow> string \<Rightarrow> string \<Rightarrow> string \<Rightarrow> arrival \<Rightarrow>
   (apply_error + unit) prog" where
  "apply_start_time store schedule zones event_id at timezone actor now =
     loaded store event_id (\<lambda>state.
       bind_ok (require (debounce_check state now)) (\<lambda>_.
         if utrim at = [] then
           bind_ok (via_store (ad_set_starts_at store event_id None ClearStartTime actor now)) (\<lambda>_.
             via schedule_error_display (sc_set_start_time schedule None))
         else
           bind_ok (require (parse_start_time zones at timezone (ar_epoch_seconds now))) (\<lambda>start.
             bind_ok (via schedule_error_display
                 (sc_set_start_time schedule (Some (sm_expression start, sm_timezone start)))) (\<lambda>_.
               via_store (ad_set_starts_at store event_id
                 (Some (sm_epoch_secs start, sm_timezone start)) SetStartTime actor now)))))"

definition apply_open_now ::
  "admin_store \<Rightarrow> opener \<Rightarrow> string \<Rightarrow> string \<Rightarrow> arrival \<Rightarrow> (apply_error + open_now) prog" where
  "apply_open_now store opn event_id actor now =
     loaded store event_id (\<lambda>state.
       if co_phase state \<noteq> PreQueue then reject (IllegalTransition (co_phase state) Active)
       else bind_ok (require (debounce_check state now)) (\<lambda>_.
         bind_ok (via open_error_display (op_open_now opn)) (\<lambda>outcome.
           if outcome = NowOpened
           then bind (ad_stamp_action store event_id OpenNow actor now) (\<lambda>_. Done (Inr outcome))
           else Done (Inr outcome))))"

definition apply_ip_binding ::
  "admin_store \<Rightarrow> edge_store \<Rightarrow> string \<Rightarrow> bool \<Rightarrow> string \<Rightarrow> arrival \<Rightarrow> (apply_error + unit) prog" where
  "apply_ip_binding store edge event_id on actor now =
     loaded store event_id (\<lambda>_.
       bind_ok (via edge_error_display
           (edge_read_modify_write edge (\<lambda>cfg. cfg\<lparr>gc_bind_ip := on\<rparr>))) (\<lambda>_.
         bind (ad_stamp_action store event_id SetIpBinding actor now) (\<lambda>_. Done (Inr ()))))"

definition apply_set_rules ::
  "admin_store \<Rightarrow> edge_env \<Rightarrow> edge_store \<Rightarrow> string \<Rightarrow> protection_rule list \<Rightarrow> string \<Rightarrow> arrival \<Rightarrow>
   (apply_error + unit) prog" where
  "apply_set_rules store env edge event_id rules actor now =
     loaded store event_id (\<lambda>_.
       bind_ok (via edge_error_display (es_read_config edge)) (\<lambda>(probe, _).
         case encode_gate_config env (probe\<lparr>gc_rules := rules\<rparr>) of
           Inl e \<Rightarrow> reject (InvalidRules (config_error_display e))
         | Inr encoded \<Rightarrow>
             if RULES_WRITE_CEILING < length encoded then
               reject (InvalidRules (''ruleset is '' @ show_nat (length encoded) @ '' bytes, over the ''
                 @ show_nat RULES_WRITE_CEILING
                 @ ''-byte limit reserved so a later fail-open can always still be written''))
             else
               bind_ok (via edge_error_display
                   (edge_read_modify_write edge (\<lambda>cfg. cfg\<lparr>gc_rules := rules\<rparr>))) (\<lambda>cfg.
                 let audit_digest =
                       (case encode_gate_config env cfg of Inr encoded \<Rightarrow> rules_digest env encoded | Inl _ \<Rightarrow> []) in
                 bind (ad_set_rules_audit store event_id audit_digest (length (gc_rules cfg)) actor now)
                   (\<lambda>_. Done (Inr ())))))"

section \<open>The actions and the ledger\<close>

lemma harmless_via:
  "harmless cfg p \<Longrightarrow> harmless cfg (via_store p)" "harmless cfg q \<Longrightarrow> harmless cfg (via d q)"
  unfolding via_store_def via_def by (auto intro: harmless_bind)

lemma harmless_pure [simp, intro]: "harmless cfg (reject e)" "harmless cfg (require r)"
  by (simp_all add: reject_def require_def)

lemma edge_harmless:
  "harmless cfg (kvs_etag arn)" "harmless cfg (read_config env arn)" "harmless cfg (write_config env arn t c)"
proof -
  show e: "harmless cfg (kvs_etag arn)"
    unfolding kvs_etag_def by (auto intro!: harmless_quiet split: sum.split)
  show "harmless cfg (read_config env arn)"
    unfolding read_config_def by (auto intro!: harmless_bind_ok e harmless_quiet split: sum.split)
  show "harmless cfg (write_config env arn t c)"
    unfolding write_config_def by (auto intro!: harmless_quiet split: sum.split)
qed

text \<open>The edge port, and what a client of it may rely on.\<close>

locale edge_port =
  fixes cfg :: ledger_cfg and edge :: edge_store
  assumes edge_read: "harmless cfg (es_read_config edge)"
    and edge_write: "harmless cfg (es_write_config edge tag gc)"
begin

lemma rmw_harmless: "harmless cfg (edge_read_modify_write edge f)"
  unfolding edge_read_modify_write_def
  by (auto intro!: harmless_bind_ok harmless_bind edge_read edge_write split: sum.split)

end

interpretation kve: edge_port cfg "kvs_store env arn" for cfg env arn
  by unfold_locales (simp_all add: kvs_store_def edge_harmless)

locale action_ports = admin_port cfg st + edge_port cfg edge + schedule_port cfg sched + opener_port cfg opn
  for cfg st edge sched opn
begin

lemma loaded_harmless: "(\<And>state. harmless cfg (f state)) \<Longrightarrow> harmless cfg (loaded st (lc_event cfg) f)"
  unfolding loaded_def
  by (auto intro!: harmless_bind_ok harmless_via load_harmless split: option.split)

lemma loaded_seen:
  assumes "\<And>state g'. (co_participants state \<noteq> None \<Longrightarrow> gh_counted g') \<Longrightarrow> lwp cfg (f state) Q g'"
    and "\<forall>r g'. Q r g'"
  shows "lwp cfg (loaded st (lc_event cfg) f) Q g"
  unfolding loaded_def via_store_def lwp_bind_ok lwp_bind
proof (rule load_seen, rule lwp_DoneI)
  fix r :: "store_error + control_state option" and g' :: ghost
  assume seen: "\<And>s. r = Inr (Some s) \<Longrightarrow> co_participants s \<noteq> None \<Longrightarrow> gh_counted g'"
  have *: "lwp cfg (f state) Q g'" if "r = Inr (Some state)" for state :: control_state
    using assms(1) seen [OF that] .
  show "case map_sum StoreErr (\<lambda>x. x) r of Inl e \<Rightarrow> lwp cfg (Done (Inl e)) Q g'
      | Inr x \<Rightarrow> lwp cfg (case x of None \<Rightarrow> reject NotFound | Some state \<Rightarrow> f state) Q g'"
    using assms(2) * by (cases r) (auto simp: reject_def intro!: lwp_DoneI split: option.split)
qed

lemma phase_step:
  fixes state :: control_state
  assumes "co_participants state \<noteq> None \<Longrightarrow> gh_counted g" "\<forall>r g'. Q r g'"
  shows "lwp cfg
    (if to = Maintenance then reject (IllegalTransition (co_phase state) to)
     else if \<not> transition_allowed (co_phase state) to then reject (IllegalTransition (co_phase state) to)
     else if to = Active \<and> co_participants state = None then reject NotOpened
     else bind_ok (via_store (ad_set_phase st (lc_event cfg) (co_phase state) to SetPhase actor now))
       (\<lambda>_. Done (Inr to))) Q g"
proof -
  have "lwp cfg (reject e) Q g" for e
    using assms(2) by (simp add: reject_def lwp_DoneI)
  moreover have "lwp cfg (bind_ok (via_store (ad_set_phase st (lc_event cfg) p to SetPhase actor now))
      (\<lambda>_. Done (Inr to))) Q g" if "to = Active \<longrightarrow> gh_counted g" for p
    unfolding via_store_def lwp_bind_ok lwp_bind
    by (rule set_phase_seen [OF that]) (use assms(2) in \<open>auto intro!: lwp_DoneI split: sum.split\<close>)
  ultimately show ?thesis
    using assms(1) by (auto simp del: lwp_bind_ok)
qed

lemma phase_harmless: "harmless cfg (apply_phase st (lc_event cfg) to actor now)"
  unfolding harmless_def apply_phase_def
proof (intro allI impI)
  fix Q :: "apply_error + phase \<Rightarrow> ghost \<Rightarrow> bool" and g
  assume q: "\<forall>r g'. Q r g'"
  show "lwp cfg (bind_ok (require (parse_phase to)) (\<lambda>to.
      loaded st (lc_event cfg) (\<lambda>state.
         if to = Maintenance then reject (IllegalTransition (co_phase state) to)
         else if \<not> transition_allowed (co_phase state) to then reject (IllegalTransition (co_phase state) to)
         else if to = Active \<and> co_participants state = None then reject NotOpened
         else bind_ok (via_store (ad_set_phase st (lc_event cfg) (co_phase state) to SetPhase actor now))
           (\<lambda>_. Done (Inr to))))) Q g"
    unfolding lwp_bind_ok require_def
    by (rule lwp_DoneI)
      (use q in \<open>auto split: sum.split intro: lwp_DoneI loaded_seen phase_step\<close>)
qed

lemmas port_harmless = loaded_harmless harmless_bind_ok harmless_bind harmless_via writes_harmless rmw_harmless
  edge_read schedule_harmless opener_harmless

lemma control_harmless: "harmless cfg (apply_control st (lc_event cfg) transition action actor now)"
  unfolding apply_control_def by (auto intro!: port_harmless split: sum.split)

lemma actions_harmless:
  "harmless cfg (apply_force_maintenance st (lc_event cfg) actor now)"
  "harmless cfg (apply_rate st (lc_event cfg) rate actor now)"
  "harmless cfg (apply_pause st (lc_event cfg) actor now)"
  "harmless cfg (apply_resume st (lc_event cfg) actor now)"
  "harmless cfg (apply_message st (lc_event cfg) message actor now)"
  "harmless cfg (apply_fail_open st edge (lc_event cfg) minutes actor now)"
  "harmless cfg (apply_recover st edge (lc_event cfg) actor now)"
  "harmless cfg (apply_start_time st sched zones (lc_event cfg) at timezone actor now)"
  "harmless cfg (apply_open_now st opn (lc_event cfg) actor now)"
  "harmless cfg (apply_ip_binding st edge (lc_event cfg) on actor now)"
  "harmless cfg (apply_set_rules st env edge (lc_event cfg) rules actor now)"
  unfolding apply_force_maintenance_def apply_rate_def apply_pause_def apply_resume_def
    apply_message_def apply_fail_open_def apply_recover_def apply_start_time_def apply_open_now_def
    apply_ip_binding_def apply_set_rules_def Let_def
  by (auto intro!: port_harmless control_harmless split: option.split sum.split)

end

interpretation act: action_ports cfg "dynamo_admin_store jf (tb_counters (lc_tables cfg))" "kvs_store kenv arn"
    "scheduler_store n" "lambda_opener jenv f ev" for cfg jf kenv arn n jenv f ev
  by unfold_locales

end
