(* ===== verification/Operator.thy ===== *)
theory Operator
  imports Admin
begin

text \<open>
  What the operator's actions can do to the stores: the requests of an action on the model's own
  stores, read off its program, and what the writes mean for the item they land on.

  Lemmas: \<open>asked_load\<close> and its neighbours reduce the requests of an action to those of its last
  write; \<open>audit_frame\<close> says that such a write changes the attribute it is about and the audit fields.
\<close>

section \<open>The requests of an action\<close>

lemma asked_pure [simp]: "asked (reject e) rs = {}" "asked (require r) rs = {}"
  by (simp_all add: reject_def require_def)

lemma yields_pure [simp]:
  "yields (reject e) rs y \<longleftrightarrow> rs = [] \<and> y = Inl (ActionErr e)"
  "yields (require r) rs (Inr x) \<longleftrightarrow> rs = [] \<and> r = Inr x"
  by (cases r; auto simp: reject_def require_def)+

lemma asked_mono: "q \<in> asked p rs \<Longrightarrow> q \<in> asked p (rs @ rs')"
proof (induction p arbitrary: rs rule: prog_induct)
  case (Ask q' k)
  then show ?case
    unfolding asked_Ask by (metis append_Cons)
qed simp

lemma map_sum_Inr: "Inr x = map_sum f (\<lambda>x. x) r \<longleftrightarrow> r = Inr x"
  by (cases r) auto

text \<open>A response that only settles the result.\<close>

lemma asked_settled [simp]: "asked (case r of Inl e \<Rightarrow> Done (F e) | Inr x \<Rightarrow> Done (G x)) rs = {}"
  by (cases r) simp_all

lemma yields_settled [simp]:
  "yields (case r of Inl e \<Rightarrow> Done (Inl (F e)) | Inr x \<Rightarrow> Done (Inr (G x))) rs (Inr u) \<longleftrightarrow> rs = [] \<and> (\<exists>x. r = Inr x \<and> u = G x)"
  by (cases r) auto

lemma asked_via [simp]: "asked (via_store p) rs = asked p rs" "asked (via d q) rs = asked q rs"
  by (auto simp: via_store_def via_def asked_bind)

lemma yields_via [simp]:
  "yields (via_store p) rs (Inr x) \<longleftrightarrow> yields p rs (Inr x)" "yields (via d q) rs (Inr x) \<longleftrightarrow> yields q rs (Inr x)"
  by (simp_all add: via_store_def via_def yields_bind map_sum_Inr)

lemma ex_got:
  "(\<exists>r :: 'e + 'a option. P r) \<longleftrightarrow> (\<exists>e. P (Inl e)) \<or> P (Inr None) \<or> (\<exists>m. P (Inr (Some m)))"
  by (metis sum.exhaust option.exhaust)

lemma yields_load [simp]:
  "yields (admin_load jf tbl ev) rs (Inr st) \<longleftrightarrow>
     (\<exists>v. rs = [RGet (Inr v)] \<and> st = map_option (control_of_item jf ev) v)"
  by (auto simp: admin_load_def yields_ops ex_got split_option_ex)

lemma asked_load_only [simp]:
  "q \<in> asked (admin_load jf tbl ev) rs \<longleftrightarrow>
     (\<exists>r rs'. rs = RGet r # rs' \<and> q = QGet tbl (key_build (KEvent ev)) False)"
proof -
  have "asked (case r of Inl e \<Rightarrow> Done (Inl (Backend (''get_item: '' @ sdk_display e))) | Inr None \<Rightarrow> Done (Inr None)
      | Inr (Some m) \<Rightarrow> Done (Inr (Some (control_of_item jf ev m)))) rs = {}" for r rs
    by (cases r) (auto split: option.split)
  then show ?thesis
    by (auto simp: admin_load_def asked_ops)
qed

lemma dynamo_ops [simp]:
  "ad_set_phase (dynamo_admin_store jf tbl) = set_phase jf tbl"
  "ad_set_rate (dynamo_admin_store jf tbl) = set_rate jf tbl"
  "ad_set_message (dynamo_admin_store jf tbl) = set_message jf tbl"
  "ad_set_starts_at (dynamo_admin_store jf tbl) = set_starts_at jf tbl"
  "ad_set_stored_control (dynamo_admin_store jf tbl) = set_stored_control jf tbl"
  "ad_set_fail_open_until (dynamo_admin_store jf tbl) = set_fail_open_until jf tbl"
  "ad_set_rules_audit (dynamo_admin_store jf tbl) = set_rules_audit jf tbl"
  "ad_stamp_action (dynamo_admin_store jf tbl) = stamp_action jf tbl"
  "ad_force_maintenance (dynamo_admin_store jf tbl) = force_maintenance jf tbl"
  by (simp_all add: dynamo_admin_store_def)

lemma control_fields [simp]:
  "co_participants (control_of_item jf ev m) = get_u64 m ''participant_count''"
  "co_target_rate (control_of_item jf ev m) = Option.bind (get_u64 m ''target_rate'') u32_try_from"
  "co_stored_control (control_of_item jf ev m) = stored_control_of m"
  by (simp_all add: control_of_item_def)

lemma asked_load:
  "q \<in> asked (loaded (dynamo_admin_store jf tbl) ev f) rs \<longleftrightarrow>
     (\<exists>r rs'. rs = RGet r # rs' \<and> (q = QGet tbl (key_build (KEvent ev)) False
        \<or> (\<exists>m. r = Inr (Some m) \<and> q \<in> asked (f (control_of_item jf ev m)) rs')))"
  (is "?l \<longleftrightarrow> ?r")
proof -
  have "?l \<longleftrightarrow> (\<exists>r rs'. rs = RGet r # rs' \<and> q = QGet tbl (key_build (KEvent ev)) False)
      \<or> (\<exists>m rs'. rs = RGet (Inr (Some m)) # rs' \<and> q \<in> asked (f (control_of_item jf ev m)) rs')"
    by (simp add: loaded_def dynamo_admin_store_def asked_bind_ok split_option_ex) (metis append_Cons append_Nil)
  then show ?thesis by blast
qed

lemma asked_guarded [simp]:
  "q \<in> asked (send_guarded tbl ev us c what) rs \<longleftrightarrow>
     (\<exists>r rs'. rs = RUpdate r # rs' \<and> q = QUpdate tbl (key_build (KEvent ev)) us c)"
proof -
  have "asked (case r of Inr _ \<Rightarrow> Done (Inr ()) | Inl (ConditionalCheckFailed _) \<Rightarrow> Done (Inl Conflict)
      | Inl e \<Rightarrow> Done (Inl (Backend (''update_item('' @ what @ ''): '' @ sdk_display e)))) rs = {}" for r rs
    by (cases r) (auto split: sdk_error.split)
  then show ?thesis
    by (auto simp: send_guarded_def asked_ops)
qed

lemma asked_required [simp]:
  "q \<in> asked (bind_ok (require r) f) rs \<longleftrightarrow> (\<exists>x. r = Inr x \<and> q \<in> asked (f x) rs)"
  by (simp add: asked_bind_ok)

lemma asked_then_done [simp]: "q \<in> asked (bind_ok p (\<lambda>x. Done (g x))) rs \<longleftrightarrow> q \<in> asked p rs"
  by (simp add: asked_bind_ok)

section \<open>What a write leaves\<close>

definition audit_attrs :: "string set" where
  "audit_attrs = {''last_action'', ''last_action_by'', ''last_action_at'', ''last_action_epoch_ms''}"

lemma audit_image [simp]: "clause_attr ` set (audit_clauses jf action actor now) = audit_attrs"
  by (auto simp: audit_clauses_def audit_attrs_def)

lemma audit_frame:
  assumes "update_effect (u # audit_clauses jf action actor now) m m'"
  shows "clause_ok u m (m' (clause_attr u))" "a \<noteq> clause_attr u \<Longrightarrow> a \<notin> audit_attrs \<Longrightarrow> m' a = m a"
  using update_clause [OF assms, of u] update_frame [OF assms, of a] by auto

text \<open>Texts are stored as they are; so are the numbers the code writes.\<close>

lemma stored_plain [simp]:
  "stored_as (AS s) v \<longleftrightarrow> v = AS s" "stored_as (AN (show_nat n)) v \<longleftrightarrow> v = AN (show_nat n)"
  by (auto simp: stored_as_def)

lemma clause_ok_USet [simp]:
  "clause_ok (USet a (AS s)) m v \<longleftrightarrow> v = Some (AS s)"
  "clause_ok (USet a (AN (show_nat n))) m v \<longleftrightarrow> v = Some (AN (show_nat n))"
  by (auto simp: clause_ok_def)

section \<open>Properties\<close>

text \<open>C27: an operator's phase change is legal where it lands: whatever happened to the event between
  the read and the write, the write moves the item from a phase from which the transition is allowed,
  never into maintenance, never into active unless the open had published a cohort, and it
  touches nothing but the phase and the audit fields.\<close>

theorem phase_writes_legal:
  assumes "QUpdate t k us c \<in> asked (apply_phase (dynamo_admin_store jf tbl) ev to actor now) rs"
    and "opt_cond c m" "update_effect us (base_item k m) m'"
  shows "\<exists>i from p. m = Some i \<and> i ''phase'' = Some (AS (phase_wire from)) \<and> m' ''phase'' = Some (AS (phase_wire p))
     \<and> parse_phase to = Inr p \<and> transition_allowed from p \<and> p \<noteq> Maintenance
     \<and> (p = Active \<longrightarrow> (\<exists>i0 rs'. rs = RGet (Inr (Some i0)) # rs' \<and> get_u64 i0 ''participant_count'' \<noteq> None))
     \<and> (\<forall>a. a \<noteq> ''phase'' \<longrightarrow> a \<notin> audit_attrs \<longrightarrow> m' a = i a)"
proof -
  obtain i0 rs' p where p: "rs = RGet (Inr (Some i0)) # rs'" "parse_phase to = Inr p" "p \<noteq> Maintenance"
      "transition_allowed (co_phase (control_of_item jf ev i0)) p"
      "p = Active \<longrightarrow> get_u64 i0 ''participant_count'' \<noteq> None"
      "us = phase_clauses jf p SetPhase actor now" "c = Some (phase_guard (co_phase (control_of_item jf ev i0)))"
    using assms(1)
    by (auto simp: apply_phase_def asked_load set_phase_def split: if_splits)
  obtain i where i: "m = Some i" "i ''phase'' = Some (AS (phase_wire (co_phase (control_of_item jf ev i0))))"
    using assms(2) by (cases m) (auto simp: p(7) opt_cond_def phase_guard_def)
  have e: "update_effect (USet ''phase'' (AS (phase_wire p)) # audit_clauses jf SetPhase actor now) i m'"
    using assms(3) by (simp add: p(6) i(1) phase_clauses_def base_item_def)
  show ?thesis
    using p i audit_frame [OF e] by fastforce
qed

text \<open>An instant library of non-negative instants, an operator and two versions of an item.\<close>

definition ex_jiff :: jiff_env where
  "ex_jiff = \<lparr>jf_second = (\<lambda>t. t div 1000000000), jf_millis = (\<lambda>t. t div 1000000),
     jf_from_millis = (\<lambda>ms. Some (ms * 1000000)), jf_audit_text = (\<lambda>_. ''T'')\<rparr>"

definition ex_now :: arrival where
  "ex_now = \<lparr>ar_at = 5000000000, ar_epoch_seconds = 5, ar_epoch_millis = 5000\<rparr>"

definition ex_before :: item where
  "ex_before = [''phase'' \<mapsto> AS ''idle'', ''last_action_epoch_ms'' \<mapsto> AN (show_int 1000)]"

definition ex_stamped :: "admin_action \<Rightarrow> item \<Rightarrow> item" where
  "ex_stamped action m = m(''last_action'' \<mapsto> AS (action_str action), ''last_action_by'' \<mapsto> AS ''op'',
     ''last_action_at'' \<mapsto> AS ''T'', ''last_action_epoch_ms'' \<mapsto> AN (show_int 5000))"

lemma ex_stamped_effect:
  assumes "a \<notin> audit_attrs" "stored_as x y"
  shows "update_effect (USet a x # audit_clauses ex_jiff action ''op'' ex_now) m (ex_stamped action (m(a \<mapsto> y)))"
  using assms
  by (auto simp: update_effect_def ex_stamped_def audit_clauses_def audit_attrs_def ex_jiff_def ex_now_def
      clause_ok_def show_int_def)

lemma ex_control: "co_phase (control_of_item jf ev ex_before) = Idle"
  by (simp add: control_of_item_def ex_before_def get_s_def or_else_def phase_parse_def)

lemma ex_quiet:
  "debounce_check (control_of_item ex_jiff ev ex_before) ex_now = Inr ()"
  "cond_holds (debounce_predicate ex_jiff ex_now) (Some ex_before)"
  using parse_i64_show_int [of 1000] parse_int_show_int [of 1000] parse_int_show_int [of 3000]
  by (simp_all add: debounce_check_def control_of_item_def ex_before_def get_n_def ex_jiff_def ex_now_def DEBOUNCE_def
      DEBOUNCE_MILLIS_def debounce_predicate_def i64_saturating_sub_def)

theorem phase_writes_legal_witness:
  "\<exists>i from p. Some ex_before = Some i \<and> i ''phase'' = Some (AS (phase_wire from))
     \<and> ex_stamped SetPhase (ex_before(''phase'' \<mapsto> AS ''pre_queue'')) ''phase'' = Some (AS (phase_wire p))
     \<and> parse_phase ''pre_queue'' = Inr p \<and> transition_allowed from p \<and> p \<noteq> Maintenance"
proof -
  have "QUpdate ''C'' (key_build (KEvent ''e'')) (phase_clauses ex_jiff PreQueue SetPhase ''op'' ex_now)
      (Some (phase_guard Idle))
    \<in> asked (apply_phase (dynamo_admin_store ex_jiff ''C'') ''e'' ''pre_queue'' ''op'' ex_now)
        [RGet (Inr (Some ex_before)), RUpdate (Inr ex_before)]"
    by (simp add: apply_phase_def asked_load set_phase_def ex_control parse_phase_def phase_parse_def
        transition_allowed_def)
  moreover have "opt_cond (Some (phase_guard Idle)) (Some ex_before)"
    by (simp add: opt_cond_def phase_guard_def ex_before_def)
  moreover have "update_effect (phase_clauses ex_jiff PreQueue SetPhase ''op'' ex_now)
      (base_item k (Some ex_before)) (ex_stamped SetPhase (ex_before(''phase'' \<mapsto> AS ''pre_queue'')))" for k
    using ex_stamped_effect [of "''phase''" "AS ''pre_queue''" "AS ''pre_queue''"]
    by (simp add: phase_clauses_def base_item_def audit_attrs_def)
  ultimately show ?thesis
    using phase_writes_legal [of "''C''" _ "phase_clauses ex_jiff PreQueue SetPhase ''op'' ex_now"] by blast
qed

text \<open>C29: a rate change writes a rate within the bounds, and only over the rate the operator saw:
  if another change landed in between, or a stamp within the debounce window, the write is refused
  by its guard.\<close>

theorem rate_writes_bounded:
  assumes "QUpdate t k us c \<in> asked (apply_rate (dynamo_admin_store jf tbl) ev rate actor now) rs"
    and "opt_cond c m" "update_effect us (base_item k m) m'"
  shows "\<exists>r i0 rs'. parse_u32 rate = Some r \<and> 1 \<le> r \<and> r \<le> 100000
     \<and> m' ''target_rate'' = Some (AN (show_nat (unat r))) \<and> rs = RGet (Inr (Some i0)) # rs'
     \<and> (case Option.bind (get_u64 i0 ''target_rate'') u32_try_from of
          Some seen \<Rightarrow> \<exists>i. m = Some i \<and> i ''target_rate'' = Some (AN (show_nat (unat seen)))
        | None \<Rightarrow> \<forall>i. m = Some i \<longrightarrow> i ''target_rate'' = None)
     \<and> cond_holds (debounce_predicate jf now) m"
proof -
  obtain r i0 rs' where r: "parse_u32 rate = Some r" "r \<noteq> 0" "r \<le> MAX_ADMISSION_RATE"
      "rs = RGet (Inr (Some i0)) # rs'"
      "us = USet ''target_rate'' (AN (show_nat (unat r))) # audit_clauses jf SetRate actor now"
      "c = Some (guard_debounce jf (Some (guard_expected_rate (Option.bind (get_u64 i0 ''target_rate'') u32_try_from))) now)"
    using assms(1) by (auto simp: apply_rate_def asked_load set_rate_def not_less split: option.splits if_splits)
  have "1 \<le> r" "r \<le> 100000"
    using r(2,3) by (simp_all add: MAX_ADMISSION_RATE_def word_le_nat_alt Suc_le_eq unat_gt_0)
  moreover have "m' ''target_rate'' = Some (AN (show_nat (unat r)))"
    using audit_frame(1) [OF assms(3) [unfolded r(5)]] by simp
  moreover have "cond_holds (guard_expected_rate (Option.bind (get_u64 i0 ''target_rate'') u32_try_from)) m"
      "cond_holds (debounce_predicate jf now) m"
    using assms(2) by (simp_all add: r(6) opt_cond_def guard_debounce_def)
  ultimately show ?thesis
    using r(1,4) by (auto simp: guard_expected_rate_def bind_eq_Some_conv split: option.splits)
qed

theorem rate_writes_bounded_witness:
  "parse_u32 ''5'' = Some 5
     \<and> (\<exists>r. parse_u32 ''5'' = Some r \<and> 1 \<le> r \<and> r \<le> 100000
     \<and> ex_stamped SetRate (ex_before(''target_rate'' \<mapsto> AN ''5'')) ''target_rate'' = Some (AN (show_nat (unat r))))
     \<and> cond_holds (debounce_predicate ex_jiff ex_now) (Some ex_before)"
proof -
  have five: "parse_u32 ''5'' = Some (5 :: u32)"
    by (simp add: parse_u32_def parse_uint_def char_digit_def)
  have rate: "get_u64 ex_before ''target_rate'' = None"
    by (simp add: ex_before_def get_u64_def get_n_def)
  have "QUpdate ''C'' (key_build (KEvent ''e''))
      (USet ''target_rate'' (AN (show_nat (unat (5 :: u32)))) # audit_clauses ex_jiff SetRate ''op'' ex_now)
      (Some (guard_debounce ex_jiff (Some (guard_expected_rate None)) ex_now))
    \<in> asked (apply_rate (dynamo_admin_store ex_jiff ''C'') ''e'' ''5'' ''op'' ex_now)
        [RGet (Inr (Some ex_before)), RUpdate (Inr ex_before)]"
    by (simp add: apply_rate_def asked_load set_rate_def five rate ex_quiet MAX_ADMISSION_RATE_def)
  moreover have "opt_cond (Some (guard_debounce ex_jiff (Some (guard_expected_rate None)) ex_now)) (Some ex_before)"
    using ex_quiet(2) by (simp add: opt_cond_def guard_debounce_def guard_expected_rate_def ex_before_def)
  moreover have "update_effect
      (USet ''target_rate'' (AN (show_nat (unat (5 :: u32)))) # audit_clauses ex_jiff SetRate ''op'' ex_now)
      (base_item k (Some ex_before)) (ex_stamped SetRate (ex_before(''target_rate'' \<mapsto> AN ''5'')))" for k
    using ex_stamped_effect [of "''target_rate''" "AN ''5''" "AN ''5''"]
    by (simp add: base_item_def audit_attrs_def show_nat_digits stored_as_def)
  ultimately show ?thesis
    using rate_writes_bounded [of "''C''" _ _ _ ex_jiff "''C''" "''e''" "''5''"] five by blast
qed

lemma asked_control:
  "QUpdate t k us c \<in> asked (apply_control (dynamo_admin_store jf tbl) ev transition action actor now) rs \<Longrightarrow>
   \<exists>from to. transition from = Inr to
     \<and> us = USet ''admission_control'' (AS (stored_wire to)) # audit_clauses jf action actor now
     \<and> c = Some (guard_debounce jf (Some (control_guard from)) now)"
proof -
  assume "QUpdate t k us c \<in> asked (apply_control (dynamo_admin_store jf tbl) ev transition action actor now) rs"
  then obtain i rs' where "QUpdate t k us c \<in> asked (case transition (stored_control_of i) of
      Inl _ \<Rightarrow> reject ActionConflict
    | Inr to \<Rightarrow> via_store (ad_set_stored_control (dynamo_admin_store jf tbl) ev
          (co_stored_control (control_of_item jf ev i)) to action actor now)) rs'"
    by (auto simp: apply_control_def asked_load)
  then show ?thesis
    by (cases "transition (stored_control_of i)") (auto simp: set_stored_control_def)
qed

text \<open>C28: pause and resume are the two moves of a two-state machine: a pause only lands on an item that
  is open and leaves it paused, a resume only on one that is paused and leaves it open, whoever else
  is moving it at the same time; neither touches the fail-open epoch or the rate.\<close>

theorem control_moves:
  assumes "update_effect us (base_item k (Some i)) m'" "opt_cond c (Some i)"
    and "(action, from, to) \<in> {(Pause, StOpen, StPaused), (Resume, StPaused, StOpen)}"
    and "QUpdate t k us c \<in> asked ((if action = Pause then apply_pause else apply_resume)
           (dynamo_admin_store jf tbl) ev actor now) rs"
  shows "stored_control_of i = from \<and> stored_control_of m' = to
     \<and> m' ''fail_open_until'' = i ''fail_open_until'' \<and> m' ''target_rate'' = i ''target_rate''
     \<and> cond_holds (debounce_predicate jf now) (Some i)"
proof -
  have a: "us = USet ''admission_control'' (AS (stored_wire to)) # audit_clauses jf action actor now"
      "c = Some (guard_debounce jf (Some (control_guard from)) now)"
    using assms(3,4) by (auto simp: apply_pause_def apply_resume_def stored_pause_Inr stored_resume_Inr dest!: asked_control)
  have "m' ''admission_control'' = Some (AS (stored_wire to))"
    using audit_frame(1) [OF assms(1) [unfolded a(1)]] by simp
  then have "stored_control_of m' = to"
    using assms(3) by (auto simp: stored_control_of_def get_s_def stored_parse_def)
  moreover have "cond_holds (control_guard from) (Some i)" "cond_holds (debounce_predicate jf now) (Some i)"
    using assms(2) by (simp_all add: a(2) opt_cond_def guard_debounce_def)
  moreover have "cond_holds (control_guard from) (Some i) \<Longrightarrow> stored_control_of i = from"
    using assms(3) by (auto simp: control_guard_def stored_control_of_def get_s_def stored_parse_def)
  ultimately show ?thesis
    using audit_frame(2) [OF assms(1) [unfolded a(1)]] by (auto simp: audit_attrs_def base_item_def)
qed

theorem control_moves_witness:
  "stored_control_of ex_before = StOpen
   \<and> stored_control_of (ex_stamped Pause (ex_before(''admission_control'' \<mapsto> AS ''paused''))) = StPaused"
proof -
  have u: "update_effect (USet ''admission_control'' (AS ''paused'') # audit_clauses ex_jiff Pause ''op'' ex_now)
      (base_item (key_build (KEvent ''e'')) (Some ex_before))
      (ex_stamped Pause (ex_before(''admission_control'' \<mapsto> AS ''paused'')))"
    using ex_stamped_effect [of "''admission_control''" "AS ''paused''" "AS ''paused''"]
    by (simp add: base_item_def audit_attrs_def)
  have o: "opt_cond (Some (guard_debounce ex_jiff (Some (control_guard StOpen)) ex_now)) (Some ex_before)"
    using ex_quiet(2) by (simp add: opt_cond_def guard_debounce_def control_guard_def ex_before_def)
  have c: "stored_control_of ex_before = StOpen"
    by (simp add: ex_before_def stored_control_of_def get_s_def)
  have q: "QUpdate ''C'' (key_build (KEvent ''e''))
      (USet ''admission_control'' (AS ''paused'') # audit_clauses ex_jiff Pause ''op'' ex_now)
      (Some (guard_debounce ex_jiff (Some (control_guard StOpen)) ex_now))
    \<in> asked ((if Pause = Pause then apply_pause else apply_resume) (dynamo_admin_store ex_jiff ''C'') ''e'' ''op'' ex_now)
        [RGet (Inr (Some ex_before)), RUpdate (Inr ex_before)]"
    by (simp add: apply_pause_def apply_control_def asked_load set_stored_control_def stored_pause_def c ex_quiet)
  show ?thesis
    using control_moves [OF u o _ q, of StOpen StPaused] by simp
qed

text \<open>C30: the emergency stop against the table: the write it sends lands on an item exactly when that
  item still has, in readable form, the phase that was read; on the item it read, that is when the
  phase is readable at all.  No debounce is involved, and where it lands the event is in
  maintenance.\<close>

theorem stop_lands:
  assumes "QUpdate t k us c \<in> asked (apply_force_maintenance (dynamo_admin_store jf tbl) ev actor now)
      (RGet (Inr (Some i0)) # rs)"
  shows "(opt_cond c (Some i) \<longleftrightarrow> i ''phase'' = Some (AS (phase_wire (co_phase (control_of_item jf ev i0)))))
     \<and> (opt_cond c (Some i0) \<longleftrightarrow> (\<exists>p. i0 ''phase'' = Some (AS (phase_wire p))))
     \<and> (\<forall>m m'. update_effect us m m' \<longrightarrow> m' ''phase'' = Some (AS ''maintenance''))"
proof -
  have q: "us = phase_clauses jf Maintenance ForceMaintenance actor now"
      "c = Some (phase_guard (co_phase (control_of_item jf ev i0)))"
    using assms by (auto simp: apply_force_maintenance_def asked_load force_maintenance_def)
  have o: "opt_cond c (Some i) \<longleftrightarrow> i ''phase'' = Some (AS (phase_wire (co_phase (control_of_item jf ev i0))))" for i
    by (simp add: q(2) opt_cond_def phase_guard_def)
  moreover have "opt_cond c (Some i0) \<longleftrightarrow> (\<exists>p. i0 ''phase'' = Some (AS (phase_wire p)))"
    unfolding o by (auto simp: control_of_item_def get_s_def or_else_def)
  moreover have "update_effect us m m' \<Longrightarrow> m' ''phase'' = Some (AS ''maintenance'')" for m m'
    using audit_frame(1) [of "USet ''phase'' (AS ''maintenance'')" jf ForceMaintenance actor now m m']
    by (simp add: q(1) phase_clauses_def)
  ultimately show ?thesis by blast
qed

theorem stop_lands_witness:
  "opt_cond (Some (phase_guard Idle)) (Some ex_before) \<and> \<not> opt_cond (Some (phase_guard Idle)) (Some Map.empty)"
proof -
  have "QUpdate ''C'' (key_build (KEvent ''e'')) (phase_clauses ex_jiff Maintenance ForceMaintenance ''op'' ex_now)
        (Some (phase_guard (co_phase (control_of_item ex_jiff ''e'' i))))
      \<in> asked (apply_force_maintenance (dynamo_admin_store ex_jiff ''C'') ''e'' ''op'' ex_now)
          [RGet (Inr (Some i)), RUpdate (Inr i)]" for i
    by (simp add: apply_force_maintenance_def asked_load force_maintenance_def)
  from stop_lands [OF this] have s: "opt_cond (Some (phase_guard (co_phase (control_of_item ex_jiff ''e'' i)))) (Some i)
      \<longleftrightarrow> (\<exists>p. i ''phase'' = Some (AS (phase_wire p)))" for i
    by blast
  have "co_phase (control_of_item ex_jiff ''e'' Map.empty) = Idle"
    by (simp add: control_of_item_def get_s_def or_else_def)
  then show ?thesis
    using s [of ex_before] s [of Map.empty] ex_control by (auto simp: ex_before_def intro!: exI [of _ Idle])
qed

section \<open>Break-glass\<close>

lemma yields_write:
  "yields (write_config env arn tag gc) rs (Inr u) \<longleftrightarrow>
     (\<exists>v. encode_gate_config env gc = Inr v \<and> rs = [RUnit (Inr ())])"
  by (auto simp: write_config_def yields_ops ex_sum split: sum.splits)

lemma asked_write:
  "encode_gate_config env gc = Inr v \<Longrightarrow> rs \<noteq> [] \<Longrightarrow> hd rs = RUnit (Inr ()) \<Longrightarrow>
   QKvPut arn CONFIG_KEY v (etag_text tag) \<in> asked (write_config env arn tag gc) rs"
  by (cases rs) (auto simp: write_config_def asked_ops)

lemma asked_bindI:
  "q \<in> asked p rs \<Longrightarrow> q \<in> asked (bind p f) rs"
  "yields p rs1 x \<Longrightarrow> q \<in> asked (f x) rs2 \<Longrightarrow> q \<in> asked (bind p f) (rs1 @ rs2)"
  "yields p' rs1 (Inr y) \<Longrightarrow> q \<in> asked (f' y) rs2 \<Longrightarrow> q \<in> asked (bind_ok p' f') (rs1 @ rs2)"
  by (auto simp: asked_bind asked_bind_ok)

lemma asked_rmw:
  assumes "yields (read_config env arn) rs1 (Inr (gc, tag))"
  shows "q \<in> asked (write_config env arn tag (f gc)) rs2 \<Longrightarrow>
      q \<in> asked (edge_read_modify_write (kvs_store env arn) f) (rs1 @ rs2)"
    and "yields (write_config env arn tag (f gc)) rs2 (Inl e) \<Longrightarrow>
      yields (read_config env arn) rs3 (Inr (gc2, tag2)) \<Longrightarrow>
      q \<in> asked (write_config env arn tag2 (f gc2)) rs4 \<Longrightarrow>
      q \<in> asked (edge_read_modify_write (kvs_store env arn) f) (rs1 @ rs2 @ rs3 @ rs4)"
proof -
  assume "q \<in> asked (write_config env arn tag (f gc)) rs2"
  then show "q \<in> asked (edge_read_modify_write (kvs_store env arn) f) (rs1 @ rs2)"
    unfolding edge_read_modify_write_def kvs_store_def edge_store.select_convs
    by (intro asked_bindI(3) [OF assms]) (simp add: asked_bindI(1))
next
  assume "yields (write_config env arn tag (f gc)) rs2 (Inl e)"
    "yields (read_config env arn) rs3 (Inr (gc2, tag2))" "q \<in> asked (write_config env arn tag2 (f gc2)) rs4"
  then show "q \<in> asked (edge_read_modify_write (kvs_store env arn) f) (rs1 @ rs2 @ rs3 @ rs4)"
    unfolding edge_read_modify_write_def kvs_store_def edge_store.select_convs
    by (intro asked_bindI(3) [OF assms]) (auto intro!: asked_bindI(2) asked_bindI(3) simp: asked_bind_ok [of _ "write_config env arn t c" for t c])
qed

lemma rmw_yields:
  assumes "yields (edge_read_modify_write (kvs_store env arn) f) rs (Inr gc')"
  shows "\<exists>gc tag v. gc' = f gc \<and> encode_gate_config env gc' = Inr v
     \<and> QKvPut arn CONFIG_KEY v tag \<in> asked (edge_read_modify_write (kvs_store env arn) f) rs
     \<and> RUnit (Inr ()) \<in> set rs"
proof -
  obtain rs1 rs3 rs4 gc tag w where 1: "rs = rs1 @ rs3 @ rs4" "yields (read_config env arn) rs1 (Inr (gc, tag))"
      "yields (write_config env arn tag (f gc)) rs3 w"
      "yields (case w of Inr _ \<Rightarrow> Done (Inr (f gc)) | Inl _ \<Rightarrow>
         bind_ok (read_config env arn) (\<lambda>(gc, tag). bind_ok (write_config env arn tag (f gc)) (\<lambda>_. Done (Inr (f gc)))))
       rs4 (Inr gc')"
    using assms by (auto simp: edge_read_modify_write_def kvs_store_def yields_bind_ok yields_bind)
  show ?thesis
  proof (cases w)
    case (Inr u)
    then obtain v where v: "encode_gate_config env (f gc) = Inr v" "rs3 = [RUnit (Inr ())]" "rs4 = []" "gc' = f gc"
      using 1(3,4) by (auto simp: yields_write)
    have "QKvPut arn CONFIG_KEY v (etag_text tag) \<in> asked (write_config env arn tag (f gc)) (rs3 @ rs4)"
      by (rule asked_write) (simp_all add: v)
    then have "QKvPut arn CONFIG_KEY v (etag_text tag) \<in> asked (edge_read_modify_write (kvs_store env arn) f) rs"
      unfolding 1(1) by (rule asked_rmw(1) [OF 1(2)])
    then show ?thesis
      using v 1(1) by auto
  next
    case (Inl e)
    then obtain rs5 rs6 gc2 tag2 v where 2: "rs4 = rs5 @ rs6" "yields (read_config env arn) rs5 (Inr (gc2, tag2))"
        "encode_gate_config env (f gc2) = Inr v" "rs6 = [RUnit (Inr ())]" "gc' = f gc2"
      using 1(4) by (auto simp: yields_bind_ok yields_write)
    have "QKvPut arn CONFIG_KEY v (etag_text tag2) \<in> asked (write_config env arn tag2 (f gc2)) rs6"
      by (rule asked_write) (simp_all add: 2)
    then have "QKvPut arn CONFIG_KEY v (etag_text tag2) \<in> asked (edge_read_modify_write (kvs_store env arn) f) rs"
      unfolding 1(1) 2(1) by (rule asked_rmw(2) [where f = f, OF 1(2) 1(3) [unfolded Inl] 2(2)])
    then show ?thesis
      using 2 1(1) by auto
  qed
qed

fun kv_request :: "req \<Rightarrow> bool" where
  "kv_request (QKvDescribe a) = True"
| "kv_request (QKvGet a k) = True"
| "kv_request (QKvPut a k v t) = True"
| "kv_request _ = False"

lemma read_kv: "q \<in> asked (read_config env arn) rs \<Longrightarrow> kv_request q"
proof -
  have g: "q \<in> asked (case r of Inl e \<Rightarrow> Done (Inl (EdgeStoreError (''get_key: '' @ e)))
      | Inr v \<Rightarrow> (case ge_decode env v of Inl e \<Rightarrow> Done (Inl (EdgeStoreError (''decode gate config: '' @ e)))
        | Inr cfg \<Rightarrow> Done (Inr (cfg, ETag tag)))) rs \<Longrightarrow> kv_request q" for r tag rs
    by (cases r) (auto split: sum.split_asm)
  show "q \<in> asked (read_config env arn) rs \<Longrightarrow> kv_request q"
    unfolding read_config_def kvs_etag_def asked_bind_ok asked_ops using g by fastforce
qed

lemma write_kv: "q \<in> asked (write_config env arn tag gc) rs \<Longrightarrow> kv_request q"
  by (auto simp: write_config_def asked_ops split: sum.split_asm)

lemma rmw_kv: "q \<in> asked (edge_read_modify_write (kvs_store env arn) f) rs \<Longrightarrow> kv_request q"
proof -
  have w: "q \<in> asked (case w of Inr _ \<Rightarrow> Done (Inr (f gc)) | Inl _ \<Rightarrow>
      bind_ok (read_config env arn) (\<lambda>(gc, tag). bind_ok (write_config env arn tag (f gc)) (\<lambda>_. Done (Inr (f gc))))) rs
    \<Longrightarrow> kv_request q" for w :: "edge_store_error + unit" and gc rs
    by (cases w) (auto simp: asked_bind_ok dest: read_kv write_kv)
  show "q \<in> asked (edge_read_modify_write (kvs_store env arn) f) rs \<Longrightarrow> kv_request q"
    unfolding edge_read_modify_write_def kvs_store_def edge_store.select_convs asked_bind_ok
    using w by (auto simp: asked_bind dest: read_kv write_kv)
qed

lemma yields_guarded_ok:
  "yields (send_guarded tbl ev us c what) rs (Inr u) \<longleftrightarrow> (\<exists>m. rs = [RUpdate (Inr m)])"
proof -
  have "yields (case r of Inr _ \<Rightarrow> Done (Inr ()) | Inl (ConditionalCheckFailed _) \<Rightarrow> Done (Inl Conflict)
      | Inl e \<Rightarrow> Done (Inl (Backend (''update_item('' @ what @ ''): '' @ sdk_display e)))) rs (Inr u)
    \<longleftrightarrow> rs = [] \<and> (\<exists>m. r = Inr m)" for r :: "sdk_error + item" and rs
    by (cases r) (auto split: sdk_error.split)
  then show ?thesis
    by (auto simp: send_guarded_def yields_ops simp del: yields_settled)
qed

text \<open>Both writes of the fail-open epoch set it, under the audit stamp or without it.\<close>

lemma fail_open_requests:
  "q \<in> asked (set_fail_open_until jf tbl ev until action actor now) rs \<Longrightarrow>
   \<exists>us c. q = QUpdate tbl (key_build (KEvent ev)) us c \<and> USet ''fail_open_until'' (AN (show_u64 until)) \<in> set us"
proof -
  assume "q \<in> asked (set_fail_open_until jf tbl ev until action actor now) rs"
  then consider "q \<in> asked (send_guarded tbl ev
        (USet ''fail_open_until'' (AN (show_u64 until)) # audit_clauses jf action actor now)
        (Some (stamp_predicate jf now)) ''fail_open_until'') rs"
    | r rs2 where "q \<in> asked (case (r :: store_error + unit) of
         Inr _ \<Rightarrow> Done (Inr ())
       | Inl Conflict \<Rightarrow>
           UpdateItem tbl (key_build (KEvent ev)) [USet ''fail_open_until'' (AN (show_u64 until))] None (\<lambda>r.
             case r of
               Inr _ \<Rightarrow> Done (Inr ())
             | Inl e \<Rightarrow> Done (Inl (Backend (''update_item(fail_open_until_fallback): '' @ sdk_display e))))
       | Inl e \<Rightarrow> Done (Inl e)) rs2"
    unfolding set_fail_open_until_eq asked_bind by blast
  then show ?thesis
  proof cases
    case 1
    then show ?thesis by auto
  next
    case 2
    show ?thesis
      using 2 by (cases r) (auto simp: asked_ops split: store_error.split_asm)
  qed
qed

lemma fail_open_landed:
  "yields (set_fail_open_until jf tbl ev until action actor now) rs (Inr u) \<Longrightarrow>
   (\<exists>m. RUpdate (Inr m) \<in> set rs)
   \<and> (\<exists>us c. QUpdate tbl (key_build (KEvent ev)) us c \<in> asked (set_fail_open_until jf tbl ev until action actor now) rs)"
proof -
  assume y: "yields (set_fail_open_until jf tbl ev until action actor now) rs (Inr u)"
  then obtain rs1 rs2 r where r: "rs = rs1 @ rs2" "yields (send_guarded tbl ev
        (USet ''fail_open_until'' (AN (show_u64 until)) # audit_clauses jf action actor now)
        (Some (stamp_predicate jf now)) ''fail_open_until'') rs1 r"
      "yields (case r of
         Inr _ \<Rightarrow> Done (Inr ())
       | Inl Conflict \<Rightarrow>
           UpdateItem tbl (key_build (KEvent ev)) [USet ''fail_open_until'' (AN (show_u64 until))] None (\<lambda>r.
             case r of
               Inr _ \<Rightarrow> Done (Inr ())
             | Inl e \<Rightarrow> Done (Inl (Backend (''update_item(fail_open_until_fallback): '' @ sdk_display e))))
       | Inl e \<Rightarrow> Done (Inl e)) rs2 (Inr u)"
    unfolding set_fail_open_until_eq yields_bind by blast
  have "\<exists>x rs'. rs = RUpdate x # rs'"
    using r(1,2) by (auto simp: send_guarded_def yields_ops)
  then have "\<exists>us c. QUpdate tbl (key_build (KEvent ev)) us c \<in> asked (set_fail_open_until jf tbl ev until action actor now) rs"
    unfolding set_fail_open_until_eq asked_bind asked_guarded by blast
  moreover have "\<exists>m. RUpdate (Inr m) \<in> set rs"
  proof (cases r)
    case (Inr v)
    then show ?thesis
      using r(1,2) by (auto simp: yields_guarded_ok)
  next
    case (Inl e)
    show ?thesis
      using r(1,3) unfolding Inl by (cases e) (auto simp: yields_ops)
  qed
  ultimately show ?thesis by blast
qed

lemma engage_order:
  assumes "unat (ar_epoch_seconds now) + 86400 < 2 ^ 64"
    and "p = apply_fail_open (dynamo_admin_store jf tbl) (kvs_store env arn) ev minutes actor now"
    and "QUpdate t k us c \<in> asked p rs"
  shows "\<exists>until gc tag v. unat (ar_epoch_seconds now) < unat until
         \<and> unat until \<le> unat (ar_epoch_seconds now) + 86400
         \<and> USet ''fail_open_until'' (AN (show_u64 until)) \<in> set us
         \<and> encode_gate_config env (gc\<lparr>gc_fail_open_until := until\<rparr>) = Inr v
         \<and> QKvPut arn CONFIG_KEY v tag \<in> asked p rs \<and> RUnit (Inr ()) \<in> set rs"
proof -
  obtain mins where m: "parse_u32 minutes = Some mins" "mins \<noteq> 0" "mins \<le> MAX_FAIL_OPEN_MINUTES"
    using assms(3) by (auto simp: assms(2) apply_fail_open_def not_less split: option.splits if_splits)
  define until where "until = saturating_add (ar_epoch_seconds now) (saturating_mul (ucast mins) 60)"
  let ?rmw = "edge_read_modify_write (kvs_store env arn) (\<lambda>cfg. cfg\<lparr>gc_fail_open_until := until\<rparr>)"
  have p: "p = loaded (dynamo_admin_store jf tbl) ev (\<lambda>_. bind_ok (via edge_error_display ?rmw) (\<lambda>_.
      via_store (set_fail_open_until jf tbl ev until FailOpen actor now)))"
    using m by (simp add: assms(2) apply_fail_open_def until_def not_less [symmetric] Let_def)
  obtain i rs' where "rs = RGet (Inr (Some i)) # rs'"
      "QUpdate t k us c \<in> asked (bind_ok (via edge_error_display ?rmw) (\<lambda>_.
         via_store (set_fail_open_until jf tbl ev until FailOpen actor now))) rs'"
    using assms(3) unfolding p asked_load by auto
  moreover have "QUpdate t k us c \<notin> asked ?rmw rs'"
    using rmw_kv [of "QUpdate t k us c"] by auto
  ultimately obtain rs1 rs2 gc where s: "rs = RGet (Inr (Some i)) # rs1 @ rs2" "yields ?rmw rs1 (Inr gc)"
      "QUpdate t k us c \<in> asked (set_fail_open_until jf tbl ev until FailOpen actor now) rs2"
    unfolding asked_bind_ok asked_via yields_via by blast
  have n: "unat mins \<le> 1440" "0 < unat mins"
    using m(2,3) by (simp_all add: MAX_FAIL_OPEN_MINUTES_def word_le_nat_alt unat_gt_0)
  have "unat (ucast mins :: u64) = unat mins"
    using unat_lt2p [of mins] by (simp add: unsigned_ucast_eq take_bit_nat_eq_self)
  then have u: "unat until = unat (ar_epoch_seconds now) + unat mins * 60"
    using assms(1) n(1) by (simp add: until_def u64_arith)
  obtain gc0 tag v where w: "encode_gate_config env (gc0\<lparr>gc_fail_open_until := until\<rparr>) = Inr v"
      "QKvPut arn CONFIG_KEY v tag \<in> asked ?rmw rs1" "RUnit (Inr ()) \<in> set rs1"
    using rmw_yields [OF s(2)] by blast
  have "QKvPut arn CONFIG_KEY v tag \<in> asked p rs"
    unfolding p asked_load s(1) using asked_mono [OF w(2)] by (auto simp: asked_bind_ok)
  moreover have "USet ''fail_open_until'' (AN (show_u64 until)) \<in> set us"
    using fail_open_requests [OF s(3)] by auto
  ultimately show ?thesis
    using w(1,3) u n s(1) by (intro exI [of _ until] exI [of _ gc0] exI [of _ tag] exI [of _ v]) auto
qed

lemma recover_order:
  assumes "p' = apply_recover (dynamo_admin_store jf tbl) (kvs_store env arn) ev actor now"
    and "QKvPut a key v tag \<in> asked p' rs"
  shows "\<exists>us c m. QUpdate tbl (key_build (KEvent ev)) us c \<in> asked p' rs
         \<and> USet ''fail_open_until'' (AN (show_u64 0)) \<in> set us \<and> RUpdate (Inr m) \<in> set rs"
proof -
  obtain i rs' where r: "rs = RGet (Inr (Some i)) # rs'"
      "QKvPut a key v tag \<in> asked (bind_ok (via_store (set_fail_open_until jf tbl ev 0 Recover actor now)) (\<lambda>_.
         bind_ok (via edge_error_display (edge_read_modify_write (kvs_store env arn)
             (\<lambda>cfg. cfg\<lparr>gc_fail_open_until := 0\<rparr>))) (\<lambda>_. Done (Inr ())))) rs'"
    using assms(2) unfolding assms(1) apply_recover_def asked_load by auto
  have "QKvPut a key v tag \<notin> asked (set_fail_open_until jf tbl ev 0 Recover actor now) rs'"
    using fail_open_requests by blast
  then obtain rs1 rs2 u where y: "rs' = rs1 @ rs2" "yields (set_fail_open_until jf tbl ev 0 Recover actor now) rs1 (Inr u)"
    using r(2) unfolding asked_bind_ok [of _ "via_store _"] asked_via yields_via by blast
  obtain us c where g: "QUpdate tbl (key_build (KEvent ev)) us c
      \<in> asked (set_fail_open_until jf tbl ev 0 Recover actor now) rs1"
    using fail_open_landed [OF y(2)] by blast
  moreover have "QUpdate tbl (key_build (KEvent ev)) us c \<in> asked p' rs"
    unfolding assms(1) apply_recover_def asked_load r(1) y(1)
    using asked_mono [OF g] by (auto simp: asked_bind_ok [of _ "via_store _"])
  moreover have "USet ''fail_open_until'' (AN (show_u64 0)) \<in> set us"
    using fail_open_requests [OF g] by auto
  ultimately show ?thesis
    using fail_open_landed [OF y(2)] r(1) y(1) by auto
qed

text \<open>C31: break-glass in order: engaging writes the edge first, so the table's epoch is only
  written after the edge's document with the same epoch landed, an epoch in the future and at most a
  day away; recovering writes the table first, so the edge is only closed after the table's epoch was
  cleared.\<close>

theorem break_glass_order:
  assumes "unat (ar_epoch_seconds now) + 86400 < 2 ^ 64"
    and "p = apply_fail_open (dynamo_admin_store jf tbl) (kvs_store env arn) ev minutes actor now"
    and "p' = apply_recover (dynamo_admin_store jf tbl) (kvs_store env arn) ev actor now"
  shows "(QUpdate t k us c \<in> asked p rs \<longrightarrow>
       (\<exists>until gc tag v. unat (ar_epoch_seconds now) < unat until
         \<and> unat until \<le> unat (ar_epoch_seconds now) + 86400
         \<and> USet ''fail_open_until'' (AN (show_u64 until)) \<in> set us
         \<and> encode_gate_config env (gc\<lparr>gc_fail_open_until := until\<rparr>) = Inr v
         \<and> QKvPut arn CONFIG_KEY v tag \<in> asked p rs \<and> RUnit (Inr ()) \<in> set rs))
     \<and> (QKvPut a key v tag \<in> asked p' rs \<longrightarrow>
       (\<exists>us c m. QUpdate tbl (key_build (KEvent ev)) us c \<in> asked p' rs
         \<and> USet ''fail_open_until'' (AN (show_u64 0)) \<in> set us \<and> RUpdate (Inr m) \<in> set rs))"
  using engage_order [OF assms(1,2)] recover_order [OF assms(3)] by blast

lemma ex_recover_put:
  "QKvPut ''a'' CONFIG_KEY (show_u64 0 @ show_u64 0) ''t0''
     \<in> asked (apply_recover (dynamo_admin_store ex_jiff ''C'') (kvs_store ex_edge_env ''a'') ''e'' ''op'' ex_now)
         ([RGet (Inr (Some ex_before))] @ [RUpdate (Inr ex_before)] @ [RText (Inr ''t0''), RText (Inr ''00'')] @ [RUnit (Inr ())])"
proof -
  have d: "ge_decode ex_edge_env v = Inr ex_config" for v
    by (simp add: ex_edge_env_def)
  have "encode_gate_config ex_edge_env (ex_config\<lparr>gc_fail_open_until := 0\<rparr>) = Inr (show_u64 0 @ show_u64 0)"
    using length_show_u64_digit [of 0]
    by (simp add: encode_gate_config_def gate_json_def ex_config_def ex_edge_env_def ex_valid
        MAX_RULES_def MAX_CONFIG_BYTES_def)
  then have "QKvPut ''a'' CONFIG_KEY (show_u64 0 @ show_u64 0) (etag_text (ETag ''t0''))
      \<in> asked (write_config ex_edge_env ''a'' (ETag ''t0'') (ex_config\<lparr>gc_fail_open_until := 0\<rparr>)) [RUnit (Inr ())]"
    by (rule asked_write) simp_all
  moreover have r: "yields (read_config ex_edge_env ''a'') [RText (Inr ''t0''), RText (Inr ''00'')] (Inr (ex_config, ETag ''t0''))"
    by (simp add: read_config_def kvs_etag_def bind_ok_def yields_ops d)
  ultimately have "QKvPut ''a'' CONFIG_KEY (show_u64 0 @ show_u64 0) ''t0''
      \<in> asked (edge_read_modify_write (kvs_store ex_edge_env ''a'') (\<lambda>cfg. cfg\<lparr>gc_fail_open_until := 0\<rparr>))
          ([RText (Inr ''t0''), RText (Inr ''00'')] @ [RUnit (Inr ())])"
    by (intro asked_rmw(1) [OF r]) simp
  moreover have "yields (via_store (set_fail_open_until ex_jiff ''C'' ''e'' 0 Recover ''op'' ex_now)) [RUpdate (Inr ex_before)] (Inr ())"
    unfolding yields_via set_fail_open_until_eq yields_bind
    by (intro exI [of _ "[RUpdate (Inr ex_before)]"] exI [of _ "[]"] exI [of _ "Inr ()"]) (simp add: yields_guarded_ok)
  ultimately have "QKvPut ''a'' CONFIG_KEY (show_u64 0 @ show_u64 0) ''t0''
      \<in> asked (bind_ok (via_store (set_fail_open_until ex_jiff ''C'' ''e'' 0 Recover ''op'' ex_now)) (\<lambda>_.
          bind_ok (via edge_error_display (edge_read_modify_write (kvs_store ex_edge_env ''a'')
            (\<lambda>cfg. cfg\<lparr>gc_fail_open_until := 0\<rparr>))) (\<lambda>_. Done (Inr ()))))
          ([RUpdate (Inr ex_before)] @ [RText (Inr ''t0''), RText (Inr ''00'')] @ [RUnit (Inr ())])"
    by - (rule asked_bindI(3), simp_all)
  then show ?thesis
    unfolding apply_recover_def asked_load dynamo_ops by auto
qed

theorem break_glass_order_witness:
  "\<exists>us c m. QUpdate ''C'' (key_build (KEvent ''e'')) us c
       \<in> asked (apply_recover (dynamo_admin_store ex_jiff ''C'') (kvs_store ex_edge_env ''a'') ''e'' ''op'' ex_now)
           ([RGet (Inr (Some ex_before))] @ [RUpdate (Inr ex_before)] @ [RText (Inr ''t0''), RText (Inr ''00'')] @ [RUnit (Inr ())])
     \<and> USet ''fail_open_until'' (AN (show_u64 0)) \<in> set us
     \<and> RUpdate (Inr m) \<in> set ([RGet (Inr (Some ex_before))] @ [RUpdate (Inr ex_before)] @ [RText (Inr ''t0''), RText (Inr ''00'')] @ [RUnit (Inr ())])"
proof -
  have "unat (ar_epoch_seconds ex_now) + 86400 < 2 ^ 64"
    by (simp add: ex_now_def)
  from mp [OF conjunct2 [OF break_glass_order [OF this refl refl]] ex_recover_put] show ?thesis .
qed

section \<open>Opening and scheduling\<close>

lemma asked_open_now:
  "q \<in> asked (lambda_open_now env fn ev) rs \<longleftrightarrow>
     (\<exists>r rs'. rs = RInvoke r # rs' \<and> q = QInvoke fn (je_text env (JObj [(''event_id'', JStr ev)])))"
proof -
  have "asked (case r of Inl e \<Rightarrow> Done (Inl (OpenNowError (''invoke '' @ fn @ '': '' @ e)))
      | Inr out \<Rightarrow> (case io_function_error out of
          Some kind \<Rightarrow> Done (Inl (OpenNowError (''open failed ('' @ kind @ ''): ''
            @ or_else (Option.bind (io_payload out) from_utf8) ''<no payload>'')))
        | None \<Rightarrow> Done (Inr (if opened_in env (io_payload out) then NowOpened else NowAlreadyOpen)))) rs = {}" for r rs
    by (cases r) (simp_all split: option.split)
  then show ?thesis
    by (auto simp: lambda_open_now_def asked_ops)
qed

lemma yields_open_now:
  "yields (lambda_open_now env fn ev) rs (Inr NowOpened) \<longleftrightarrow>
     (\<exists>out. rs = [RInvoke (Inr out)] \<and> io_function_error out = None \<and> opened_in env (io_payload out))"
proof -
  have "yields (case r of Inl e \<Rightarrow> Done (Inl (OpenNowError (''invoke '' @ fn @ '': '' @ e)))
      | Inr out \<Rightarrow> (case io_function_error out of
          Some kind \<Rightarrow> Done (Inl (OpenNowError (''open failed ('' @ kind @ ''): ''
            @ or_else (Option.bind (io_payload out) from_utf8) ''<no payload>'')))
        | None \<Rightarrow> Done (Inr (if opened_in env (io_payload out) then NowOpened else NowAlreadyOpen)))) rs (Inr NowOpened)
    \<longleftrightarrow> rs = [] \<and> (\<exists>out. r = Inr out \<and> io_function_error out = None \<and> opened_in env (io_payload out))" for r rs
    by (cases r) (auto split: option.split)
  then show ?thesis
    by (auto simp: lambda_open_now_def yields_ops)
qed

lemma phase_readable:
  assumes "co_phase (control_of_item jf ev i) \<noteq> Idle"
  shows "i ''phase'' = Some (AS (phase_wire (co_phase (control_of_item jf ev i))))"
proof -
  obtain s where s: "get_s i ''phase'' = Some s"
    using assms by (cases "get_s i ''phase''") (auto simp: control_of_item_def or_else_def)
  then obtain p where p: "phase_parse s = Inr p"
    using assms by (cases "phase_parse s") (auto simp: control_of_item_def or_else_def)
  have "i ''phase'' = Some (AS s)"
    using s by (auto simp: get_s_def bind_eq_Some_conv elim!: as_s.elims)
  then show ?thesis
    using s p by (simp add: control_of_item_def or_else_def phase_parse_Inr)
qed

text \<open>C35: opening now is refused before the open is invoked: the open is only invoked for an event
  that was read in its pre-queue and outside the debounce window, and the audit stamp is only written
  when the invoked function reported that this call opened the event.\<close>

theorem open_now_guarded:
  assumes "p = apply_open_now (dynamo_admin_store jf tbl) (lambda_opener env fn ev) ev actor now"
  shows "(QInvoke fn' payload \<in> asked p rs \<longrightarrow>
       (\<exists>i rs'. rs = RGet (Inr (Some i)) # rs' \<and> i ''phase'' = Some (AS ''pre_queue'')
          \<and> debounce_check (control_of_item jf ev i) now = Inr ()))
     \<and> (QUpdate t k us c \<in> asked p rs \<longrightarrow> us = audit_clauses jf OpenNow actor now
       \<and> (\<exists>out. RInvoke (Inr out) \<in> set rs \<and> io_function_error out = None \<and> opened_in env (io_payload out)))"
proof -
  have s: "us = audit_clauses jf OpenNow actor now
       \<and> (\<exists>out. RInvoke (Inr out) \<in> set rs \<and> io_function_error out = None \<and> opened_in env (io_payload out))"
    if q: "QUpdate t k us c \<in> asked p rs"
  proof -
    obtain rs' where r: "set rs' \<subseteq> set rs" "QUpdate t k us c \<in> asked (bind_ok (via open_error_display (lambda_open_now env fn ev)) (\<lambda>outcome.
           if outcome = NowOpened
           then bind (ad_stamp_action (dynamo_admin_store jf tbl) ev OpenNow actor now) (\<lambda>_. Done (Inr outcome))
           else Done (Inr outcome))) rs'"
      using q unfolding assms apply_open_now_def asked_load
      by (auto simp: lambda_opener_def split: if_split_asm)
    have "\<exists>rs1 rs2 outcome. rs' = rs1 @ rs2 \<and> yields (lambda_open_now env fn ev) rs1 (Inr outcome)
        \<and> QUpdate t k us c \<in> asked (if outcome = NowOpened
           then bind (ad_stamp_action (dynamo_admin_store jf tbl) ev OpenNow actor now) (\<lambda>_. Done (Inr outcome))
           else (Done (Inr outcome) :: (apply_error + open_now) prog)) rs2"
      using r(2) unfolding asked_bind_ok asked_via yields_via by (simp only: asked_open_now req.distinct simp_thms)
    then obtain rs1 rs2 outcome where o: "rs' = rs1 @ rs2" "yields (lambda_open_now env fn ev) rs1 (Inr outcome)"
        "QUpdate t k us c \<in> asked (if outcome = NowOpened
           then bind (ad_stamp_action (dynamo_admin_store jf tbl) ev OpenNow actor now) (\<lambda>_. Done (Inr outcome))
           else (Done (Inr outcome) :: (apply_error + open_now) prog)) rs2"
      by blast
    then have "outcome = NowOpened" "us = audit_clauses jf OpenNow actor now"
      by (auto simp: asked_bind stamped_eq split: if_split_asm)
    then show ?thesis
      using o(1,2) r(1) by (auto simp: yields_open_now)
  qed
  have "\<exists>i rs'. rs = RGet (Inr (Some i)) # rs' \<and> i ''phase'' = Some (AS ''pre_queue'')
          \<and> debounce_check (control_of_item jf ev i) now = Inr ()" if q: "QInvoke fn' payload \<in> asked p rs"
  proof -
    obtain i rs' where "rs = RGet (Inr (Some i)) # rs'" "co_phase (control_of_item jf ev i) = PreQueue"
        "debounce_check (control_of_item jf ev i) now = Inr ()"
      using q unfolding assms apply_open_now_def asked_load by (auto split: if_split_asm)
    then show ?thesis
      using phase_readable [of jf ev i] by auto
  qed
  then show ?thesis
    using s by blast
qed

definition ex_queue_item :: item where
  "ex_queue_item = ex_before(''phase'' \<mapsto> AS ''pre_queue'')"

theorem open_now_guarded_witness:
  "\<exists>i rs'. [RGet (Inr (Some ex_queue_item)), RInvoke (Inl ''down'')] = RGet (Inr (Some i)) # rs'
     \<and> i ''phase'' = Some (AS ''pre_queue'') \<and> debounce_check (control_of_item ex_jiff ''e'' i) ex_now = Inr ()"
proof -
  have "co_phase (control_of_item ex_jiff ''e'' ex_queue_item) = PreQueue"
    by (simp add: control_of_item_def ex_queue_item_def get_s_def or_else_def phase_parse_def)
  moreover have "debounce_check (control_of_item ex_jiff ''e'' ex_queue_item) ex_now = Inr ()"
    using ex_quiet(1) [of "''e''"]
    by (simp add: debounce_check_def control_of_item_def ex_queue_item_def get_n_def)
  ultimately have "QInvoke ''f'' (je_text env (JObj [(''event_id'', JStr ''e'')])) \<in>
      asked (apply_open_now (dynamo_admin_store ex_jiff ''C'') (lambda_opener env ''f'' ''e'') ''e'' ''op'' ex_now)
        [RGet (Inr (Some ex_queue_item)), RInvoke (Inl ''down'')]" for env
    by (simp add: apply_open_now_def asked_load lambda_opener_def asked_bind_ok [of _ "via _ _"] asked_open_now)
  from mp [OF conjunct1 [OF open_now_guarded [OF refl]] this [of undefined]] show ?thesis .
qed

lemma rewrite_enabled: "rewrite name cur at = Inr input \<Longrightarrow> si_enabled input \<longleftrightarrow> at \<noteq> None"
  by (auto simp: rewrite_def split: option.splits)

lemma start_requests:
  "q \<in> asked (set_start_time name at) rs \<Longrightarrow>
   q = QSchedGet name \<or> (\<exists>input. q = QSchedUpdate input \<and> (si_enabled input \<longleftrightarrow> at \<noteq> None))"
proof -
  have "q \<in> asked (case r of Inl e \<Rightarrow> Done (Inl (ScheduleError (''get_schedule: '' @ e)))
       | Inr cur \<Rightarrow> (case rewrite name cur at of
              Inl e \<Rightarrow> Done (Inl e)
            | Inr input \<Rightarrow> SchedUpdate input (\<lambda>r.
                  case r of Inl e \<Rightarrow> Done (Inl (ScheduleError (''update_schedule: '' @ e))) | Inr _ \<Rightarrow> Done (Inr ())))) rs
    \<Longrightarrow> \<exists>input. q = QSchedUpdate input \<and> (si_enabled input \<longleftrightarrow> at \<noteq> None)" for r rs
    by (cases r) (auto simp: asked_ops rewrite_enabled split: sum.split_asm)
  then show "q \<in> asked (set_start_time name at) rs \<Longrightarrow> ?thesis"
    by (auto simp: set_start_time_def asked_ops)
qed

lemma start_landed:
  "yields (set_start_time name at) rs (Inr u) \<Longrightarrow>
   RUnit (Inr ()) \<in> set rs \<and> (\<exists>cur input. QSchedUpdate input \<in> asked (set_start_time name at) rs
     \<and> RSched (Inr cur) \<in> set rs \<and> rewrite name cur at = Inr input)"
proof -
  assume "yields (set_start_time name at) rs (Inr u)"
  then obtain r rs' where r: "rs = RSched r # rs'" "yields (case r of Inl e \<Rightarrow> Done (Inl (ScheduleError (''get_schedule: '' @ e)))
       | Inr cur \<Rightarrow> (case rewrite name cur at of
              Inl e \<Rightarrow> Done (Inl e)
            | Inr input \<Rightarrow> SchedUpdate input (\<lambda>r.
                  case r of Inl e \<Rightarrow> Done (Inl (ScheduleError (''update_schedule: '' @ e))) | Inr _ \<Rightarrow> Done (Inr ())))) rs' (Inr u)"
    by (auto simp: set_start_time_def yields_ops)
  then obtain cur where cur: "r = Inr cur"
    by (cases r) auto
  then obtain input where input: "rewrite name cur at = Inr input" "rs' = [RUnit (Inr ())]"
    using r(2) by (cases "rewrite name cur at") (auto simp: yields_ops)
  then show ?thesis
    using r(1) cur input(1) by (auto simp: set_start_time_def asked_ops)
qed

text \<open>A schedule update that fires at the instant \<open>secs\<close>: the schedule that was read, with its target, under
  its name, enabled, with the local time that was typed in the zone that was chosen; and that local
  time in that zone is that instant.\<close>

definition fires_at ::
  "'c zone_env \<Rightarrow> string \<Rightarrow> string \<Rightarrow> string \<Rightarrow> u64 \<Rightarrow> schedule_output \<Rightarrow> schedule_input \<Rightarrow> bool" where
  "fires_at zones name at tz secs cur input \<longleftrightarrow>
     si_enabled input \<and> si_name input = name \<and> so_target cur = Some (si_target input) \<and> si_timezone input = tz
     \<and> (\<exists>local civil. local \<in> {utrim at, utrim at @ '':00''} \<and> si_expression input = ''at('' @ local @ '')''
          \<and> zo_civil zones local = Some civil \<and> zo_compatible zones tz civil = Some (civil, int (unat secs)))"

lemma parse_start_means:
  assumes "parse_start_time zones at tz now = Inr st"
    and "rewrite name cur (Some (sm_expression st, sm_timezone st)) = Inr input"
  shows "now < sm_epoch_secs st \<and> sm_timezone st = tz \<and> fires_at zones name at tz (sm_epoch_secs st) cur input"
proof -
  have "x = int (unat e)" if "u64_try_from x = Some e" for x e
    using that by (auto simp: u64_try_from_def unsigned_of_int take_bit_int_eq_self split: if_splits)
  then show ?thesis
    using assms
    by (auto simp: parse_start_time_def rewrite_def fires_at_def Let_def not_le split: if_splits option.splits)
qed

text \<open>The two branches of \<open>apply_start_time\<close>.\<close>

definition clear_start :: "jiff_env \<Rightarrow> string \<Rightarrow> string \<Rightarrow> string \<Rightarrow> string \<Rightarrow> arrival \<Rightarrow> (apply_error + unit) prog" where
  "clear_start jf tbl name ev actor now =
     bind_ok (via_store (set_starts_at jf tbl ev None ClearStartTime actor now))
       (\<lambda>_. via schedule_error_display (set_start_time name None))"

definition arm_start ::
  "jiff_env \<Rightarrow> string \<Rightarrow> string \<Rightarrow> string \<Rightarrow> string \<Rightarrow> arrival \<Rightarrow> start_time \<Rightarrow> (apply_error + unit) prog" where
  "arm_start jf tbl name ev actor now st =
     bind_ok (via schedule_error_display (set_start_time name (Some (sm_expression st, sm_timezone st))))
       (\<lambda>_. via_store (set_starts_at jf tbl ev (Some (sm_epoch_secs st, sm_timezone st)) SetStartTime actor now))"

lemma start_cases:
  assumes p_def: "p = apply_start_time (dynamo_admin_store jf tbl) (scheduler_store name) zones ev at tz actor now"
    and "q \<in> asked p rs"
  shows "q = QGet tbl (key_build (KEvent ev)) False \<or> (\<exists>rs'. set rs' \<subseteq> set rs
     \<and> (q \<in> asked (clear_start jf tbl name ev actor now) rs'
          \<and> (\<forall>q'. q' \<in> asked (clear_start jf tbl name ev actor now) rs' \<longrightarrow> q' \<in> asked p rs)
        \<or> (\<exists>st. parse_start_time zones at tz (ar_epoch_seconds now) = Inr st
             \<and> q \<in> asked (arm_start jf tbl name ev actor now st) rs'
             \<and> (\<forall>q'. q' \<in> asked (arm_start jf tbl name ev actor now st) rs' \<longrightarrow> q' \<in> asked p rs))))"
proof -
  define F where "F = (if utrim at = [] then clear_start jf tbl name ev actor now
        else bind_ok (require (parse_start_time zones at tz (ar_epoch_seconds now)))
          (arm_start jf tbl name ev actor now))"
  have p: "p = loaded (dynamo_admin_store jf tbl) ev (\<lambda>state. bind_ok (require (debounce_check state now)) (\<lambda>_. F))"
    unfolding p_def apply_start_time_def clear_start_def arm_start_def scheduler_store_def open_schedule.select_convs
      dynamo_ops F_def ..
  show ?thesis
  proof (cases "q = QGet tbl (key_build (KEvent ev)) False")
    case False
    then obtain i rs' where r: "rs = RGet (Inr (Some i)) # rs'" "debounce_check (control_of_item jf ev i) now = Inr ()"
        "q \<in> asked F rs'"
      using assms(2) unfolding p asked_load asked_required by auto
    have "q' \<in> asked p rs" if "q' \<in> asked F rs'" for q'
      using that r(1,2) unfolding p asked_load asked_required by auto
    then show ?thesis
      using r by (intro disjI2 exI [of _ rs']) (auto simp: F_def split: if_split_asm)
  qed simp
qed

lemma arming_order:
  assumes "p = apply_start_time (dynamo_admin_store jf tbl) (scheduler_store name) zones ev at tz actor now"
    and "QUpdate t k us c \<in> asked p rs" "USet STARTS_AT_ATTR v \<in> set us"
  shows "\<exists>cur input secs. RSched (Inr cur) \<in> set rs \<and> QSchedUpdate input \<in> asked p rs \<and> RUnit (Inr ()) \<in> set rs
          \<and> fires_at zones name at tz secs cur input
          \<and> v = AN (show_u64 secs) \<and> USet STARTS_AT_TZ_ATTR (AS tz) \<in> set us \<and> ar_epoch_seconds now < secs"
proof -
  note q = assms(2) and u = assms(3)
  have ns: "QUpdate t k us c \<notin> asked (set_start_time name x) rs'" for x rs'
    using start_requests by blast
  obtain rs1 where
      "QUpdate t k us c \<in> asked (clear_start jf tbl name ev actor now) rs1 \<or>
       (\<exists>st. parse_start_time zones at tz (ar_epoch_seconds now) = Inr st \<and> set rs1 \<subseteq> set rs
          \<and> QUpdate t k us c \<in> asked (arm_start jf tbl name ev actor now st) rs1
          \<and> (\<forall>q'. q' \<in> asked (arm_start jf tbl name ev actor now st) rs1 \<longrightarrow> q' \<in> asked p rs))"
    using start_cases [OF assms(1) q] by (simp only: req.distinct simp_thms) blast
  then show ?thesis
  proof (elim disjE exE conjE)
    assume "QUpdate t k us c \<in> asked (clear_start jf tbl name ev actor now) rs1"
    then have "us = audit_clauses jf ClearStartTime actor now @ [URemove STARTS_AT_ATTR, URemove STARTS_AT_TZ_ATTR]"
      using ns by (auto simp: clear_start_def asked_bind_ok set_starts_at_def)
    then show ?thesis
      using u by (auto simp: audit_clauses_def attr_names)
  next
    fix st
    assume st: "parse_start_time zones at tz (ar_epoch_seconds now) = Inr st" "set rs1 \<subseteq> set rs"
      and a: "QUpdate t k us c \<in> asked (arm_start jf tbl name ev actor now st) rs1"
      and m: "\<forall>q'. q' \<in> asked (arm_start jf tbl name ev actor now st) rs1 \<longrightarrow> q' \<in> asked p rs"
    from a obtain rs2 rs3 w where y: "rs1 = rs2 @ rs3"
        "yields (set_start_time name (Some (sm_expression st, sm_timezone st))) rs2 (Inr w)"
        "QUpdate t k us c \<in> asked (set_starts_at jf tbl ev (Some (sm_epoch_secs st, sm_timezone st)) SetStartTime actor now) rs3"
      unfolding arm_start_def asked_bind_ok asked_via yields_via using ns by blast
    obtain cur input where i: "QSchedUpdate input \<in> asked (set_start_time name (Some (sm_expression st, sm_timezone st))) rs2"
        "RSched (Inr cur) \<in> set rs2" "RUnit (Inr ()) \<in> set rs2"
        "rewrite name cur (Some (sm_expression st, sm_timezone st)) = Inr input"
      using start_landed [OF y(2)] by blast
    note fires = parse_start_means [OF st(1) i(4)]
    have "QSchedUpdate input \<in> asked p rs"
      using m asked_mono [OF i(1)] by (simp add: arm_start_def asked_bind_ok y(1))
    moreover have "us = USet STARTS_AT_ATTR (AN (show_u64 (sm_epoch_secs st)))
        # USet STARTS_AT_TZ_ATTR (AS (sm_timezone st)) # audit_clauses jf SetStartTime actor now"
      using y(3) by (simp add: set_starts_at_def)
    moreover from this have "v = AN (show_u64 (sm_epoch_secs st))"
      using u by (auto simp: audit_clauses_def attr_names)
    ultimately show ?thesis
      using i(2,3) st(2) y(1) fires by (intro exI [of _ cur] exI [of _ input] exI [of _ "sm_epoch_secs st"]) auto
  qed
qed

lemma clearing_order:
  assumes "p = apply_start_time (dynamo_admin_store jf tbl) (scheduler_store name) zones ev at tz actor now"
    and "QSchedUpdate input \<in> asked p rs" "\<not> si_enabled input"
  shows "\<exists>us c m. QUpdate tbl (key_build (KEvent ev)) us c \<in> asked p rs
          \<and> URemove STARTS_AT_ATTR \<in> set us \<and> RUpdate (Inr m) \<in> set rs"
proof -
  note q = assms(2) and u = assms(3)
  have ng: "QSchedUpdate input \<notin> asked (set_starts_at jf tbl ev x action actor now) rs'" for x action rs'
    by (auto simp: set_starts_at_def)
  obtain rs1 where r: "set rs1 \<subseteq> set rs" and
      "QSchedUpdate input \<in> asked (clear_start jf tbl name ev actor now) rs1
         \<and> (\<forall>q'. q' \<in> asked (clear_start jf tbl name ev actor now) rs1 \<longrightarrow> q' \<in> asked p rs)
       \<or> (\<exists>st. QSchedUpdate input \<in> asked (arm_start jf tbl name ev actor now st) rs1)"
    using start_cases [OF assms(1) q] by (simp only: req.distinct simp_thms) blast
  then show ?thesis
  proof (elim disjE exE conjE)
    fix st
    assume "QSchedUpdate input \<in> asked (arm_start jf tbl name ev actor now st) rs1"
    then show ?thesis
      using ng u start_requests by (fastforce simp: arm_start_def asked_bind_ok)
  next
    assume a: "QSchedUpdate input \<in> asked (clear_start jf tbl name ev actor now) rs1"
      and m: "\<forall>q'. q' \<in> asked (clear_start jf tbl name ev actor now) rs1 \<longrightarrow> q' \<in> asked p rs"
    then obtain rs2 rs3 w where y: "rs1 = rs2 @ rs3"
        "yields (set_starts_at jf tbl ev None ClearStartTime actor now) rs2 (Inr w)"
      unfolding clear_start_def asked_bind_ok asked_via yields_via using ng by blast
    then obtain i where i: "rs2 = [RUpdate (Inr i)]"
      by (auto simp: set_starts_at_def yields_guarded_ok)
    have "QUpdate tbl (key_build (KEvent ev)) (audit_clauses jf ClearStartTime actor now
        @ [URemove STARTS_AT_ATTR, URemove STARTS_AT_TZ_ATTR]) (Some (guard_debounce jf None now)) \<in> asked p rs"
      using m by (auto simp: clear_start_def asked_bind_ok y(1) i set_starts_at_def)
    then show ?thesis
      using r y(1) i by (auto intro!: exI)
  qed
qed

text \<open>C34: an announced start never outlives its schedule: the item announces a start, with its zone, only
  after the schedule was read and armed to fire at exactly that instant (its own target, the local
  time the operator typed in the zone the operator chose), and always in the future; the schedule is
  disabled only after the announcement was taken down.\<close>

theorem announcement_follows_schedule:
  assumes "p = apply_start_time (dynamo_admin_store jf tbl) (scheduler_store name) zones ev at tz actor now"
  shows "(QUpdate t k us c \<in> asked p rs \<and> USet STARTS_AT_ATTR v \<in> set us \<longrightarrow>
       (\<exists>cur input secs. RSched (Inr cur) \<in> set rs \<and> QSchedUpdate input \<in> asked p rs \<and> RUnit (Inr ()) \<in> set rs
          \<and> fires_at zones name at tz secs cur input
          \<and> v = AN (show_u64 secs) \<and> USet STARTS_AT_TZ_ATTR (AS tz) \<in> set us \<and> ar_epoch_seconds now < secs))
     \<and> (QSchedUpdate input \<in> asked p rs \<and> \<not> si_enabled input \<longrightarrow>
       (\<exists>us c m. QUpdate tbl (key_build (KEvent ev)) us c \<in> asked p rs
          \<and> URemove STARTS_AT_ATTR \<in> set us \<and> RUpdate (Inr m) \<in> set rs))"
  using arming_order [OF assms] clearing_order [OF assms] by blast

definition ex_schedule :: schedule_output where
  "ex_schedule = \<lparr>so_group_name = None, so_target = Some ''t'', so_window = Some ''w'', so_expression = Some ''at(x)'',
     so_timezone = None, so_description = None, so_kms_key_arn = None, so_start_date = None, so_end_date = None,
     so_action_after = None\<rparr>"

definition ex_disabled :: schedule_input where
  "ex_disabled = \<lparr>si_name = ''s'', si_group_name = None, si_target = ''t'', si_window = ''w'',
     si_expression = ''at(x)'', si_timezone = ''UTC'', si_enabled = False, si_description = None,
     si_kms_key_arn = None, si_start_date = None, si_end_date = None, si_action_after = None\<rparr>"

definition ex_clear_script :: "resp list" where
  "ex_clear_script = [RGet (Inr (Some ex_before)), RUpdate (Inr ex_before), RSched (Inr ex_schedule), RUnit (Inr ())]"

definition ex_zones :: "string zone_env" where
  "ex_zones = \<lparr>zo_known = (\<lambda>z. z = ''UTC''), zo_civil = Some, zo_compatible = (\<lambda>_ c. Some (c, 1893492000)),
     zo_local_minutes = (\<lambda>_ _. None)\<rparr>"

definition ex_arm_script :: "resp list" where
  "ex_arm_script = [RGet (Inr (Some ex_before)), RSched (Inr ex_schedule), RUnit (Inr ()), RUpdate (Inr ex_before)]"

lemma utrim_digits:
  assumes "s \<noteq> []" "hd s = CHR ''2''" "List.last s = CHR ''0''"
  shows "utrim s = s"
proof (rule utrim_trimmed)
  have ends: "list_all (\<lambda>w. hd w \<noteq> CHR ''2'' \<and> List.last w \<noteq> CHR ''0'') ws_chars"
    by (simp add: ws_chars_def)
  have "\<not> prefix w s \<and> \<not> suffix w s" if w: "w \<in> set ws_chars" for w
  proof -
    have "w \<noteq> []" "hd w \<noteq> hd s" "List.last w \<noteq> List.last s"
      using ends w ws_chars_ne [OF w] assms(2,3) by (auto simp: list_all_iff)
    then show ?thesis
      by (auto simp: prefix_def suffix_def)
  qed
  then show "trimmed s"
    using assms(1) by (simp add: trimmed_def ws_head_0 ws_tail_0)
qed

lemma ex_armed:
  "\<exists>us c. QUpdate ''C'' (key_build (KEvent ''e'')) us c
      \<in> asked (apply_start_time (dynamo_admin_store ex_jiff ''C'') (scheduler_store ''s'') ex_zones ''e''
          ''2030-01-01T10:00'' ''UTC'' ''op'' ex_now) ex_arm_script
    \<and> USet STARTS_AT_ATTR (AN (show_u64 1893492000)) \<in> set us"
proof -
  let ?local = "''2030-01-01T10:00:00''"
  have trim: "utrim ''2030-01-01T10:00'' = ''2030-01-01T10:00''"
    by (rule utrim_digits) simp_all
  have parsed: "parse_start_time ex_zones ''2030-01-01T10:00'' ''UTC'' (ar_epoch_seconds ex_now)
      = Inr \<lparr>sm_epoch_secs = 1893492000, sm_expression = ?local, sm_timezone = ''UTC''\<rparr>"
    unfolding parse_start_time_def trim by (simp add: ex_zones_def ex_now_def u64_try_from_def)
  have "\<exists>input. rewrite ''s'' ex_schedule (Some (?local, ''UTC'')) = Inr input"
    by (simp add: rewrite_def ex_schedule_def)
  then have "yields (via schedule_error_display (set_start_time ''s'' (Some (?local, ''UTC''))))
      [RSched (Inr ex_schedule), RUnit (Inr ())] (Inr ())"
    by (auto simp: yields_via set_start_time_def yields_ops)
  moreover have "QUpdate ''C'' (key_build (KEvent ''e'')) (USet STARTS_AT_ATTR (AN (show_u64 1893492000))
        # USet STARTS_AT_TZ_ATTR (AS ''UTC'') # audit_clauses ex_jiff SetStartTime ''op'' ex_now)
        (Some (guard_debounce ex_jiff None ex_now))
      \<in> asked (via_store (set_starts_at ex_jiff ''C'' ''e'' (Some (1893492000, ''UTC'')) SetStartTime ''op'' ex_now))
          [RUpdate (Inr ex_before)]"
    by (simp add: set_starts_at_def)
  ultimately have "QUpdate ''C'' (key_build (KEvent ''e'')) (USet STARTS_AT_ATTR (AN (show_u64 1893492000))
        # USet STARTS_AT_TZ_ATTR (AS ''UTC'') # audit_clauses ex_jiff SetStartTime ''op'' ex_now)
        (Some (guard_debounce ex_jiff None ex_now))
      \<in> asked (bind_ok (via schedule_error_display (set_start_time ''s'' (Some (?local, ''UTC''))))
          (\<lambda>_. via_store (set_starts_at ex_jiff ''C'' ''e'' (Some (1893492000, ''UTC'')) SetStartTime ''op'' ex_now)))
        ([RSched (Inr ex_schedule), RUnit (Inr ())] @ [RUpdate (Inr ex_before)])"
    by - (rule asked_bindI(3), assumption+)
  then have "QUpdate ''C'' (key_build (KEvent ''e'')) (USet STARTS_AT_ATTR (AN (show_u64 1893492000))
        # USet STARTS_AT_TZ_ATTR (AS ''UTC'') # audit_clauses ex_jiff SetStartTime ''op'' ex_now)
        (Some (guard_debounce ex_jiff None ex_now))
      \<in> asked (apply_start_time (dynamo_admin_store ex_jiff ''C'') (scheduler_store ''s'') ex_zones ''e''
          ''2030-01-01T10:00'' ''UTC'' ''op'' ex_now) ex_arm_script"
    unfolding apply_start_time_def asked_load by (simp add: ex_quiet ex_arm_script_def scheduler_store_def trim parsed)
  then show ?thesis
    by auto
qed

lemma ex_cleared:
  "QSchedUpdate ex_disabled \<in> asked (apply_start_time (dynamo_admin_store ex_jiff ''C'')
      (scheduler_store ''s'') ex_zones ''e'' [] ''UTC'' ''op'' ex_now) ex_clear_script \<and> \<not> si_enabled ex_disabled"
proof -
  have "rewrite ''s'' ex_schedule None = Inr ex_disabled"
    by (simp add: rewrite_def ex_schedule_def ex_disabled_def or_else_def)
  then have "QSchedUpdate ex_disabled \<in> asked (set_start_time ''s'' None) [RSched (Inr ex_schedule), RUnit (Inr ())]"
    by (simp add: set_start_time_def asked_ops)
  moreover have "yields (via_store (set_starts_at ex_jiff ''C'' ''e'' None ClearStartTime ''op'' ex_now)) [RUpdate (Inr ex_before)] (Inr ())"
    by (simp add: set_starts_at_def yields_guarded_ok)
  ultimately have "QSchedUpdate ex_disabled \<in> asked (bind_ok
      (via_store (set_starts_at ex_jiff ''C'' ''e'' None ClearStartTime ''op'' ex_now))
      (\<lambda>_. via schedule_error_display (set_start_time ''s'' None)))
      ([RUpdate (Inr ex_before)] @ [RSched (Inr ex_schedule), RUnit (Inr ())])"
    by - (rule asked_bindI(3), simp_all)
  moreover have "utrim [] = []"
    using set_utrim [of "[]"] by simp
  ultimately show ?thesis
    unfolding apply_start_time_def asked_load by (simp add: ex_quiet ex_clear_script_def scheduler_store_def ex_disabled_def)
qed

text \<open>One action announces a start, another takes it down.\<close>

theorem announcement_follows_schedule_witness:
  "(\<exists>cur input secs. RSched (Inr cur) \<in> set ex_arm_script
      \<and> QSchedUpdate input \<in> asked (apply_start_time (dynamo_admin_store ex_jiff ''C'') (scheduler_store ''s'') ex_zones ''e''
          ''2030-01-01T10:00'' ''UTC'' ''op'' ex_now) ex_arm_script
      \<and> fires_at ex_zones ''s'' ''2030-01-01T10:00'' ''UTC'' secs cur input
      \<and> AN (show_u64 1893492000) = AN (show_u64 secs) \<and> ar_epoch_seconds ex_now < secs)
   \<and> (\<exists>us c m. QUpdate ''C'' (key_build (KEvent ''e'')) us c
       \<in> asked (apply_start_time (dynamo_admin_store ex_jiff ''C'') (scheduler_store ''s'') ex_zones ''e'' [] ''UTC'' ''op'' ex_now)
           ex_clear_script
     \<and> URemove STARTS_AT_ATTR \<in> set us \<and> RUpdate (Inr m) \<in> set ex_clear_script)"
proof -
  obtain us c where q: "QUpdate ''C'' (key_build (KEvent ''e'')) us c
      \<in> asked (apply_start_time (dynamo_admin_store ex_jiff ''C'') (scheduler_store ''s'') ex_zones ''e''
          ''2030-01-01T10:00'' ''UTC'' ''op'' ex_now) ex_arm_script
      \<and> USet STARTS_AT_ATTR (AN (show_u64 1893492000)) \<in> set us"
    using ex_armed by blast
  show ?thesis
    using mp [OF conjunct1 [OF announcement_follows_schedule [OF refl]] q]
      mp [OF conjunct2 [OF announcement_follows_schedule [OF refl]] ex_cleared] by blast
qed

section \<open>The two debounces\<close>

text \<open>C36: the debounce of the process and the one of the table, for the stamp of an earlier action: the
  process refuses exactly during the two seconds from the stamp on, so a stamp in the future passes
  it; the table accepts exactly once those two seconds are over, which is when the process accepts
  and the stamp is not in the future.\<close>

theorem debounces_agree:
  assumes "jiff_ok jf" "get_n m ''last_action_epoch_ms'' = Some (show_int l)"
    and "0 \<le> l" "l \<le> 253402207200999" "0 \<le> ar_at now" "ar_at now div 1000000 < 2 ^ 63"
  shows "(debounce_check (control_of_item jf ev m) now = Inr () \<longleftrightarrow>
       ar_at now < l * 1000000 \<or> l * 1000000 + 2000000000 \<le> ar_at now)
     \<and> (cond_holds (debounce_predicate jf now) (Some m) \<longleftrightarrow> l * 1000000 + 2000000000 \<le> ar_at now)
     \<and> (cond_holds (debounce_predicate jf now) (Some m) \<longleftrightarrow>
       debounce_check (control_of_item jf ev m) now = Inr () \<and> l * 1000000 \<le> ar_at now)"
proof -
  have n: "m ''last_action_epoch_ms'' = Some (AN (show_int l))"
    using assms(2) by (auto simp: get_n_def bind_eq_Some_conv elim!: as_n.elims)
  have j: "jf_millis jf (ar_at now) = ar_at now div 1000000"
    using assms(1,5) by (auto simp: jiff_ok_def)
  have sub: "i64_saturating_sub (ar_at now div 1000000) DEBOUNCE_MILLIS = ar_at now div 1000000 - 2000"
    using assms(5,6) by (simp add: i64_saturating_sub_def DEBOUNCE_MILLIS_def)
  have table: "cond_holds (debounce_predicate jf now) (Some m) \<longleftrightarrow> l * 1000000 + 2000000000 \<le> ar_at now"
    using sub window_millis [of "ar_at now" l] by (simp add: debounce_predicate_def n j dec_simps) linarith
  have "co_last_action_time (control_of_item jf ev m) = Some (l * 1000000)"
    using assms(1-4) parse_i64_show_int [of l] by (simp add: control_of_item_def jiff_ok_def)
  then have "debounce_check (control_of_item jf ev m) now = Inr () \<longleftrightarrow>
       ar_at now < l * 1000000 \<or> l * 1000000 + 2000000000 \<le> ar_at now"
    by (auto simp: debounce_check_def DEBOUNCE_def DEBOUNCE_MILLIS_def)
  then show ?thesis
    using table by auto
qed

text \<open>A stamp four seconds old, which both accept, and one five seconds ahead, which only the process does.\<close>

theorem debounces_agree_witness:
  "cond_holds (debounce_predicate ex_jiff ex_now) (Some ex_before)
   \<and> (let m = [''last_action_epoch_ms'' \<mapsto> AN (show_int 10000)] in
        debounce_check (control_of_item ex_jiff ''e'' m) ex_now = Inr ()
        \<and> \<not> cond_holds (debounce_predicate ex_jiff ex_now) (Some m))"
proof -
  let ?m = "[''last_action_epoch_ms'' \<mapsto> AN (show_int 10000)] :: item"
  have env: "jiff_ok ex_jiff" "0 \<le> ar_at ex_now" "ar_at ex_now div 1000000 < 2 ^ 63"
    by (simp_all add: jiff_ok_def ex_jiff_def ex_now_def)
  have s: "get_n ex_before ''last_action_epoch_ms'' = Some (show_int 1000)"
      "get_n ?m ''last_action_epoch_ms'' = Some (show_int 10000)"
    by (simp_all add: ex_before_def get_n_def)
  show ?thesis
    using debounces_agree [OF env(1) s(1) _ _ env(2,3)] debounces_agree [OF env(1) s(2) _ _ env(2,3), of "''e''"]
    by (simp add: ex_now_def)
qed

section \<open>Every action returns\<close>

lemma returns_pure [simp]: "returns (reject e) n" "returns (require r) n"
  by (simp_all add: reject_def require_def)

lemma returns_settled [simp]: "returns (case r of Inl e \<Rightarrow> Done (F e) | Inr x \<Rightarrow> Done (G x)) n"
  by (cases r) simp_all

lemma returns_then: "returns p n \<Longrightarrow> returns (bind p (\<lambda>x. Done (f x))) n" "returns q n \<Longrightarrow> returns (bind_ok q (\<lambda>x. Done (g x))) n"
  using returns_bind [of p n "\<lambda>x. Done (f x)" 0] returns_bind_ok [of q n "\<lambda>x. Done (g x)" 0] by simp_all

lemma returns_via: "returns p n \<Longrightarrow> returns (via_store p) n" "returns q n \<Longrightarrow> returns (via d q) n"
  unfolding via_store_def via_def by (rule returns_then(1); assumption)+

lemma returns_required: "(\<And>x. returns (f x) n) \<Longrightarrow> returns (bind_ok (require r) f) n"
  using returns_bind_ok [of "require r" 0 f n] by simp

lemma returns_guarded: "returns (send_guarded tbl ev us c what) 1"
  unfolding send_guarded_def by (auto split: sum.split sdk_error.split)

lemma returns_store:
  "returns (set_phase jf tbl ev p p' action actor now) 1"
  "returns (set_rate jf tbl ev expected rate actor now) 1"
  "returns (set_message jf tbl ev message actor now) 1"
  "returns (set_starts_at jf tbl ev starts action actor now) 1"
  "returns (set_stored_control jf tbl ev c c' action actor now) 1"
  "returns (set_rules_audit jf tbl ev rd cnt actor now) 1"
  "returns (stamp_action jf tbl ev action actor now) 1"
  "returns (force_maintenance jf tbl ev p actor now) 1"
  unfolding set_phase_def set_rate_def set_message_def set_starts_at_def set_stored_control_def
    stamped_eq force_maintenance_def
  by (rule returns_guarded)+

lemma returns_fail_open: "returns (set_fail_open_until jf tbl ev until action actor now) (1 + 1)"
  unfolding set_fail_open_until_eq by (rule returns_bind [OF returns_guarded]) (auto split: sum.split store_error.split)

lemma returns_load: "returns (admin_load jf tbl ev) 1"
  unfolding admin_load_def by (auto split: sum.split option.split)

lemma returns_loaded:
  "(\<And>state. returns (f state) n) \<Longrightarrow> returns (loaded (dynamo_admin_store jf tbl) ev f) (1 + n)"
  unfolding loaded_def dynamo_admin_store_def admin_store.select_convs
  by (rule returns_bind_ok [OF returns_via(1) [OF returns_load]]) (simp split: option.split)

lemma returns_edge:
  "returns (read_config env arn) (1 + 1)" "returns (write_config env arn tag gc) 1"
proof -
  show "returns (read_config env arn) (1 + 1)"
    unfolding read_config_def kvs_etag_def by (rule returns_bind_ok) (auto split: sum.split)
  show "returns (write_config env arn tag gc) 1"
    unfolding write_config_def by (auto split: sum.split)
qed

lemma returns_rmw: "returns (edge_read_modify_write (kvs_store env arn) f) (1 + 1 + (1 + (1 + 1 + 1)))"
proof -
  have second: "returns (bind_ok (read_config env arn) (\<lambda>(cfg, tag).
      bind_ok (write_config env arn tag (f cfg)) (\<lambda>_. Done (Inr (f cfg))))) (1 + 1 + 1)"
    by (rule returns_bind_ok [OF returns_edge(1)]) (use returns_then(2) [OF returns_edge(2)] in \<open>auto simp del: One_nat_def\<close>)
  have "returns (case w of Inr _ \<Rightarrow> Done (Inr (f cfg)) | Inl _ \<Rightarrow> bind_ok (read_config env arn) (\<lambda>(cfg, tag).
      bind_ok (write_config env arn tag (f cfg)) (\<lambda>_. Done (Inr (f cfg))))) (1 + 1 + 1)"
    for w :: "edge_store_error + unit" and cfg
    using second by (cases w) simp_all
  from returns_bind [OF returns_edge(2) this] show ?thesis
    unfolding edge_read_modify_write_def kvs_store_def edge_store.select_convs
    by (intro returns_bind_ok [OF returns_edge(1)]) (auto simp del: One_nat_def)
qed

lemma returns_schedule:
  "returns (set_start_time name at) 2" "returns (lambda_open_now env fn ev) 1"
  unfolding set_start_time_def lambda_open_now_def by (auto split: sum.split option.split)

lemma returns_simple:
  "returns (apply_phase (dynamo_admin_store jf tbl) ev to actor now) (1 + 1)"
  "returns (apply_force_maintenance (dynamo_admin_store jf tbl) ev actor now) (1 + 1)"
  "returns (apply_rate (dynamo_admin_store jf tbl) ev rate actor now) (1 + 1)"
  "returns (apply_control (dynamo_admin_store jf tbl) ev transition action actor now) (1 + 1)"
  "returns (apply_message (dynamo_admin_store jf tbl) ev message actor now) (1 + 1)"
  unfolding apply_phase_def apply_force_maintenance_def apply_rate_def apply_control_def apply_message_def dynamo_ops
  by (auto intro!: returns_loaded returns_required returns_then returns_via returns_store split: option.split sum.split
      simp del: One_nat_def one_add_one)

lemma returns_edges:
  "returns (apply_fail_open (dynamo_admin_store jf tbl) (kvs_store kenv arn) ev minutes actor now) (1 + (1 + 1 + (1 + (1 + 1 + 1)) + (1 + 1)))"
  "returns (apply_recover (dynamo_admin_store jf tbl) (kvs_store kenv arn) ev actor now) (1 + ((1 + 1) + (1 + 1 + (1 + (1 + 1 + 1)))))"
  "returns (apply_ip_binding (dynamo_admin_store jf tbl) (kvs_store kenv arn) ev on actor now) (1 + (1 + 1 + (1 + (1 + 1 + 1)) + 1))"
  "returns (apply_set_rules (dynamo_admin_store jf tbl) env (kvs_store kenv arn) ev rules actor now)
     (1 + ((1 + 1) + (1 + 1 + (1 + (1 + 1 + 1)) + 1)))"
proof -
  show "returns (apply_fail_open (dynamo_admin_store jf tbl) (kvs_store kenv arn) ev minutes actor now) (1 + (1 + 1 + (1 + (1 + 1 + 1)) + (1 + 1)))"
    unfolding apply_fail_open_def dynamo_ops Let_def
    by (auto intro!: returns_loaded returns_bind_ok returns_via returns_rmw returns_fail_open split: option.split
        simp del: One_nat_def one_add_one)
  show "returns (apply_recover (dynamo_admin_store jf tbl) (kvs_store kenv arn) ev actor now) (1 + ((1 + 1) + (1 + 1 + (1 + (1 + 1 + 1)))))"
    unfolding apply_recover_def dynamo_ops
    by (intro returns_loaded returns_bind_ok returns_then returns_via returns_rmw returns_fail_open)
  show "returns (apply_ip_binding (dynamo_admin_store jf tbl) (kvs_store kenv arn) ev on actor now) (1 + (1 + 1 + (1 + (1 + 1 + 1)) + 1))"
    unfolding apply_ip_binding_def dynamo_ops
    by (intro returns_loaded returns_bind_ok returns_then returns_via returns_rmw returns_store)
  have "returns (bind_ok (via edge_error_display (edge_read_modify_write (kvs_store kenv arn) f)) (\<lambda>cfg.
      let d = D cfg in bind (set_rules_audit jf tbl ev d (L cfg) actor now) (\<lambda>_. Done (Inr ()))))
      (1 + 1 + (1 + (1 + 1 + 1)) + 1)" for f D L
    unfolding Let_def by (intro returns_bind_ok returns_then returns_via returns_rmw returns_store)
  then show "returns (apply_set_rules (dynamo_admin_store jf tbl) env (kvs_store kenv arn) ev rules actor now)
     (1 + ((1 + 1) + (1 + 1 + (1 + (1 + 1 + 1)) + 1)))"
    unfolding apply_set_rules_def dynamo_ops
    by (intro returns_loaded returns_bind_ok returns_via)
      (auto simp: kvs_store_def [unfolded edge_store.simps] returns_edge split: sum.split simp del: One_nat_def one_add_one)
qed

text \<open>C38: every action of the operator returns, whatever the stores answer: after at most two
  answered requests where one store is involved, and ten where the edge's document is read,
  validated, and written with a retry.\<close>

theorem actions_return:
  "let st = dynamo_admin_store jf tbl; edge = kvs_store kenv arn in
     returns (apply_phase st ev to actor now) 2
     \<and> returns (apply_force_maintenance st ev actor now) 2
     \<and> returns (apply_rate st ev rate actor now) 2
     \<and> returns (apply_pause st ev actor now) 2 \<and> returns (apply_resume st ev actor now) 2
     \<and> returns (apply_message st ev message actor now) 2
     \<and> returns (apply_fail_open st edge ev minutes actor now) 9
     \<and> returns (apply_recover st edge ev actor now) 9
     \<and> returns (apply_start_time st (scheduler_store name) zones ev at tz actor now) 4
     \<and> returns (apply_open_now st (lambda_opener jenv fn ev) ev actor now) 3
     \<and> returns (apply_ip_binding st edge ev on actor now) 8
     \<and> returns (apply_set_rules st env edge ev rules actor now) 10"
proof -
  have s: "returns (apply_start_time (dynamo_admin_store jf tbl) (scheduler_store name) zones ev at tz actor now) (1 + (2 + 1))"
  proof -
    have "returns (via_store (set_starts_at jf tbl ev None ClearStartTime actor now)) 1"
      by (intro returns_via returns_store)
    from returns_bind_ok [OF this returns_via(2) [OF returns_schedule(1)]]
    have clear: "returns (clear_start jf tbl name ev actor now) (2 + 1)"
      unfolding clear_start_def by (simp only: add.commute)
    have arm: "returns (arm_start jf tbl name ev actor now start) (2 + 1)" for start
      unfolding arm_start_def by (intro returns_bind_ok returns_via returns_schedule returns_store)
    show ?thesis
      unfolding apply_start_time_def dynamo_ops scheduler_store_def open_schedule.select_convs
        clear_start_def [symmetric] arm_start_def [symmetric]
      by (intro returns_loaded returns_required, cases "utrim at = []"; simp only: if_True if_False simp_thms)
        (rule clear, intro returns_required arm)
  qed
  have o: "returns (apply_open_now (dynamo_admin_store jf tbl) (lambda_opener jenv fn ev) ev actor now) (1 + (1 + 1))"
    unfolding apply_open_now_def dynamo_ops lambda_opener_def opener.select_convs
    by (auto intro!: returns_loaded returns_required returns_bind_ok returns_then returns_via returns_store
        returns_schedule simp del: One_nat_def one_add_one)
  show ?thesis
    using s o returns_simple returns_edges by (simp add: Let_def apply_pause_def apply_resume_def numeral_eq_Suc)
qed

end
