(* ===== verification/Readiness.thy ===== *)
theory Readiness
  imports Complex_Main Edge Schedule
begin

text \<open>
  \<open>crates/admin/src/readiness.rs\<close>: the readiness report of the dashboard.  Each check judges facts that
  a read of the deployment reported; what the reads report, and whether one was late, is an argument
  of the model (\<open>probe_reads\<close>), since \<open>run_checks\<close> awaits all of them at once and writes nothing.  The
  rate of API Gateway is a JSON number, so a real; the text of a rate and of an instant are parameters.

  Lemmas: each evaluation passes exactly under its requirement (\<open>check_passes\<close>), so the report as a
  whole is the specification \<open>met\<close> (\<open>report_exact\<close>).
\<close>

section \<open>Checks\<close>

definition PER_CHECK_TIMEOUT :: nat where "PER_CHECK_TIMEOUT = 3"
definition DEFAULT_TABLE_THROUGHPUT_LIMIT :: int where "DEFAULT_TABLE_THROUGHPUT_LIMIT = 40000"
definition DEFAULT_API_GATEWAY_RATE :: real where "DEFAULT_API_GATEWAY_RATE = 10000"
definition REGISTRATION_TARGET_PER_SECOND :: int where "REGISTRATION_TARGET_PER_SECOND = 10000"

datatype check_id =
    WarmThroughput
  | DynamoDbLimits
  | ApiGatewayThrottle
  | AssignPositionConcurrency
  | OpenSchedule
  | ControllerSchedule
  | GateRuleset
  | StatusCaching
  | GateAssociation

record check_spec_rec =
  sp_name :: string
  sp_requirement :: string
  sp_means :: string
  sp_fix :: string
  sp_fix_url :: string

definition ALL_CHECKS :: "check_id list" where
  "ALL_CHECKS = [WarmThroughput, DynamoDbLimits, ApiGatewayThrottle, AssignPositionConcurrency,
     OpenSchedule, ControllerSchedule, GateRuleset, StatusCaching, GateAssociation]"

fun check_spec :: "check_id \<Rightarrow> check_spec_rec" where
  "check_spec WarmThroughput =
     \<lparr>sp_name = ''Tables pre-warmed'', sp_requirement = ''O1'',
      sp_means = ''All four tables report warm throughput at or above the configured `warm_throughput_write_units` / `warm_throughput_read_units`, and `PreQueue` at or above the 10,000/s registration rate. The 4,000-unit AWS minimum is a floor, not a sized value; 0 configured means no pre-warm.'',
      sp_fix = ''Set `warm_throughput_write_units` (and `_read_units`) in `terraform.tfvars` at or above the event'' @ [CHR 0x27] @ ''s target write rate and apply, the day before rather than the hour before: warming is asynchronous.'',
      sp_fix_url = ''https://docs.aws.amazon.com/amazondynamodb/latest/developerguide/warm-throughput.html''\<rparr>"
| "check_spec DynamoDbLimits =
     \<lparr>sp_name = ''DynamoDB throughput quotas'', sp_requirement = ''O2'',
      sp_means = ''`DescribeLimits` reports a per-table write limit above the 40,000-unit default and at or above the configured warm throughput.'',
      sp_fix = ''File a Service Quotas increase for DynamoDB table-level write throughput weeks ahead; an increase still pending at T-0 means the load test measured throttling.'',
      sp_fix_url = ''https://console.aws.amazon.com/servicequotas/home/services/dynamodb/quotas''\<rparr>"
| "check_spec ApiGatewayThrottle =
     \<lparr>sp_name = ''API Gateway account throttle'', sp_requirement = ''O2'',
      sp_means = ''The account'' @ [CHR 0x27] @ ''s API Gateway steady-state rate is above the 10,000 requests/s default, which is what C3'' @ [CHR 0x27] @ ''s 40,000 joins/s needs.'',
      sp_fix = ''File a Service Quotas increase for API Gateway throttle rate in this region, weeks ahead.'',
      sp_fix_url = ''https://console.aws.amazon.com/servicequotas/home/services/apigateway/quotas''\<rparr>"
| "check_spec AssignPositionConcurrency =
     \<lparr>sp_name = ''assign_position reserved concurrency'', sp_requirement = ''N9'',
      sp_means = ''The join consumer has reserved concurrency above zero, so one event cannot starve another and the queue drains at a known rate.'',
      sp_fix = ''Set `assign_position_reserved_concurrency` in the core module (the default is sized for 10,000/s) and apply.'',
      sp_fix_url = ''https://docs.aws.amazon.com/lambda/latest/dg/configuration-concurrency.html''\<rparr>"
| "check_spec OpenSchedule =
     \<lparr>sp_name = ''Open schedule armed'', sp_requirement = ''F0.3'',
      sp_means = ''The one-time open schedule is enabled at a time still in the future, so the event opens on its own at T-0.'',
      sp_fix = ''Set the start time on the dashboard (Start time), in the timezone you mean. The schedule itself is in EventBridge Scheduler.'',
      sp_fix_url = ''https://console.aws.amazon.com/scheduler/home#schedules''\<rparr>"
| "check_spec ControllerSchedule =
     \<lparr>sp_name = ''Controller schedule running'', sp_requirement = ''F3.2'',
      sp_means = ''The controller'' @ [CHR 0x27] @ ''s `rate(1 minute)` schedule exists and is enabled; without it the queue forms and nobody is admitted.'',
      sp_fix = ''Re-apply Terraform, which creates the schedule enabled; check nobody disabled it in EventBridge Scheduler.'',
      sp_fix_url = ''https://console.aws.amazon.com/scheduler/home#schedules''\<rparr>"
| "check_spec GateRuleset =
     \<lparr>sp_name = ''Gate ruleset'', sp_requirement = ''F0.6'',
      sp_means = ''The gate'' @ [CHR 0x27] @ ''s KeyValueStore holds at least one protection rule and no fail-open window is active. An empty ruleset passes every request through, which looks exactly like a working deployment.'',
      sp_fix = ''Set rules under Protection rules on the dashboard, then load a protected URL in a private window and confirm you are sent to the waiting page.'',
      sp_fix_url = ''#protection-rules''\<rparr>"
| "check_spec StatusCaching =
     \<lparr>sp_name = ''/status cache behaviour'', sp_requirement = ''C4'',
      sp_means = ''The polled `/v1/status` behaviour has a Min TTL above zero and keeps cookies out of its cache key, so CloudFront collapses polls and origin load is independent of waiter count.'',
      sp_fix = ''Re-apply the edge module (`polled_min_ttl_seconds` must be at least 1); do not edit the cache policy in the console.'',
      sp_fix_url = ''https://console.aws.amazon.com/cloudfront/v4/home#/policies/cache''\<rparr>"
| "check_spec GateAssociation =
     \<lparr>sp_name = ''Gate on the protected behaviour only'', sp_requirement = ''N7'',
      sp_means = ''The gate CloudFront Function is associated at viewer-request with the default (protected) behaviour and with no other: elsewhere it bills every poll and refuses joins.'',
      sp_fix = ''Re-apply the edge module; remove any function association added to another behaviour in the console.'',
      sp_fix_url = ''https://console.aws.amazon.com/cloudfront/v4/home#/distributions''\<rparr>"

datatype check_status = Pass | Warn | Fail | NotEvaluable

fun status_label :: "check_status \<Rightarrow> string" where
  "status_label Pass = ''pass''"
| "status_label Warn = ''warn''"
| "status_label Fail = ''fail''"
| "status_label NotEvaluable = ''not evaluable''"

fun css_class :: "check_status \<Rightarrow> string" where
  "css_class Pass = ''status-success''"
| "css_class Warn = ''status-warning''"
| "css_class Fail = ''status-error''"
| "css_class NotEvaluable = ''status-inactive''"

fun needs_fix :: "check_status \<Rightarrow> bool" where
  "needs_fix Warn = True"
| "needs_fix Fail = True"
| "needs_fix Pass = False"
| "needs_fix NotEvaluable = False"

fun status_rank :: "check_status \<Rightarrow> nat" where
  "status_rank Pass = 0"
| "status_rank Warn = 1"
| "status_rank Fail = 2"
| "status_rank NotEvaluable = 3"

definition worst :: "check_status \<Rightarrow> check_status \<Rightarrow> check_status" where
  "worst a b = (if status_rank a < status_rank b then b else a)"

record ready_row =
  rw_check :: check_id
  rw_status :: check_status
  rw_detail :: string

definition row_new :: "check_id \<Rightarrow> check_status \<times> string \<Rightarrow> ready_row" where
  "row_new c verdict = \<lparr>rw_check = c, rw_status = fst verdict, rw_detail = snd verdict\<rparr>"

definition row_not_evaluable :: "check_id \<Rightarrow> string \<Rightarrow> ready_row" where
  "row_not_evaluable c reason =
     \<lparr>rw_check = c, rw_status = NotEvaluable, rw_detail = ''could not evaluate: '' @ reason\<rparr>"

section \<open>Facts\<close>

datatype ready_table = CountersTable | PreQueueTable | PositionsTable | TokensTable

definition ALL_TABLES :: "ready_table list" where
  "ALL_TABLES = [CountersTable, PreQueueTable, PositionsTable, TokensTable]"

fun table_label :: "ready_table \<Rightarrow> string" where
  "table_label CountersTable = ''Counters''"
| "table_label PreQueueTable = ''PreQueue''"
| "table_label PositionsTable = ''Positions''"
| "table_label TokensTable = ''Tokens''"

record warm_targets =
  tg_write_units :: int
  tg_read_units :: int

record warm_throughput =
  wt_write_units :: "int option"
  wt_read_units :: "int option"
  wt_warming :: bool

record dynamodb_limits =
  dl_table_max_write :: "int option"
  dl_table_max_read :: "int option"
  dl_account_max_write :: "int option"
  dl_account_max_read :: "int option"

record api_throttle =
  at_rate_limit :: "real option"
  at_burst_limit :: "int option"

datatype schedule_kind = OpenKind | ControllerKind

record schedule_facts =
  sf_enabled :: bool
  sf_expression :: string
  sf_timezone :: string

datatype cookie_key = CookieNone | CookieIncluded string

record caching_facts =
  cf_min_ttl :: int
  cf_cookies :: cookie_key

record edge_facts =
  ef_status_path :: string
  ef_status_caching :: "caching_facts option"
  ef_gate_on_default :: bool
  ef_gate_elsewhere :: "string list"

text \<open>A read of the deployment answers, or is still running when its time is over.\<close>

datatype 'a probed = Answered "string + 'a" | Late

record probe_reads =
  pb_warm_throughput :: "ready_table \<Rightarrow> warm_throughput probed"
  pb_dynamodb_limits :: "dynamodb_limits probed"
  pb_api_gateway_throttle :: "api_throttle probed"
  pb_reserved_concurrency :: "int option probed"
  pb_schedule :: "schedule_kind \<Rightarrow> schedule_facts option probed"
  pb_edge_facts :: "edge_facts option probed"

text \<open>\<open>f64::to_string\<close>, and an instant of given seconds as text.\<close>

record ready_text =
  rt_rate :: "real \<Rightarrow> string"
  rt_instant :: "int \<Rightarrow> string option"

section \<open>Evaluation\<close>

text \<open>The loop of \<open>thousands\<close>: \<open>i\<close> is the index, \<open>n\<close> the number of digits.\<close>

fun thousands_loop :: "nat \<Rightarrow> nat \<Rightarrow> string \<Rightarrow> string" where
  "thousands_loop n i [] = []"
| "thousands_loop n i (c # cs) =
     (if 0 < i \<and> (n - i) mod 3 = 0 then [CHR '',''] else []) @ c # thousands_loop n (i + 1) cs"

definition thousands :: "int \<Rightarrow> string" where
  "thousands n =
     (let digits = show_nat (nat \<bar>n\<bar>) in
      (if n < 0 then ''-'' else []) @ thousands_loop (length digits) 0 digits)"

definition units :: "int option \<Rightarrow> string" where
  "units v = (case v of None \<Rightarrow> ''not reported'' | Some n \<Rightarrow> thousands n)"

text \<open>\<open>join\<close> on strings.\<close>

fun joined :: "string \<Rightarrow> string list \<Rightarrow> string" where
  "joined sep [] = []"
| "joined sep [x] = x"
| "joined sep (x # xs) = x @ sep @ joined sep xs"

text \<open>The loop over the tables, with the status, the measured values and the notes so far.\<close>

fun warm_loop ::
  "warm_targets \<Rightarrow> check_status \<Rightarrow> string list \<Rightarrow> string list \<Rightarrow> (ready_table \<times> warm_throughput) list \<Rightarrow>
   check_status \<times> string list \<times> string list" where
  "warm_loop targets st measured notes [] = (st, measured, notes)"
| "warm_loop targets st measured notes ((table, warm) # rest) =
     (let write = or_else (wt_write_units warm) 0;
          rd = or_else (wt_read_units warm) 0;
          measured = measured @ [table_label table @ '' write '' @ thousands write @ '' / read '' @ thousands rd];
          (st, notes) = (if wt_warming warm
            then (worst st Warn, notes @ [table_label table @ '' is still warming'']) else (st, notes));
          (st, notes) = (if 0 < tg_write_units targets \<and> write < tg_write_units targets
            then (worst st Fail, notes @ [table_label table @ '' write '' @ thousands write
              @ '' is below the configured '' @ thousands (tg_write_units targets)]) else (st, notes));
          (st, notes) = (if 0 < tg_read_units targets \<and> rd < tg_read_units targets
            then (worst st Fail, notes @ [table_label table @ '' read '' @ thousands rd
              @ '' is below the configured '' @ thousands (tg_read_units targets)]) else (st, notes));
          (st, notes) = (if table = PreQueueTable \<and> write < REGISTRATION_TARGET_PER_SECOND
            then (worst st Warn, notes @ [''PreQueue write '' @ thousands write @ '' is under the ''
              @ thousands REGISTRATION_TARGET_PER_SECOND @ ''/s registration rate'']) else (st, notes))
      in warm_loop targets st measured notes rest)"

definition evaluate_warm_throughput ::
  "warm_targets \<Rightarrow> (ready_table \<times> warm_throughput) list \<Rightarrow> check_status \<times> string" where
  "evaluate_warm_throughput targets applied =
     (let (st, measured, notes) = warm_loop targets Pass [] [] applied;
          (st, notes) =
            (if tg_write_units targets = 0 \<and> tg_read_units targets = 0
             then (worst st Warn, notes @ [''no pre-warm is configured (warm_throughput_write_units = 0)''])
             else (st, notes @ [''configured write '' @ thousands (tg_write_units targets) @ '' / read ''
               @ thousands (tg_read_units targets)]))
      in (st, joined ''; '' measured @ '' units/s'' @ concat (map (\<lambda>note. ''. '' @ note) notes)))"

definition evaluate_dynamodb_limits :: "dynamodb_limits \<Rightarrow> warm_targets \<Rightarrow> check_status \<times> string" where
  "evaluate_dynamodb_limits limits targets =
     (let detail = ''table write '' @ units (dl_table_max_write limits) @ '' / read ''
            @ units (dl_table_max_read limits) @ '' units/s; account write ''
            @ units (dl_account_max_write limits) @ '' / read '' @ units (dl_account_max_read limits)
      in case dl_table_max_write limits of
           None \<Rightarrow> (NotEvaluable, ''could not evaluate: DescribeLimits reported no table write limit. '' @ detail)
         | Some table_write \<Rightarrow>
             if 0 < tg_write_units targets \<and> table_write < tg_write_units targets
             then (Fail, detail @ ''. The table limit is below the configured warm throughput ''
               @ thousands (tg_write_units targets))
             else if table_write \<le> DEFAULT_TABLE_THROUGHPUT_LIMIT
             then (Warn, detail @ ''. At the AWS default: no increase is in force'')
             else (Pass, detail))"

definition format_rate :: "ready_text \<Rightarrow> real \<Rightarrow> string" where
  "format_rate tx rate =
     (let shown = rt_rate tx rate in
      case parse_i64 shown of None \<Rightarrow> shown | Some n \<Rightarrow> thousands n)"

definition evaluate_api_gateway_throttle :: "ready_text \<Rightarrow> api_throttle \<Rightarrow> check_status \<times> string" where
  "evaluate_api_gateway_throttle tx throttle =
     (case at_rate_limit throttle of
        None \<Rightarrow> (NotEvaluable, ''could not evaluate: GetAccount reported no throttle rate'')
      | Some rate \<Rightarrow>
          let burst = (case at_burst_limit throttle of None \<Rightarrow> ''not reported'' | Some b \<Rightarrow> thousands b);
              detail = ''rate '' @ format_rate tx rate @ '' requests/s, burst '' @ burst
          in if rate < DEFAULT_API_GATEWAY_RATE
             then (Fail, detail @ ''. Below the 10,000/s C3 needs even at default quotas'')
             else if DEFAULT_API_GATEWAY_RATE < rate then (Pass, detail)
             else (Warn, detail @ ''. At the AWS default: no increase is in force''))"

definition evaluate_reserved_concurrency :: "int option \<Rightarrow> check_status \<times> string" where
  "evaluate_reserved_concurrency reserved =
     (case reserved of
        None \<Rightarrow> (Fail, ''unreserved: shares the account'' @ [CHR 0x27] @ ''s unreserved pool'')
      | Some n \<Rightarrow>
          if n \<le> 0
          then (Fail, ''reserved '' @ show_int n
            @ '': the function is throttled entirely and nobody is assigned a position'')
          else (Pass, ''reserved '' @ thousands n))"

definition at_inner :: "string \<Rightarrow> string option" where
  "at_inner expression =
     (if starts_with expression ''at('' then strip_suffix (drop 3 expression) '')'' else None)"

definition at_epoch :: "'c zone_env \<Rightarrow> string \<Rightarrow> string \<Rightarrow> int option" where
  "at_epoch zones expression timezone =
     Option.bind (at_inner expression) (\<lambda>inner.
       Option.bind (zo_civil zones inner) (\<lambda>civil.
         if zo_known zones timezone then map_option snd (zo_compatible zones timezone civil) else None))"

text \<open>\<open>i64::try_from(now).unwrap_or(i64::MAX)\<close>\<close>

definition i64_of_u64 :: "u64 \<Rightarrow> int" where
  "i64_of_u64 x = (if unat x < 2 ^ 63 then int (unat x) else 2 ^ 63 - 1)"

definition evaluate_open_schedule ::
  "'c zone_env \<Rightarrow> schedule_facts option \<Rightarrow> u64 \<Rightarrow> check_status \<times> string" where
  "evaluate_open_schedule zones schedule now =
     (case schedule of
        None \<Rightarrow> (Fail, ''the open schedule does not exist: nothing will open the event'')
      | Some s \<Rightarrow>
          let when = sf_expression s @ '' '' @ sf_timezone s in
          if \<not> sf_enabled s then (Warn, ''disabled ('' @ when @ ''): the event will not open on its own'')
          else
            (case at_epoch zones (sf_expression s) (sf_timezone s) of
               Some epoch \<Rightarrow>
                 if i64_of_u64 now < epoch then (Pass, ''enabled, '' @ when)
                 else (Warn, ''enabled, '' @ when @ '': in the past, so it has fired or will not fire'')
             | None \<Rightarrow> (Warn, ''enabled, '' @ when @ '': not a one-time at() expression'')))"

definition evaluate_controller_schedule :: "schedule_facts option \<Rightarrow> check_status \<times> string" where
  "evaluate_controller_schedule schedule =
     (case schedule of
        None \<Rightarrow> (Fail, ''the controller schedule does not exist: nobody will be admitted'')
      | Some s \<Rightarrow>
          if \<not> sf_enabled s then (Fail, ''disabled ('' @ sf_expression s @ ''): nobody will be admitted'')
          else (Pass, ''enabled, '' @ sf_expression s))"

definition evaluate_gate_ruleset :: "ready_text \<Rightarrow> gate_config \<Rightarrow> u64 \<Rightarrow> check_status \<times> string" where
  "evaluate_gate_ruleset tx cfg now =
     (let n = length (gc_rules cfg);
          (st, detail) =
            (if n = 0 then (Warn, ''dormant: no rules, so every request passes through (standby, #60)'')
             else if n = 1 then (Pass, ''1 rule configured'')
             else (Pass, show_nat n @ '' rules configured''))
      in if now < gc_fail_open_until cfg then
           (let until = or_else
                 (if unat (gc_fail_open_until cfg) < 2 ^ 63
                  then rt_instant tx (int (unat (gc_fail_open_until cfg))) else None)
                 (show_u64 (gc_fail_open_until cfg))
            in (worst st Warn, detail @ ''. Fail-open is active until '' @ until @ '' (''
                 @ show_u64 (saturating_sub (gc_fail_open_until cfg) now) @ ''s left): the gate is bypassed''))
         else (st, detail))"

definition evaluate_status_caching :: "edge_facts \<Rightarrow> check_status \<times> string" where
  "evaluate_status_caching facts =
     (case ef_status_caching facts of
        None \<Rightarrow> (Fail, ''no behaviour for '' @ ef_status_path facts
          @ '': polls fall through to the uncached default behaviour'')
      | Some caching \<Rightarrow>
          let cookies = (case cf_cookies caching of
                CookieNone \<Rightarrow> ''no cookies in the cache key''
              | CookieIncluded how \<Rightarrow> ''cookies in the cache key ('' @ how @ '')'');
              detail = ef_status_path facts @ '': min TTL '' @ show_int (cf_min_ttl caching) @ '' s, '' @ cookies
          in if 0 < cf_min_ttl caching \<and> cf_cookies caching = CookieNone then (Pass, detail)
             else (Fail, detail @ ''. Every poll reaches the origin''))"

definition evaluate_gate_association :: "edge_facts \<Rightarrow> check_status \<times> string" where
  "evaluate_gate_association facts =
     (let problems =
            (if \<not> ef_gate_on_default facts
             then [''not on the default behaviour: the protected origin is unguarded''] else [])
          @ (if ef_gate_elsewhere facts \<noteq> []
             then [''also on '' @ joined '', '' (ef_gate_elsewhere facts)
               @ '': billed per request there, and a visitor with no session is refused''] else [])
      in if problems = [] then (Pass, ''viewer-request on the default behaviour only'')
         else (Fail, joined ''; '' problems))"

section \<open>The report\<close>

definition bounded :: "nat \<Rightarrow> 'a probed \<Rightarrow> string + 'a" where
  "bounded limit r = (case r of Answered x \<Rightarrow> x | Late \<Rightarrow> Inl (''timed out after '' @ show_nat limit @ ''s''))"

text \<open>The four reads of the tables share one time limit; their errors are taken in the order of the
  tables.\<close>

fun warm_reads ::
  "(ready_table \<times> warm_throughput probed) list \<Rightarrow> (ready_table \<times> warm_throughput) list probed" where
  "warm_reads [] = Answered (Inr [])"
| "warm_reads ((table, r) # rest) =
     (case warm_reads rest of
        Late \<Rightarrow> Late
      | Answered applied \<Rightarrow>
          (case r of
             Late \<Rightarrow> Late
           | Answered (Inl e) \<Rightarrow> Answered (Inl (table_label table @ '': '' @ e))
           | Answered (Inr warm) \<Rightarrow> Answered (map_sum (\<lambda>e. e) ((#) (table, warm)) applied)))"

definition judged :: "check_id \<Rightarrow> string + (check_status \<times> string) \<Rightarrow> ready_row" where
  "judged c r = (case r of Inr verdict \<Rightarrow> row_new c verdict | Inl e \<Rightarrow> row_not_evaluable c e)"

definition run_checks ::
  "'c zone_env \<Rightarrow> ready_text \<Rightarrow> probe_reads \<Rightarrow> gate_config probed \<Rightarrow> warm_targets \<Rightarrow> u64 \<Rightarrow> nat \<Rightarrow>
   ready_row list" where
  "run_checks zones tx probe gate targets now limit =
     (let warm = bounded limit (warm_reads (map (\<lambda>t. (t, pb_warm_throughput probe t)) ALL_TABLES)) in
      [judged WarmThroughput (map_sum (\<lambda>e. e) (evaluate_warm_throughput targets) warm),
       judged DynamoDbLimits
         (map_sum (\<lambda>e. e) (\<lambda>l. evaluate_dynamodb_limits l targets) (bounded limit (pb_dynamodb_limits probe))),
       judged ApiGatewayThrottle
         (map_sum (\<lambda>e. e) (evaluate_api_gateway_throttle tx) (bounded limit (pb_api_gateway_throttle probe))),
       judged AssignPositionConcurrency
         (map_sum (\<lambda>e. e) evaluate_reserved_concurrency (bounded limit (pb_reserved_concurrency probe))),
       judged OpenSchedule
         (map_sum (\<lambda>e. e) (\<lambda>s. evaluate_open_schedule zones s now) (bounded limit (pb_schedule probe OpenKind))),
       judged ControllerSchedule
         (map_sum (\<lambda>e. e) evaluate_controller_schedule (bounded limit (pb_schedule probe ControllerKind))),
       judged GateRuleset
         (map_sum (\<lambda>e. e) (\<lambda>cfg. evaluate_gate_ruleset tx cfg now) (bounded limit gate))]
      @ (case bounded limit (pb_edge_facts probe) of
           Inr (Some facts) \<Rightarrow>
             [row_new StatusCaching (evaluate_status_caching facts),
              row_new GateAssociation (evaluate_gate_association facts)]
         | Inr None \<Rightarrow>
             (let reason = ''not configured: the edge module has not published the distribution''
                    @ [CHR 0x27] @ ''s readiness parameter (apply the edge module)''
              in [row_not_evaluable StatusCaching reason, row_not_evaluable GateAssociation reason])
         | Inl e \<Rightarrow> [row_not_evaluable StatusCaching e, row_not_evaluable GateAssociation e]))"

section \<open>The runbook\<close>

definition RUNBOOK_BEGIN :: string where
  "RUNBOOK_BEGIN =
     ''<!-- readiness-checks:begin (generated from crates/admin/src/readiness.rs; do not edit) -->''"

definition RUNBOOK_END :: string where
  "RUNBOOK_END = ''<!-- readiness-checks:end -->''"

definition newline :: string where "newline = [CHR 0x0A]"

definition checklist_item :: "check_id \<Rightarrow> string" where
  "checklist_item c =
     (let spec = check_spec c;
          link = (if starts_with (sp_fix_url spec) ''#'' then ''the dashboard''
                  else ''[fix]('' @ sp_fix_url spec @ '')'')
      in ''- [ ] **'' @ sp_name spec @ ''** ('' @ sp_requirement spec @ ''). '' @ sp_means spec
           @ '' Fix: '' @ sp_fix spec @ '' ('' @ link @ '')'' @ newline)"

definition runbook_checklist :: string where
  "runbook_checklist =
     RUNBOOK_BEGIN @ newline @ concat (map checklist_item ALL_CHECKS) @ RUNBOOK_END @ newline"

section \<open>What the report says\<close>

text \<open>The requirement of each check, over the facts as they were read.\<close>

definition table_met :: "warm_targets \<Rightarrow> ready_table \<Rightarrow> warm_throughput \<Rightarrow> bool" where
  "table_met targets table warm \<longleftrightarrow>
     (let write = or_else (wt_write_units warm) 0; rd = or_else (wt_read_units warm) 0 in
      \<not> wt_warming warm
      \<and> (0 < tg_write_units targets \<longrightarrow> tg_write_units targets \<le> write)
      \<and> (0 < tg_read_units targets \<longrightarrow> tg_read_units targets \<le> rd)
      \<and> (table = PreQueueTable \<longrightarrow> 10000 \<le> write))"

definition read_as :: "('a \<Rightarrow> bool) \<Rightarrow> 'a probed \<Rightarrow> bool" where
  "read_as P r \<longleftrightarrow> (case r of Answered (Inr x) \<Rightarrow> P x | _ \<Rightarrow> False)"

definition some_as :: "('a \<Rightarrow> bool) \<Rightarrow> 'a option \<Rightarrow> bool" where
  "some_as P v \<longleftrightarrow> (case v of Some x \<Rightarrow> P x | None \<Rightarrow> False)"

fun met ::
  "'c zone_env \<Rightarrow> warm_targets \<Rightarrow> u64 \<Rightarrow> probe_reads \<Rightarrow> gate_config probed \<Rightarrow> check_id \<Rightarrow> bool" where
  "met zones targets now probe gate WarmThroughput =
     (list_all (\<lambda>t. read_as (table_met targets t) (pb_warm_throughput probe t)) ALL_TABLES
      \<and> (tg_write_units targets \<noteq> 0 \<or> tg_read_units targets \<noteq> 0))"
| "met zones targets now probe gate DynamoDbLimits =
     read_as (\<lambda>l. some_as (\<lambda>w. 40000 < w \<and> tg_write_units targets \<le> w) (dl_table_max_write l))
       (pb_dynamodb_limits probe)"
| "met zones targets now probe gate ApiGatewayThrottle =
     read_as (\<lambda>t. some_as (\<lambda>rate. 10000 < rate) (at_rate_limit t)) (pb_api_gateway_throttle probe)"
| "met zones targets now probe gate AssignPositionConcurrency =
     read_as (some_as (\<lambda>n. 0 < n)) (pb_reserved_concurrency probe)"
| "met zones targets now probe gate OpenSchedule =
     read_as (some_as (\<lambda>s. sf_enabled s
         \<and> some_as (\<lambda>epoch. i64_of_u64 now < epoch) (at_epoch zones (sf_expression s) (sf_timezone s))))
       (pb_schedule probe OpenKind)"
| "met zones targets now probe gate ControllerSchedule =
     read_as (some_as sf_enabled) (pb_schedule probe ControllerKind)"
| "met zones targets now probe gate GateRuleset =
     read_as (\<lambda>cfg. gc_rules cfg \<noteq> [] \<and> gc_fail_open_until cfg \<le> now) gate"
| "met zones targets now probe gate StatusCaching =
     read_as (some_as (\<lambda>facts.
         some_as (\<lambda>c. 0 < cf_min_ttl c \<and> cf_cookies c = CookieNone) (ef_status_caching facts)))
       (pb_edge_facts probe)"
| "met zones targets now probe gate GateAssociation =
     read_as (some_as (\<lambda>facts. ef_gate_on_default facts \<and> ef_gate_elsewhere facts = [])) (pb_edge_facts probe)"

text \<open>Whether a check has anything to judge.\<close>

fun measured_by :: "probe_reads \<Rightarrow> gate_config probed \<Rightarrow> check_id \<Rightarrow> bool" where
  "measured_by probe gate WarmThroughput =
     list_all (\<lambda>t. read_as (\<lambda>_. True) (pb_warm_throughput probe t)) ALL_TABLES"
| "measured_by probe gate DynamoDbLimits = read_as (\<lambda>l. dl_table_max_write l \<noteq> None) (pb_dynamodb_limits probe)"
| "measured_by probe gate ApiGatewayThrottle = read_as (\<lambda>t. at_rate_limit t \<noteq> None) (pb_api_gateway_throttle probe)"
| "measured_by probe gate AssignPositionConcurrency = read_as (\<lambda>_. True) (pb_reserved_concurrency probe)"
| "measured_by probe gate OpenSchedule = read_as (\<lambda>_. True) (pb_schedule probe OpenKind)"
| "measured_by probe gate ControllerSchedule = read_as (\<lambda>_. True) (pb_schedule probe ControllerKind)"
| "measured_by probe gate GateRuleset = read_as (\<lambda>_. True) gate"
| "measured_by probe gate StatusCaching = read_as (\<lambda>v. v \<noteq> None) (pb_edge_facts probe)"
| "measured_by probe gate GateAssociation = read_as (\<lambda>v. v \<noteq> None) (pb_edge_facts probe)"

lemma worst_eq:
  "worst a b = Pass \<longleftrightarrow> a = Pass \<and> b = Pass"
  "worst a b = NotEvaluable \<longleftrightarrow> a = NotEvaluable \<or> b = NotEvaluable"
  by (cases a; cases b; simp add: worst_def)+

lemma warm_loop_status:
  "(fst (warm_loop targets st ms ns xs) = Pass \<longleftrightarrow> st = Pass \<and> list_all (\<lambda>(t, w). table_met targets t w) xs)
   \<and> (fst (warm_loop targets st ms ns xs) = NotEvaluable \<longleftrightarrow> st = NotEvaluable)"
proof (induction xs arbitrary: st ms ns)
  case (Cons p xs)
  obtain table warm where p: "p = (table, warm)" by (cases p)
  show ?case
    by (simp add: p Let_def Cons.IH if_distrib [of fst] prod.case_eq_if table_met_def worst_eq
        REGISTRATION_TARGET_PER_SECOND_def not_less)
qed simp

lemma warm_passes:
  "fst (evaluate_warm_throughput targets applied) = Pass \<longleftrightarrow>
     list_all (\<lambda>(t, w). table_met targets t w) applied \<and> (tg_write_units targets \<noteq> 0 \<or> tg_read_units targets \<noteq> 0)"
  "fst (evaluate_warm_throughput targets applied) \<noteq> NotEvaluable"
  using warm_loop_status [of targets Pass "[]" "[]" applied]
  by (auto simp: evaluate_warm_throughput_def Let_def prod.case_eq_if worst_eq split: if_splits)

lemma warm_reads_read:
  "read_as (list_all (\<lambda>(t, w). P t w)) (warm_reads (map (\<lambda>t. (t, f t)) ts)) \<longleftrightarrow>
     list_all (\<lambda>t. read_as (P t) (f t)) ts"
proof (induction ts)
  case (Cons t ts)
  then show ?case
    by (cases "f t"; cases "warm_reads (map (\<lambda>t. (t, f t)) ts)")
      (auto simp: read_as_def split: sum.splits)
qed (simp add: read_as_def)

lemma read_as_cong: "(\<And>x. P x \<longleftrightarrow> Q x \<and> c) \<Longrightarrow> read_as P r \<longleftrightarrow> read_as Q r \<and> c"
  by (auto simp: read_as_def split: probed.split sum.split)

lemma warm_judged:
  "read_as (\<lambda>x. fst (evaluate_warm_throughput targets x) = Pass)
       (warm_reads (map (\<lambda>t. (t, pb_warm_throughput probe t)) ALL_TABLES))
     \<longleftrightarrow> met zones targets now probe gate WarmThroughput"
  "read_as (\<lambda>x. fst (evaluate_warm_throughput targets x) \<noteq> NotEvaluable)
       (warm_reads (map (\<lambda>t. (t, pb_warm_throughput probe t)) ALL_TABLES))
     \<longleftrightarrow> measured_by probe gate WarmThroughput"
proof -
  show "read_as (\<lambda>x. fst (evaluate_warm_throughput targets x) = Pass)
       (warm_reads (map (\<lambda>t. (t, pb_warm_throughput probe t)) ALL_TABLES))
     \<longleftrightarrow> met zones targets now probe gate WarmThroughput"
    unfolding met.simps warm_reads_read [symmetric] by (rule read_as_cong) (rule warm_passes(1))
  have "list_all (\<lambda>(t :: ready_table, w :: warm_throughput). True) = (\<lambda>_. True)"
    by (simp add: list_all_iff fun_eq_iff)
  then show "read_as (\<lambda>x. fst (evaluate_warm_throughput targets x) \<noteq> NotEvaluable)
       (warm_reads (map (\<lambda>t. (t, pb_warm_throughput probe t)) ALL_TABLES))
     \<longleftrightarrow> measured_by probe gate WarmThroughput"
    using warm_reads_read [of "\<lambda>_ _. True" "pb_warm_throughput probe" ALL_TABLES]
    by (simp add: warm_passes(2))
qed

lemma limits_pass:
  "fst (evaluate_dynamodb_limits l targets) = Pass \<longleftrightarrow>
     some_as (\<lambda>w. 40000 < w \<and> tg_write_units targets \<le> w) (dl_table_max_write l)"
  "fst (evaluate_dynamodb_limits l targets) = NotEvaluable \<longleftrightarrow> dl_table_max_write l = None"
  by (auto simp: evaluate_dynamodb_limits_def Let_def some_as_def DEFAULT_TABLE_THROUGHPUT_LIMIT_def split: option.split)

lemma throttle_pass:
  "fst (evaluate_api_gateway_throttle tx t) = Pass \<longleftrightarrow> some_as (\<lambda>rate. 10000 < rate) (at_rate_limit t)"
  "fst (evaluate_api_gateway_throttle tx t) = NotEvaluable \<longleftrightarrow> at_rate_limit t = None"
  by (auto simp: evaluate_api_gateway_throttle_def Let_def some_as_def DEFAULT_API_GATEWAY_RATE_def split: option.split)

lemma concurrency_pass:
  "fst (evaluate_reserved_concurrency v) = Pass \<longleftrightarrow> some_as (\<lambda>n. 0 < n) v"
  "fst (evaluate_reserved_concurrency v) \<noteq> NotEvaluable"
  by (auto simp: evaluate_reserved_concurrency_def some_as_def split: option.split)

lemma schedules_pass:
  "fst (evaluate_open_schedule zones v now) = Pass \<longleftrightarrow> some_as (\<lambda>s. sf_enabled s
     \<and> some_as (\<lambda>epoch. i64_of_u64 now < epoch) (at_epoch zones (sf_expression s) (sf_timezone s))) v"
  "fst (evaluate_open_schedule zones v now) \<noteq> NotEvaluable"
  "fst (evaluate_controller_schedule v) = Pass \<longleftrightarrow> some_as sf_enabled v"
  "fst (evaluate_controller_schedule v) \<noteq> NotEvaluable"
  by (auto simp: evaluate_open_schedule_def evaluate_controller_schedule_def Let_def some_as_def split: option.split)

lemma ruleset_pass:
  "fst (evaluate_gate_ruleset tx cfg now) = Pass \<longleftrightarrow> gc_rules cfg \<noteq> [] \<and> gc_fail_open_until cfg \<le> now"
  "fst (evaluate_gate_ruleset tx cfg now) \<noteq> NotEvaluable"
  by (auto simp: evaluate_gate_ruleset_def Let_def worst_eq)

lemma edge_pass:
  "fst (evaluate_status_caching facts) = Pass \<longleftrightarrow>
     some_as (\<lambda>c. 0 < cf_min_ttl c \<and> cf_cookies c = CookieNone) (ef_status_caching facts)"
  "fst (evaluate_status_caching facts) \<noteq> NotEvaluable"
  "fst (evaluate_gate_association facts) = Pass \<longleftrightarrow> ef_gate_on_default facts \<and> ef_gate_elsewhere facts = []"
  "fst (evaluate_gate_association facts) \<noteq> NotEvaluable"
  by (auto simp: evaluate_status_caching_def evaluate_gate_association_def Let_def some_as_def split: option.split)

lemmas verdicts = limits_pass throttle_pass concurrency_pass schedules_pass ruleset_pass edge_pass

lemma judged_bounded:
  "rw_status (judged c (map_sum (\<lambda>e. e) f (bounded limit r))) = Pass \<longleftrightarrow> read_as (\<lambda>x. fst (f x) = Pass) r"
  "rw_status (judged c (map_sum (\<lambda>e. e) f (bounded limit r))) = NotEvaluable \<longleftrightarrow>
     \<not> read_as (\<lambda>x. fst (f x) \<noteq> NotEvaluable) r"
  by (cases r; simp add: judged_def bounded_def read_as_def row_new_def row_not_evaluable_def split: sum.split)+

lemma judged_check [simp]: "rw_check (judged c r) = c"
  by (simp add: judged_def row_new_def row_not_evaluable_def split: sum.split)

lemma report_rows:
  "map (\<lambda>row. (rw_check row, rw_status row = Pass, rw_status row = NotEvaluable))
     (run_checks zones tx probe gate targets now limit)
   = map (\<lambda>c. (c, met zones targets now probe gate c, \<not> measured_by probe gate c)) ALL_CHECKS"
proof -
  have edge: "(case bounded limit (pb_edge_facts probe) of
           Inr (Some facts) \<Rightarrow>
             [row_new StatusCaching (evaluate_status_caching facts),
              row_new GateAssociation (evaluate_gate_association facts)]
         | Inr None \<Rightarrow> [row_not_evaluable StatusCaching reason, row_not_evaluable GateAssociation reason]
         | Inl e \<Rightarrow> [row_not_evaluable StatusCaching e, row_not_evaluable GateAssociation e])
      = [judged StatusCaching (case bounded limit (pb_edge_facts probe) of
            Inr (Some facts) \<Rightarrow> Inr (evaluate_status_caching facts) | Inr None \<Rightarrow> Inl reason | Inl e \<Rightarrow> Inl e),
         judged GateAssociation (case bounded limit (pb_edge_facts probe) of
            Inr (Some facts) \<Rightarrow> Inr (evaluate_gate_association facts) | Inr None \<Rightarrow> Inl reason | Inl e \<Rightarrow> Inl e)]"
    for reason
    by (simp add: judged_def split: sum.split option.split)
  have edge_status:
    "rw_status (judged c (case bounded limit r of Inr (Some x) \<Rightarrow> Inr (f x) | Inr None \<Rightarrow> Inl reason | Inl e \<Rightarrow> Inl e)) = Pass
       \<longleftrightarrow> read_as (some_as (\<lambda>x. fst (f x) = Pass)) r"
    "rw_status (judged c (case bounded limit r of Inr (Some x) \<Rightarrow> Inr (f x) | Inr None \<Rightarrow> Inl reason | Inl e \<Rightarrow> Inl e)) = NotEvaluable
       \<longleftrightarrow> \<not> read_as (some_as (\<lambda>x. fst (f x) \<noteq> NotEvaluable)) r"
    for c :: check_id and f :: "edge_facts \<Rightarrow> check_status \<times> string" and r reason
    by (cases r; auto simp: judged_def bounded_def read_as_def some_as_def row_new_def row_not_evaluable_def
          split: sum.splits option.splits)+
  have some: "some_as (\<lambda>_. True) = (\<lambda>v. v \<noteq> None)"
    by (auto simp: some_as_def fun_eq_iff split: option.split)
  show ?thesis
    unfolding run_checks_def Let_def ALL_CHECKS_def edge map_append list.map append.simps judged_check
      judged_bounded edge_status verdicts warm_judged(1) [where zones = zones and now = now and gate = gate]
      warm_judged(2) [where gate = gate]
    by (simp add: verdicts some)
qed

lemma rows_met:
  "map (\<lambda>row. (rw_check row, rw_status row = Pass)) (run_checks zones tx probe gate targets now limit)
   = map (\<lambda>c. (c, met zones targets now probe gate c)) ALL_CHECKS"
  using arg_cong [OF report_rows, of "map (\<lambda>(a, b, c). (a, b))"] by (simp add: comp_def)

text \<open>C21: the readiness report is exact: it has one row for each check, in the order of the catalogue;
  a row passes exactly when every fact its requirement is about was read in time and meets it, and a
  row that could not be measured says so instead of passing or failing.\<close>

theorem report_exact:
  "map (\<lambda>row. (rw_check row, rw_status row = Pass, rw_status row = NotEvaluable))
     (run_checks zones tx probe gate targets now limit)
   = map (\<lambda>c. (c, met zones targets now probe gate c, \<not> measured_by probe gate c)) ALL_CHECKS"
  by (rule report_rows)

end
