(* ===== verification/Dashboard.thy ===== *)
theory Dashboard
  imports Operator Readiness Controller
begin

text \<open>
  \<open>crates/admin/src/templates.rs\<close>: the view of an event that the dashboard renders and the poller
  sends as JSON, computed from the control state at one instant.  The template engine (\<open>askama\<close>) and
  the serialiser are third-party; the view is the record they are given.

  Lemmas: the view says of the admission what a pass of the controller over the same item does, and it
  offers the transitions the action accepts, but for those it leaves out on purpose
  (\<open>view_truth\<close>).
\<close>

section \<open>The view\<close>

record phase_choice =
  pc_value :: string
  pc_label :: string

datatype ip_binding = BindingOff | BindingOn

definition from_enabled :: "bool \<Rightarrow> ip_binding" where
  "from_enabled enabled = (if enabled then BindingOn else BindingOff)"

record panel_row =
  pr_name :: string
  pr_requirement :: string
  pr_status :: string
  pr_status_class :: string
  pr_detail :: string
  pr_fix :: "(string \<times> string) option"

definition panel_row_of :: "ready_row \<Rightarrow> panel_row" where
  "panel_row_of row =
     (let spec = check_spec (rw_check row) in
      \<lparr>pr_name = sp_name spec, pr_requirement = sp_requirement spec,
       pr_status = status_label (rw_status row), pr_status_class = css_class (rw_status row),
       pr_detail = rw_detail row,
       pr_fix = (if needs_fix (rw_status row)
         then Some (filter (\<lambda>c. c \<noteq> CHR 0x60) (sp_fix spec), sp_fix_url spec) else None)\<rparr>)"

definition OFFERED_TIMEZONES :: "string list" where
  "OFFERED_TIMEZONES =
     [''UTC'', ''America/New_York'', ''America/Chicago'', ''America/Denver'', ''America/Los_Angeles'',
      ''America/Sao_Paulo'', ''Europe/London'', ''Europe/Dublin'', ''Europe/Paris'', ''Europe/Berlin'',
      ''Europe/Madrid'', ''Asia/Tokyo'', ''Asia/Singapore'', ''Australia/Sydney'']"

definition DEFAULT_TIMEZONE :: string where "DEFAULT_TIMEZONE = ''UTC''"

record life_step =
  ls_name :: string
  ls_state :: string

definition LIFECYCLE :: "string list" where
  "LIFECYCLE = [''idle'', ''pre_queue'', ''active'', ''post_event'']"

text \<open>\<open>Iterator::position\<close>.\<close>

fun index_of :: "'a \<Rightarrow> 'a list \<Rightarrow> nat option" where
  "index_of x [] = None"
| "index_of x (y # ys) = (if y = x then Some 0 else map_option Suc (index_of x ys))"

definition lifecycle_for :: "string \<Rightarrow> life_step list" where
  "lifecycle_for phase =
     (let cur = index_of phase LIFECYCLE in
      map (\<lambda>(i, name). \<lparr>ls_name = name, ls_state =
          (case cur of
             Some c \<Rightarrow> if i < c then ''done'' else if i = c then ''current'' else ''todo''
           | None \<Rightarrow> ''todo'')\<rparr>) (List.enumerate 0 LIFECYCLE))"

fun phase_label :: "phase \<Rightarrow> string" where
  "phase_label Idle = ''idle: reset before the event starts''"
| "phase_label PreQueue = ''pre_queue: open the countdown page for early arrivals''"
| "phase_label Active = ''active: assign positions and start admitting''"
| "phase_label PostEvent = ''post_event: close the event and drain the queue''"
| "phase_label Maintenance = ''maintenance: halt the room''"

fun serving_label :: "serving_state \<Rightarrow> string" where
  "serving_label SvRunning = ''Running''"
| "serving_label SvPaused = ''Paused''"
| "serving_label SvClosed = ''Closed''"
| "serving_label SvFailOpen = ''Fail open''"

record dashboard =
  da_event_id :: string
  da_phase :: string
  da_serving_counter :: u64
  da_queue_counter :: u64
  da_participant_count :: string
  da_opened :: bool
  da_target_rate :: string
  da_message :: string
  da_message_raw :: string
  da_target_rate_raw :: string
  da_lifecycle :: "life_step list"
  da_off_path :: bool
  da_admission_control :: string
  da_fail_open_remaining_secs :: u64
  da_queued_control :: string
  da_serving_state :: string
  da_last_action_line :: string
  da_allowed_transitions :: "phase_choice list"
  da_operator_email :: string
  da_csp_nonce :: string
  da_rules_text :: string
  da_rules_load_failed :: bool
  da_ip_binding :: ip_binding
  da_starts_at :: string
  da_starts_at_raw :: string
  da_starts_at_timezone :: string
  da_timezones :: "string list"
  da_readiness :: "panel_row list"

definition dash :: "string option \<Rightarrow> string" where
  "dash v = or_else v ''not set''"

definition from_state :: "'c zone_env \<Rightarrow> control_state \<Rightarrow> u64 \<Rightarrow> dashboard" where
  "from_state zones st now =
     (let resolved = resolve (co_stored_control st) (co_fail_open_until st) now;
          tz = or_else (co_starts_at_timezone st) ''UTC'';
          start = Option.bind (co_starts_at st) (\<lambda>secs. format_start_time zones secs tz)
      in
      \<lparr>da_event_id = co_event_id st,
       da_phase = phase_wire (co_phase st),
       da_serving_counter = co_serving_counter st,
       da_queue_counter = co_queue_counter st,
       da_participant_count = dash (map_option show_u64 (co_participants st)),
       da_opened = (co_participants st \<noteq> None),
       da_target_rate = dash (map_option (\<lambda>n. show_nat (unat n)) (co_target_rate st)),
       da_message = dash (co_message st),
       da_message_raw = or_else (co_message st) [],
       da_target_rate_raw = or_else (map_option (\<lambda>n. show_nat (unat n)) (co_target_rate st)) [],
       da_lifecycle = lifecycle_for (phase_wire (co_phase st)),
       da_off_path = (co_phase st = Maintenance),
       da_admission_control = control_wire resolved,
       da_fail_open_remaining_secs = saturating_sub (co_fail_open_until st) now,
       da_queued_control = stored_wire (co_stored_control st),
       da_serving_state = serving_label (serving_state_of (co_phase st) resolved),
       da_last_action_line =
         (case (co_last_action st, co_last_action_by st, co_last_action_at st) of
            (Some a, Some by, Some when) \<Rightarrow> a @ '' by '' @ by @ '' at '' @ when
          | _ \<Rightarrow> ''none yet''),
       da_allowed_transitions =
         map (\<lambda>p. \<lparr>pc_value = phase_wire p, pc_label = phase_label p\<rparr>) (next_phases (co_phase st)),
       da_operator_email = [],
       da_csp_nonce = [],
       da_rules_text = [],
       da_rules_load_failed = False,
       da_ip_binding = BindingOff,
       da_starts_at = dash (map_option (\<lambda>local. local @ '' '' @ tz) start),
       da_starts_at_raw = or_else start [],
       da_starts_at_timezone = or_else (co_starts_at_timezone st) DEFAULT_TIMEZONE,
       da_timezones = OFFERED_TIMEZONES,
       da_readiness = []\<rparr>)"

section \<open>What the view says\<close>

lemma control_label_fail_open: "control_wire c = ''fail_open'' \<longleftrightarrow> c = AcFailOpen"
  by (cases c) simp_all

lemma serving_label_running: "serving_label s = ''Running'' \<longleftrightarrow> s = SvRunning"
  by (cases s) simp_all

lemma serving_running: "serving_state_of p c = SvRunning \<longleftrightarrow> p = Active \<and> c = AcOpen"
  by (cases c; cases p) (simp_all add: serving_state_of_def)

lemma remaining_positive: "0 < saturating_sub a b \<longleftrightarrow> b < (a :: u64)"
  by (auto simp: saturating_sub_def word_gt_0 order_less_le)

lemma next_phase_legal:
  "p \<in> set (next_phases ph) \<Longrightarrow> p \<noteq> Maintenance \<and> transition_allowed ph p"
  by (cases ph) (auto simp: transition_allowed_def)

lemma phase_writes:
  "(\<exists>us g. QUpdate tbl (key_build (KEvent ev)) us g
      \<in> asked (apply_phase (dynamo_admin_store jf tbl) ev to actor arr) [RGet (Inr (Some m)), RUpdate r])
    \<longleftrightarrow> (\<exists>p. to = phase_wire p \<and> p \<noteq> Maintenance \<and> transition_allowed (co_phase (control_of_item jf ev m)) p
        \<and> (p = Active \<longrightarrow> co_participants (control_of_item jf ev m) \<noteq> None))"
proof (cases "phase_parse to")
  case (Inl e)
  then have "to \<noteq> phase_wire p" for p
    using phase_wire_roundtrip [of p] by auto
  then show ?thesis
    by (simp add: apply_phase_def parse_phase_def Inl)
next
  case (Inr p)
  then have to: "to = phase_wire p"
    by (simp add: phase_parse_Inr)
  then show ?thesis
    using phase_wire_inj by (auto simp: apply_phase_def parse_phase_def Inr asked_load set_phase_def)
qed

text \<open>The phase requests that are accepted although the view does not offer them: the phase the event is
  in, the move of the open itself, and the two other ways out of a halt.\<close>

definition unoffered :: "string \<Rightarrow> string \<Rightarrow> bool" where
  "unoffered shown to \<longleftrightarrow>
     to = shown \<and> to \<noteq> ''maintenance''
     \<or> shown = ''pre_queue'' \<and> to = ''active''
     \<or> shown = ''maintenance'' \<and> (to = ''pre_queue'' \<or> to = ''post_event'')"

lemma accepted_offered:
  "(\<exists>p. to = phase_wire p \<and> p \<noteq> Maintenance \<and> transition_allowed ph p \<and> (p = Active \<longrightarrow> c))
   \<longleftrightarrow> (to \<in> phase_wire ` set (next_phases ph) \<or> unoffered (phase_wire ph) to) \<and> (to = ''active'' \<longrightarrow> c)"
proof -
  have phases: "(\<exists>p. P p) \<longleftrightarrow> P Idle \<or> P PreQueue \<or> P Active \<or> P PostEvent \<or> P Maintenance" for P
    by (metis phase.exhaust)
  show ?thesis
    unfolding phases by (cases ph) (auto simp: transition_allowed_def unoffered_def)
qed

text \<open>What a pass does once it has read the state.\<close>

definition pass_tail :: "string \<Rightarrow> string \<Rightarrow> u64 \<Rightarrow> controller_state \<Rightarrow> (release_error + pass_outcome) prog" where
  "pass_tail tbl ev now st =
     (if cs_phase st \<noteq> Active then Done (Inr (NotActive (cs_phase st)))
      else
        (case resolve (cs_stored_control st) (cs_fail_open_until st) now of
           AcOpen \<Rightarrow>
             let decision = compute_release (cs_inputs st) (cs_prev_no_show st) now in
             bind_ok (write_release tbl ev decision (ri_serving_counter (cs_inputs st)))
               (\<lambda>race.
                  if is_lost race then Done (Inr (Ran 0))
                  else Done (Inr (Ran (rd_release decision))))
         | control \<Rightarrow> Done (Inr (Held control))))"

lemma pass_writes_iff:
  assumes "arrivals_from_shard_items shards (replicate SHARDS 0) = Inr arrivals"
  shows "(\<exists>us c. QUpdate tbl (key_build (KEvent ev)) us c
      \<in> asked (run_pass (dynamo_release_store tbl) ev now)
          [RGet (Inr (Some m)), RBatch (Inr (shards, False)), RUpdate r])
    \<longleftrightarrow> cs_phase (state_of_item m arrivals) = Active
      \<and> resolve (cs_stored_control (state_of_item m arrivals)) (cs_fail_open_until (state_of_item m arrivals)) now = AcOpen"
    (is "?asks \<longleftrightarrow> ?gate")
proof
  let ?st = "state_of_item m arrivals"
  let ?reads = "[RGet (Inr (Some m)), RBatch (Inr (shards, False))]"
  have reads: "yields (read_state tbl ev) rs1 (Inr st) \<Longrightarrow> rs1 @ rs2 = ?reads @ [RUpdate r] \<Longrightarrow> st = ?st" for rs1 rs2 st
    using assms by (auto simp: read_state_def yields_ops yields_bind_ok read_arrivals_def Cons_eq_append_conv)
  show ?gate if asks: ?asks
  proof -
    obtain us c where q: "QUpdate tbl (key_build (KEvent ev)) us c
        \<in> asked (run_pass (dynamo_release_store tbl) ev now) (?reads @ [RUpdate r])"
      using asks by auto
    obtain rs1 rs2 st where s: "?reads @ [RUpdate r] = rs1 @ rs2" "yields (read_state tbl ev) rs1 (Inr st)"
        "QUpdate tbl (key_build (KEvent ev)) us c \<in> asked (pass_tail tbl ev now st) rs2"
      using q asked_read_state unfolding run_pass_def dynamo_release_store_def release_store.select_convs asked_bind_ok
        pass_tail_def by blast
    then have "QUpdate tbl (key_build (KEvent ev)) us c \<in> asked (pass_tail tbl ev now ?st) rs2"
      using reads [OF s(2) s(1) [symmetric]] by simp
    then show ?thesis
      by (auto simp: pass_tail_def split: if_splits admission_control.splits)
  qed
  assume g: ?gate
  let ?d = "compute_release (cs_inputs ?st) (cs_prev_no_show ?st) now"
  have "yields (read_state tbl ev) ?reads (Inr ?st)"
    using assms by (simp add: read_state_def yields_ops bind_ok_def read_arrivals_def)
  moreover have "QUpdate tbl (key_build (KEvent ev)) (release_clauses ?d) (Some (release_guard (ri_serving_counter (cs_inputs ?st))))
      \<in> asked (write_release tbl ev ?d (ri_serving_counter (cs_inputs ?st))) [RUpdate r]"
    by (simp add: write_release_def asked_ops)
  ultimately have "QUpdate tbl (key_build (KEvent ev)) (release_clauses ?d) (Some (release_guard (ri_serving_counter (cs_inputs ?st))))
      \<in> asked (run_pass (dynamo_release_store tbl) ev now) (?reads @ [RUpdate r])"
    unfolding run_pass_def dynamo_release_store_def asked_bind_ok
    using g by (intro disjI2 exI [of _ ?reads] exI [of _ "[RUpdate r]"] exI [of _ ?st]) (simp add: Let_def asked_bind_ok)
  then show ?asks
    by auto
qed

lemma same_reading:
  "cs_phase (state_of_item m arrivals) = co_phase (control_of_item jf ev m)"
  "cs_stored_control (state_of_item m arrivals) = co_stored_control (control_of_item jf ev m)"
  "cs_fail_open_until (state_of_item m arrivals) = co_fail_open_until (control_of_item jf ev m)"
  by (simp_all add: state_of_item_def control_of_item_def num_def or_else_def split: option.split)

text \<open>C20: the view tells the truth: it shows fail-open exactly while it counts seconds down; it shows the
  room as running exactly when a pass of the controller that reads the same item at the same instant
  asks to move the cursor; and a phase request is written exactly when the view offers that phase, or
  it is one of the requests the view leaves out on purpose, and, for the active phase, the view says
  that the event was opened.\<close>

theorem view_truth:
  assumes "arrivals_from_shard_items shards (replicate SHARDS 0) = Inr arrivals"
  shows "let v = from_state zones (control_of_item jf ev m) now in
     (da_admission_control v = ''fail_open'' \<longleftrightarrow> 0 < da_fail_open_remaining_secs v)
     \<and> (da_serving_state v = ''Running'' \<longleftrightarrow>
          (\<exists>us c. QUpdate tbl (key_build (KEvent ev)) us c \<in> asked (run_pass (dynamo_release_store tbl) ev now)
             [RGet (Inr (Some m)), RBatch (Inr (shards, False)), RUpdate r]))
     \<and> ((\<exists>us g. QUpdate tbl (key_build (KEvent ev)) us g
            \<in> asked (apply_phase (dynamo_admin_store jf tbl) ev to actor arr) [RGet (Inr (Some m)), RUpdate r'])
          \<longleftrightarrow> (to \<in> set (map pc_value (da_allowed_transitions v)) \<or> unoffered (da_phase v) to)
            \<and> (to = ''active'' \<longrightarrow> da_opened v))"
proof -
  let ?st = "control_of_item jf ev m"
  let ?v = "from_state zones ?st now"
  have view: "da_admission_control ?v = control_wire (resolve (co_stored_control ?st) (co_fail_open_until ?st) now)"
    "da_fail_open_remaining_secs ?v = saturating_sub (co_fail_open_until ?st) now"
    "da_serving_state ?v = serving_label (serving_state_of (co_phase ?st)
        (resolve (co_stored_control ?st) (co_fail_open_until ?st) now))"
    "set (map pc_value (da_allowed_transitions ?v)) = phase_wire ` set (next_phases (co_phase ?st))"
    "da_phase ?v = phase_wire (co_phase ?st)" "da_opened ?v = (co_participants ?st \<noteq> None)"
    by (auto simp: from_state_def Let_def simp del: control_fields)
  show ?thesis
    unfolding Let_def view phase_writes accepted_offered pass_writes_iff [OF assms] same_reading [of _ _ jf ev]
    by (simp add: control_label_fail_open resolve_fail_open_iff remaining_positive serving_label_running serving_running
        del: control_fields phase_wire.simps)
qed

definition ex_no_zones :: "unit zone_env" where
  "ex_no_zones = \<lparr>zo_known = (\<lambda>_. False), zo_civil = (\<lambda>_. None), zo_compatible = (\<lambda>_ _. None),
     zo_local_minutes = (\<lambda>_ _. None)\<rparr>"

definition ex_halted :: item where
  "ex_halted = [''phase'' \<mapsto> AS ''maintenance'']"

text \<open>A halted event that was never opened: the view offers the active phase, marks the event as not opened,
  and the request is refused; the way back to idle is offered and written.\<close>

theorem view_truth_witness:
  "let v = from_state ex_no_zones (control_of_item ex_jiff ''e'' ex_halted) 0;
       writes = (\<lambda>to. \<exists>us g. QUpdate ''C'' (key_build (KEvent ''e'')) us g
         \<in> asked (apply_phase (dynamo_admin_store ex_jiff ''C'') ''e'' to ''op'' ex_now)
             [RGet (Inr (Some ex_halted)), RUpdate (Inr ex_halted)])
   in map pc_value (da_allowed_transitions v) = [''active'', ''idle''] \<and> \<not> da_opened v
     \<and> \<not> writes ''active'' \<and> writes ''idle'' \<and> writes ''post_event'' \<and> \<not> writes ''maintenance''"
proof -
  let ?v = "from_state ex_no_zones (control_of_item ex_jiff ''e'' ex_halted) 0"
  have "co_phase (control_of_item ex_jiff ''e'' ex_halted) = Maintenance"
      "co_participants (control_of_item ex_jiff ''e'' ex_halted) = None"
    by (simp_all add: control_of_item_def ex_halted_def get_s_def get_u64_def get_n_def or_else_def phase_parse_def)
  then have v: "map pc_value (da_allowed_transitions ?v) = [''active'', ''idle'']" "\<not> da_opened ?v"
      "da_phase ?v = ''maintenance''"
    by (simp_all add: from_state_def Let_def)
  have "arrivals_from_shard_items [] (replicate SHARDS 0) = Inr (replicate SHARDS 0)"
    by simp
  note truth = view_truth [OF this, of ex_no_zones ex_jiff "''e''" ex_halted 0 "''C''" _ _ "''op''" ex_now "Inr ex_halted",
      unfolded Let_def v(1)]
  show ?thesis
    unfolding Let_def
    using truth [of _ "''active''"] truth [of _ "''idle''"] truth [of _ "''post_event''"] truth [of _ "''maintenance''"] v
    by (auto simp: unoffered_def)
qed

end
