(* ===== verification/Sessions.thy ===== *)
theory Sessions
  imports AdminState
begin

text \<open>
  \<open>crates/admin/src/sessions.rs\<close>: the pending logins and the sessions of the operators, rows of the
  \<open>Tokens\<close> table with a deadline.  The formatting of a version 7 UUID (\<open>uuid\<close>) is a parameter.

  Lemmas: a row is read back until its deadline and not from then on (\<open>login_rows_roundtrip\<close>); the store never touches another table, so it is harmless to the ledger of any
  deployment that keeps its sessions in a table of their own.
\<close>

section \<open>Rows\<close>

definition PKCE_TTL_SECS :: u64 where "PKCE_TTL_SECS = 600"
definition SESSION_TTL_SECS :: u64 where "SESSION_TTL_SECS = 8 * 60 * 60"

datatype session_error = SessionBackend string | SessionRng

fun session_error_display :: "session_error \<Rightarrow> string" where
  "session_error_display (SessionBackend e) = ''dynamodb: '' @ e"
| "session_error_display SessionRng = ''no randomness available for a session id''"

record pending_login =
  pl_verifier :: string
  pl_nonce :: string

record admin_session =
  an_subject :: string
  an_email :: string

text \<open>The deadline of a row, compared on every read: an unreadable one never lapses.\<close>

definition row_expired :: "item \<Rightarrow> u64 \<Rightarrow> bool" where
  "row_expired m now =
     (case Option.bind (get_n m TOKENS_TTL_ATTR) parse_u64 of None \<Rightarrow> False | Some deadline \<Rightarrow> deadline \<le> now)"

definition pending_login_from :: "item option \<Rightarrow> u64 \<Rightarrow> pending_login option" where
  "pending_login_from attributes now =
     (case attributes of
        None \<Rightarrow> None
      | Some m \<Rightarrow>
          if row_expired m now then None
          else (case (get_s m ''pkce_verifier'', get_s m ''nonce'') of
                  (Some verifier, Some nonce) \<Rightarrow> Some \<lparr>pl_verifier = verifier, pl_nonce = nonce\<rparr>
                | _ \<Rightarrow> None))"

definition session_from :: "item option \<Rightarrow> u64 \<Rightarrow> admin_session option" where
  "session_from attributes now =
     (case attributes of
        None \<Rightarrow> None
      | Some m \<Rightarrow>
          if row_expired m now then None
          else (case (get_s m ''subject'', get_s m ''email'') of
                  (Some subject, Some email) \<Rightarrow> Some \<lparr>an_subject = subject, an_email = email\<rparr>
                | _ \<Rightarrow> None))"

section \<open>The store\<close>

text \<open>A version 7 UUID from a time in milliseconds and ten random bytes.\<close>

record session_store =
  se_table :: string
  se_uuid :: "u64 \<Rightarrow> u8 list \<Rightarrow> string"

text \<open>An item that starts from its key.\<close>

definition keyed_item :: "primary_key \<Rightarrow> item" where
  "keyed_item k = [fst k \<mapsto> AS (snd k)]"

definition pending_row :: "string \<Rightarrow> pending_login \<Rightarrow> arrival \<Rightarrow> item" where
  "pending_row state pending now =
     (keyed_item (key_build (KPkceTransaction state)))
       (''pkce_verifier'' \<mapsto> AS (pl_verifier pending), ''nonce'' \<mapsto> AS (pl_nonce pending),
        TOKENS_TTL_ATTR \<mapsto> AN (show_u64 (saturating_add (ar_epoch_seconds now) PKCE_TTL_SECS)))"

definition put_pending ::
  "session_store \<Rightarrow> string \<Rightarrow> pending_login \<Rightarrow> arrival \<Rightarrow> (session_error + unit) prog" where
  "put_pending st state pending now =
     PutItem (se_table st) (pending_row state pending now) None (\<lambda>r.
       case r of
         Inl e \<Rightarrow> Done (Inl (SessionBackend (''put_pending: '' @ sdk_display e)))
       | Inr _ \<Rightarrow> Done (Inr ()))"

definition take_pending ::
  "session_store \<Rightarrow> string \<Rightarrow> arrival \<Rightarrow> (session_error + pending_login option) prog" where
  "take_pending st state now =
     DeleteItem (se_table st) (key_build (KPkceTransaction state)) True (\<lambda>r.
       case r of
         Inl e \<Rightarrow> Done (Inl (SessionBackend (''take_pending: '' @ sdk_display e)))
       | Inr attributes \<Rightarrow> Done (Inr (pending_login_from attributes (ar_epoch_seconds now))))"

definition session_id :: "session_store \<Rightarrow> arrival \<Rightarrow> (session_error + string) prog" where
  "session_id st now =
     RandFill 10 (\<lambda>random_bytes.
       case random_bytes of
         None \<Rightarrow> Done (Inl SessionRng)
       | Some bytes \<Rightarrow> Done (Inr (se_uuid st (ar_epoch_millis now) bytes)))"

definition session_row :: "string \<Rightarrow> admin_session \<Rightarrow> arrival \<Rightarrow> item" where
  "session_row i session now =
     (keyed_item (key_build (KOidcSession i)))
       (''subject'' \<mapsto> AS (an_subject session), ''email'' \<mapsto> AS (an_email session),
        TOKENS_TTL_ATTR \<mapsto> AN (show_u64 (saturating_add (ar_epoch_seconds now) SESSION_TTL_SECS)))"

definition create_session ::
  "session_store \<Rightarrow> admin_session \<Rightarrow> arrival \<Rightarrow> (session_error + string) prog" where
  "create_session st session now =
     bind_ok (session_id st now) (\<lambda>i.
       PutItem (se_table st) (session_row i session now) None (\<lambda>r.
         case r of
           Inl e \<Rightarrow> Done (Inl (SessionBackend (''create_session: '' @ sdk_display e)))
         | Inr _ \<Rightarrow> Done (Inr i)))"

definition load_session ::
  "session_store \<Rightarrow> string \<Rightarrow> arrival \<Rightarrow> (session_error + admin_session option) prog" where
  "load_session st i now =
     GetItem (se_table st) (key_build (KOidcSession i)) False (\<lambda>r.
       case r of
         Inl e \<Rightarrow> Done (Inl (SessionBackend (''load_session: '' @ sdk_display e)))
       | Inr attributes \<Rightarrow> Done (Inr (session_from attributes (ar_epoch_seconds now))))"

definition delete_session :: "session_store \<Rightarrow> string \<Rightarrow> (session_error + unit) prog" where
  "delete_session st i =
     DeleteItem (se_table st) (key_build (KOidcSession i)) False (\<lambda>r.
       case r of
         Inl e \<Rightarrow> Done (Inl (SessionBackend (''delete_session: '' @ sdk_display e)))
       | Inr _ \<Rightarrow> Done (Inr ()))"

section \<open>Reading back\<close>

lemma row_expired_stamped:
  "m TOKENS_TTL_ATTR = Some (AN (show_u64 deadline)) \<Longrightarrow> row_expired m now \<longleftrightarrow> deadline \<le> now"
  by (simp add: row_expired_def get_n_def dec_simps)

lemma session_row_read:
  "session_from (Some (session_row i session now)) later =
     (if saturating_add (ar_epoch_seconds now) SESSION_TTL_SECS \<le> later then None else Some session)"
  by (simp add: session_from_def row_expired_stamped session_row_def get_s_def TOKENS_TTL_ATTR_def)

lemma pending_row_read:
  "pending_login_from (Some (pending_row state pending now)) later =
     (if saturating_add (ar_epoch_seconds now) PKCE_TTL_SECS \<le> later then None else Some pending)"
  by (simp add: pending_login_from_def row_expired_stamped pending_row_def get_s_def TOKENS_TTL_ATTR_def)

text \<open>The two kinds of row never meet under one key.\<close>

lemma token_keys_apart: "key_build (KPkceTransaction state) \<noteq> key_build (KOidcSession i)"
  by (simp add: key_build_def)

lemma session_key_inj: "key_build (KOidcSession i) = key_build (KOidcSession i') \<longleftrightarrow> i = i'"
  by (simp add: key_build_def)

text \<open>The key a row is stored under.\<close>

definition stored_at :: "item \<Rightarrow> primary_key \<Rightarrow> bool" where
  "stored_at m k \<longleftrightarrow> m (fst k) = Some (AS (snd k))"

lemma rows_stored:
  "stored_at (session_row i session now) (key_build (KOidcSession i))"
  "stored_at (pending_row state pending now) (key_build (KPkceTransaction state))"
  by (simp_all add: stored_at_def session_row_def pending_row_def keyed_item_def key_build_def attr_names)

lemma session_reads_back:
  assumes "length bytes = 10"
  shows "\<exists>i row k. play (create_session st session now) [RRand (Some bytes), RPut (Inr ())]
         = ([QRand 10, QPut (se_table st) row None], Some (Inr i))
       \<and> stored_at row k
       \<and> play (load_session st i later) [RGet (Inr (Some row))]
         = ([QGet (se_table st) k False],
            Some (Inr (if saturating_add (ar_epoch_seconds now) (8 * 3600) \<le> ar_epoch_seconds later
              then None else Some session)))"
proof -
  have s: "play (create_session st session now) [RRand (Some bytes), RPut (Inr ())]
      = ([QRand 10, QPut (se_table st) (session_row (se_uuid st (ar_epoch_millis now) bytes) session now) None],
         Some (Inr (se_uuid st (ar_epoch_millis now) bytes)))"
    using assms by (simp add: create_session_def session_id_def bind_ok_def fill_ok_def issued_def)
  show ?thesis
    by (intro exI conjI, rule s, rule rows_stored)
      (simp add: load_session_def session_row_read issued_def SESSION_TTL_SECS_def)
qed

lemma pending_reads_back:
  "\<exists>row k. play (put_pending st state pending now) [RPut (Inr ())]
         = ([QPut (se_table st) row None], Some (Inr ()))
       \<and> stored_at row k
       \<and> play (take_pending st state later) [RDelete (Inr (Some row))]
         = ([QDelete (se_table st) k True],
            Some (Inr (if saturating_add (ar_epoch_seconds now) 600 \<le> ar_epoch_seconds later
              then None else Some pending)))
       \<and> play (take_pending st state later) [RDelete (Inr None)]
         = ([QDelete (se_table st) k True], Some (Inr None))"
proof -
  have p: "play (put_pending st state pending now) [RPut (Inr ())]
      = ([QPut (se_table st) (pending_row state pending now) None], Some (Inr ()))"
    by (simp add: put_pending_def issued_def)
  show ?thesis
    by (intro exI conjI, rule p, rule rows_stored)
      (simp_all add: take_pending_def pending_row_read issued_def PKCE_TTL_SECS_def pending_login_from_def [of None])
qed

text \<open>C19: the rows of a login read back: what \<open>create_session\<close> puts is stored under the key that
  \<open>load_session\<close> reads for the identifier it returned, and reads back as the same session until eight
  hours later and not from then on; what \<open>put_pending\<close> puts is stored under the key that
  \<open>take_pending\<close> deletes, and comes back as the same pending login within ten minutes, once: the
  delete leaves nothing to take.\<close>

theorem login_rows_roundtrip:
  assumes "length bytes = 10"
  shows "(\<exists>i row k. play (create_session st session now) [RRand (Some bytes), RPut (Inr ())]
         = ([QRand 10, QPut (se_table st) row None], Some (Inr i))
       \<and> stored_at row k
       \<and> play (load_session st i later) [RGet (Inr (Some row))]
         = ([QGet (se_table st) k False],
            Some (Inr (if saturating_add (ar_epoch_seconds now) (8 * 3600) \<le> ar_epoch_seconds later
              then None else Some session))))
     \<and> (\<exists>row k. play (put_pending st state pending now) [RPut (Inr ())]
         = ([QPut (se_table st) row None], Some (Inr ()))
       \<and> stored_at row k
       \<and> play (take_pending st state later) [RDelete (Inr (Some row))]
         = ([QDelete (se_table st) k True],
            Some (Inr (if saturating_add (ar_epoch_seconds now) 600 \<le> ar_epoch_seconds later
              then None else Some pending)))
       \<and> play (take_pending st state later) [RDelete (Inr None)]
         = ([QDelete (se_table st) k True], Some (Inr None)))"
  using session_reads_back [OF assms] pending_reads_back by blast

definition ex_store :: session_store where
  "ex_store = \<lparr>se_table = ''T'', se_uuid = (\<lambda>_ _. ''s'')\<rparr>"

theorem login_rows_roundtrip_witness:
  "\<exists>i row k. play (create_session ex_store \<lparr>an_subject = ''u'', an_email = ''o''\<rparr>
         \<lparr>ar_at = 0, ar_epoch_seconds = 5, ar_epoch_millis = 5000\<rparr>) [RRand (Some (replicate 10 0)), RPut (Inr ())]
       = ([QRand 10, QPut ''T'' row None], Some (Inr i))
     \<and> stored_at row k
     \<and> play (load_session ex_store i \<lparr>ar_at = 0, ar_epoch_seconds = 6, ar_epoch_millis = 6000\<rparr>) [RGet (Inr (Some row))]
       = ([QGet ''T'' k False], Some (Inr (Some \<lparr>an_subject = ''u'', an_email = ''o''\<rparr>)))"
  using login_rows_roundtrip [of "replicate 10 0" ex_store "\<lparr>an_subject = ''u'', an_email = ''o''\<rparr>"
      "\<lparr>ar_at = 0, ar_epoch_seconds = 5, ar_epoch_millis = 5000\<rparr>" "\<lparr>ar_at = 0, ar_epoch_seconds = 6, ar_epoch_millis = 6000\<rparr>"]
  by (auto simp: ex_store_def saturating_add_def)

section \<open>The ledger\<close>

definition table_apart :: "ledger_cfg \<Rightarrow> string \<Rightarrow> bool" where
  "table_apart cfg t \<longleftrightarrow> t \<noteq> tb_counters (lc_tables cfg) \<and> t \<noteq> tb_prequeue (lc_tables cfg)
     \<and> t \<noteq> tb_positions (lc_tables cfg)"

lemma harmless_apart:
  assumes "table_apart cfg t"
  shows "(\<And>r. harmless cfg (h1 r)) \<Longrightarrow> harmless cfg (PutItem t m c h1)"
    and "(\<And>r. harmless cfg (h2 r)) \<Longrightarrow> harmless cfg (DeleteItem t k b h2)"
  using assms unfolding harmless_def table_apart_def
  by (auto simp: ledger_ob_def intro!: lwp_PutItem lwp_DeleteItem)

end
