(* ===== verification/Hardening.thy ===== *)
theory Hardening
  imports Effects
begin

text \<open>
  \<open>crates/admin/src/security.rs\<close>: the nonce of an inline script and the headers every response of
  the control plane carries.  The base64url encoder and the check of a header value (\<open>http\<close>) are
  parameters; a header map is a list of pairs, in which inserting replaces every value of a name.

  Lemmas: \<open>hardening_applied\<close> says what the headers are afterwards, name by name.
\<close>

section \<open>Header maps\<close>

type_synonym headers = "(string \<times> string) list"

definition has_header :: "headers \<Rightarrow> string \<Rightarrow> bool" where
  "has_header hs name = list_ex (\<lambda>(n, _). n = name) hs"

definition header_insert :: "string \<Rightarrow> string \<Rightarrow> headers \<Rightarrow> headers" where
  "header_insert name v hs = filter (\<lambda>(n, _). n \<noteq> name) hs @ [(name, v)]"

definition header_append :: "string \<Rightarrow> string \<Rightarrow> headers \<Rightarrow> headers" where
  "header_append name v hs = hs @ [(name, v)]"

text \<open>The values of a name, in order.\<close>

definition header_values :: "headers \<Rightarrow> string \<Rightarrow> string list" where
  "header_values hs name = map snd (filter (\<lambda>(n, _). n = name) hs)"

text \<open>\<open>if let Ok(v) = HeaderValue::from_str(value) { headers.insert(name, v); }\<close>\<close>

type_synonym header_check = "string \<Rightarrow> bool"

definition insert_checked :: "header_check \<Rightarrow> string \<times> string \<Rightarrow> headers \<Rightarrow> headers" where
  "insert_checked valid nv hs = (if valid (snd nv) then header_insert (fst nv) (snd nv) hs else hs)"

section \<open>The nonce\<close>

definition nonce_from :: "(u8 list \<Rightarrow> string) \<Rightarrow> string prog" where
  "nonce_from b64 =
     RandFill 16 (\<lambda>bytes. case bytes of None \<Rightarrow> Done [] | Some bytes \<Rightarrow> Done (b64 bytes))"

section \<open>The headers\<close>

definition quoted :: "string \<Rightarrow> string" where
  "quoted s = CHR 0x27 # s @ [CHR 0x27]"

definition csp_value :: "string \<Rightarrow> string" where
  "csp_value nonce =
     ''default-src '' @ quoted ''none'' @ ''; style-src '' @ quoted ''self''
       @ ''; script-src '' @ quoted (''nonce-'' @ nonce) @ ''; connect-src '' @ quoted ''self''
       @ ''; img-src '' @ quoted ''self'' @ '' data:; font-src '' @ quoted ''self''
       @ ''; form-action '' @ quoted ''self'' @ ''; base-uri '' @ quoted ''none''
       @ ''; frame-ancestors '' @ quoted ''none'' @ ''; object-src '' @ quoted ''none''"

definition CSP_NAME :: string where "CSP_NAME = ''content-security-policy''"

definition no_store_pairs :: headers where
  "no_store_pairs =
     [(''cache-control'', ''no-cache, no-store, must-revalidate''), (''pragma'', ''no-cache''), (''expires'', ''0'')]"

definition hardening_pairs :: headers where
  "hardening_pairs =
     [(''x-frame-options'', ''DENY''), (''x-content-type-options'', ''nosniff''),
      (''referrer-policy'', ''no-referrer''),
      (''strict-transport-security'', ''max-age=31536000; includeSubDomains''),
      (''permissions-policy'', ''geolocation=(), microphone=(), camera=(), usb=(), payment=()'')]"

definition apply_hardening :: "header_check \<Rightarrow> headers \<Rightarrow> string \<Rightarrow> headers" where
  "apply_hardening valid hs nonce =
     (let hs1 = (if has_header hs CSP_NAME then hs else insert_checked valid (CSP_NAME, csp_value nonce) hs);
          hs2 = (if has_header hs1 ''cache-control'' then hs1 else fold (insert_checked valid) no_store_pairs hs1)
      in fold (insert_checked valid) hardening_pairs hs2)"

section \<open>What the headers are\<close>

lemma values_insert:
  "header_values (header_insert n v hs) m = (if m = n then [v] else header_values hs m)"
  by (induction hs) (auto simp: header_values_def header_insert_def)

lemma values_append:
  "header_values (header_append n v hs) m = header_values hs m @ (if m = n then [v] else [])"
  by (simp add: header_values_def header_append_def)

lemma has_header_values: "has_header hs n \<longleftrightarrow> header_values hs n \<noteq> []"
  by (auto simp: has_header_def header_values_def list_ex_iff filter_empty_conv)

lemma values_fold_insert:
  "distinct (map fst ps) \<Longrightarrow> list_all (\<lambda>p. valid (snd p)) ps \<Longrightarrow>
   header_values (fold (insert_checked valid) ps hs) m =
     (case map_of ps m of Some v \<Rightarrow> [v] | None \<Rightarrow> header_values hs m)"
proof (induction ps arbitrary: hs)
  case (Cons p ps)
  then have "fst p \<notin> fst ` set ps" by simp
  then have "map_of ps (fst p) = None"
    by (simp add: map_of_eq_None_iff)
  then show ?case
    using Cons by (auto simp: insert_checked_def values_insert split: option.split)
qed simp

lemma distinct_pairs: "distinct (map fst no_store_pairs)" "distinct (map fst hardening_pairs)"
  by code_simp+

text \<open>What \<open>HeaderValue::from_str\<close> documents: visible ASCII is accepted.\<close>

definition visible :: "string \<Rightarrow> bool" where
  "visible s \<longleftrightarrow> list_all (\<lambda>c. 32 \<le> (of_char c :: nat) \<and> of_char c < (127 :: nat)) s"

definition header_check_ok :: "header_check \<Rightarrow> bool" where
  "header_check_ok valid \<longleftrightarrow> (\<forall>s. visible s \<longrightarrow> valid s)"

lemma visible_append [simp]: "visible (a @ b) \<longleftrightarrow> visible a \<and> visible b"
  by (simp add: visible_def)

lemma visible_quoted [simp]: "visible (quoted s) \<longleftrightarrow> visible s"
  by (simp add: visible_def quoted_def)

lemma visible_csp: "visible nonce \<Longrightarrow> visible (csp_value nonce)"
  unfolding csp_value_def visible_append visible_quoted by (simp add: visible_def)

lemma visible_pairs: "list_all (\<lambda>p. visible (snd p)) (no_store_pairs @ hardening_pairs)"
  by code_simp

text \<open>The headers a response has afterwards.\<close>

definition hardened_values :: "headers \<Rightarrow> string \<Rightarrow> string \<Rightarrow> string list" where
  "hardened_values hs nonce name =
     (case map_of hardening_pairs name of
        Some v \<Rightarrow> [v]
      | None \<Rightarrow>
          if name = CSP_NAME then (if has_header hs name then header_values hs name else [csp_value nonce])
          else if \<not> has_header hs ''cache-control'' \<and> name \<in> fst ` set no_store_pairs
          then [the (map_of no_store_pairs name)]
          else header_values hs name)"

lemma hardening_applied:
  assumes "header_check_ok valid" "visible nonce"
  shows "header_values (apply_hardening valid hs nonce) name = hardened_values hs nonce name"
proof -
  have v: "valid (csp_value nonce)" "list_all (\<lambda>p. valid (snd p)) no_store_pairs"
    "list_all (\<lambda>p. valid (snd p)) hardening_pairs"
    using assms visible_csp visible_pairs by (auto simp: header_check_ok_def list_all_iff)
  define hs1 where "hs1 =
    (if has_header hs CSP_NAME then hs else insert_checked valid (CSP_NAME, csp_value nonce) hs)"
  have csp: "header_values hs1 m
      = (if m = CSP_NAME \<and> \<not> has_header hs m then [csp_value nonce] else header_values hs m)" for m
    using v(1) by (auto simp: hs1_def insert_checked_def values_insert)
  have cache: "has_header hs1 ''cache-control'' = has_header hs ''cache-control''"
    unfolding has_header_values [of hs1] has_header_values [of hs "''cache-control''"] csp
    by (simp add: CSP_NAME_def)
  have apart: "map_of no_store_pairs CSP_NAME = None"
    by code_simp
  have keys: "x \<in> fst ` set ps \<longleftrightarrow> map_of ps x \<noteq> None" for x and ps :: headers
    by (auto simp: map_of_eq_None_iff)
  show ?thesis
    unfolding apply_hardening_def Let_def hs1_def [symmetric] values_fold_insert [OF distinct_pairs(2) v(3)] cache
    unfolding if_distrib [of "\<lambda>hs. header_values hs name"] values_fold_insert [OF distinct_pairs(1) v(2)] csp
      hardened_values_def keys
    using apart by (auto split: option.split)
qed

end
