(* ===== verification/Probe.thy ===== *)
theory Probe
  imports Readiness
begin

text \<open>
  \<open>crates/admin/src/probe.rs\<close>: the reads behind the readiness report, each reduced to the facts a check
  judges.  The cloud interfaces are third-party: the record \<open>cloud\<close> holds what each call answers (its
  fields are options where the SDK's are), or that it is still running.

  Lemmas: the loop over the behaviours in closed form (\<open>behaviours_loop_eq\<close>), and what the two rows of
  the edge say of the distribution's configuration (\<open>edge_rows_mean\<close>).
\<close>

section \<open>The cloud interfaces\<close>

record warm_description =
  wd_write_units :: "int option"
  wd_read_units :: "int option"
  wd_status :: "string option"

record table_description =
  td_warm :: "warm_description option"

record throttle_settings =
  th_rate_limit :: real
  th_burst_limit :: int

record schedule_description =
  sd_state :: "string option"
  sd_expression :: "string option"
  sd_timezone :: "string option"

record function_association =
  fn_event_type :: string
  fn_arn :: string

record cache_behaviour =
  be_path_pattern :: string
  be_associations :: "function_association list option"
  be_policy :: "string option"

text \<open>The default behaviour has no path pattern; only its associations are read.\<close>

record distribution_config =
  dc_default :: "function_association list option option"
  dc_behaviours :: "cache_behaviour list option"

record policy_config =
  pc_min_ttl :: int
  pc_cookie_behaviour :: "string option"

text \<open>A schedule or parameter that does not exist is \<open>None\<close>: the call's own error for it, which the code
  tells from the others.  The value of an existing parameter is an option once more.\<close>

record cloud =
  cd_describe_table :: "string \<Rightarrow> table_description option probed"
  cd_describe_limits :: "dynamodb_limits probed"
  cd_get_account :: "throttle_settings option probed"
  cd_get_concurrency :: "string \<Rightarrow> int option probed"
  cd_get_schedule :: "string \<Rightarrow> schedule_description option probed"
  cd_get_parameter :: "string \<Rightarrow> string option option probed"
  cd_get_distribution :: "string \<Rightarrow> distribution_config option probed"
  cd_get_cache_policy :: "string \<Rightarrow> policy_config option probed"

text \<open>\<open>await?\<close>: a read that is still running keeps its caller, an error is its answer.\<close>

definition after :: "'a probed \<Rightarrow> ('a \<Rightarrow> 'b probed) \<Rightarrow> 'b probed" where
  "after r f =
     (case r of Late \<Rightarrow> Late | Answered (Inl e) \<Rightarrow> Answered (Inl e) | Answered (Inr x) \<Rightarrow> f x)"

definition naming :: "string \<Rightarrow> 'a probed \<Rightarrow> 'a probed" where
  "naming what r =
     (case r of Answered (Inl e) \<Rightarrow> Answered (Inl (what @ '': '' @ e)) | _ \<Rightarrow> r)"

section \<open>The reads\<close>

record table_names =
  tn_counters :: string
  tn_prequeue :: string
  tn_positions :: string
  tn_tokens :: string

fun table_name :: "table_names \<Rightarrow> ready_table \<Rightarrow> string" where
  "table_name ns CountersTable = tn_counters ns"
| "table_name ns PreQueueTable = tn_prequeue ns"
| "table_name ns PositionsTable = tn_positions ns"
| "table_name ns TokensTable = tn_tokens ns"

record probe_names =
  nm_tables :: table_names
  nm_assign_function :: string
  nm_open_schedule :: string
  nm_controller_schedule :: string
  nm_edge_parameter :: string

definition probe_warm_throughput :: "cloud \<Rightarrow> probe_names \<Rightarrow> ready_table \<Rightarrow> warm_throughput probed" where
  "probe_warm_throughput cl ns table =
     after (naming ''describe_table'' (cd_describe_table cl (table_name (nm_tables ns) table))) (\<lambda>out.
       let warm = Option.bind out td_warm in
       Answered (Inr \<lparr>wt_write_units = Option.bind warm wd_write_units,
         wt_read_units = Option.bind warm wd_read_units,
         wt_warming = (Option.bind warm wd_status = Some ''UPDATING'')\<rparr>))"

definition probe_dynamodb_limits :: "cloud \<Rightarrow> dynamodb_limits probed" where
  "probe_dynamodb_limits cl = naming ''describe_limits'' (cd_describe_limits cl)"

definition probe_api_throttle :: "cloud \<Rightarrow> api_throttle probed" where
  "probe_api_throttle cl =
     after (naming ''get_account'' (cd_get_account cl)) (\<lambda>throttle.
       Answered (Inr \<lparr>at_rate_limit = map_option th_rate_limit throttle,
         at_burst_limit = map_option th_burst_limit throttle\<rparr>))"

definition probe_concurrency :: "cloud \<Rightarrow> probe_names \<Rightarrow> int option probed" where
  "probe_concurrency cl ns = naming ''get_function_concurrency'' (cd_get_concurrency cl (nm_assign_function ns))"

definition probe_schedule :: "cloud \<Rightarrow> probe_names \<Rightarrow> schedule_kind \<Rightarrow> schedule_facts option probed" where
  "probe_schedule cl ns kind =
     (let name = (case kind of OpenKind \<Rightarrow> nm_open_schedule ns | ControllerKind \<Rightarrow> nm_controller_schedule ns) in
      after (naming (''get_schedule '' @ name) (cd_get_schedule cl name)) (\<lambda>r.
        case r of
          None \<Rightarrow> Answered (Inr None)
        | Some out \<Rightarrow>
            Answered (Inr (Some \<lparr>sf_enabled = (sd_state out = Some ''ENABLED''),
              sf_expression = or_else (sd_expression out) [],
              sf_timezone = or_else (sd_timezone out) ''UTC''\<rparr>))))"

text \<open>What the edge module writes to the readiness parameter; its reading (\<open>serde_json\<close>) is a parameter.\<close>

record edge_pointer =
  ep_distribution_id :: string
  ep_gate_arn :: string
  ep_status_path :: string

type_synonym pointer_reader = "string \<Rightarrow> string + edge_pointer"

definition probe_edge_pointer ::
  "pointer_reader \<Rightarrow> cloud \<Rightarrow> probe_names \<Rightarrow> edge_pointer option probed" where
  "probe_edge_pointer rd cl ns =
     after (naming (''get_parameter '' @ nm_edge_parameter ns) (cd_get_parameter cl (nm_edge_parameter ns))) (\<lambda>r.
       case r of
         None \<Rightarrow> Answered (Inr None)
       | Some None \<Rightarrow> Answered (Inl ''the edge readiness parameter has no value'')
       | Some (Some v) \<Rightarrow>
           (case rd v of
              Inl e \<Rightarrow> Answered (Inl (''the edge readiness parameter is malformed: '' @ e))
            | Inr p \<Rightarrow> Answered (Inr (Some p))))"

definition cache_policy_facts :: "cloud \<Rightarrow> string \<Rightarrow> caching_facts probed" where
  "cache_policy_facts cl i =
     after (naming (''get_cache_policy '' @ i) (cd_get_cache_policy cl i)) (\<lambda>out.
       case out of
         None \<Rightarrow> Answered (Inl (''get_cache_policy '' @ i @ '': no configuration''))
       | Some config \<Rightarrow>
           Answered (Inr \<lparr>cf_min_ttl = pc_min_ttl config,
             cf_cookies = (case pc_cookie_behaviour config of
                 Some b \<Rightarrow> if b \<noteq> ''none'' then CookieIncluded b else CookieNone
               | None \<Rightarrow> CookieNone)\<rparr>))"

text \<open>The loop over the behaviours: those that carry the gate, in order, and the last one of the path.\<close>

fun behaviours_loop ::
  "edge_pointer \<Rightarrow> string list \<Rightarrow> cache_behaviour option \<Rightarrow> cache_behaviour list \<Rightarrow>
   string list \<times> cache_behaviour option" where
  "behaviours_loop p elsewhere st [] = (elsewhere, st)"
| "behaviours_loop p elsewhere st (b # bs) =
     behaviours_loop p
       (if (case be_associations b of None \<Rightarrow> False | Some fa \<Rightarrow> list_ex (\<lambda>a. fn_arn a = ep_gate_arn p) fa)
        then elsewhere @ [be_path_pattern b] else elsewhere)
       (if be_path_pattern b = ep_status_path p then Some b else st) bs"

definition gate_on_default :: "edge_pointer \<Rightarrow> distribution_config \<Rightarrow> bool" where
  "gate_on_default p config \<longleftrightarrow>
     (case Option.bind (dc_default config) (\<lambda>fa. fa) of
        None \<Rightarrow> False
      | Some fa \<Rightarrow> list_ex (\<lambda>a. fn_event_type a = ''viewer-request'' \<and> fn_arn a = ep_gate_arn p) fa)"

definition probe_edge_facts :: "pointer_reader \<Rightarrow> cloud \<Rightarrow> probe_names \<Rightarrow> edge_facts option probed" where
  "probe_edge_facts rd cl ns =
     after (probe_edge_pointer rd cl ns) (\<lambda>v.
       case v of
         None \<Rightarrow> Answered (Inr None)
       | Some p \<Rightarrow>
           after (naming (''get_distribution_config '' @ ep_distribution_id p)
               (cd_get_distribution cl (ep_distribution_id p))) (\<lambda>out.
             case out of
               None \<Rightarrow> Answered (Inl ''get_distribution_config: no configuration'')
             | Some config \<Rightarrow>
                 (let (elsewhere, st) = behaviours_loop p [] None (or_else (dc_behaviours config) []) in
                  after (case st of
                      None \<Rightarrow> Answered (Inr None)
                    | Some b \<Rightarrow>
                        (case be_policy b of
                           None \<Rightarrow> Answered (Inl (ep_status_path p @ '' uses legacy cache settings, not a cache policy''))
                         | Some i \<Rightarrow> after (cache_policy_facts cl i) (\<lambda>facts. Answered (Inr (Some facts)))))
                    (\<lambda>caching.
                      Answered (Inr (Some \<lparr>ef_status_path = ep_status_path p, ef_status_caching = caching,
                        ef_gate_on_default = gate_on_default p config, ef_gate_elsewhere = elsewhere\<rparr>))))))"

definition aws_probe :: "pointer_reader \<Rightarrow> cloud \<Rightarrow> probe_names \<Rightarrow> probe_reads" where
  "aws_probe rd cl ns =
     \<lparr>pb_warm_throughput = probe_warm_throughput cl ns,
      pb_dynamodb_limits = probe_dynamodb_limits cl,
      pb_api_gateway_throttle = probe_api_throttle cl,
      pb_reserved_concurrency = probe_concurrency cl ns,
      pb_schedule = probe_schedule cl ns,
      pb_edge_facts = probe_edge_facts rd cl ns\<rparr>"

section \<open>What the checks of the edge mean\<close>

text \<open>A behaviour that carries the gate, whatever the event.\<close>

definition carries :: "edge_pointer \<Rightarrow> cache_behaviour \<Rightarrow> bool" where
  "carries p b \<longleftrightarrow> (\<exists>fa a. be_associations b = Some fa \<and> a \<in> set fa \<and> fn_arn a = ep_gate_arn p)"

lemma behaviours_loop_eq:
  "behaviours_loop p elsewhere st bs =
     (elsewhere @ map be_path_pattern (filter (carries p) bs),
      case filter (\<lambda>b. be_path_pattern b = ep_status_path p) bs of [] \<Rightarrow> st | xs \<Rightarrow> Some (List.last xs))"
proof (induction bs arbitrary: elsewhere st)
  case (Cons b bs)
  have c: "(case be_associations b of None \<Rightarrow> False | Some fa \<Rightarrow> list_ex (\<lambda>a. fn_arn a = ep_gate_arn p) fa) \<longleftrightarrow> carries p b"
    by (auto simp: carries_def list_ex_iff split: option.split)
  show ?case
    by (simp add: Cons.IH c) (auto split: list.split)
qed simp

lemma read_as_after:
  "read_as P (after r f) \<longleftrightarrow> read_as (\<lambda>x. read_as P (f x)) r"
  by (auto simp: read_as_def after_def split: probed.split sum.split)

lemma read_as_naming [simp]: "read_as P (naming what r) = read_as P r"
  by (auto simp: read_as_def naming_def split: probed.split sum.split)

lemma read_as_answered [simp]: "read_as P (Answered (Inr x)) = P x" "\<not> read_as P (Answered (Inl e))"
  by (simp_all add: read_as_def)

text \<open>The distribution the parameter points at, as it was read.\<close>

definition edge_read :: "pointer_reader \<Rightarrow> cloud \<Rightarrow> probe_names \<Rightarrow> edge_pointer \<Rightarrow> distribution_config \<Rightarrow> bool" where
  "edge_read rd cl ns p config \<longleftrightarrow>
     (\<exists>v. cd_get_parameter cl (nm_edge_parameter ns) = Answered (Inr (Some (Some v))) \<and> rd v = Inr p)
     \<and> cd_get_distribution cl (ep_distribution_id p) = Answered (Inr (Some config))"

text \<open>The caching of the polled path: of the last behaviour of that path, when there is one, the cache
  policy was read.\<close>

definition polled_behaviour :: "edge_pointer \<Rightarrow> distribution_config \<Rightarrow> cache_behaviour option" where
  "polled_behaviour p config =
     (case filter (\<lambda>b. be_path_pattern b = ep_status_path p) (or_else (dc_behaviours config) []) of
        [] \<Rightarrow> None
      | bs \<Rightarrow> Some (List.last bs))"

definition policy_read :: "(policy_config \<Rightarrow> bool) \<Rightarrow> cloud \<Rightarrow> cache_behaviour \<Rightarrow> bool" where
  "policy_read P cl b \<longleftrightarrow>
     (\<exists>i config. be_policy b = Some i \<and> cd_get_cache_policy cl i = Answered (Inr (Some config)) \<and> P config)"

lemma read_as_iff: "read_as P r \<longleftrightarrow> (\<exists>x. r = Answered (Inr x) \<and> P x)"
  by (auto simp: read_as_def split: probed.split sum.split)

lemma after_answered: "after r f = Answered (Inr x) \<longleftrightarrow> (\<exists>y. r = Answered (Inr y) \<and> f y = Answered (Inr x))"
  by (auto simp: after_def split: probed.split sum.split)

lemma pointer_read:
  "read_as P (probe_edge_pointer rd cl ns) \<longleftrightarrow>
     (\<exists>v p. cd_get_parameter cl (nm_edge_parameter ns) = Answered (Inr (Some (Some v))) \<and> rd v = Inr p \<and> P (Some p))
     \<or> cd_get_parameter cl (nm_edge_parameter ns) = Answered (Inr None) \<and> P None"
proof -
  have rd: "read_as P (case rd v of Inl e \<Rightarrow> Answered (Inl (msg e)) | Inr p \<Rightarrow> Answered (Inr (Some p)))
      \<longleftrightarrow> (\<exists>p. rd v = Inr p \<and> P (Some p))" for v msg
    by (cases "rd v") simp_all
  show ?thesis
    unfolding probe_edge_pointer_def read_as_after read_as_naming read_as_iff [of _ "cd_get_parameter cl (nm_edge_parameter ns)"]
    by (simp add: split_option_ex rd) blast
qed

lemma policy_facts_read:
  "read_as P (cache_policy_facts cl i) \<longleftrightarrow>
     (\<exists>config. cd_get_cache_policy cl i = Answered (Inr (Some config))
        \<and> P \<lparr>cf_min_ttl = pc_min_ttl config,
              cf_cookies = (case pc_cookie_behaviour config of
                  Some b \<Rightarrow> if b \<noteq> ''none'' then CookieIncluded b else CookieNone | None \<Rightarrow> CookieNone)\<rparr>)"
  unfolding cache_policy_facts_def read_as_after read_as_naming read_as_iff [of _ "cd_get_cache_policy cl i"]
  by (simp add: split_option_ex)

lemma behaviours_read:
  "behaviours_loop p [] None (or_else (dc_behaviours config) []) =
     (map be_path_pattern (filter (carries p) (or_else (dc_behaviours config) [])), polled_behaviour p config)"
  unfolding behaviours_loop_eq polled_behaviour_def by simp

definition caching_read :: "cloud \<Rightarrow> cache_behaviour option \<Rightarrow> caching_facts option \<Rightarrow> bool" where
  "caching_read cl v caching \<longleftrightarrow>
     (case v of
        None \<Rightarrow> caching = None
      | Some b \<Rightarrow> \<exists>i facts. be_policy b = Some i \<and> read_as (\<lambda>x. x = facts) (cache_policy_facts cl i) \<and> caching = Some facts)"

lemma edge_facts_read:
  "read_as (some_as P) (probe_edge_facts rd cl ns) \<longleftrightarrow>
     (\<exists>p config caching. edge_read rd cl ns p config
        \<and> caching_read cl (polled_behaviour p config) caching
        \<and> P \<lparr>ef_status_path = ep_status_path p, ef_status_caching = caching,
              ef_gate_on_default = gate_on_default p config,
              ef_gate_elsewhere = map be_path_pattern (filter (carries p) (or_else (dc_behaviours config) []))\<rparr>)"
proof -
  have inner: "read_as (some_as P) (after (case polled_behaviour p config of
         None \<Rightarrow> Answered (Inr None)
       | Some b \<Rightarrow> (case be_policy b of
            None \<Rightarrow> Answered (Inl msg)
          | Some i \<Rightarrow> after (cache_policy_facts cl i) (\<lambda>facts. Answered (Inr (Some facts)))))
       (\<lambda>caching. Answered (Inr (Some (F caching)))))
    \<longleftrightarrow> (\<exists>caching. caching_read cl (polled_behaviour p config) caching
        \<and> P (F caching))" for p config msg F
    unfolding read_as_after
    by (cases "polled_behaviour p config"; simp add: some_as_def; cases "be_policy (the (polled_behaviour p config))";
        simp add: read_as_iff some_as_def after_answered caching_read_def) blast
  show ?thesis
    unfolding probe_edge_facts_def read_as_after [of _ "probe_edge_pointer rd cl ns"] pointer_read option.case
      read_as_after [of _ "naming what r" for what r] read_as_naming read_as_iff [of _ "cd_get_distribution cl i" for i]
      behaviours_read Let_def prod.case
    by (simp add: split_option_ex inner edge_read_def some_as_def) blast
qed

lemma policy_read_facts:
  "(\<exists>i facts. be_policy b = Some i \<and> read_as (\<lambda>x. x = facts) (cache_policy_facts cl i) \<and> P facts) \<longleftrightarrow>
     policy_read (\<lambda>c. P \<lparr>cf_min_ttl = pc_min_ttl c,
       cf_cookies = (case pc_cookie_behaviour c of
           Some b \<Rightarrow> if b \<noteq> ''none'' then CookieIncluded b else CookieNone | None \<Rightarrow> CookieNone)\<rparr>) cl b"
  unfolding policy_facts_read policy_read_def by auto

lemma no_cookies:
  "(case v of Some b \<Rightarrow> if b \<noteq> ''none'' then CookieIncluded b else CookieNone | None \<Rightarrow> CookieNone) = CookieNone
     \<longleftrightarrow> v = None \<or> v = Some ''none''"
  by (auto split: option.split)

lemma caching_read_as:
  "(\<exists>caching. caching_read cl v caching \<and> some_as (\<lambda>c. 0 < cf_min_ttl c \<and> cf_cookies c = CookieNone) caching)
     \<longleftrightarrow> (\<exists>b. v = Some b \<and> policy_read (\<lambda>c. 0 < pc_min_ttl c
           \<and> (pc_cookie_behaviour c = None \<or> pc_cookie_behaviour c = Some ''none'')) cl b)"
proof (cases v)
  case (Some b)
  have "(\<exists>caching. caching_read cl (Some b) caching \<and> some_as P caching) \<longleftrightarrow>
      (\<exists>i facts. be_policy b = Some i \<and> read_as (\<lambda>x. x = facts) (cache_policy_facts cl i) \<and> P facts)" for P
    unfolding caching_read_def option.case some_as_def
    by (rule iffI, fastforce, elim exE conjE, rule exI [of _ "Some facts" for facts], auto)
  then show ?thesis
    unfolding policy_read_facts by (simp add: Some no_cookies)
qed (simp add: caching_read_def some_as_def)

lemma caching_read_any:
  "(\<exists>caching. caching_read cl v caching) \<longleftrightarrow> (case v of None \<Rightarrow> True | Some b \<Rightarrow> policy_read (\<lambda>_. True) cl b)"
proof (cases v)
  case (Some b)
  then show ?thesis
    using policy_read_facts [where P = "\<lambda>_. True"] by (simp add: caching_read_def) blast
qed (simp add: caching_read_def)

lemma gate_on_default_iff:
  "gate_on_default p config \<longleftrightarrow> (\<exists>fa a. dc_default config = Some (Some fa) \<and> a \<in> set fa
     \<and> fn_event_type a = ''viewer-request'' \<and> fn_arn a = ep_gate_arn p)"
  by (auto simp: gate_on_default_def list_ex_iff bind_eq_Some_conv split: option.split)

text \<open>C22: over the reads of the running deployment, the gate row of the report passes exactly when the
  distribution that the edge module's parameter points at was read, its default behaviour runs the
  gate function on viewer requests, no other behaviour runs it on any event, and the cache policy of
  the polled path, when that path has a behaviour, was read; the caching row passes exactly when the
  last behaviour of the polled path has a cache policy with a positive minimum TTL and no cookie in
  its key.\<close>

theorem edge_rows_mean:
  "let rows = map_of (map (\<lambda>row. (rw_check row, rw_status row = Pass))
        (run_checks zones tx (aws_probe rd cl ns) gate targets now limit)) in
     rows GateAssociation = Some (\<exists>p config. edge_read rd cl ns p config
       \<and> (\<exists>fa a. dc_default config = Some (Some fa) \<and> a \<in> set fa
            \<and> fn_event_type a = ''viewer-request'' \<and> fn_arn a = ep_gate_arn p)
       \<and> \<not> list_ex (carries p) (or_else (dc_behaviours config) [])
       \<and> (case polled_behaviour p config of None \<Rightarrow> True | Some b \<Rightarrow> policy_read (\<lambda>_. True) cl b))
     \<and> rows StatusCaching = Some (\<exists>p config b. edge_read rd cl ns p config \<and> polled_behaviour p config = Some b
       \<and> policy_read (\<lambda>c. 0 < pc_min_ttl c
           \<and> (pc_cookie_behaviour c = None \<or> pc_cookie_behaviour c = Some ''none'')) cl b)"
proof -
  have none: "map be_path_pattern (filter (carries p) bs) = [] \<longleftrightarrow> \<not> list_ex (carries p) bs" for p bs
    by (auto simp: list_ex_iff filter_empty_conv)
  have gate: "met zones targets now (aws_probe rd cl ns) gate GateAssociation \<longleftrightarrow>
      (\<exists>p config. edge_read rd cl ns p config \<and> gate_on_default p config
       \<and> \<not> list_ex (carries p) (or_else (dc_behaviours config) [])
       \<and> (case polled_behaviour p config of None \<Rightarrow> True | Some b \<Rightarrow> policy_read (\<lambda>_. True) cl b))"
    unfolding met.simps aws_probe_def probe_reads.select_convs edge_facts_read edge_facts.select_convs none
      caching_read_any [symmetric] by blast
  have status: "met zones targets now (aws_probe rd cl ns) gate StatusCaching \<longleftrightarrow>
      (\<exists>p config b. edge_read rd cl ns p config \<and> polled_behaviour p config = Some b
       \<and> policy_read (\<lambda>c. 0 < pc_min_ttl c
           \<and> (pc_cookie_behaviour c = None \<or> pc_cookie_behaviour c = Some ''none'')) cl b)"
    unfolding met.simps aws_probe_def probe_reads.select_convs edge_facts_read edge_facts.select_convs
    by (rule ex_cong1, rule ex_cong1) (simp only: ex_simps caching_read_as)
  show ?thesis
    unfolding Let_def rows_met gate [unfolded gate_on_default_iff, symmetric] status [symmetric] by (simp add: ALL_CHECKS_def)
qed

end
