(* ===== verification/AdminHttp.thy ===== *)
theory AdminHttp
  imports Dashboard Sessions Hardening Probe
begin

text \<open>
  \<open>crates/admin/src/main.rs\<close>: the routes of the control plane, from the request to the response, with
  the login flow, the gate of the sessions and the two outer layers (the arrival instant and the
  hardening headers).  Parameters: the OpenID Connect client, the cookie and form parsers, the template
  engine, the embedded assets (asked for by the path as it was sent, so undoing its percent escapes is
  part of that parameter), and what the cloud answers the readiness probe.  A response holds the headers its
  handler sets; the content type that \<open>axum\<close> derives from a body's type is left out, and so are the
  log lines.

  Lemmas: every route meets the contract of the ledger (\<open>admin_serve_harmless\<close>).
\<close>

section \<open>The state of the server\<close>

definition SESSION_COOKIE :: string where "SESSION_COOKIE = ''vwr_admin_session''"
definition STATE_COOKIE :: string where "STATE_COOKIE = ''vwr_admin_login_state''"

record id_claims =
  cl_subject :: string
  cl_email :: "string option"

text \<open>The client of the identity provider: an error of the exchange's configuration, the ID token of a
  token response, and the claims of a token verified for a nonce.\<close>

record oidc_client =
  oi_exchange_error :: "string option"
  oi_id_token :: "string \<Rightarrow> string option"
  oi_claims :: "string \<Rightarrow> string \<Rightarrow> string + id_claims"

text \<open>What the client draws for one login.\<close>

record login_draw =
  ld_auth_url :: string
  ld_csrf :: string
  ld_nonce :: string
  ld_verifier :: string

record static_file =
  fi_hash :: string
  fi_mime :: string
  fi_data :: string

record 'c admin_app =
  pa_store :: admin_store
  pa_edge_env :: edge_env
  pa_edge :: edge_store
  pa_schedule :: open_schedule
  pa_zones :: "'c zone_env"
  pa_opener :: opener
  pa_probe :: probe_names
  pa_cloud :: "arrival \<Rightarrow> cloud"
  pa_pointer :: pointer_reader
  pa_gate_late :: "arrival \<Rightarrow> bool"
  pa_warm_targets :: warm_targets
  pa_texts :: ready_text
  pa_sessions :: session_store
  pa_oidc :: oidc_client
  pa_event_id :: string
  pa_allowed_emails :: "string list"
  pa_cookies :: "string \<Rightarrow> (string + string \<times> string) list"
  pa_form :: "http_request \<Rightarrow> string \<Rightarrow> string option"
  pa_rejection :: http_response
  pa_debug :: "string \<Rightarrow> string"
  pa_b64 :: "u8 list \<Rightarrow> string"
  pa_render :: "dashboard \<Rightarrow> string + string"
  pa_view_json :: "dashboard \<Rightarrow> json"
  pa_assets :: "string \<Rightarrow> static_file option"
  pa_header_check :: header_check
  pa_jiff :: jiff_env
  pa_normalize :: "string \<Rightarrow> string"

text \<open>The allowlist, from the environment: no entry is empty, and none has an upper-case letter.\<close>

definition allowed_emails_of :: "string option \<Rightarrow> string list" where
  "allowed_emails_of var =
     filter (\<lambda>s. s \<noteq> []) (map (\<lambda>s. to_ascii_lowercase (utrim s)) (split_char (CHR '','') (or_else var [])))"

section \<open>Responses\<close>

definition text_response :: "nat \<Rightarrow> string \<Rightarrow> http_response" where
  "text_response code msg = \<lparr>rs_status = code, rs_headers = [], rs_body = JStr msg\<rparr>"

definition see_other :: "(string \<times> string) list \<Rightarrow> http_response" where
  "see_other hs = \<lparr>rs_status = 303, rs_headers = hs, rs_body = JNull\<rparr>"

definition server_error :: "string \<Rightarrow> http_response" where
  "server_error msg = text_response 500 ''internal error''"

definition to_login :: http_response where
  "to_login = see_other [(''location'', ''/admin/login'')]"

fun phase_debug :: "phase \<Rightarrow> string" where
  "phase_debug Idle = ''Idle''"
| "phase_debug PreQueue = ''PreQueue''"
| "phase_debug Active = ''Active''"
| "phase_debug PostEvent = ''PostEvent''"
| "phase_debug Maintenance = ''Maintenance''"

fun action_error_display :: "action_error \<Rightarrow> string" where
  "action_error_display UnknownPhaseName = ''unknown phase''"
| "action_error_display (IllegalTransition a b) =
     ''illegal transition from '' @ phase_debug a @ '' to '' @ phase_debug b"
| "action_error_display InvalidRate = ''invalid rate''"
| "action_error_display (RateTooHigh mx) = ''rate exceeds the maximum of '' @ show_nat (unat mx)"
| "action_error_display InvalidDuration = ''invalid fail-open duration''"
| "action_error_display (InvalidRules e) = ''invalid rules: '' @ e"
| "action_error_display TooFast = ''action rejected: too soon after the previous change''"
| "action_error_display ActionConflict = ''no change or concurrent update''"
| "action_error_display NotFound = ''event not found''"
| "action_error_display InvalidStartTime = ''invalid start time''"
| "action_error_display StartTimeInPast = ''start time must be in the future''"
| "action_error_display UnknownTimezone = ''unknown timezone''"
| "action_error_display NotOpened = ''the event has not been opened; use Open now or a scheduled start''"

fun store_error_display :: "store_error \<Rightarrow> string" where
  "store_error_display Conflict = ''phase transition conflict''"
| "store_error_display (Backend e) = ''store error: '' @ e"

fun rule_form_error_display :: "(string \<Rightarrow> string) \<Rightarrow> rule_form_error \<Rightarrow> string" where
  "rule_form_error_display dbg (NoValue i line) =
     ''line '' @ show_nat i @ '': expected \"<tag> <value...>\", got '' @ dbg line"
| "rule_form_error_display dbg (HeaderWithoutValue i rest) =
     ''line '' @ show_nat i @ '': \"h\" needs a name and a value, got '' @ dbg rest"
| "rule_form_error_display dbg (UnknownFormTag i other) =
     ''line '' @ show_nat i @ '': unknown rule tag '' @ dbg other @ '' (expected p, c, u, or h)''"

definition finish :: "apply_error + 'a \<Rightarrow> http_response" where
  "finish result =
     (case result of
        Inr _ \<Rightarrow> see_other [(''location'', ''/admin'')]
      | Inl (ActionErr TooFast) \<Rightarrow>
          text_response 429 ''Too soon after the previous change. Wait a moment and retry.''
      | Inl (ActionErr e) \<Rightarrow> text_response 400 (action_error_display e)
      | Inl (StoreErr Conflict) \<Rightarrow>
          text_response 409
            ''State changed underneath you (or there is no change to make). Reload and retry.''
      | Inl (StoreErr e) \<Rightarrow> server_error (store_error_display e))"

definition finishing :: "(apply_error + 'a) prog \<Rightarrow> http_response prog" where
  "finishing p = bind p (\<lambda>r. Done (finish r))"

section \<open>Sessions\<close>

text \<open>\<open>filter_map(Result::ok)\<close>, then the first cookie of the name.\<close>

fun cookie_named :: "string \<Rightarrow> (string + string \<times> string) list \<Rightarrow> string option" where
  "cookie_named name [] = None"
| "cookie_named name (Inl _ # cs) = cookie_named name cs"
| "cookie_named name (Inr (n, v) # cs) = (if n = name then Some v else cookie_named name cs)"

definition request_cookie :: "'c admin_app \<Rightarrow> http_request \<Rightarrow> string \<Rightarrow> string option" where
  "request_cookie app req name =
     Option.bind (rq_header req ''cookie'') (\<lambda>raw. cookie_named name (pa_cookies app raw))"

definition session_id_from :: "'c admin_app \<Rightarrow> http_request \<Rightarrow> string option" where
  "session_id_from app req = request_cookie app req SESSION_COOKIE"

definition authed :: "'c admin_app \<Rightarrow> http_request \<Rightarrow> arrival \<Rightarrow> admin_session option prog" where
  "authed app req now =
     (case session_id_from app req of
        None \<Rightarrow> Done None
      | Some i \<Rightarrow>
          bind (load_session (pa_sessions app) i now) (\<lambda>r.
            Done (case r of Inr v \<Rightarrow> v | Inl _ \<Rightarrow> None)))"

text \<open>\<open>let Some(session) = authed(..).await else { return Redirect::to("/admin/login") }\<close>\<close>

definition gated ::
  "'c admin_app \<Rightarrow> http_request \<Rightarrow> arrival \<Rightarrow> (admin_session \<Rightarrow> http_response prog) \<Rightarrow> http_response prog" where
  "gated app req now f =
     bind (authed app req now) (\<lambda>s. case s of None \<Rightarrow> Done to_login | Some session \<Rightarrow> f session)"

section \<open>The login\<close>

definition cookie_attributes :: string where
  "cookie_attributes = ''; Path=/; HttpOnly; Secure; SameSite=Lax; Max-Age=''"

definition login :: "'c admin_app \<Rightarrow> login_draw \<Rightarrow> arrival \<Rightarrow> http_response prog" where
  "login app draw now =
     bind (put_pending (pa_sessions app) (ld_csrf draw)
         \<lparr>pl_verifier = ld_verifier draw, pl_nonce = ld_nonce draw\<rparr> now) (\<lambda>r.
       case r of
         Inl e \<Rightarrow> Done (server_error (session_error_display e))
       | Inr _ \<Rightarrow>
           Done (see_other
             [(''set-cookie'', STATE_COOKIE @ ''='' @ ld_csrf draw @ cookie_attributes @ ''600''),
              (''location'', ld_auth_url draw)]))"

text \<open>The last part of \<open>callback\<close>: the session of a verified identity.\<close>

definition open_session :: "'c admin_app \<Rightarrow> id_claims \<Rightarrow> arrival \<Rightarrow> http_response prog" where
  "open_session app claims now =
     (let email = or_else (cl_email claims) [] in
      if to_ascii_lowercase email \<notin> set (pa_allowed_emails app)
      then Done (text_response 403 ''not authorized for admin access'')
      else
        bind (create_session (pa_sessions app) \<lparr>an_subject = cl_subject claims, an_email = email\<rparr> now) (\<lambda>r.
          case r of
            Inl e \<Rightarrow> Done (server_error (session_error_display e))
          | Inr i \<Rightarrow>
              (let session_cookie = SESSION_COOKIE @ ''='' @ i @ cookie_attributes @ ''28800'';
                   clear_state = STATE_COOKIE @ ''='' @ cookie_attributes @ ''0'';
                   add = (\<lambda>v hs. if pa_header_check app v then header_append ''set-cookie'' v hs else hs)
               in Done (see_other (add clear_state (add session_cookie [(''location'', ''/admin'')]))))))"

text \<open>The middle part: the code, the token and its claims.\<close>

definition exchange ::
  "'c admin_app \<Rightarrow> string \<Rightarrow> pending_login \<Rightarrow> arrival \<Rightarrow> http_response prog" where
  "exchange app code pending now =
     (case oi_exchange_error (pa_oidc app) of
        Some e \<Rightarrow> Done (text_response 400 (''code exchange: '' @ e))
      | None \<Rightarrow>
          ExchangeCode code (pl_verifier pending) (\<lambda>r.
            case r of
              Inl e \<Rightarrow> Done (text_response 502 (''token request: '' @ e))
            | Inr token_response \<Rightarrow>
                (case oi_id_token (pa_oidc app) token_response of
                   None \<Rightarrow> Done (text_response 502 ''no id_token in response'')
                 | Some id_token \<Rightarrow>
                     (case oi_claims (pa_oidc app) id_token (pl_nonce pending) of
                        Inl e \<Rightarrow> Done (text_response 502 (''id_token: '' @ e))
                      | Inr claims \<Rightarrow> open_session app claims now))))"

definition callback :: "'c admin_app \<Rightarrow> http_request \<Rightarrow> arrival \<Rightarrow> http_response prog" where
  "callback app req now =
     (case (rq_query req ''code'', rq_query req ''state'') of
        (Some code, Some state) \<Rightarrow>
          if request_cookie app req STATE_COOKIE \<noteq> Some state
          then Done (text_response 400 ''login state mismatch'')
          else
            bind (take_pending (pa_sessions app) state now) (\<lambda>r.
              case r of
                Inr (Some pending) \<Rightarrow> exchange app code pending now
              | _ \<Rightarrow> Done (text_response 400 ''invalid or expired login state''))
      | _ \<Rightarrow> Done (pa_rejection app))"

definition logout :: "'c admin_app \<Rightarrow> http_request \<Rightarrow> http_response prog" where
  "logout app req =
     (let reply = see_other [(''set-cookie'', SESSION_COOKIE @ ''='' @ cookie_attributes @ ''0''),
            (''location'', ''/admin/login'')]
      in case session_id_from app req of
           None \<Rightarrow> Done reply
         | Some i \<Rightarrow> bind (delete_session (pa_sessions app) i) (\<lambda>_. Done reply))"

section \<open>The pages\<close>

definition store_load :: "'c admin_app \<Rightarrow> arrival \<Rightarrow> (string + dashboard option) prog" where
  "store_load app now =
     bind (ad_load (pa_store app) (pa_event_id app)) (\<lambda>r.
       Done (case r of
           Inl e \<Rightarrow> Inl (store_error_display e)
         | Inr v \<Rightarrow> Inr (map_option (\<lambda>st. from_state (pa_zones app) st (ar_epoch_seconds now)) v)))"

text \<open>The two reads of the edge document run at once: one for the rules, one for the readiness panel.\<close>

definition gate_outcome :: "'c admin_app \<Rightarrow> arrival \<Rightarrow> edge_store_error + gate_config \<times> etag \<Rightarrow> gate_config probed" where
  "gate_outcome app now r =
     (if pa_gate_late app now then Late
      else Answered (case r of Inl e \<Rightarrow> Inl (edge_error_display e) | Inr (cfg, _) \<Rightarrow> Inr cfg))"

definition filled_view ::
  "'c admin_app \<Rightarrow> arrival \<Rightarrow> admin_session \<Rightarrow> string \<Rightarrow> edge_store_error + gate_config \<times> etag \<Rightarrow>
   edge_store_error + gate_config \<times> etag \<Rightarrow> dashboard \<Rightarrow> dashboard" where
  "filled_view app now session nonce rules gate view =
     (let rows = run_checks (pa_zones app) (pa_texts app)
            (aws_probe (pa_pointer app) (pa_cloud app now) (pa_probe app)) (gate_outcome app now gate)
            (pa_warm_targets app) (ar_epoch_seconds now) PER_CHECK_TIMEOUT;
          view = view\<lparr>da_csp_nonce := nonce, da_operator_email := an_email session,
            da_readiness := map panel_row_of rows\<rparr>
      in case rules of
           Inr (cfg, _) \<Rightarrow> view\<lparr>da_rules_text := format_rules (gc_rules cfg),
             da_ip_binding := from_enabled (gc_bind_ip cfg)\<rparr>
         | Inl _ \<Rightarrow> view\<lparr>da_rules_load_failed := True\<rparr>)"

definition dashboard_page :: "'c admin_app \<Rightarrow> http_request \<Rightarrow> arrival \<Rightarrow> http_response prog" where
  "dashboard_page app req now =
     gated app req now (\<lambda>session.
       bind (store_load app now) (\<lambda>loaded.
         case loaded of
           Inl e \<Rightarrow> Done (server_error e)
         | Inr None \<Rightarrow> Done (text_response 404 ''event not found'')
         | Inr (Some view) \<Rightarrow>
             bind (nonce_from (pa_b64 app)) (\<lambda>nonce.
               bind (es_read_config (pa_edge app)) (\<lambda>rules.
                 bind (es_read_config (pa_edge app)) (\<lambda>gate.
                   let view = filled_view app now session nonce rules gate view in
                   case pa_render app view of
                     Inl e \<Rightarrow> Done (server_error (''render: '' @ e))
                   | Inr html \<Rightarrow>
                       Done \<lparr>rs_status = 200,
                         rs_headers = apply_hardening (pa_header_check app) [] (da_csp_nonce view),
                         rs_body = JStr html\<rparr>)))))"

definition state_json :: "'c admin_app \<Rightarrow> http_request \<Rightarrow> arrival \<Rightarrow> http_response prog" where
  "state_json app req now =
     bind (authed app req now) (\<lambda>s.
       case s of
         None \<Rightarrow> Done (text_response 401 ''not authenticated'')
       | Some _ \<Rightarrow>
           bind (store_load app now) (\<lambda>loaded.
             Done (case loaded of
                 Inr (Some view) \<Rightarrow> \<lparr>rs_status = 200, rs_headers = [], rs_body = pa_view_json app view\<rparr>
               | Inr None \<Rightarrow> text_response 404 ''event not found''
               | Inl e \<Rightarrow> server_error e)))"

section \<open>The actions\<close>

text \<open>\<open>Form(form)\<close>: a body without the field is rejected before the handler runs.\<close>

definition with_field ::
  "'c admin_app \<Rightarrow> http_request \<Rightarrow> string \<Rightarrow> (string \<Rightarrow> http_response prog) \<Rightarrow> http_response prog" where
  "with_field app req field f =
     (case pa_form app req field of None \<Rightarrow> Done (pa_rejection app) | Some v \<Rightarrow> f v)"

definition set_phase_route :: "'c admin_app \<Rightarrow> http_request \<Rightarrow> arrival \<Rightarrow> http_response prog" where
  "set_phase_route app req now =
     with_field app req ''phase'' (\<lambda>phase. gated app req now (\<lambda>session.
       finishing (apply_phase (pa_store app) (pa_event_id app) phase (an_email session) now)))"

definition set_rate_route :: "'c admin_app \<Rightarrow> http_request \<Rightarrow> arrival \<Rightarrow> http_response prog" where
  "set_rate_route app req now =
     with_field app req ''rate'' (\<lambda>rate. gated app req now (\<lambda>session.
       finishing (apply_rate (pa_store app) (pa_event_id app) rate (an_email session) now)))"

definition set_message_route :: "'c admin_app \<Rightarrow> http_request \<Rightarrow> arrival \<Rightarrow> http_response prog" where
  "set_message_route app req now =
     with_field app req ''message'' (\<lambda>message. gated app req now (\<lambda>session.
       finishing (apply_message (pa_store app) (pa_event_id app) message (an_email session) now)))"

definition open_now_route :: "'c admin_app \<Rightarrow> http_request \<Rightarrow> arrival \<Rightarrow> http_response prog" where
  "open_now_route app req now =
     gated app req now (\<lambda>session.
       finishing (apply_open_now (pa_store app) (pa_opener app) (pa_event_id app) (an_email session) now))"

definition set_start_time_route :: "'c admin_app \<Rightarrow> http_request \<Rightarrow> arrival \<Rightarrow> http_response prog" where
  "set_start_time_route app req now =
     with_field app req ''starts_at'' (\<lambda>starts_at. with_field app req ''timezone'' (\<lambda>timezone.
       gated app req now (\<lambda>session.
         finishing (apply_start_time (pa_store app) (pa_schedule app) (pa_zones app) (pa_event_id app)
           starts_at timezone (an_email session) now))))"

definition force_maintenance_route :: "'c admin_app \<Rightarrow> http_request \<Rightarrow> arrival \<Rightarrow> http_response prog" where
  "force_maintenance_route app req now =
     gated app req now (\<lambda>session.
       finishing (apply_force_maintenance (pa_store app) (pa_event_id app) (an_email session) now))"

definition pause_route :: "'c admin_app \<Rightarrow> http_request \<Rightarrow> arrival \<Rightarrow> http_response prog" where
  "pause_route app req now =
     gated app req now (\<lambda>session.
       finishing (apply_pause (pa_store app) (pa_event_id app) (an_email session) now))"

definition resume_route :: "'c admin_app \<Rightarrow> http_request \<Rightarrow> arrival \<Rightarrow> http_response prog" where
  "resume_route app req now =
     gated app req now (\<lambda>session.
       finishing (apply_resume (pa_store app) (pa_event_id app) (an_email session) now))"

definition fail_open_route :: "'c admin_app \<Rightarrow> http_request \<Rightarrow> arrival \<Rightarrow> http_response prog" where
  "fail_open_route app req now =
     with_field app req ''minutes'' (\<lambda>minutes. gated app req now (\<lambda>session.
       finishing (apply_fail_open (pa_store app) (pa_edge app) (pa_event_id app) minutes (an_email session) now)))"

definition recover_route :: "'c admin_app \<Rightarrow> http_request \<Rightarrow> arrival \<Rightarrow> http_response prog" where
  "recover_route app req now =
     gated app req now (\<lambda>session.
       finishing (apply_recover (pa_store app) (pa_edge app) (pa_event_id app) (an_email session) now))"

definition set_ip_binding_route :: "'c admin_app \<Rightarrow> http_request \<Rightarrow> arrival \<Rightarrow> http_response prog" where
  "set_ip_binding_route app req now =
     with_field app req ''binding'' (\<lambda>binding. gated app req now (\<lambda>session.
       if binding = ''on'' \<or> binding = ''off''
       then finishing (apply_ip_binding (pa_store app) (pa_edge app) (pa_event_id app) (binding = ''on'')
         (an_email session) now)
       else Done (text_response 400 ''binding must be on or off'')))"

definition set_rules_route :: "'c admin_app \<Rightarrow> http_request \<Rightarrow> arrival \<Rightarrow> http_response prog" where
  "set_rules_route app req now =
     with_field app req ''rules'' (\<lambda>rules. gated app req now (\<lambda>session.
       case parse_rules rules of
         Inl e \<Rightarrow> Done (text_response 400 (rule_form_error_display (pa_debug app) e))
       | Inr rules \<Rightarrow>
           finishing (apply_set_rules (pa_store app) (pa_edge_env app) (pa_edge app) (pa_event_id app) rules
             (an_email session) now)))"

section \<open>The assets\<close>

definition static_asset :: "'c admin_app \<Rightarrow> http_request \<Rightarrow> string \<Rightarrow> http_response" where
  "static_asset app req path =
     (case pa_assets app path of
        None \<Rightarrow> text_response 404 ''not found''
      | Some file \<Rightarrow>
          let tag = [CHR 0x22] @ fi_hash file @ [CHR 0x22];
              caching = [(''etag'', tag), (''cache-control'', ''public, max-age=300, must-revalidate'')]
          in if (case rq_header req ''if-none-match'' of None \<Rightarrow> False | Some v \<Rightarrow> if_none_match v tag)
             then \<lparr>rs_status = 304, rs_headers = caching, rs_body = JNull\<rparr>
             else \<lparr>rs_status = 200, rs_headers = (''content-type'', fi_mime file) # caching,
                    rs_body = JStr (fi_data file)\<rparr>)"

section \<open>The router\<close>

text \<open>A route of another method is refused by the router, as is an unknown path; \<open>GET\<close> routes answer
  \<open>HEAD\<close>, with the same program.\<close>

definition not_allowed :: http_response where
  "not_allowed = \<lparr>rs_status = 405, rs_headers = [], rs_body = JNull\<rparr>"

definition on_get :: "http_request \<Rightarrow> http_response prog \<Rightarrow> http_response prog" where
  "on_get req p = (if rq_method req = ''GET'' \<or> rq_method req = ''HEAD'' then p else Done not_allowed)"

definition on_post :: "http_request \<Rightarrow> http_response prog \<Rightarrow> http_response prog" where
  "on_post req p = (if rq_method req = ''POST'' then p else Done not_allowed)"

definition post_routes :: "'c admin_app \<Rightarrow> http_request \<Rightarrow> arrival \<Rightarrow> (string \<times> http_response prog) list" where
  "post_routes app req now =
     [(''/admin/phase'', set_phase_route app req now),
      (''/admin/rate'', set_rate_route app req now),
      (''/admin/message'', set_message_route app req now),
      (''/admin/start_time'', set_start_time_route app req now),
      (''/admin/open_now'', open_now_route app req now),
      (''/admin/force_maintenance'', force_maintenance_route app req now),
      (''/admin/pause'', pause_route app req now),
      (''/admin/resume'', resume_route app req now),
      (''/admin/fail_open'', fail_open_route app req now),
      (''/admin/recover'', recover_route app req now),
      (''/admin/rules'', set_rules_route app req now),
      (''/admin/ip_binding'', set_ip_binding_route app req now)]"

definition get_routes ::
  "'c admin_app \<Rightarrow> login_draw \<Rightarrow> http_request \<Rightarrow> arrival \<Rightarrow> (string \<times> http_response prog) list" where
  "get_routes app draw req now =
     [(''/admin'', dashboard_page app req now),
      (''/admin/state'', state_json app req now),
      (''/admin/login'', login app draw now),
      (''/admin/callback'', callback app req now),
      (''/admin/logout'', logout app req)]"

definition admin_route :: "'c admin_app \<Rightarrow> login_draw \<Rightarrow> http_request \<Rightarrow> arrival \<Rightarrow> http_response prog" where
  "admin_route app draw req now =
     (let path = pa_normalize app (rq_path req) in
      case map_of (get_routes app draw req now) path of
        Some p \<Rightarrow> on_get req p
      | None \<Rightarrow>
          (case map_of (post_routes app req now) path of
             Some p \<Rightarrow> on_post req p
           | None \<Rightarrow>
               if starts_with path ''/static/'' \<and> path \<noteq> ''/static/''
               then on_get req (Done (static_asset app req (drop 8 path)))
               else Done \<lparr>rs_status = 404, rs_headers = [], rs_body = JNull\<rparr>))"

definition harden_response :: "'c admin_app \<Rightarrow> http_response \<Rightarrow> http_response" where
  "harden_response app r = r\<lparr>rs_headers := apply_hardening (pa_header_check app) (rs_headers r) []\<rparr>"

text \<open>The outermost layer: a request whose clock cannot be read is answered there, before any other
  layer.\<close>

definition admin_serve ::
  "'c admin_app \<Rightarrow> login_draw \<Rightarrow> int option \<Rightarrow> http_request \<Rightarrow> http_response prog" where
  "admin_serve app draw clock req =
     (case Option.bind clock (arrival_new (pa_jiff app)) of
        None \<Rightarrow> Done \<lparr>rs_status = 500, rs_headers = [], rs_body = JNull\<rparr>
      | Some now \<Rightarrow> bind (admin_route app draw req now) (\<lambda>r. Done (harden_response app r)))"

section \<open>The state, from the environment\<close>

text \<open>What the start of the Lambda puts together: the stores over the deployment's names, the table of
  the sessions and the allowlist; the rest are the libraries and what is embedded.\<close>

record admin_names =
  na_jiff :: jiff_env
  na_edge_env :: edge_env
  na_kvs_arn :: string
  na_schedule :: string
  na_json :: json_env
  na_open_function :: string
  na_tokens_table :: string
  na_uuid :: "u64 \<Rightarrow> u8 list \<Rightarrow> string"
  na_allowed :: "string option"
  na_probe :: probe_names

definition deployed_app :: "ledger_cfg \<Rightarrow> admin_names \<Rightarrow> 'c admin_app \<Rightarrow> 'c admin_app" where
  "deployed_app cfg names libs =
     libs\<lparr>pa_store := dynamo_admin_store (na_jiff names) (tb_counters (lc_tables cfg)),
       pa_edge_env := na_edge_env names,
       pa_edge := kvs_store (na_edge_env names) (na_kvs_arn names),
       pa_schedule := scheduler_store (na_schedule names),
       pa_opener := lambda_opener (na_json names) (na_open_function names) (lc_event cfg),
       pa_probe := na_probe names,
       pa_sessions := \<lparr>se_table = na_tokens_table names, se_uuid = na_uuid names\<rparr>,
       pa_event_id := lc_event cfg,
       pa_allowed_emails := allowed_emails_of (na_allowed names),
       pa_jiff := na_jiff names\<rparr>"

section \<open>The ledger\<close>

text \<open>Every route meets the contract of the ledger when its ports do and the sessions have a table of
  their own.\<close>

locale admin_server =
  action_ports cfg "pa_store app" "pa_edge app" "pa_schedule app" "pa_opener app"
  for cfg and app :: "'c admin_app" +
  assumes event: "pa_event_id app = lc_event cfg"
begin

lemma gated_harmless: "(\<And>s. harmless cfg (f s)) \<Longrightarrow> harmless cfg (gated app req now f)"
  unfolding gated_def authed_def load_session_def
  by (intro harmless_bind) (auto intro!: harmless_bind harmless_quiet split: option.split sum.split)

lemma finishing_harmless: "harmless cfg p \<Longrightarrow> harmless cfg (finishing p)"
  unfolding finishing_def by (rule harmless_bind) auto

lemma field_harmless: "(\<And>v. harmless cfg (f v)) \<Longrightarrow> harmless cfg (with_field app req field f)"
  unfolding with_field_def by (auto split: option.split)

lemma store_load_harmless: "harmless cfg (store_load app now)"
  unfolding store_load_def event by (rule harmless_bind [OF load_harmless]) auto

lemma login_harmless:
  assumes "table_apart cfg (se_table (pa_sessions app))"
  shows "harmless cfg (login app draw now)" "harmless cfg (callback app req now)" "harmless cfg (logout app req)"
proof -
  note put = harmless_apart [OF assms]
  show "harmless cfg (login app draw now)"
    unfolding login_def put_pending_def by (intro harmless_bind put) (auto split: sum.split)
  have s: "harmless cfg (open_session app claims now)" for claims
    unfolding open_session_def create_session_def session_id_def Let_def
    by (auto intro!: harmless_bind harmless_bind_ok put harmless_quiet split: sum.split option.split)
  have "harmless cfg (exchange app code pending now)" for code pending
    unfolding exchange_def by (auto intro!: harmless_quiet s split: sum.split option.split)
  then show "harmless cfg (callback app req now)"
    unfolding callback_def take_pending_def by (auto intro!: harmless_bind put split: sum.split option.split)
  show "harmless cfg (logout app req)"
    unfolding logout_def delete_session_def Let_def by (auto intro!: harmless_bind put split: sum.split option.split)
qed

lemma pages_harmless: "harmless cfg (dashboard_page app req now)" "harmless cfg (state_json app req now)"
proof -
  show "harmless cfg (dashboard_page app req now)"
    unfolding dashboard_page_def nonce_from_def Let_def
    by (intro gated_harmless harmless_bind store_load_harmless)
      (auto intro!: harmless_bind harmless_quiet edge_read split: sum.split option.split)
  have "harmless cfg (gated app req now f)" if "\<And>s. harmless cfg (f s)" for f
    using that by (rule gated_harmless)
  show "harmless cfg (state_json app req now)"
    unfolding state_json_def authed_def load_session_def
    by (intro harmless_bind)
      (auto intro!: harmless_bind harmless_quiet store_load_harmless split: sum.split option.split)
qed

lemma post_harmless: "(path, p) \<in> set (post_routes app req now) \<Longrightarrow> harmless cfg p"
  unfolding post_routes_def
  by (auto simp: set_phase_route_def set_rate_route_def set_message_route_def set_start_time_route_def
      open_now_route_def force_maintenance_route_def pause_route_def resume_route_def fail_open_route_def
      recover_route_def set_rules_route_def set_ip_binding_route_def event
      intro!: field_harmless gated_harmless finishing_harmless actions_harmless phase_harmless split: sum.split)

lemma serve_harmless:
  assumes "table_apart cfg (se_table (pa_sessions app))"
  shows "harmless cfg (admin_serve app draw clock req)"
proof -
  have get: "(path, p) \<in> set (get_routes app draw req now) \<Longrightarrow> harmless cfg p" for path p now
    unfolding get_routes_def using login_harmless [OF assms] pages_harmless by auto
  have "harmless cfg (admin_route app draw req now)" for now
    unfolding admin_route_def Let_def on_get_def on_post_def
    using get post_harmless by (auto split: option.split dest!: map_of_SomeD)
  then show ?thesis
    unfolding admin_serve_def by (auto intro!: harmless_bind split: option.split)
qed

end

lemma deployed_ports [simp]:
  "pa_store (deployed_app cfg names libs) = dynamo_admin_store (na_jiff names) (tb_counters (lc_tables cfg))"
  "pa_edge (deployed_app cfg names libs) = kvs_store (na_edge_env names) (na_kvs_arn names)"
  "pa_edge_env (deployed_app cfg names libs) = na_edge_env names"
  "pa_schedule (deployed_app cfg names libs) = scheduler_store (na_schedule names)"
  "pa_opener (deployed_app cfg names libs) = lambda_opener (na_json names) (na_open_function names) (lc_event cfg)"
  "pa_sessions (deployed_app cfg names libs) = \<lparr>se_table = na_tokens_table names, se_uuid = na_uuid names\<rparr>"
  "pa_event_id (deployed_app cfg names libs) = lc_event cfg"
  "pa_jiff (deployed_app cfg names libs) = na_jiff names"
  by (simp_all add: deployed_app_def)

interpretation adm: admin_server cfg "deployed_app cfg names libs" for cfg names libs
  unfolding admin_server_def admin_server_axioms_def deployed_ports
  by (intro conjI act.action_ports_axioms) simp

end
