(* ===== verification/AdminGate.thy ===== *)
theory AdminGate
  imports AdminHttp
begin

text \<open>
  What the control plane does for whom: behind which requests a session stands, how a session comes to
  be, and what every response carries.

  Lemmas: \<open>behind_session\<close> holds of a route whose requests all follow the read of a live session and are
  signed with its email; each action of the operator is signed (\<open>actions_signed\<close>).
\<close>

section \<open>Signed requests\<close>

text \<open>Neither a put nor a delete; an update names nobody else as its author.\<close>

fun signed :: "string \<Rightarrow> req \<Rightarrow> bool" where
  "signed actor (QUpdate t k us c) = (\<forall>v. USet ''last_action_by'' v \<in> set us \<longrightarrow> v = AS actor)"
| "signed actor (QPut t m c) = False"
| "signed actor (QDelete t k b) = False"
| "signed actor _ = True"

abbreviation signs :: "string \<Rightarrow> 'a prog \<Rightarrow> bool" where
  "signs actor \<equiv> confined (signed actor) (\<lambda>_. True)"

lemma signs_guarded:
  "(\<And>v. USet ''last_action_by'' v \<in> set us \<Longrightarrow> v = AS actor) \<Longrightarrow> signs actor (send_guarded t ev us c what)"
  by (auto simp: send_guarded_def split: sum.split sdk_error.split)

lemma audit_author: "USet ''last_action_by'' v \<in> set (audit_clauses jf action actor now) \<longleftrightarrow> v = AS actor"
  by (auto simp: audit_clauses_def)

lemma signs_writes:
  "signs actor (set_phase jf t ev p p' action actor now)"
  "signs actor (set_rate jf t ev expected rate actor now)"
  "signs actor (set_message jf t ev message actor now)"
  "signs actor (set_starts_at jf t ev starts action actor now)"
  "signs actor (set_stored_control jf t ev c c' action actor now)"
  "signs actor (set_rules_audit jf t ev dig n actor now)"
  "signs actor (stamp_action jf t ev action actor now)"
  "signs actor (force_maintenance jf t ev p actor now)"
  unfolding set_phase_def set_rate_def set_message_def set_starts_at_def set_stored_control_def stamped_eq
    force_maintenance_def phase_clauses_def
  by (auto intro!: signs_guarded simp: audit_author attr_names split: option.splits)

lemma signs_fail_open: "signs actor (set_fail_open_until jf t ev until action actor now)"
  unfolding set_fail_open_until_eq
  by (rule confined_any) (auto intro!: signs_guarded simp: audit_author split: sum.split store_error.split)

lemma signs_load: "signs actor (admin_load jf t ev)"
  by (auto simp: admin_load_def split: sum.split option.split)

lemma signs_edge: "signs actor (read_config env arn)" "signs actor (write_config env arn tag gc)"
  by (auto simp: read_config_def kvs_etag_def write_config_def bind_ok_def confined_bind split: sum.split)

lemma signs_rmw: "signs actor (edge_read_modify_write (kvs_store env arn) f)"
  unfolding edge_read_modify_write_def kvs_store_def
  by (auto intro!: confined_bind_ok confined_any signs_edge split: sum.split)

lemma signs_ports:
  "signs actor (sc_set_start_time (scheduler_store n) start)" "signs actor (op_open_now (lambda_opener jenv fn ev))"
  by (auto simp: scheduler_store_def set_start_time_def lambda_opener_def lambda_open_now_def
      split: sum.split option.split)

lemma signs_via [simp]:
  "signs actor (reject e)" "signs actor (require r)"
  "signs actor (via_store p) \<longleftrightarrow> signs actor p" "signs actor (via d q) \<longleftrightarrow> signs actor q"
  by (simp_all add: reject_def require_def via_store_def via_def confined_bind)

lemma signs_loaded: "(\<And>st. signs actor (f st)) \<Longrightarrow> signs actor (loaded (dynamo_admin_store jf t) ev f)"
  unfolding loaded_def
  by (intro confined_bind_ok) (auto simp: dynamo_admin_store_def signs_load split: option.split)

lemma kvs_reads: "es_read_config (kvs_store env arn) = read_config env arn"
  by (simp add: kvs_store_def)

lemmas signs_rules = signs_loaded confined_bind_ok confined_any signs_writes signs_fail_open signs_rmw signs_edge
  signs_ports

lemma actions_signed:
  "signs actor (apply_phase (dynamo_admin_store jf t) ev to actor now)"
  "signs actor (apply_force_maintenance (dynamo_admin_store jf t) ev actor now)"
  "signs actor (apply_rate (dynamo_admin_store jf t) ev rate actor now)"
  "signs actor (apply_pause (dynamo_admin_store jf t) ev actor now)"
  "signs actor (apply_resume (dynamo_admin_store jf t) ev actor now)"
  "signs actor (apply_message (dynamo_admin_store jf t) ev message actor now)"
  "signs actor (apply_fail_open (dynamo_admin_store jf t) (kvs_store env arn) ev minutes actor now)"
  "signs actor (apply_recover (dynamo_admin_store jf t) (kvs_store env arn) ev actor now)"
  "signs actor (apply_start_time (dynamo_admin_store jf t) (scheduler_store n) zones ev start tz actor now)"
  "signs actor (apply_open_now (dynamo_admin_store jf t) (lambda_opener jenv fn ev') ev actor now)"
  "signs actor (apply_ip_binding (dynamo_admin_store jf t) (kvs_store env arn) ev on actor now)"
  "signs actor (apply_set_rules (dynamo_admin_store jf t) env (kvs_store env' arn) ev rules actor now)"
  unfolding apply_phase_def apply_force_maintenance_def apply_rate_def apply_pause_def apply_resume_def
    apply_control_def apply_message_def apply_fail_open_def apply_recover_def apply_start_time_def
    apply_open_now_def apply_ip_binding_def apply_set_rules_def Let_def
  by (auto intro!: signs_rules simp: kvs_reads split: option.split sum.split)

section \<open>Behind a session\<close>

definition session_get :: "'c admin_app \<Rightarrow> string \<Rightarrow> req" where
  "session_get app i = QGet (se_table (pa_sessions app)) (key_build (KOidcSession i)) False"

definition behind_session :: "'c admin_app \<Rightarrow> http_request \<Rightarrow> arrival \<Rightarrow> 'a prog \<Rightarrow> bool" where
  "behind_session app req now p \<longleftrightarrow>
     (\<forall>rs q. q \<in> asked p rs \<longrightarrow>
        (\<exists>i. session_id_from app req = Some i \<and> (\<exists>qs. fst (play p rs) = session_get app i # qs)
          \<and> (q = session_get app i
             \<or> (\<exists>row session rs'. rs = RGet (Inr (Some row)) # rs'
                  \<and> session_from (Some row) (ar_epoch_seconds now) = Some session
                  \<and> signed (an_email session) q))))"

lemma behind_Done [simp]: "behind_session app req now (Done x)"
  by (simp add: behind_session_def)

lemma play_GetItem: "fst (play (GetItem t k c h) rs) \<noteq> [] \<Longrightarrow> \<exists>qs. fst (play (GetItem t k c h) rs) = QGet t k c # qs"
  by (auto simp: GetItem_def split: list.splits option.splits prod.splits)

lemma behind_authed:
  assumes "f None = Done x" "\<And>s. signs (an_email s) (f (Some s))"
  shows "behind_session app req now (bind (authed app req now) f)"
proof (cases "session_id_from app req")
  case None
  then show ?thesis
    by (simp add: authed_def assms(1))
next
  case (Some i)
  let ?h = "\<lambda>r. f (case r of Inl _ \<Rightarrow> None | Inr v \<Rightarrow> session_from v (ar_epoch_seconds now))"
  have p: "bind (authed app req now) f =
      GetItem (se_table (pa_sessions app)) (key_build (KOidcSession i)) False ?h"
    by (simp add: authed_def Some load_session_def) (auto intro!: arg_cong [where f = "GetItem _ _ _"] split: sum.split)
  have "\<exists>row session rs'. rs = RGet (Inr (Some row)) # rs'
      \<and> session_from (Some row) (ar_epoch_seconds now) = Some session \<and> signed (an_email session) q"
    if q: "q \<in> asked (?h r) rs'" "rs = RGet r # rs'" for r rs' rs q
  proof -
    obtain session where s: "(case r of Inl _ \<Rightarrow> None | Inr v \<Rightarrow> session_from v (ar_epoch_seconds now)) = Some session"
      using q(1) assms(1) by (cases "case r of Inl _ \<Rightarrow> None | Inr v \<Rightarrow> session_from v (ar_epoch_seconds now)") auto
    then obtain row where r: "r = Inr (Some row)"
      by (cases r) (auto simp: session_from_def split: option.splits)
    have "signed (an_email session) q"
      using confined_asked [OF assms(2)] q(1) s by auto
    then show ?thesis
      using s q(2) r by simp
  qed
  note alive = this
  show ?thesis
    unfolding behind_session_def p
  proof (intro allI impI exI conjI)
    fix rs q assume q: "q \<in> asked (GetItem (se_table (pa_sessions app)) (key_build (KOidcSession i)) False ?h) rs"
    show "session_id_from app req = Some i" by (rule Some)
    have "fst (play (GetItem (se_table (pa_sessions app)) (key_build (KOidcSession i)) False ?h) rs) \<noteq> []"
      using q by (auto simp: asked_def)
    from play_GetItem [OF this] show "fst (play (GetItem (se_table (pa_sessions app)) (key_build (KOidcSession i)) False ?h) rs)
        = session_get app i # tl (fst (play (GetItem (se_table (pa_sessions app)) (key_build (KOidcSession i)) False ?h) rs))"
      unfolding session_get_def by (metis list.sel(3))
    obtain r rs' where r: "rs = RGet r # rs'" "q = session_get app i \<or> q \<in> asked (?h r) rs'"
      using q unfolding asked_ops(1) session_get_def by blast
    show "q = session_get app i \<or> (\<exists>row session rs'. rs = RGet (Inr (Some row)) # rs'
        \<and> session_from (Some row) (ar_epoch_seconds now) = Some session \<and> signed (an_email session) q)"
      using r(2) alive [OF _ r(1)] by blast
  qed
qed

lemma behind_gated:
  "(\<And>s. signs (an_email s) (f s)) \<Longrightarrow> behind_session app req now (gated app req now f)"
  unfolding gated_def by (rule behind_authed) simp_all

lemma behind_field:
  "(\<And>v. behind_session app req now (f v)) \<Longrightarrow> behind_session app req now (with_field app req field f)"
  by (simp add: with_field_def split: option.split)

lemma play_settled: "fst (play (bind p (\<lambda>r. Done (g r))) rs) = fst (play p rs)"
proof (induction p arbitrary: rs rule: prog_induct)
  case (Ask q k)
  have "fst (play (bind p (\<lambda>r. Done (g r))) rs') = fst (play p rs')" if "k r = Some p" for r p rs'
    using Ask [OF that] .
  then show ?case
    by (cases rs) (auto split: option.split prod.split simp: option.map_comp comp_def, metis fst_conv)
qed simp

lemma asked_settle: "asked (bind p (\<lambda>r. Done (g r))) rs = asked p rs"
  by (simp add: asked_def play_settled)

lemma behind_settled:
  "behind_session app req now p \<Longrightarrow> behind_session app req now (bind p (\<lambda>r. Done (g r)))"
  by (simp add: behind_session_def play_settled asked_settle)

lemma signs_finishing: "signs actor p \<Longrightarrow> signs actor (finishing p)"
  by (simp add: finishing_def confined_bind)

section \<open>The routes\<close>

lemma signs_view: "ad_load (pa_store app) = admin_load jf t \<Longrightarrow> signs actor (store_load app now)"
  by (simp add: store_load_def confined_bind) (rule signs_load)

lemma behind_pages:
  fixes app :: "'c admin_app"
  assumes "ad_load (pa_store app) = admin_load jf t" "pa_edge app = kvs_store env arn"
  shows "behind_session app req now (dashboard_page app req now)" "behind_session app req now (state_json app req now)"
proof -
  have n: "signs a (nonce_from b64)" for a b64
    by (simp add: nonce_from_def split: option.split)
  show "behind_session app req now (dashboard_page app req now)"
    unfolding dashboard_page_def Let_def
    by (rule behind_gated)
      (auto intro!: confined_any signs_view [OF assms(1)] n signs_edge simp: assms(2) kvs_reads
        split: sum.split option.split)
  show "behind_session app req now (state_json app req now)"
    unfolding state_json_def
    by (rule behind_authed) (auto intro!: confined_any signs_view [OF assms(1)])
qed

lemma behind_deployed:
  fixes libs :: "'c admin_app"
  defines "app \<equiv> \<lambda>cfg names. deployed_app cfg names libs"
  shows "behind_session (app cfg names) req now (dashboard_page (app cfg names) req now)"
    and "behind_session (app cfg names) req now (state_json (app cfg names) req now)"
  unfolding app_def
  by (rule behind_pages [where jf = "na_jiff names" and t = "tb_counters (lc_tables cfg)"
        and env = "na_edge_env names" and arn = "na_kvs_arn names"]; simp add: dynamo_admin_store_def)+

lemma behind_posts:
  assumes "(path, p) \<in> set (post_routes (deployed_app cfg names libs) req now)"
  shows "behind_session (deployed_app cfg names libs) req now p"
  using assms unfolding post_routes_def
  by (auto simp: set_phase_route_def set_rate_route_def set_message_route_def set_start_time_route_def
      open_now_route_def force_maintenance_route_def pause_route_def resume_route_def fail_open_route_def
      recover_route_def set_rules_route_def set_ip_binding_route_def
      intro!: behind_field behind_gated signs_finishing actions_signed split: sum.split)

text \<open>The requests of the login and the logout themselves.\<close>

fun login_request :: "string \<Rightarrow> req \<Rightarrow> bool" where
  "login_request tokens (QPut t m c) = (t = tokens)"
| "login_request tokens (QDelete t k b) = (t = tokens)"
| "login_request tokens (QToken c v) = True"
| "login_request tokens (QRand n) = True"
| "login_request tokens _ = False"

lemma login_requests:
  "confined (login_request (se_table (pa_sessions app))) (\<lambda>_. True) (login app draw now)"
  "confined (login_request (se_table (pa_sessions app))) (\<lambda>_. True) (callback app req now)"
  "confined (login_request (se_table (pa_sessions app))) (\<lambda>_. True) (logout app req)"
  by (auto simp: login_def put_pending_def callback_def take_pending_def exchange_def open_session_def
      create_session_def session_id_def logout_def delete_session_def Let_def confined_bind bind_ok_def
      split: sum.split option.split)

text \<open>Every request of a route follows a live session or belongs to a login.\<close>

lemma route_requests:
  fixes libs :: "'c admin_app"
  assumes "q \<in> asked (admin_route (deployed_app cfg names libs) draw req now) rs"
    and "\<not> login_request (na_tokens_table names) q"
  shows "behind_session (deployed_app cfg names libs) req now (admin_route (deployed_app cfg names libs) draw req now)"
proof -
  let ?app = "deployed_app cfg names libs"
  have out: False if "confined (login_request (se_table (pa_sessions ?app))) (\<lambda>_. True) p" "q \<in> asked p rs"
    for p :: "http_response prog"
    using confined_asked [OF that] assms(2) by simp
  have get: "behind_session ?app req now p" if "(path, p) \<in> set (get_routes ?app draw req now)" "q \<in> asked p rs" for path p
    using that(1)
  proof (simp add: get_routes_def, elim disjE conjE)
    assume "p = dashboard_page ?app req now"
    then show ?thesis
      by (simp add: behind_deployed)
  next
    assume "p = state_json ?app req now"
    then show ?thesis
      by (simp add: behind_deployed)
  qed (use out that(2) login_requests in blast)+
  show ?thesis
    using assms(1) get behind_posts
    unfolding admin_route_def Let_def on_get_def on_post_def
    by (auto split: option.split option.splits if_splits dest!: map_of_SomeD)
qed

section \<open>An example request\<close>

text \<open>Small stand-ins for the libraries: a cookie header that is one value of both cookies, a provider that
  verifies one identity, templates that render nothing.\<close>

definition ex_cloud :: cloud where
  "ex_cloud = \<lparr>cd_describe_table = (\<lambda>_. Late), cd_describe_limits = Late, cd_get_account = Late,
     cd_get_concurrency = (\<lambda>_. Late), cd_get_schedule = (\<lambda>_. Late), cd_get_parameter = (\<lambda>_. Late),
     cd_get_distribution = (\<lambda>_. Late), cd_get_cache_policy = (\<lambda>_. Late)\<rparr>"

definition ex_probe_names :: probe_names where
  "ex_probe_names = \<lparr>nm_tables = \<lparr>tn_counters = ''C'', tn_prequeue = ''Q'', tn_positions = ''P'', tn_tokens = ''T''\<rparr>,
     nm_assign_function = ''f'', nm_open_schedule = ''n'', nm_controller_schedule = ''c'', nm_edge_parameter = ''p''\<rparr>"

definition ex_admin_zones :: "string zone_env" where
  "ex_admin_zones = \<lparr>zo_known = (\<lambda>_. False), zo_civil = (\<lambda>_. None), zo_compatible = (\<lambda>_ _. None),
     zo_local_minutes = (\<lambda>_ _. None)\<rparr>"

definition ex_libs :: "string admin_app" where
  "ex_libs = \<lparr>pa_store = dynamo_admin_store ex_jiff ''C'', pa_edge_env = ex_edge_env,
     pa_edge = kvs_store ex_edge_env ''a'', pa_schedule = scheduler_store ''n'', pa_zones = ex_admin_zones,
     pa_opener = \<lparr>op_open_now = Done (Inr NowOpened)\<rparr>, pa_probe = ex_probe_names, pa_cloud = (\<lambda>_. ex_cloud),
     pa_pointer = (\<lambda>_. Inl []), pa_gate_late = (\<lambda>_. True),
     pa_warm_targets = \<lparr>tg_write_units = 0, tg_read_units = 0\<rparr>,
     pa_texts = \<lparr>rt_rate = (\<lambda>_. []), rt_instant = (\<lambda>_. None)\<rparr>,
     pa_sessions = \<lparr>se_table = ''T'', se_uuid = (\<lambda>_ _. ''s'')\<rparr>,
     pa_oidc = \<lparr>oi_exchange_error = None, oi_id_token = Some,
       oi_claims = (\<lambda>tok nonce. Inr \<lparr>cl_subject = ''u'', cl_email = Some ''Op@x''\<rparr>)\<rparr>,
     pa_event_id = ''e'', pa_allowed_emails = [],
     pa_cookies = (\<lambda>raw. [Inr (SESSION_COOKIE, raw), Inr (STATE_COOKIE, raw)]),
     pa_form = (\<lambda>_ _. None), pa_rejection = \<lparr>rs_status = 400, rs_headers = [], rs_body = JNull\<rparr>,
     pa_debug = id, pa_b64 = (\<lambda>_. ''n''), pa_render = (\<lambda>_. Inr []), pa_view_json = (\<lambda>_. JNull),
     pa_assets = (\<lambda>_. None), pa_header_check = (\<lambda>_. True), pa_jiff = ex_jiff, pa_normalize = id\<rparr>"

definition ex_admin_names :: admin_names where
  "ex_admin_names = \<lparr>na_jiff = ex_jiff, na_edge_env = ex_edge_env, na_kvs_arn = ''a'', na_schedule = ''n'',
     na_json = \<lparr>je_text = (\<lambda>_. []), je_parse = (\<lambda>_. None)\<rparr>, na_open_function = ''f'',
     na_tokens_table = ''T'', na_uuid = (\<lambda>_ _. ''s''), na_allowed = Some ''op@x'',
     na_probe = ex_probe_names\<rparr>"

definition ex_admin_cfg :: ledger_cfg where
  "ex_admin_cfg = \<lparr>lc_tables = \<lparr>tb_counters = ''C'', tb_prequeue = ''Q'', tb_positions = ''P''\<rparr>,
     lc_event = ''e'', lc_hmac = (\<lambda>_ _. 0)\<rparr>"

definition ex_draw :: login_draw where
  "ex_draw = \<lparr>ld_auth_url = ''u'', ld_csrf = ''c'', ld_nonce = ''n'', ld_verifier = ''v''\<rparr>"

definition ex_admin_request :: "string \<Rightarrow> string \<Rightarrow> http_request" where
  "ex_admin_request m path = \<lparr>rq_method = m, rq_path = path, rq_query = (\<lambda>_. Some ''s''),
     rq_header = (\<lambda>h. if h = ''cookie'' then Some ''s'' else None), rq_body = None\<rparr>"

abbreviation ex_app :: "string admin_app" where
  "ex_app \<equiv> deployed_app ex_admin_cfg ex_admin_names ex_libs"

lemma ex_arrival: "arrival_new ex_jiff 5000000000 = Some ex_now"
  by (simp add: arrival_new_def ex_jiff_def ex_now_def u64_try_from_def)

lemma ex_cookie:
  "session_id_from ex_app (ex_admin_request m path) = Some ''s''"
  "request_cookie ex_app (ex_admin_request m path) STATE_COOKIE = Some ''s''"
  by (simp_all add: session_id_from_def request_cookie_def ex_admin_request_def deployed_app_def ex_libs_def
      SESSION_COOKIE_def STATE_COOKIE_def)

definition ex_session :: admin_session where
  "ex_session = \<lparr>an_subject = ''u'', an_email = ''op''\<rparr>"

section \<open>No session, no effect\<close>

text \<open>C16: whatever a request to the control plane makes the server do follows a live session: apart from
  the writes of a login or logout to the table of the sessions, the call to the identity provider and
  randomness, the first request of the server reads the session of the request's cookie, and any other
  one is made only after that read returned a row that is still before its deadline.  An update
  that names an author names the email of that very session, and no other table is put to or deleted
  from at all.\<close>

theorem no_session_no_effect:
  fixes libs :: "'c admin_app"
  assumes "q \<in> asked (admin_serve (deployed_app cfg names libs) draw clock req) rs"
    and "\<not> login_request (na_tokens_table names) q"
  shows "\<exists>now i qs. Option.bind clock (arrival_new (na_jiff names)) = Some now
     \<and> session_id_from (deployed_app cfg names libs) req = Some i
     \<and> fst (play (admin_serve (deployed_app cfg names libs) draw clock req) rs)
         = QGet (na_tokens_table names) (key_build (KOidcSession i)) False # qs
     \<and> (q = QGet (na_tokens_table names) (key_build (KOidcSession i)) False
        \<or> (\<exists>row session rs'. rs = RGet (Inr (Some row)) # rs'
             \<and> session_from (Some row) (ar_epoch_seconds now) = Some session
             \<and> signed (an_email session) q))"
proof -
  let ?app = "deployed_app cfg names libs"
  obtain now where now: "Option.bind clock (arrival_new (na_jiff names)) = Some now"
    using assms(1) by (cases "Option.bind clock (arrival_new (na_jiff names))") (simp_all add: admin_serve_def)
  then have serve: "admin_serve ?app draw clock req
      = bind (admin_route ?app draw req now) (\<lambda>r. Done (harden_response ?app r))"
    by (simp add: admin_serve_def)
  have q: "q \<in> asked (admin_route ?app draw req now) rs"
    using assms(1) unfolding serve asked_settle .
  show ?thesis
    using route_requests [OF q assms(2)] q now
    unfolding behind_session_def serve play_settled session_get_def deployed_ports session_store.select_convs
    by blast
qed

theorem no_session_no_effect_witness:
  "signed ''op'' (QUpdate ''C'' (key_build (KEvent ''e''))
      (phase_clauses ex_jiff Maintenance ForceMaintenance ''op'' ex_now) (Some (phase_guard Idle)))
   \<and> QUpdate ''C'' (key_build (KEvent ''e''))
      (phase_clauses ex_jiff Maintenance ForceMaintenance ''op'' ex_now) (Some (phase_guard Idle))
     \<in> asked (admin_serve ex_app ex_draw (Some 5000000000) (ex_admin_request ''POST'' ''/admin/force_maintenance''))
         [RGet (Inr (Some (session_row ''s'' ex_session ex_now))), RGet (Inr (Some ex_before)),
          RUpdate (Inr ex_before)]"
    (is "_ \<and> ?q \<in> asked ?p ?rs")
proof -
  have "\<not> saturating_add 5 SESSION_TTL_SECS \<le> 5"
    by (simp add: saturating_add_def SESSION_TTL_SECS_def)
  then have s: "session_from (Some (session_row ''s'' ex_session ex_now)) 5 = Some ex_session"
    using session_row_read [of "''s''" ex_session ex_now 5] by (simp add: ex_now_def)
  have r: "admin_route ex_app ex_draw (ex_admin_request ''POST'' ''/admin/force_maintenance'') ex_now
      = force_maintenance_route ex_app (ex_admin_request ''POST'' ''/admin/force_maintenance'') ex_now"
    by (simp add: admin_route_def get_routes_def post_routes_def on_post_def ex_admin_request_def
        deployed_app_def ex_libs_def)
  have names: "na_jiff ex_admin_names = ex_jiff" "na_tokens_table ex_admin_names = ''T''"
    "tb_counters (lc_tables ex_admin_cfg) = ''C''" "lc_event ex_admin_cfg = ''e''"
    by (simp_all add: ex_admin_names_def ex_admin_cfg_def)
  have e: "ar_epoch_seconds ex_now = 5" "an_email ex_session = ''op''"
    by (simp_all add: ex_now_def ex_session_def)
  have q: "?q \<in> asked ?p ?rs"
    by (simp add: admin_serve_def names ex_arrival asked_settle r force_maintenance_route_def gated_def authed_def
        ex_cookie load_session_def asked_ops s e finishing_def apply_force_maintenance_def asked_load
        force_maintenance_def ex_control)
  obtain row session rs' where "?rs = RGet (Inr (Some row)) # rs'"
      "session_from (Some row) 5 = Some session" "signed (an_email session) ?q"
    using no_session_no_effect [OF q] by (auto simp: names ex_arrival e)
  then have "signed ''op'' ?q"
    using s e by auto
  then show ?thesis
    using q by blast
qed

section \<open>How a session comes to be\<close>

lemma session_put_refused:
  "signed actor (QPut t m c) \<Longrightarrow> False" "session_get app i \<noteq> QPut t m c"
  by (simp_all add: session_get_def)

lemma allowed_nonempty: "e \<in> set (allowed_emails_of var) \<Longrightarrow> e \<noteq> []"
  by (auto simp: allowed_emails_of_def)

lemma behind_no_put:
  assumes "behind_session app req now p" "QPut t m c \<in> asked p rs"
  shows False
  using assms unfolding behind_session_def session_get_def by fastforce

lemma pending_row_key: "pending_row state pending now TOKENS_KEY_ATTR = Some (AS (snd (key_build (KPkceTransaction state))))"
  by (simp add: pending_row_def keyed_item_def key_build_def TOKENS_TTL_ATTR_def TOKENS_KEY_ATTR_def)

lemma asked_Rand:
  "q \<in> asked (RandFill n h) rs \<longleftrightarrow>
     (\<exists>r rs'. rs = RRand r # rs' \<and> fill_ok n r \<and> (q = QRand n \<or> q \<in> asked (h r) rs'))"
  by (simp add: prog_defs asked_Ask ex_resp) blast

lemma exchange_put:
  assumes "QPut t m c \<in> asked (exchange app code pending now) rs"
  shows "\<exists>tok idt claims rs'. oi_exchange_error (pa_oidc app) = None \<and> rs = RText (Inr tok) # rs'
     \<and> oi_id_token (pa_oidc app) tok = Some idt \<and> oi_claims (pa_oidc app) idt (pl_nonce pending) = Inr claims
     \<and> QPut t m c \<in> asked (open_session app claims now) rs'"
proof -
  have e: "oi_exchange_error (pa_oidc app) = None"
    using assms by (auto simp: exchange_def split: option.splits)
  then obtain r rs' where r: "rs = RText r # rs'"
    using assms by (auto simp: exchange_def asked_ops)
  show ?thesis
    using assms by (cases r) (auto simp: exchange_def e r asked_ops split: option.splits sum.splits)
qed

lemma open_session_put:
  assumes "QPut t m c \<in> asked (open_session app claims now) rs"
  shows "\<exists>bytes r rs'. rs = RRand (Some bytes) # RPut r # rs' \<and> fill_ok 10 (Some bytes)
     \<and> t = se_table (pa_sessions app) \<and> c = None
     \<and> m = session_row (se_uuid (pa_sessions app) (ar_epoch_millis now) bytes)
             \<lparr>an_subject = cl_subject claims, an_email = or_else (cl_email claims) []\<rparr> now"
proof -
  have a: "to_ascii_lowercase (or_else (cl_email claims) []) \<in> set (pa_allowed_emails app)"
    using assms by (auto simp: open_session_def Let_def split: if_splits)
  obtain r rs' where r: "rs = RRand r # rs'" "fill_ok 10 r"
    using assms a by (auto simp: open_session_def Let_def create_session_def session_id_def bind_ok_def asked_Rand)
  obtain bytes where b: "r = Some bytes"
    using assms a
    by (cases r) (auto simp: open_session_def Let_def create_session_def session_id_def bind_ok_def asked_Rand r(1))
  obtain w rs'' where w: "rs' = RPut w # rs''"
    using assms a
    by (auto simp: open_session_def Let_def create_session_def session_id_def bind_ok_def asked_Rand r(1) b asked_ops)
  show ?thesis
    using assms a r
    by (cases w)
      (auto simp: open_session_def Let_def create_session_def session_id_def bind_ok_def asked_Rand b w asked_ops)
qed

text \<open>The put of a session is the end of the callback.\<close>

definition callback_ran ::
  "'c admin_app \<Rightarrow> http_request \<Rightarrow> arrival \<Rightarrow> string \<Rightarrow> item \<Rightarrow> condition option \<Rightarrow> resp list \<Rightarrow> req list \<Rightarrow> bool" where
  "callback_ran app req now t m c rs qs \<longleftrightarrow>
     (\<exists>code state row pending tok idt claims bytes email rs'.
        rq_query req ''code'' = Some code \<and> rq_query req ''state'' = Some state
        \<and> request_cookie app req STATE_COOKIE = Some state
        \<and> rs = RDelete (Inr (Some row)) # RText (Inr tok) # RRand (Some bytes) # rs'
        \<and> qs = [QDelete (se_table (pa_sessions app)) (key_build (KPkceTransaction state)) True,
                 QToken code (pl_verifier pending), QRand 10, QPut t m c]
        \<and> pending_login_from (Some row) (ar_epoch_seconds now) = Some pending
        \<and> oi_id_token (pa_oidc app) tok = Some idt
        \<and> oi_claims (pa_oidc app) idt (pl_nonce pending) = Inr claims
        \<and> cl_email claims = Some email \<and> to_ascii_lowercase email \<in> set (pa_allowed_emails app)
        \<and> t = se_table (pa_sessions app) \<and> c = None
        \<and> m = session_row (se_uuid (pa_sessions app) (ar_epoch_millis now) bytes)
                \<lparr>an_subject = cl_subject claims, an_email = email\<rparr> now)"

lemma callback_put:
  assumes "QPut t m c \<in> asked (callback app req now) rs" "[] \<notin> set (pa_allowed_emails app)"
  shows "callback_ran app req now t m c rs (fst (play (callback app req now) rs))"
proof -
  obtain code state where cs: "rq_query req ''code'' = Some code" "rq_query req ''state'' = Some state"
      "request_cookie app req STATE_COOKIE = Some state"
    using assms(1) by (auto simp: callback_def split: option.splits if_splits)
  obtain r rs1 where r: "rs = RDelete r # rs1"
    using assms(1) unfolding callback_def cs take_pending_def by (auto simp: asked_ops)
  obtain row pending where p: "rs = RDelete (Inr (Some row)) # rs1"
      "pending_login_from (Some row) (ar_epoch_seconds now) = Some pending"
      "QPut t m c \<in> asked (exchange app code pending now) rs1"
  proof (cases r)
    case (Inl e)
    then show ?thesis
      using assms(1) by (simp add: callback_def cs take_pending_def asked_ops r)
  next
    case (Inr a)
    then obtain pending where "pending_login_from a (ar_epoch_seconds now) = Some pending"
        "QPut t m c \<in> asked (exchange app code pending now) rs1"
      using assms(1) by (auto simp: callback_def cs take_pending_def asked_ops r split: option.splits)
    then show ?thesis
      using that r Inr by (cases a) (simp_all add: pending_login_from_def)
  qed
  obtain tok idt claims rs2 where x: "oi_exchange_error (pa_oidc app) = None" "rs1 = RText (Inr tok) # rs2"
      "oi_id_token (pa_oidc app) tok = Some idt" "oi_claims (pa_oidc app) idt (pl_nonce pending) = Inr claims"
      "QPut t m c \<in> asked (open_session app claims now) rs2"
    using exchange_put [OF p(3)] by blast
  define email where "email = or_else (cl_email claims) []"
  have some: "cl_email claims = Some email"
    using x(5) assms(2) by (cases "cl_email claims") (auto simp: email_def open_session_def or_else_def Let_def to_ascii_lowercase_def split: if_splits)
  have a: "to_ascii_lowercase email \<in> set (pa_allowed_emails app)"
    using x(5) by (auto simp: open_session_def email_def Let_def split: if_splits)
  obtain bytes r rs3 where o: "rs2 = RRand (Some bytes) # RPut r # rs3" "fill_ok 10 (Some bytes)"
      "t = se_table (pa_sessions app)" "c = None"
      "m = session_row (se_uuid (pa_sessions app) (ar_epoch_millis now) bytes)
             \<lparr>an_subject = cl_subject claims, an_email = email\<rparr> now"
    using open_session_put [OF x(5)] unfolding email_def by blast
  have "fst (play (callback app req now) rs) =
      [QDelete (se_table (pa_sessions app)) (key_build (KPkceTransaction state)) True,
       QToken code (pl_verifier pending), QRand 10, QPut t m c]"
    using a o(2)
    by (simp add: callback_def cs take_pending_def p(1,2) exchange_def x(1-4) open_session_def Let_def
        email_def [symmetric] create_session_def session_id_def bind_ok_def o(1,3-5) split: sum.split)
  then show ?thesis
    unfolding callback_ran_def using cs p(1,2) x(2-4) a some o by blast
qed

lemma asked_on_get: "q \<in> asked (on_get req p) rs \<Longrightarrow> on_get req p = p \<and> q \<in> asked p rs"
  by (auto simp: on_get_def split: if_splits)

lemma asked_on_post: "q \<in> asked (on_post req p) rs \<Longrightarrow> q \<in> asked p rs"
  by (auto simp: on_post_def split: if_splits)

text \<open>The only routes that put an item are the two of the login.\<close>

lemma route_puts:
  fixes libs :: "'c admin_app"
  assumes app_def: "app = deployed_app cfg names libs"
    and "QPut t m c \<in> asked (admin_route app draw req now) rs"
  shows "pa_normalize app (rq_path req) = ''/admin/login'' \<and> admin_route app draw req now = login app draw now
     \<or> pa_normalize app (rq_path req) = ''/admin/callback'' \<and> admin_route app draw req now = callback app req now"
proof -
  let ?path = "pa_normalize app (rq_path req)"
  have pages: False if "QPut t m c \<in> asked (dashboard_page app req now) rs \<or> QPut t m c \<in> asked (state_json app req now) rs"
    using that behind_no_put [OF behind_deployed(1)] behind_no_put [OF behind_deployed(2)]
    unfolding app_def by blast
  have out: "QPut t m c \<notin> asked (logout app req) rs"
    by (auto simp: logout_def delete_session_def Let_def asked_ops split: option.split sum.splits)
  show ?thesis
  proof (cases "map_of (get_routes app draw req now) ?path")
    case (Some p)
    then have "admin_route app draw req now = p" "QPut t m c \<in> asked p rs" "(?path, p) \<in> set (get_routes app draw req now)"
      using assms(2) asked_on_get [of "QPut t m c" req p rs] by (auto simp: admin_route_def dest: map_of_SomeD)
    then show ?thesis
      using pages out unfolding get_routes_def by auto
  next
    case None
    then obtain p where p: "map_of (post_routes app req now) ?path = Some p" "QPut t m c \<in> asked (on_post req p) rs"
      using assms(2) by (auto simp: admin_route_def Let_def on_get_def split: option.splits if_splits)
    show ?thesis
      using behind_no_put [OF behind_posts asked_on_post [OF p(2)]] map_of_SomeD [OF p(1)] unfolding app_def by blast
  qed
qed

text \<open>C17: a session row is written only at the end of a complete login: the request is the callback, its
  \<open>state\<close> is the one in the browser's cookie, it names a pending login that this very request deleted
  (so no other request can complete the same login) and that was before its deadline; the code was
  redeemed with that login's verifier, the ID token verified for that login's nonce, and the
  email of its claims, which exists, is on the allowlist; and the row holds exactly that identity.\<close>

theorem login_completes:
  fixes libs :: "'c admin_app"
  assumes "QPut t m c \<in> asked (admin_serve (deployed_app cfg names libs) draw clock req) rs"
    and "m TOKENS_KEY_ATTR = Some (AS (snd (key_build (KOidcSession i))))"
  shows "\<exists>now. Option.bind clock (arrival_new (na_jiff names)) = Some now
     \<and> pa_normalize (deployed_app cfg names libs) (rq_path req) = ''/admin/callback''
     \<and> callback_ran (deployed_app cfg names libs) req now t m c rs
         (fst (play (admin_serve (deployed_app cfg names libs) draw clock req) rs))"
proof -
  let ?app = "deployed_app cfg names libs"
  obtain now where now: "Option.bind clock (arrival_new (na_jiff names)) = Some now"
    using assms(1) by (cases "Option.bind clock (arrival_new (na_jiff names))") (simp_all add: admin_serve_def)
  then have serve: "admin_serve ?app draw clock req
      = bind (admin_route ?app draw req now) (\<lambda>r. Done (harden_response ?app r))"
    by (simp add: admin_serve_def)
  have q: "QPut t m c \<in> asked (admin_route ?app draw req now) rs"
    using assms(1) unfolding serve asked_settle .
  have "QPut t m c \<notin> asked (login ?app draw now) rs"
  proof
    assume "QPut t m c \<in> asked (login ?app draw now) rs"
    moreover have "confined (\<lambda>q. \<forall>t m c. q = QPut t m c \<longrightarrow> (\<exists>pending. m = pending_row (ld_csrf draw) pending now))
        (\<lambda>_. True) (login ?app draw now)"
      by (auto simp: login_def put_pending_def split: sum.split)
    ultimately obtain pending where "m = pending_row (ld_csrf draw) pending now"
      using confined_asked by blast
    then show False
      using assms(2) by (simp add: pending_row_key key_build_def)
  qed
  then have c: "pa_normalize ?app (rq_path req) = ''/admin/callback''"
      "admin_route ?app draw req now = callback ?app req now"
    using route_puts [OF refl q] q by auto
  have "[] \<notin> set (pa_allowed_emails ?app)"
    using allowed_nonempty by (auto simp: deployed_app_def)
  then show ?thesis
    unfolding serve play_settled using now c callback_put [OF q [unfolded c(2)]] by simp
qed

definition ex_identity :: admin_session where
  "ex_identity = \<lparr>an_subject = ''u'', an_email = ''Op@x''\<rparr>"

definition ex_login_script :: "resp list" where
  "ex_login_script =
     [RDelete (Inr (Some (pending_row ''s'' \<lparr>pl_verifier = ''v'', pl_nonce = ''n''\<rparr> ex_now))),
      RText (Inr ''t''), RRand (Some (replicate 10 0)), RPut (Inr ())]"

theorem login_completes_witness:
  "QPut ''T'' (session_row ''s'' ex_identity ex_now) None
     \<in> asked (admin_serve ex_app ex_draw (Some 5000000000) (ex_admin_request ''GET'' ''/admin/callback'')) ex_login_script
   \<and> callback_ran ex_app (ex_admin_request ''GET'' ''/admin/callback'') ex_now ''T'' (session_row ''s'' ex_identity ex_now)
       None ex_login_script
       (fst (play (admin_serve ex_app ex_draw (Some 5000000000) (ex_admin_request ''GET'' ''/admin/callback''))
          ex_login_script))"
    (is "?put \<in> asked ?p _ \<and> _")
proof -
  have d: "\<not> saturating_add 5 PKCE_TTL_SECS \<le> 5"
    by (simp add: saturating_add_def PKCE_TTL_SECS_def)
  have r: "admin_route ex_app ex_draw (ex_admin_request ''GET'' ''/admin/callback'') ex_now
      = callback ex_app (ex_admin_request ''GET'' ''/admin/callback'') ex_now"
    by (simp add: admin_route_def get_routes_def on_get_def ex_admin_request_def deployed_app_def ex_libs_def)
  have names: "na_jiff ex_admin_names = ex_jiff" "na_tokens_table ex_admin_names = ''T''"
    "pa_oidc ex_app = pa_oidc ex_libs" "na_uuid ex_admin_names = (\<lambda>_ _. ''s'')"
    by (simp_all add: ex_admin_names_def deployed_app_def)
  have oidc: "oi_exchange_error (pa_oidc ex_libs) = None" "oi_id_token (pa_oidc ex_libs) ''t'' = Some ''t''"
    "oi_claims (pa_oidc ex_libs) ''t'' ''n'' = Inr \<lparr>cl_subject = ''u'', cl_email = Some ''Op@x''\<rparr>"
    by (simp_all add: ex_libs_def)
  have e: "ar_epoch_seconds ex_now = 5"
    by (simp add: ex_now_def)
  have allowed: "to_ascii_lowercase ''Op@x'' \<in> set (pa_allowed_emails ex_app)"
    unfolding deployed_app_def ex_admin_names_def ex_libs_def ex_admin_cfg_def
    by (simp add: allowed_emails_of_def) code_simp
  have query: "rq_query (ex_admin_request ''GET'' ''/admin/callback'') k = Some ''s''" for k
    by (simp add: ex_admin_request_def)
  have q: "?put \<in> asked ?p ex_login_script"
    using allowed
    by (simp add: admin_serve_def names ex_arrival asked_settle r callback_def query ex_cookie take_pending_def asked_ops
        ex_login_script_def pending_row_read e d exchange_def oidc open_session_def Let_def create_session_def
        session_id_def bind_ok_def asked_Rand fill_ok_def ex_identity_def or_else_def)
  have "m TOKENS_KEY_ATTR = Some (AS (snd (key_build (KOidcSession ''s''))))"
    if "m = session_row ''s'' ex_identity ex_now" for m
    by (simp add: that session_row_def keyed_item_def key_build_def TOKENS_TTL_ATTR_def TOKENS_KEY_ATTR_def)
  then show ?thesis
    using q login_completes [OF q] by (auto simp: names ex_arrival)
qed

end
