(* ===== verification/AdminReplies.thy ===== *)
theory AdminReplies
  imports AdminGate
begin

text \<open>
  What every response of the control plane carries: the hardening headers over what the handlers set,
  and the one place where a script may run.
\<close>

section \<open>What the handlers set\<close>

text \<open>Headers without a security policy of their own.\<close>

definition plain :: "headers \<Rightarrow> bool" where
  "plain hs = list_all (\<lambda>p. fst p \<in> {''location'', ''set-cookie'', ''content-type''}) hs"

abbreviation replies_plain :: "http_response prog \<Rightarrow> bool" where
  "replies_plain \<equiv> confined (\<lambda>_. True) (\<lambda>r. plain (rs_headers r))"

lemma confined_free [simp]: "confined (\<lambda>_. True) (\<lambda>_. True) p"
  by (induction p rule: prog_induct) (auto simp: confined_Ask)

lemma confined_weaken: "confined P R p \<Longrightarrow> (\<And>x. R x \<Longrightarrow> R' x) \<Longrightarrow> confined P R' p"
  using confined_bindI [where f = Done and p = p] by (simp add: bind_Done)

lemma plain_replies [simp]:
  "plain []" "plain (rs_headers (text_response code msg))" "plain (rs_headers (server_error msg))"
  "plain (rs_headers to_login)" "plain (rs_headers not_allowed)"
  by (simp_all add: plain_def text_response_def server_error_def to_login_def see_other_def not_allowed_def)

lemma plain_finishing [simp]: "replies_plain (finishing p)"
  unfolding finishing_def
  by (rule confined_any) (auto simp: finish_def see_other_def plain_def text_response_def server_error_def
      split: sum.split apply_error.split action_error.split store_error.split)

lemma plain_authed: "(\<And>s. replies_plain (f s)) \<Longrightarrow> replies_plain (bind (authed app req now) f)"
  by (rule confined_any) simp_all

lemma plain_gated: "(\<And>s. replies_plain (f s)) \<Longrightarrow> replies_plain (gated app req now f)"
  unfolding gated_def by (rule plain_authed) (simp split: option.split)

lemma plain_field:
  "plain (rs_headers (pa_rejection app)) \<Longrightarrow> (\<And>v. replies_plain (f v)) \<Longrightarrow> replies_plain (with_field app req field f)"
  by (simp add: with_field_def split: option.split)

lemma plain_posts:
  assumes "plain (rs_headers (pa_rejection app))" "(path, p) \<in> set (post_routes app req now)"
  shows "replies_plain p"
  using assms unfolding post_routes_def
  by (auto simp: set_phase_route_def set_rate_route_def set_message_route_def set_start_time_route_def
      open_now_route_def force_maintenance_route_def pause_route_def resume_route_def fail_open_route_def
      recover_route_def set_rules_route_def set_ip_binding_route_def
      intro!: plain_field plain_gated split: sum.split)

lemma plain_login:
  "replies_plain (login app draw now)" "replies_plain (logout app req)"
  "plain (rs_headers (pa_rejection app)) \<Longrightarrow> replies_plain (callback app req now)"
proof -
  show "replies_plain (login app draw now)"
    unfolding login_def by (rule confined_any) (auto simp: see_other_def plain_def server_error_def text_response_def split: sum.split)
  show "replies_plain (logout app req)"
    unfolding logout_def Let_def
    by (auto intro!: confined_any simp: see_other_def plain_def split: option.split)
  have o: "replies_plain (open_session app claims now)" for claims
    unfolding open_session_def Let_def
    by (auto intro!: confined_any simp: see_other_def plain_def server_error_def text_response_def header_append_def
        split: sum.split)
  have "replies_plain (exchange app code pending now)" for code pending
    by (auto simp: exchange_def o split: option.split sum.split)
  then show "plain (rs_headers (pa_rejection app)) \<Longrightarrow> replies_plain (callback app req now)"
    unfolding callback_def by (auto intro!: confined_any split: option.split sum.split)
qed

lemma plain_state: "replies_plain (state_json app req now)"
  unfolding state_json_def
  by (auto intro!: confined_any split: option.split sum.split)

definition page_nonce :: "'c admin_app \<Rightarrow> string \<Rightarrow> bool" where
  "page_nonce app nonce \<longleftrightarrow> nonce = [] \<or> (\<exists>bytes. length bytes = 16 \<and> nonce = pa_b64 app bytes)"

text \<open>The page, under the nonce of its own script.\<close>

definition page :: "'c admin_app \<Rightarrow> http_response \<Rightarrow> bool" where
  "page app r \<longleftrightarrow>
     (\<exists>view html. page_nonce app (da_csp_nonce view) \<and> pa_render app view = Inr html
        \<and> r = \<lparr>rs_status = 200, rs_headers = apply_hardening (pa_header_check app) [] (da_csp_nonce view),
                rs_body = JStr html\<rparr>)"

lemma page_rendered:
  assumes "page_nonce app (da_csp_nonce view)"
  shows "confined (\<lambda>_. True) (\<lambda>r. plain (rs_headers r) \<or> page app r)
     (case pa_render app view of
        Inl e \<Rightarrow> Done (server_error (''render: '' @ e))
      | Inr html \<Rightarrow>
          Done \<lparr>rs_status = 200, rs_headers = apply_hardening (pa_header_check app) [] (da_csp_nonce view),
            rs_body = JStr html\<rparr>)"
  using assms unfolding page_def by (cases "pa_render app view") auto

lemma filled_nonce: "da_csp_nonce (filled_view app now session nonce rules gate view) = nonce"
  by (simp add: filled_view_def Let_def split: sum.split prod.split)

lemma dashboard_replies:
  "confined (\<lambda>_. True) (\<lambda>r. plain (rs_headers r) \<or> page app r) (dashboard_page app req now)"
proof -
  have n: "confined (\<lambda>_. True) (page_nonce app) (nonce_from (pa_b64 app))"
    by (auto simp: nonce_from_def fill_ok_def page_nonce_def split: option.split)
  have page: "confined (\<lambda>_. True) (\<lambda>r. plain (rs_headers r) \<or> page app r)
      (bind (nonce_from (pa_b64 app)) (\<lambda>nonce.
         bind (es_read_config (pa_edge app)) (\<lambda>rules.
           bind (es_read_config (pa_edge app)) (\<lambda>gate.
             let view = filled_view app now session nonce rules gate view in
             case pa_render app view of
               Inl e \<Rightarrow> Done (server_error (''render: '' @ e))
             | Inr html \<Rightarrow>
                 Done \<lparr>rs_status = 200,
                   rs_headers = apply_hardening (pa_header_check app) [] (da_csp_nonce view),
                   rs_body = JStr html\<rparr>))))" for session view
    unfolding Let_def
    by (rule confined_bindI [OF n], intro confined_any confined_free page_rendered) (simp add: filled_nonce)
  show ?thesis
    unfolding dashboard_page_def gated_def
    by (rule confined_any) (auto intro!: confined_any page split: option.split sum.split)
qed

section \<open>Every response\<close>

text \<open>The hardening headers are there with their one value; there is one security policy; and the
  response is stored nowhere, but for an embedded asset.\<close>

definition protected :: "'c admin_app \<Rightarrow> http_request \<Rightarrow> http_response \<Rightarrow> bool" where
  "protected app req r \<longleftrightarrow>
     list_all (\<lambda>(name, v). header_values (rs_headers r) name = [v]) hardening_pairs
     \<and> (header_values (rs_headers r) CSP_NAME = [csp_value []]
        \<or> (\<exists>view html bytes. header_values (rs_headers r) CSP_NAME = [csp_value (da_csp_nonce view)]
             \<and> length bytes = 16 \<and> da_csp_nonce view = pa_b64 app bytes
             \<and> pa_render app view = Inr html \<and> rs_body r = JStr html))
     \<and> (header_values (rs_headers r) ''cache-control'' = [''no-cache, no-store, must-revalidate'']
        \<or> starts_with (pa_normalize app (rq_path req)) ''/static/''
          \<and> header_values (rs_headers r) ''cache-control'' = [''public, max-age=300, must-revalidate''])"

lemma pairs_names:
  "map_of hardening_pairs CSP_NAME = None" "map_of hardening_pairs ''cache-control'' = None"
  "map_of no_store_pairs ''cache-control'' = Some ''no-cache, no-store, must-revalidate''"
  "''cache-control'' \<noteq> CSP_NAME" "list_all (\<lambda>(name, v). map_of hardening_pairs name = Some v) hardening_pairs"
  by (code_simp)+

lemma hardened_fixed:
  assumes "header_check_ok valid" "visible nonce"
  shows "list_all (\<lambda>(name, v). header_values (apply_hardening valid hs nonce) name = [v]) hardening_pairs"
  using pairs_names(5) unfolding hardening_applied [OF assms] hardened_values_def list_all_iff by auto

lemma plain_values: "plain hs \<Longrightarrow> header_values hs CSP_NAME = []" "plain hs \<Longrightarrow> header_values hs ''cache-control'' = []"
  by (auto simp: plain_def list_all_iff header_values_def CSP_NAME_def filter_empty_conv)

lemma hardened_csp:
  assumes "header_check_ok valid" "visible nonce"
  shows "header_values (apply_hardening valid hs nonce) CSP_NAME
     = (if header_values hs CSP_NAME = [] then [csp_value nonce] else header_values hs CSP_NAME)"
  unfolding hardening_applied [OF assms] hardened_values_def pairs_names by (simp add: has_header_values)

lemma hardened_cache:
  assumes "header_check_ok valid" "visible nonce"
  shows "header_values (apply_hardening valid hs nonce) ''cache-control''
     = (if header_values hs ''cache-control'' = [] then [''no-cache, no-store, must-revalidate'']
        else header_values hs ''cache-control'')"
proof -
  have "''cache-control'' \<in> fst ` set no_store_pairs"
    by code_simp
  then show ?thesis
    unfolding hardening_applied [OF assms] hardened_values_def pairs_names
    using pairs_names(4) by (simp add: has_header_values pairs_names(3))
qed

lemma visible_Nil: "visible []"
  by (simp add: visible_def)

lemma hardened_with:
  assumes "header_check_ok (pa_header_check app)"
  shows "list_all (\<lambda>(name, v). header_values (rs_headers (harden_response app x)) name = [v]) hardening_pairs = True"
    and "header_values (rs_headers (harden_response app x)) CSP_NAME
      = (if header_values (rs_headers x) CSP_NAME = [] then [csp_value []] else header_values (rs_headers x) CSP_NAME)"
    and "header_values (rs_headers (harden_response app x)) ''cache-control''
      = (if header_values (rs_headers x) ''cache-control'' = [] then [''no-cache, no-store, must-revalidate'']
         else header_values (rs_headers x) ''cache-control'')"
    and "rs_body (harden_response app x) = rs_body x"
  using hardened_fixed [OF assms visible_Nil] hardened_csp [OF assms visible_Nil] hardened_cache [OF assms visible_Nil]
  by (simp_all add: harden_response_def)

lemma protected_page:
  assumes "header_check_ok (pa_header_check app)" "\<And>bytes. visible (pa_b64 app bytes)" "page app x"
  shows "protected app req (harden_response app x)"
proof -
  obtain view html where v: "page_nonce app (da_csp_nonce view)" "pa_render app view = Inr html"
      "x = \<lparr>rs_status = 200, rs_headers = apply_hardening (pa_header_check app) [] (da_csp_nonce view),
            rs_body = JStr html\<rparr>"
    using assms(3) unfolding page_def by blast
  have n: "visible (da_csp_nonce view)"
    using v(1) assms(2) visible_Nil by (auto simp: page_nonce_def)
  have "header_values (rs_headers x) CSP_NAME = [csp_value (da_csp_nonce view)]"
    "header_values (rs_headers x) ''cache-control'' = [''no-cache, no-store, must-revalidate'']"
    unfolding v(3) http_response.select_convs hardened_csp [OF assms(1) n] hardened_cache [OF assms(1) n]
    by (simp_all add: header_values_def)
  then show ?thesis
    using v unfolding protected_def hardened_with [OF assms(1)] page_nonce_def by auto
qed

text \<open>What a route replies, before the outer layer.\<close>

lemma route_replies:
  assumes "plain (rs_headers (pa_rejection app))"
  shows "confined (\<lambda>_. True) (\<lambda>r. plain (rs_headers r) \<or> page app r
       \<or> starts_with (pa_normalize app (rq_path req)) ''/static/''
         \<and> header_values (rs_headers r) CSP_NAME = []
         \<and> header_values (rs_headers r) ''cache-control'' = [''public, max-age=300, must-revalidate''])
     (admin_route app draw req now)"
    (is "confined _ (\<lambda>r. ?R r) _")
proof -
  have weaken: "confined (\<lambda>_. True) ?R p" if "confined (\<lambda>_. True) (\<lambda>r. plain (rs_headers r) \<or> page app r) p"
    for p :: "http_response prog"
    using that by (rule confined_weaken) blast
  have plain: "confined (\<lambda>_. True) ?R p" if "replies_plain p" for p
    using that by (rule confined_weaken) blast
  have get: "confined (\<lambda>_. True) ?R p" if "(path, p) \<in> set (get_routes app draw req now)" for path p
    using that weaken [OF dashboard_replies] plain [OF plain_state] plain [OF plain_login(1)] plain [OF plain_login(2)]
      plain [OF plain_login(3) [OF assms]] unfolding get_routes_def by auto
  have post: "confined (\<lambda>_. True) ?R p" if "(path, p) \<in> set (post_routes app req now)" for path p
    using plain [OF plain_posts [OF assms that]] .
  have refused: "confined (\<lambda>_. True) ?R (Done not_allowed)"
    by simp
  have static: "confined (\<lambda>_. True) ?R (Done (static_asset app req f))"
    if "starts_with (pa_normalize app (rq_path req)) ''/static/''" for f
    using that
    by (auto simp: static_asset_def Let_def header_values_def CSP_NAME_def split: option.split)
  show ?thesis
    unfolding admin_route_def Let_def on_get_def on_post_def
    using get post refused static by (auto split: option.split dest!: map_of_SomeD)
qed

text \<open>C18: every response of the control plane to a request that gets a readable arrival instant carries
  the hardening headers, each with its one value, and exactly one content security policy; that
  policy allows no inline script, except on a rendered page, where it allows the one whose nonce was
  drawn from sixteen random bytes for this very page; and nothing may be stored by a cache but the
  embedded assets.  The library checks a header value as documented, its encoder yields visible
  characters, and its rejections set no policy.\<close>

theorem hardened_responses:
  fixes app :: "'c admin_app"
  assumes "header_check_ok (pa_header_check app)" "\<And>bytes. visible (pa_b64 app bytes)"
    and "plain (rs_headers (pa_rejection app))"
    and "Option.bind clock (arrival_new (pa_jiff app)) = Some now"
    and "yields (admin_serve app draw clock req) rs r"
  shows "protected app req r"
proof -
  have "confined (\<lambda>_. True) (protected app req) (admin_serve app draw clock req)"
    unfolding admin_serve_def assms(4) option.case
  proof (rule confined_bindI [OF route_replies [OF assms(3)]], simp only: confined.simps)
    fix x
    assume "plain (rs_headers x) \<or> page app x \<or> starts_with (pa_normalize app (rq_path req)) ''/static/''
        \<and> header_values (rs_headers x) CSP_NAME = []
        \<and> header_values (rs_headers x) ''cache-control'' = [''public, max-age=300, must-revalidate'']"
    then show "protected app req (harden_response app x)"
    proof (elim disjE)
      assume "page app x"
      then show ?thesis
        by (rule protected_page [OF assms(1,2)])
    qed (auto simp: protected_def hardened_with [OF assms(1)] plain_values)
  qed
  then show ?thesis
    using assms(5) by (rule confined_yields)
qed

theorem hardened_responses_witness:
  "yields (admin_serve ex_libs ex_draw (Some 5000000000) (ex_admin_request ''GET'' ''/none'')) []
     \<lparr>rs_status = 404, rs_headers = apply_hardening (\<lambda>_. True) [] [], rs_body = JNull\<rparr>
   \<and> protected ex_libs (ex_admin_request ''GET'' ''/none'')
     \<lparr>rs_status = 404, rs_headers = apply_hardening (\<lambda>_. True) [] [], rs_body = JNull\<rparr>"
proof -
  have ok: "header_check_ok (pa_header_check ex_libs)" "\<And>bytes. visible (pa_b64 ex_libs bytes)"
    "plain (rs_headers (pa_rejection ex_libs))" "Option.bind (Some 5000000000) (arrival_new (pa_jiff ex_libs)) = Some ex_now"
    by (simp_all add: header_check_ok_def ex_libs_def visible_def ex_arrival)
  have "admin_serve ex_libs ex_draw (Some 5000000000) (ex_admin_request ''GET'' ''/none'')
      = Done \<lparr>rs_status = 404, rs_headers = apply_hardening (\<lambda>_. True) [] [], rs_body = JNull\<rparr>"
    unfolding admin_serve_def ok(4)
    by (simp add: admin_route_def get_routes_def post_routes_def ex_admin_request_def ex_libs_def
        harden_response_def)
  then have y: "yields (admin_serve ex_libs ex_draw (Some 5000000000) (ex_admin_request ''GET'' ''/none'')) []
     \<lparr>rs_status = 404, rs_headers = apply_hardening (\<lambda>_. True) [] [], rs_body = JNull\<rparr>"
    by simp
  then show ?thesis
    using hardened_responses [OF ok y] by blast
qed

end
