(* ===== verification/HarnessVisitor.thy ===== *)
theory HarnessVisitor
  imports Float64 Http
begin

text \<open>
  \<open>crates/harness/src/visitor.rs\<close>: one simulated visitor of the load harness, with the client's own
  cadence: when it first asks for its position, what a poll does, and how long it sleeps until the
  next.  A float is \<open>f64\<close> of \<open>Float64\<close>, a NaN is \<open>None\<close>; \<open>powf\<close> and the JSON parser are parameters.

  Lemmas: the generator of the jitter never reaches the state it could not leave (\<open>jitter_alive\<close>), the
  polling interval stays within its bounds and grows with the distance (\<open>interval_bounds\<close>), a held
  position is not asked for again (\<open>held_not_asked\<close>).
\<close>

section \<open>The cadence\<close>

definition POLL_MS :: u64 where "POLL_MS = 5000"
definition JITTER_MS :: u64 where "JITTER_MS = 1500"
definition FIRST_ASK_TARGET_RPS :: u64 where "FIRST_ASK_TARGET_RPS = 5000"
definition FIRST_ASK_MAX_SPREAD_MS :: u64 where "FIRST_ASK_MAX_SPREAD_MS = 60000"
definition POLL_FLOOR_MS :: u64 where "POLL_FLOOR_MS = 5000"
definition POLL_CEILING_MS :: u64 where "POLL_CEILING_MS = 30000"
definition POLL_DIVISOR :: u64 where "POLL_DIVISOR = 10"
definition JITTER_FRACTION :: f64 where "JITTER_FRACTION = rnd (3 / 10)"

text \<open>A division by zero gives infinity, which the clamp turns into the ceiling.\<close>

definition interval_for :: "f64 option \<Rightarrow> u64 \<Rightarrow> u64 \<Rightarrow> u64 \<Rightarrow> u64" where
  "interval_for wait_seconds floor_ms ceiling_ms divisor =
     (case wait_seconds of
        None \<Rightarrow> floor_ms
      | Some w \<Rightarrow>
          if \<not> 0 < w then floor_ms
          else
            let clamped =
                  (if divisor = 0 then f64_of_u64 ceiling_ms
                   else min (max (f64_div (f64_mul w 1000) (f64_of_u64 divisor)) (f64_of_u64 floor_ms))
                          (f64_of_u64 ceiling_ms))
            in u64_of_f64 clamped)"

definition interval_for_position :: "u64 \<Rightarrow> u64 \<Rightarrow> u64" where
  "interval_for_position ahead rate =
     (if rate = 0 then POLL_FLOOR_MS
      else interval_for (Some (f64_div (f64_of_u64 ahead) (f64_of_u64 rate))) POLL_FLOOR_MS POLL_CEILING_MS
        POLL_DIVISOR)"

definition first_ask_spread_ms :: "u64 \<Rightarrow> u64" where
  "first_ask_spread_ms participants =
     min (participants * 1000 div FIRST_ASK_TARGET_RPS) FIRST_ASK_MAX_SPREAD_MS"

datatype polling = HoldPosition | EveryTick | DerivePosition | Backoff

section \<open>Jitter\<close>

type_synonym jitter = u64

definition jitter_new :: "u64 \<Rightarrow> jitter" where
  "jitter_new seed = (seed * 2) OR 1"

text \<open>The three shifts of \<open>xorshift64\<close>; the new state is the draw.\<close>

definition jitter_next :: "jitter \<Rightarrow> jitter" where
  "jitter_next s0 =
     (let s1 = s0 XOR push_bit 13 s0;
          s2 = s1 XOR drop_bit 7 s1
      in s2 XOR push_bit 17 s2)"

definition jitter_interval :: "jitter \<Rightarrow> u64 \<times> jitter" where
  "jitter_interval j = (let j' = jitter_next j in (POLL_MS + j' mod JITTER_MS, j'))"

definition jitter_proportional :: "jitter \<Rightarrow> u64 \<Rightarrow> u64 \<times> jitter" where
  "jitter_proportional j base_ms =
     (let j' = jitter_next j;
          fraction = f64_div (f64_of_u64 (j' mod 1000000)) 1000000;
          scaled = f64_round (f64_mul (f64_of_u64 base_ms) (f64_add 1 (f64_mul fraction JITTER_FRACTION)))
      in (u64_of_f64 scaled, j'))"

section \<open>Arrival\<close>

datatype arrival_shape = Uniform | LateRush

definition arrival_offset_ms :: "(f64 \<Rightarrow> f64) \<Rightarrow> arrival_shape \<Rightarrow> u64 \<Rightarrow> u64 \<Rightarrow> u64" where
  "arrival_offset_ms pow_fifth shape countdown_ms draw =
     (if countdown_ms = 0 then 0
      else
        let u = f64_div (f64_of_u64 (draw mod 1000000)) 1000000;
            fraction = (case shape of Uniform \<Rightarrow> u | LateRush \<Rightarrow> pow_fifth u)
        in u64_of_f64 (f64_mul (f64_of_u64 countdown_ms) fraction))"

record run_settings =
  se_polling :: polling
  se_spread_ms :: u64
  se_countdown_ms :: u64
  se_arrival :: arrival_shape
  se_target_rate :: u64

text \<open>What a visitor fixes before its first poll: when it may first ask, and how long it sleeps.\<close>

record visitor_plan =
  vp_first_ask_after :: u64
  vp_first_sleep :: u64
  vp_jitter :: jitter

definition spread_slice :: "u64 \<Rightarrow> jitter \<Rightarrow> u64 \<times> jitter" where
  "spread_slice spread_ms j =
     (if spread_ms = 0 then (0, j) else let j' = jitter_next j in (j' mod spread_ms, j'))"

definition visitor_plan_of :: "(f64 \<Rightarrow> f64) \<Rightarrow> run_settings \<Rightarrow> u64 \<Rightarrow> visitor_plan" where
  "visitor_plan_of pow_fifth st seed =
     (let j = jitter_next (jitter_new seed);
          arrives_at = arrival_offset_ms pow_fifth (se_arrival st) (se_countdown_ms st) j;
          (first, j) = (case se_polling st of
              DerivePosition \<Rightarrow> map_prod (\<lambda>x. arrives_at + x) (\<lambda>j. j) (spread_slice (se_spread_ms st) j)
            | HoldPosition \<Rightarrow> map_prod (\<lambda>x. se_countdown_ms st + x) (\<lambda>j. j) (spread_slice (se_spread_ms st) j)
            | Backoff \<Rightarrow> map_prod (\<lambda>x. se_countdown_ms st + x) (\<lambda>j. j) (spread_slice (se_spread_ms st) j)
            | EveryTick \<Rightarrow> (se_countdown_ms st, j));
          j' = jitter_next j
      in \<lparr>vp_first_ask_after = first, vp_first_sleep = arrives_at + j' mod POLL_MS, vp_jitter = j'\<rparr>)"

section \<open>A poll\<close>

definition json_u64 :: "json \<Rightarrow> u64 option" where
  "json_u64 j = (case j of JNum n \<Rightarrow> Some n | _ \<Rightarrow> None)"

definition parse_position :: "json_parser \<Rightarrow> string \<Rightarrow> u64 option" where
  "parse_position parse body =
     Option.bind (parse body) (\<lambda>v. Option.bind (json_get v ''position'') json_u64)"

definition parse_serving_position :: "json_parser \<Rightarrow> string \<Rightarrow> u64 option" where
  "parse_serving_position parse body =
     Option.bind (parse body) (\<lambda>v. Option.bind (json_get v ''serving_position'') json_u64)"

definition is_closed :: "json_parser \<Rightarrow> string \<Rightarrow> bool" where
  "is_closed parse body =
     (case parse body of
        None \<Rightarrow> False
      | Some v \<Rightarrow> Option.bind (json_get v ''serving_state'') json_str = Some ''closed'')"

record visitor =
  vi_held_position :: "u64 option"
  vi_serving_position :: u64
  vi_jitter :: jitter

text \<open>One turn of the loop: the time since the visitor started, what \<open>/status\<close> answered, and what
  \<open>/queue_num\<close> answers if it is asked.\<close>

record poll =
  po_elapsed :: u64
  po_status_body :: string
  po_queue_num :: "nat \<times> string"

definition wants_position :: "run_settings \<Rightarrow> u64 \<Rightarrow> bool \<Rightarrow> u64 option \<Rightarrow> u64 \<Rightarrow> bool" where
  "wants_position st first_ask_after shut held elapsed =
     (case se_polling st of
        EveryTick \<Rightarrow> \<not> shut \<and> first_ask_after \<le> elapsed
      | DerivePosition \<Rightarrow> held = None \<and> first_ask_after \<le> elapsed
      | HoldPosition \<Rightarrow> \<not> shut \<and> held = None \<and> first_ask_after \<le> elapsed
      | Backoff \<Rightarrow> \<not> shut \<and> held = None \<and> first_ask_after \<le> elapsed)"

definition poll_interval :: "run_settings \<Rightarrow> bool \<Rightarrow> u64 option \<Rightarrow> u64 \<Rightarrow> jitter \<Rightarrow> u64 \<times> jitter" where
  "poll_interval st shut held serving j =
     (case se_polling st of
        Backoff \<Rightarrow>
          let interval_ms =
                (if shut then POLL_CEILING_MS
                 else case held of
                   None \<Rightarrow> POLL_FLOOR_MS
                 | Some position \<Rightarrow>
                     let ahead = saturating_sub position serving in
                     if ahead = 0 then POLL_FLOOR_MS else interval_for_position ahead (se_target_rate st))
          in jitter_proportional j interval_ms
      | _ \<Rightarrow> jitter_interval j)"

text \<open>Whether \<open>/queue_num\<close> was asked, the sleep, and the visitor afterwards.\<close>

definition visitor_poll ::
  "json_parser \<Rightarrow> run_settings \<Rightarrow> u64 \<Rightarrow> visitor \<Rightarrow> poll \<Rightarrow> bool \<times> u64 \<times> visitor" where
  "visitor_poll parse st first_ask_after v p =
     (let serving = (case parse_serving_position parse (po_status_body p) of Some s \<Rightarrow> s | None \<Rightarrow> vi_serving_position v);
          shut = is_closed parse (po_status_body p);
          held = (if shut \<and> se_polling st \<noteq> DerivePosition then None else vi_held_position v);
          ask = wants_position st first_ask_after shut held (po_elapsed p);
          held' =
            (if ask \<and> fst (po_queue_num p) = 200
             then case parse_position parse (snd (po_queue_num p)) of Some position \<Rightarrow> Some position | None \<Rightarrow> held
             else held);
          (sleep, j) = poll_interval st shut held' serving (vi_jitter v)
      in (ask, sleep, \<lparr>vi_held_position = held', vi_serving_position = serving, vi_jitter = j\<rparr>))"

fun visitor_polls ::
  "json_parser \<Rightarrow> run_settings \<Rightarrow> u64 \<Rightarrow> visitor \<Rightarrow> poll list \<Rightarrow> bool list \<times> visitor" where
  "visitor_polls parse st first v [] = ([], v)"
| "visitor_polls parse st first v (p # ps) =
     (let (ask, _, v') = visitor_poll parse st first v p;
          (asks, v'') = visitor_polls parse st first v' ps
      in (ask # asks, v''))"

section \<open>The generator\<close>

lemma shift_fixpoint_zero: "0 < k \<Longrightarrow> x = push_bit k (x :: u64) \<Longrightarrow> x = 0"
proof (rule bit_eqI)
  fix n assume k: "0 < k" and x: "x = push_bit k x"
  have "\<not> bit x n"
  proof (induction n rule: less_induct)
    case (less n)
    have "bit x n \<longleftrightarrow> k \<le> n \<and> n < 64 \<and> bit x (n - k)"
      by (subst x) (auto simp: bit_push_bit_iff)
    then show ?case
      using less.IH [of "n - k"] k by (cases "k \<le> n") auto
  qed
  then show "bit x n = bit 0 n" by simp
qed

lemma drop_fixpoint_zero: "0 < k \<Longrightarrow> x = drop_bit k (x :: u64) \<Longrightarrow> x = 0"
proof (rule bit_eqI)
  fix n assume k: "0 < k" and x: "x = drop_bit k x"
  have "\<not> bit x n"
  proof (induction "64 - n" arbitrary: n rule: less_induct)
    case less
    show ?case
    proof (cases "n < 64")
      case True
      have "bit x n \<longleftrightarrow> bit x (k + n)"
        by (subst x) (simp add: bit_drop_bit_eq)
      then show ?thesis
        using less [of "k + n"] True k by auto
    next
      case False
      then show ?thesis
        using bit_imp_le_length [of x n] by auto
    qed
  qed
  then show "bit x n = bit 0 n" by simp
qed

lemma xor_zero: "x XOR y = 0 \<longleftrightarrow> x = (y :: u64)"
  by (auto simp: bit_eq_iff bit_xor_iff)

lemma jitter_next_alive:
  assumes "s \<noteq> 0"
  shows "jitter_next s \<noteq> 0"
proof -
  define s1 where "s1 = s XOR push_bit 13 s"
  define s2 where "s2 = s1 XOR drop_bit 7 s1"
  have "s1 \<noteq> 0"
    using assms shift_fixpoint_zero [of 13 s] by (auto simp: s1_def xor_zero)
  then have "s2 \<noteq> 0"
    using drop_fixpoint_zero [of 7 s1] by (auto simp: s2_def xor_zero)
  then have "s2 XOR push_bit 17 s2 \<noteq> 0"
    using shift_fixpoint_zero [of 17 s2] by (auto simp: xor_zero)
  then show ?thesis
    unfolding jitter_next_def Let_def s1_def s2_def .
qed

lemma jitter_new_alive: "jitter_new seed \<noteq> 0"
proof
  assume "jitter_new seed = 0"
  then have "bit (jitter_new seed) 0 = bit (0 :: u64) 0" by simp
  then show False
    by (simp add: jitter_new_def bit_or_iff)
qed

text \<open>For every seed the generator never reaches zero, the one state it would keep for ever.\<close>

lemma jitter_alive: "(jitter_next ^^ n) (jitter_new seed) \<noteq> 0"
  by (induction n) (simp_all add: jitter_new_alive jitter_next_alive)

section \<open>The interval\<close>

lemma u64_exact: "n \<le> 2 ^ 53 \<Longrightarrow> f64_of_u64 (of_nat n) = of_nat n"
proof -
  assume n: "n \<le> 2 ^ 53"
  then have "unat (of_nat n :: u64) = n"
    by (intro unat_of_nat_small) simp
  then show ?thesis
    using rnd_nat [OF n] by (simp add: f64_of_u64_def del: of_nat_unat)
qed

lemma f64_of_u64_nonneg: "0 \<le> f64_of_u64 n"
  unfolding f64_of_u64_def by (rule rnd_nonneg) (rule of_nat_0_le_iff)

lemma u64_of_f64_mono:
  assumes "x \<le> y" "y < 2 ^ 64"
  shows "u64_of_f64 x \<le> u64_of_f64 y"
proof (cases "0 < x")
  case True
  have f: "nat \<lfloor>x\<rfloor> \<le> nat \<lfloor>y\<rfloor>" "nat \<lfloor>y\<rfloor> < 2 ^ 64"
    using assms True by (simp_all add: floor_mono nat_mono nat_less_iff floor_less_iff)
  have "unat (of_nat (nat \<lfloor>x\<rfloor>) :: u64) = nat \<lfloor>x\<rfloor>" "unat (of_nat (nat \<lfloor>y\<rfloor>) :: u64) = nat \<lfloor>y\<rfloor>"
    using f(2) le_less_trans [OF f] by (auto intro: unat_of_nat_small)
  then show ?thesis
    using assms True f by (simp add: u64_of_f64_def word_le_nat_alt del: unat_of_nat)
qed (simp add: u64_of_f64_def)

lemma policy_values: "f64_of_u64 POLL_FLOOR_MS = 5000" "f64_of_u64 POLL_CEILING_MS = 30000" "f64_of_u64 POLL_DIVISOR = 10"
  using u64_exact [of 5000] u64_exact [of 30000] u64_exact [of 10]
  by (simp_all add: POLL_FLOOR_MS_def POLL_CEILING_MS_def POLL_DIVISOR_def)

definition clamped_wait :: "f64 \<Rightarrow> f64" where
  "clamped_wait w = min (max (f64_div (f64_mul w 1000) 10) 5000) 30000"

lemma clamped_values: "u64_of_f64 5000 = 5000" "u64_of_f64 30000 = 30000"
  by (simp_all add: u64_of_f64_def)

lemma clamped_wait_bounds: "5000 \<le> clamped_wait w" "clamped_wait w \<le> 30000"
  by (simp_all add: clamped_wait_def)

lemma clamped_wait_mono: "w \<le> w' \<Longrightarrow> clamped_wait w \<le> clamped_wait w'"
  unfolding clamped_wait_def f64_div_def f64_mul_def
  by (intro min.mono max.mono order.refl rnd_mono divide_right_mono mult_right_mono) simp_all

lemma interval_eq:
  assumes "rate \<noteq> 0"
  shows "interval_for_position ahead rate = u64_of_f64 (clamped_wait (f64_div (f64_of_u64 ahead) (f64_of_u64 rate)))"
proof -
  have nonneg: "0 \<le> f64_div (f64_of_u64 ahead) (f64_of_u64 rate)"
    unfolding f64_div_def by (rule rnd_nonneg) (simp add: f64_of_u64_nonneg)
  have zero: "u64_of_f64 (clamped_wait 0) = POLL_FLOOR_MS"
    by (simp add: clamped_wait_def f64_div_def f64_mul_def clamped_values POLL_FLOOR_MS_def)
  have "POLL_DIVISOR \<noteq> 0"
    by (simp add: POLL_DIVISOR_def)
  then show ?thesis
    using assms nonneg zero
    by (auto simp: interval_for_position_def interval_for_def Let_def policy_values clamped_wait_def [symmetric] not_less
        dest: order.antisym)
qed

text \<open>The polling interval of the adaptive client lies between its floor of five and its ceiling of
  thirty seconds whatever the distance and the rate are, and a visitor further from the front never
  polls more often.\<close>

theorem interval_bounds:
  "5000 \<le> interval_for_position ahead rate \<and> interval_for_position ahead rate \<le> 30000
   \<and> interval_for_position ahead rate \<le> interval_for_position (max ahead further) rate"
proof (cases "rate = 0")
  case True
  then show ?thesis
    by (simp add: interval_for_position_def POLL_FLOOR_MS_def)
next
  case False
  let ?w = "\<lambda>a. f64_div (f64_of_u64 a) (f64_of_u64 rate)"
  have "?w ahead \<le> ?w (max ahead further)"
    unfolding f64_div_def by (intro rnd_mono divide_right_mono f64_of_u64_mono f64_of_u64_nonneg) simp
  then have m: "clamped_wait (?w ahead) \<le> clamped_wait (?w (max ahead further))"
    by (rule clamped_wait_mono)
  have small: "clamped_wait w < 2 ^ 64" for w
    using clamped_wait_bounds(2) [of w] by simp
  show ?thesis
    unfolding interval_eq [OF False]
    using u64_of_f64_mono [OF clamped_wait_bounds(1) small] u64_of_f64_mono [OF clamped_wait_bounds(2)]
      u64_of_f64_mono [OF m small] by (simp add: clamped_values)
qed

section \<open>A held position\<close>

text \<open>A poll that may keep the position: the event is not seen closed, or the visitor derives its
  position and keeps it anyway.\<close>

definition keeps :: "json_parser \<Rightarrow> run_settings \<Rightarrow> poll \<Rightarrow> bool" where
  "keeps parse st p \<longleftrightarrow> se_polling st = DerivePosition \<or> \<not> is_closed parse (po_status_body p)"

lemma poll_holds:
  assumes "se_polling st \<noteq> EveryTick" "keeps parse st p" "vi_held_position v = Some position"
  shows "\<exists>sleep v'. visitor_poll parse st first v p = (False, sleep, v') \<and> vi_held_position v' = Some position"
  using assms
  by (cases "se_polling st")
    (auto simp: visitor_poll_def Let_def keeps_def wants_position_def split: prod.split)

text \<open>A visitor that holds a position asks for it no more, in any mode but the one kept for
  comparison: over any run of polls in which the event is never seen closed (for a derived position,
  over any run at all), it sends no request of its own to \<open>/queue_num\<close> and still holds the same
  position at the end.\<close>

theorem held_not_asked:
  assumes "se_polling st \<noteq> EveryTick" "list_all (keeps parse st) ps" "vi_held_position v = Some position"
  shows "fst (visitor_polls parse st first v ps) = replicate (length ps) False
     \<and> vi_held_position (snd (visitor_polls parse st first v ps)) = Some position"
  using assms
proof (induction ps arbitrary: v)
  case (Cons p ps)
  obtain sleep v' where "visitor_poll parse st first v p = (False, sleep, v')" "vi_held_position v' = Some position"
    using poll_holds [of st parse p v position first] Cons.prems by auto
  then show ?case
    using Cons.IH [of v'] Cons.prems by (simp add: Let_def split: prod.split) (metis fst_conv snd_conv)
qed simp

definition ex_holder :: visitor where
  "ex_holder = \<lparr>vi_held_position = Some 7, vi_serving_position = 0, vi_jitter = 1\<rparr>"

definition ex_settings :: run_settings where
  "ex_settings = \<lparr>se_polling = HoldPosition, se_spread_ms = 0, se_countdown_ms = 0, se_arrival = Uniform,
     se_target_rate = 500\<rparr>"

definition ex_poll :: poll where
  "ex_poll = \<lparr>po_elapsed = 9000, po_status_body = [], po_queue_num = (200, [])\<rparr>"

theorem held_not_asked_witness:
  "fst (visitor_polls (\<lambda>_. None) ex_settings 0 ex_holder [ex_poll, ex_poll]) = [False, False]
   \<and> vi_held_position (snd (visitor_polls (\<lambda>_. None) ex_settings 0 ex_holder [ex_poll, ex_poll])) = Some 7"
  using held_not_asked [of ex_settings "\<lambda>_. None" "[ex_poll, ex_poll]" ex_holder 7 0]
  by (simp add: ex_settings_def ex_holder_def keeps_def is_closed_def numeral_2_eq_2)

end
