(* ===== verification/HarnessEdge.thy ===== *)
theory HarnessEdge
  imports Prelude
begin

text \<open>
  \<open>crates/harness/src/edge.rs\<close>: the load harness's model of a content network in front of the read
  path: a cache with request collapsing and negative caching.  Any number of \<open>serve\<close> calls run at once
  against shared maps behind locks; a step below is what one call does between two points at which it
  may be suspended, so the runs of \<open>edge_step\<close> are the interleavings of the source.  Instants are
  milliseconds, and a check reads the clock where the source reads it just before it waits for the lock,
  so an entry that expires during that wait counts as expired here; tallies are not bounded.

  Lemmas: the invariant \<open>edge_inv\<close> of every run, from which at most one fetch of a key is out at a
  time, none while a stored response is fresh (\<open>one_flight\<close>), and every answer is the origin's own for
  that key (\<open>answers_own_key\<close>).
\<close>

section \<open>The cache\<close>

datatype disposition = Hit | Miss | Collapsed

record entry =
  en_status :: nat
  en_body :: string
  en_expires_at :: nat

record tallies =
  ta_client :: nat
  ta_origin :: nat
  ta_hits :: nat
  ta_collapsed :: nat

text \<open>One call of \<open>serve\<close>.\<close>

record serve_call =
  sc_endpoint :: string
  sc_key :: string
  sc_ttl :: nat

text \<open>Where a call is: before the cache check; before the look at the fetches in flight; before the
  decision to lead; subscribed to the fetch of another call; fetching; with the response, before it is
  stored; stored, before the fetch is taken out of flight; answered.\<close>

datatype serve_pc =
    Checking
  | Looking
  | Deciding
  | Awaiting nat
  | Fetching
  | Fetched nat string
  | Stored nat string
  | Replied nat string disposition

text \<open>The shared state, with the calls and two histories that no step reads: the responses the origin
  gave, and the expiry of everything that was ever stored.\<close>

record edge_state =
  ed_now :: nat
  ed_entries :: "string \<rightharpoonup> entry"
  ed_inflight :: "string \<rightharpoonup> nat"
  ed_tallies :: "string \<Rightarrow> tallies"
  ed_per_second :: "nat list"
  ed_channel :: "nat \<rightharpoonup> nat \<times> string"
  ed_calls :: "nat \<rightharpoonup> serve_call \<times> serve_pc"
  ed_responses :: "(string \<times> nat \<times> string) set"
  ed_expiries :: "(string \<times> nat) set"

definition fresh_entry :: "edge_state \<Rightarrow> string \<Rightarrow> entry option" where
  "fresh_entry s k =
     (case ed_entries s k of
        None \<Rightarrow> None
      | Some e \<Rightarrow> if ed_now s < en_expires_at e then Some e else None)"

definition tally :: "string \<Rightarrow> (tallies \<Rightarrow> tallies) \<Rightarrow> edge_state \<Rightarrow> edge_state" where
  "tally endpoint f s = s\<lparr>ed_tallies := (ed_tallies s)(endpoint := f (ed_tallies s endpoint))\<rparr>"

definition goes :: "nat \<Rightarrow> serve_call \<Rightarrow> serve_pc \<Rightarrow> edge_state \<Rightarrow> edge_state" where
  "goes t c pc s = s\<lparr>ed_calls := (ed_calls s)(t \<mapsto> (c, pc))\<rparr>"

text \<open>Every section of \<open>serve\<close>.\<close>

definition serve_start :: "nat \<Rightarrow> serve_call \<Rightarrow> edge_state \<Rightarrow> edge_state" where
  "serve_start t c s =
     goes t c Checking (tally (sc_endpoint c) (\<lambda>n. n\<lparr>ta_client := ta_client n + 1\<rparr>) s)"

definition hit :: "nat \<Rightarrow> serve_call \<Rightarrow> entry \<Rightarrow> edge_state \<Rightarrow> edge_state" where
  "hit t c e s =
     goes t c (Replied (en_status e) (en_body e) Hit)
       (tally (sc_endpoint c) (\<lambda>n. n\<lparr>ta_hits := ta_hits n + 1\<rparr>) s)"

definition collapse :: "nat \<Rightarrow> serve_call \<Rightarrow> nat \<Rightarrow> edge_state \<Rightarrow> edge_state" where
  "collapse t c leader s =
     goes t c (Awaiting leader) (tally (sc_endpoint c) (\<lambda>n. n\<lparr>ta_collapsed := ta_collapsed n + 1\<rparr>) s)"

definition check_cache :: "nat \<Rightarrow> serve_call \<Rightarrow> edge_state \<Rightarrow> edge_state" where
  "check_cache t c s =
     (case fresh_entry s (sc_key c) of Some e \<Rightarrow> hit t c e s | None \<Rightarrow> goes t c Looking s)"

definition look_inflight :: "nat \<Rightarrow> serve_call \<Rightarrow> edge_state \<Rightarrow> edge_state" where
  "look_inflight t c s =
     (case ed_inflight s (sc_key c) of Some leader \<Rightarrow> collapse t c leader s | None \<Rightarrow> goes t c Deciding s)"

text \<open>The decision holds the lock of the fetches in flight throughout.\<close>

definition record_origin :: "edge_state \<Rightarrow> edge_state" where
  "record_origin s =
     (let second = ed_now s div 1000 in
      if second < length (ed_per_second s)
      then s\<lparr>ed_per_second := (ed_per_second s)[second := ed_per_second s ! second + 1]\<rparr> else s)"

definition lead :: "nat \<Rightarrow> serve_call \<Rightarrow> edge_state \<Rightarrow> edge_state" where
  "lead t c s =
     goes t c Fetching
       (record_origin
         (tally (sc_endpoint c) (\<lambda>n. n\<lparr>ta_origin := ta_origin n + 1\<rparr>)
           (s\<lparr>ed_inflight := (ed_inflight s)(sc_key c \<mapsto> t)\<rparr>)))"

definition decide_leader :: "nat \<Rightarrow> serve_call \<Rightarrow> edge_state \<Rightarrow> edge_state" where
  "decide_leader t c s =
     (case ed_inflight s (sc_key c) of
        Some leader \<Rightarrow> collapse t c leader s
      | None \<Rightarrow>
          (case fresh_entry s (sc_key c) of
             Some e \<Rightarrow> hit t c e s
           | None \<Rightarrow> lead t c s))"

definition fetched :: "nat \<Rightarrow> serve_call \<Rightarrow> nat \<Rightarrow> string \<Rightarrow> edge_state \<Rightarrow> edge_state" where
  "fetched t c status body s =
     goes t c (Fetched status body) (s\<lparr>ed_responses := insert (sc_key c, status, body) (ed_responses s)\<rparr>)"

text \<open>An error outlives its own lifetime.\<close>

definition lifetime :: "nat \<Rightarrow> nat \<Rightarrow> nat \<Rightarrow> nat" where
  "lifetime error_ttl ttl status = (if 400 \<le> status then max ttl error_ttl else ttl)"

definition store_response :: "nat \<Rightarrow> nat \<Rightarrow> serve_call \<Rightarrow> nat \<Rightarrow> string \<Rightarrow> edge_state \<Rightarrow> edge_state" where
  "store_response error_ttl t c status body s =
     (let until = ed_now s + lifetime error_ttl (sc_ttl c) status in
      goes t c (Stored status body)
        (s\<lparr>ed_entries := (ed_entries s)(sc_key c \<mapsto>
             \<lparr>en_status = status, en_body = body, en_expires_at = until\<rparr>),
           ed_expiries := insert (sc_key c, until) (ed_expiries s)\<rparr>))"

text \<open>Out of flight, and published with no suspension in between.\<close>

definition publish :: "nat \<Rightarrow> serve_call \<Rightarrow> nat \<Rightarrow> string \<Rightarrow> edge_state \<Rightarrow> edge_state" where
  "publish t c status body s =
     goes t c (Replied status body Miss)
       (s\<lparr>ed_inflight := (ed_inflight s)(sc_key c := None),
          ed_channel := (ed_channel s)(t \<mapsto> (status, body))\<rparr>)"

text \<open>A subscriber receives what its leader sent.  Its channel is closed, which \<open>serve\<close> answers with a 502,
  only when every sender of it is gone: the leader's own and the one kept with the fetches in flight.\<close>

definition receive :: "nat \<Rightarrow> serve_call \<Rightarrow> nat \<Rightarrow> edge_state \<Rightarrow> edge_state option" where
  "receive t c leader s =
     (case ed_channel s leader of
        Some (status, body) \<Rightarrow> Some (goes t c (Replied status body Collapsed) s)
      | None \<Rightarrow>
          if ed_calls s leader = None \<and> leader \<notin> ran (ed_inflight s)
          then Some (goes t c (Replied 502 ''collapse failed'' Collapsed) s)
          else None)"

inductive edge_step :: "nat \<Rightarrow> edge_state \<Rightarrow> edge_state \<Rightarrow> bool" for error_ttl where
  tick: "edge_step error_ttl s (s\<lparr>ed_now := ed_now s + d\<rparr>)"
| call: "ed_calls s t = None \<Longrightarrow> ed_channel s t = None \<Longrightarrow> t \<notin> ran (ed_inflight s) \<Longrightarrow>
    (\<forall>t' c'. ed_calls s t' \<noteq> Some (c', Awaiting t)) \<Longrightarrow> edge_step error_ttl s (serve_start t c s)"
| check: "ed_calls s t = Some (c, Checking) \<Longrightarrow> edge_step error_ttl s (check_cache t c s)"
| look: "ed_calls s t = Some (c, Looking) \<Longrightarrow> edge_step error_ttl s (look_inflight t c s)"
| decide: "ed_calls s t = Some (c, Deciding) \<Longrightarrow> edge_step error_ttl s (decide_leader t c s)"
| origin: "ed_calls s t = Some (c, Fetching) \<Longrightarrow> edge_step error_ttl s (fetched t c status body s)"
| store: "ed_calls s t = Some (c, Fetched status body) \<Longrightarrow>
    edge_step error_ttl s (store_response error_ttl t c status body s)"
| publish: "ed_calls s t = Some (c, Stored status body) \<Longrightarrow> edge_step error_ttl s (publish t c status body s)"
| receive: "ed_calls s t = Some (c, Awaiting leader) \<Longrightarrow> receive t c leader s = Some s' \<Longrightarrow>
    edge_step error_ttl s s'"
| crash: "edge_step error_ttl s (s\<lparr>ed_calls := (ed_calls s)(t := None)\<rparr>)"

definition edge_new :: "nat \<Rightarrow> edge_state" where
  "edge_new run_seconds =
     \<lparr>ed_now = 0, ed_entries = (\<lambda>_. None), ed_inflight = (\<lambda>_. None),
      ed_tallies = (\<lambda>_. \<lparr>ta_client = 0, ta_origin = 0, ta_hits = 0, ta_collapsed = 0\<rparr>),
      ed_per_second = replicate (run_seconds + 1) 0, ed_channel = (\<lambda>_. None), ed_calls = (\<lambda>_. None),
      ed_responses = {}, ed_expiries = {}\<rparr>"

definition edge_run :: "nat \<Rightarrow> nat \<Rightarrow> edge_state \<Rightarrow> bool" where
  "edge_run error_ttl run_seconds s \<longleftrightarrow> (edge_step error_ttl)\<^sup>*\<^sup>* (edge_new run_seconds) s"

text \<open>The busiest second, the later one of equals.\<close>

definition peak_origin_per_second :: "nat list \<Rightarrow> nat \<times> nat" where
  "peak_origin_per_second xs =
     fold (\<lambda>(count, second) (best, at_second).
         if best < count \<or> best = count \<and> at_second \<le> second then (count, second) else (best, at_second))
       (zip xs [0..<length xs]) (0, 0)"

section \<open>The invariant\<close>

fun leading :: "serve_pc \<Rightarrow> bool" where
  "leading Fetching = True"
| "leading (Fetched _ _) = True"
| "leading (Stored _ _) = True"
| "leading _ = False"

fun unstored :: "serve_pc \<Rightarrow> bool" where
  "unstored Fetching = True"
| "unstored (Fetched _ _) = True"
| "unstored _ = False"

fun replied :: "serve_pc \<Rightarrow> bool" where
  "replied (Replied _ _ _) = True"
| "replied _ = False"

text \<open>What a call may hold at each point.\<close>

fun call_ok :: "edge_state \<Rightarrow> nat \<Rightarrow> serve_call \<Rightarrow> serve_pc \<Rightarrow> bool" where
  "call_ok s t c (Fetched status body) \<longleftrightarrow> (sc_key c, status, body) \<in> ed_responses s"
| "call_ok s t c (Stored status body) \<longleftrightarrow> (sc_key c, status, body) \<in> ed_responses s"
| "call_ok s t c (Replied status body d) \<longleftrightarrow> (sc_key c, status, body) \<in> ed_responses s"
| "call_ok s t c (Awaiting leader) \<longleftrightarrow>
     (case ed_channel s leader of
        Some (status, body) \<Rightarrow> (sc_key c, status, body) \<in> ed_responses s
      | None \<Rightarrow> ed_inflight s (sc_key c) = Some leader)"
| "call_ok s t c _ \<longleftrightarrow> True"

definition calls_ok :: "edge_state \<Rightarrow> bool" where
  "calls_ok s \<longleftrightarrow> (\<forall>t c pc. ed_calls s t = Some (c, pc) \<longrightarrow>
     call_ok s t c pc
     \<and> (leading pc \<longrightarrow> ed_inflight s (sc_key c) = Some t)
     \<and> (unstored pc \<longrightarrow> (\<forall>e. (sc_key c, e) \<in> ed_expiries s \<longrightarrow> e \<le> ed_now s))
     \<and> (ed_channel s t \<noteq> None \<longrightarrow> replied pc))"

definition flights_ok :: "edge_state \<Rightarrow> bool" where
  "flights_ok s \<longleftrightarrow> (\<forall>k t. ed_inflight s k = Some t \<longrightarrow>
     ed_channel s t = None
     \<and> (\<forall>k'. ed_inflight s k' = Some t \<longrightarrow> k' = k)
     \<and> (\<forall>c pc. ed_calls s t = Some (c, pc) \<longrightarrow> leading pc \<and> sc_key c = k))"

definition entries_ok :: "edge_state \<Rightarrow> bool" where
  "entries_ok s \<longleftrightarrow>
     (\<forall>k en. ed_entries s k = Some en \<longrightarrow> (k, en_status en, en_body en) \<in> ed_responses s)
     \<and> (\<forall>k e. (k, e) \<in> ed_expiries s \<longrightarrow>
          (\<exists>en. ed_entries s k = Some en \<and> (e = en_expires_at en \<or> e \<le> ed_now s)))"

definition edge_inv :: "edge_state \<Rightarrow> bool" where
  "edge_inv s \<longleftrightarrow> calls_ok s \<and> flights_ok s \<and> entries_ok s"

lemmas edge_inv_defs = edge_inv_def calls_ok_def flights_ok_def entries_ok_def

lemma edge_inv_new: "edge_inv (edge_new n)"
  by (simp add: edge_inv_defs edge_new_def)

lemma goes_sel [simp]:
  "ed_calls (goes t c pc s) = (ed_calls s)(t \<mapsto> (c, pc))" "ed_now (goes t c pc s) = ed_now s"
  "ed_entries (goes t c pc s) = ed_entries s" "ed_inflight (goes t c pc s) = ed_inflight s"
  "ed_channel (goes t c pc s) = ed_channel s" "ed_responses (goes t c pc s) = ed_responses s"
  "ed_expiries (goes t c pc s) = ed_expiries s"
  by (simp_all add: goes_def)

lemma tally_sel [simp]:
  "ed_calls (tally e f s) = ed_calls s" "ed_now (tally e f s) = ed_now s"
  "ed_entries (tally e f s) = ed_entries s" "ed_inflight (tally e f s) = ed_inflight s"
  "ed_channel (tally e f s) = ed_channel s" "ed_responses (tally e f s) = ed_responses s"
  "ed_expiries (tally e f s) = ed_expiries s"
  by (simp_all add: tally_def)

lemma record_origin_sel [simp]:
  "ed_calls (record_origin s) = ed_calls s" "ed_now (record_origin s) = ed_now s"
  "ed_entries (record_origin s) = ed_entries s" "ed_inflight (record_origin s) = ed_inflight s"
  "ed_channel (record_origin s) = ed_channel s" "ed_responses (record_origin s) = ed_responses s"
  "ed_expiries (record_origin s) = ed_expiries s"
  by (simp_all add: record_origin_def Let_def)

text \<open>What a call holds depends on three parts of the state.\<close>

lemma call_ok_cong:
  "ed_responses s' = ed_responses s \<Longrightarrow> ed_channel s' = ed_channel s \<Longrightarrow> ed_inflight s' = ed_inflight s \<Longrightarrow>
   call_ok s' t c pc = call_ok s t c pc"
  by (cases pc) (simp_all split: option.split)

text \<open>A step of one call that leaves maps, channels and histories alone.\<close>

lemma inv_goes:
  assumes "edge_inv s" "ed_calls s t = Some (c, pc)" "\<not> leading pc" "call_ok s t c pc'" "\<not> leading pc'"
    and "ed_channel s t = None \<or> replied pc'"
  shows "edge_inv (goes t c pc' s)"
proof -
  have u: "\<not> unstored pc'"
    using assms(5) by (cases pc') auto
  have "calls_ok (goes t c pc' s)"
    using assms(1,4,5,6) u call_ok_cong [of "goes t c pc' s" s]
    by (auto simp: edge_inv_def calls_ok_def)
  moreover have "flights_ok (goes t c pc' s)"
    using assms(1,2,3) by (auto simp: edge_inv_def flights_ok_def)
  moreover have "entries_ok (goes t c pc' s)"
    using assms(1) by (simp add: edge_inv_def entries_ok_def)
  ultimately show ?thesis
    by (simp add: edge_inv_def)
qed

lemma inv_tally: "edge_inv (tally e f s) = edge_inv s"
  using call_ok_cong [of "tally e f s" s] by (simp add: edge_inv_defs)

lemma call_facts:
  assumes "edge_inv s" "ed_calls s t = Some (c, pc)"
  shows "call_ok s t c pc" "leading pc \<Longrightarrow> ed_inflight s (sc_key c) = Some t"
    "unstored pc \<Longrightarrow> (sc_key c, e) \<in> ed_expiries s \<Longrightarrow> e \<le> ed_now s"
    "\<not> replied pc \<Longrightarrow> ed_channel s t = None"
  using assms unfolding edge_inv_def calls_ok_def by blast+

lemma flight_facts:
  assumes "edge_inv s" "ed_inflight s k = Some t"
  shows "ed_channel s t = None" "ed_inflight s k' = Some t \<Longrightarrow> k' = k"
    "ed_calls s t = Some (c, pc) \<Longrightarrow> leading pc" "ed_calls s t = Some (c, pc) \<Longrightarrow> sc_key c = k"
  using assms unfolding edge_inv_def flights_ok_def by blast+

lemma entry_facts:
  assumes "edge_inv s"
  shows "fresh_entry s k = Some e \<Longrightarrow> (k, en_status e, en_body e) \<in> ed_responses s"
    "fresh_entry s k = None \<Longrightarrow> (k, e') \<in> ed_expiries s \<Longrightarrow> e' \<le> ed_now s"
proof -
  show "fresh_entry s k = Some e \<Longrightarrow> (k, en_status e, en_body e) \<in> ed_responses s"
    using assms by (auto simp: edge_inv_def entries_ok_def fresh_entry_def split: option.splits if_splits)
  assume f: "fresh_entry s k = None" and "(k, e') \<in> ed_expiries s"
  then obtain en where "ed_entries s k = Some en" "e' = en_expires_at en \<or> e' \<le> ed_now s"
    using assms unfolding edge_inv_def entries_ok_def by blast
  then show "e' \<le> ed_now s"
    using f by (auto simp: fresh_entry_def split: if_splits)
qed

lemma inv_tick: "edge_inv s \<Longrightarrow> edge_inv (s\<lparr>ed_now := ed_now s + d\<rparr>)"
  using call_ok_cong [of "s\<lparr>ed_now := ed_now s + d\<rparr>" s]
  by (simp add: edge_inv_defs) (meson trans_le_add1)

lemma inv_lost: "edge_inv s \<Longrightarrow> edge_inv (s\<lparr>ed_calls := (ed_calls s)(t := None)\<rparr>)"
  using call_ok_cong [of "s\<lparr>ed_calls := (ed_calls s)(t := None)\<rparr>" s]
  by (simp add: edge_inv_defs)

lemma inv_start:
  assumes "edge_inv s" "ed_calls s t = None" "ed_channel s t = None" "t \<notin> ran (ed_inflight s)"
  shows "edge_inv (serve_start t c s)"
proof -
  let ?s = "tally (sc_endpoint c) (\<lambda>n. n\<lparr>ta_client := ta_client n + 1\<rparr>) s"
  have "edge_inv ?s" "ed_channel ?s t = None" "t \<notin> ran (ed_inflight ?s)"
    using assms by (simp_all add: inv_tally)
  then show ?thesis
    unfolding serve_start_def using call_ok_cong [of "goes t c Checking ?s" ?s]
    by (auto simp: edge_inv_def calls_ok_def flights_ok_def entries_ok_def ran_def simp del: tally_sel)
qed

lemma inv_hit:
  assumes "edge_inv s" "ed_calls s t = Some (c, pc)" "\<not> leading pc" "fresh_entry s (sc_key c) = Some e"
  shows "edge_inv (hit t c e s)"
  unfolding hit_def
  using entry_facts(1) [OF assms(1,4)] assms(1-3) by (intro inv_goes) (simp_all add: inv_tally)

lemma inv_collapse:
  assumes "edge_inv s" "ed_calls s t = Some (c, pc)" "\<not> leading pc" "\<not> replied pc"
    and "ed_inflight s (sc_key c) = Some leader"
  shows "edge_inv (collapse t c leader s)"
proof -
  have "ed_channel s leader = None"
    using assms(1,5) unfolding edge_inv_def flights_ok_def by blast
  then show ?thesis
    unfolding collapse_def
    using assms call_facts(4) [OF assms(1,2)] by (intro inv_goes) (simp_all add: inv_tally)
qed

lemma inv_lead:
  assumes "edge_inv s" "ed_calls s t = Some (c, Deciding)" "ed_inflight s (sc_key c) = None"
    and "fresh_entry s (sc_key c) = None"
  shows "edge_inv (lead t c s)"
proof -
  let ?s = "lead t c s"
  have sel: "ed_calls ?s = (ed_calls s)(t \<mapsto> (c, Fetching))" "ed_inflight ?s = (ed_inflight s)(sc_key c \<mapsto> t)"
    "ed_channel ?s = ed_channel s" "ed_responses ?s = ed_responses s" "ed_entries ?s = ed_entries s"
    "ed_expiries ?s = ed_expiries s" "ed_now ?s = ed_now s"
    by (simp_all add: lead_def)
  have t: "ed_channel s t = None" "\<And>k. ed_inflight s k \<noteq> Some t"
    using call_facts(4) [OF assms(1,2)] flight_facts(3) [OF assms(1) _ assms(2)] by auto
  have ok: "call_ok ?s t' c' pc" if "call_ok s t' c' pc" for t' c' pc
    using that assms(3) by (cases pc) (auto simp: sel split: option.splits)
  have other: "sc_key c' \<noteq> sc_key c" if "ed_calls s t' = Some (c', pc)" "leading pc" for t' c' pc
    using call_facts(2) [OF assms(1) that] assms(3) by auto
  have "calls_ok ?s"
    using assms(1) ok t(1) entry_facts(2) [OF assms(1,4)] other
    by (auto simp: edge_inv_def calls_ok_def sel)
  moreover have "flights_ok ?s"
    using assms(1,3) t by (auto simp: edge_inv_def flights_ok_def sel)
  moreover have "entries_ok ?s"
    using assms(1) by (simp add: edge_inv_def entries_ok_def sel)
  ultimately show ?thesis by (simp add: edge_inv_def)
qed

lemma inv_fetched:
  assumes "edge_inv s" "ed_calls s t = Some (c, Fetching)"
  shows "edge_inv (fetched t c status body s)"
proof -
  let ?s = "fetched t c status body s"
  have sel: "ed_calls ?s = (ed_calls s)(t \<mapsto> (c, Fetched status body))" "ed_inflight ?s = ed_inflight s"
    "ed_channel ?s = ed_channel s" "ed_responses ?s = insert (sc_key c, status, body) (ed_responses s)"
    "ed_entries ?s = ed_entries s" "ed_expiries ?s = ed_expiries s" "ed_now ?s = ed_now s"
    by (simp_all add: fetched_def)
  have ok: "call_ok ?s t' c' pc" if "call_ok s t' c' pc" for t' c' pc
    using that by (cases pc) (auto simp: sel split: option.splits)
  have "calls_ok ?s"
    using assms ok call_facts [OF assms] by (auto simp: edge_inv_def calls_ok_def sel)
  moreover have "flights_ok ?s"
    using assms by (auto simp: edge_inv_def flights_ok_def sel)
  moreover have "entries_ok ?s"
    using assms(1) by (simp add: edge_inv_def entries_ok_def sel)
  ultimately show ?thesis by (simp add: edge_inv_def)
qed

text \<open>Two calls that have a fetch of one key out are one call.\<close>

lemma one_leader:
  assumes "edge_inv s" "ed_calls s t = Some (c, pc)" "leading pc" "ed_calls s t' = Some (c', pc')" "leading pc'"
    "sc_key c = sc_key c'"
  shows "t = t'"
  using call_facts(2) [OF assms(1,2,3)] call_facts(2) [OF assms(1,4,5)] assms(6) by simp

lemma inv_store:
  assumes "edge_inv s" "ed_calls s t = Some (c, Fetched status body)"
  shows "edge_inv (store_response error_ttl t c status body s)"
proof -
  let ?s = "store_response error_ttl t c status body s"
  define until where "until = ed_now s + lifetime error_ttl (sc_ttl c) status"
  have sel: "ed_calls ?s = (ed_calls s)(t \<mapsto> (c, Stored status body))" "ed_inflight ?s = ed_inflight s"
    "ed_channel ?s = ed_channel s" "ed_responses ?s = ed_responses s"
    "ed_entries ?s = (ed_entries s)(sc_key c \<mapsto> \<lparr>en_status = status, en_body = body, en_expires_at = until\<rparr>)"
    "ed_expiries ?s = insert (sc_key c, until) (ed_expiries s)" "ed_now ?s = ed_now s"
    by (simp_all add: store_response_def until_def Let_def)
  have ok: "call_ok ?s t' c' pc = call_ok s t' c' pc" for t' c' pc
    by (rule call_ok_cong) (simp_all add: sel)
  have other: "sc_key c' \<noteq> sc_key c" if "ed_calls s t' = Some (c', pc)" "unstored pc" "t' \<noteq> t" for t' c' pc
    using one_leader [OF assms(1,2) _ that(1)] that(2,3) by (cases pc) auto
  have "calls_ok ?s"
    using assms(1) call_facts [OF assms] other
    by (auto simp: edge_inv_def calls_ok_def sel ok)
  moreover have "flights_ok ?s"
    using assms by (auto simp: edge_inv_def flights_ok_def sel)
  moreover have "entries_ok ?s"
    using assms(1) call_facts(1,3) [OF assms] by (auto simp: edge_inv_def entries_ok_def sel)
  ultimately show ?thesis by (simp add: edge_inv_def)
qed

lemma inv_publish:
  assumes "edge_inv s" "ed_calls s t = Some (c, Stored status body)"
  shows "edge_inv (publish t c status body s)"
proof -
  let ?s = "publish t c status body s"
  have sel: "ed_calls ?s = (ed_calls s)(t \<mapsto> (c, Replied status body Miss))"
    "ed_inflight ?s = (ed_inflight s)(sc_key c := None)" "ed_channel ?s = (ed_channel s)(t \<mapsto> (status, body))"
    "ed_responses ?s = ed_responses s" "ed_entries ?s = ed_entries s"
    "ed_expiries ?s = ed_expiries s" "ed_now ?s = ed_now s"
    by (simp_all add: publish_def)
  have mine: "ed_inflight s (sc_key c) = Some t" "(sc_key c, status, body) \<in> ed_responses s"
    using call_facts(1,2) [OF assms] by simp_all
  have ok: "call_ok ?s t' c' pc" if "call_ok s t' c' pc" for t' c' pc
  proof (cases pc)
    case (Awaiting leader)
    show ?thesis
    proof (cases "leader = t")
      case True
      have "ed_channel s t = None"
        using flight_facts(1) [OF assms(1) mine(1)] .
      then have "ed_inflight s (sc_key c') = Some t"
        using that by (simp add: Awaiting True)
      then have "sc_key c' = sc_key c"
        using flight_facts(2) [OF assms(1) mine(1)] by blast
      then show ?thesis
        using mine(2) by (simp add: Awaiting True sel)
    next
      case False
      then show ?thesis
        using that mine(1) by (auto simp: Awaiting sel split: option.splits)
    qed
  qed (use that in \<open>simp_all add: sel\<close>)
  have other: "sc_key c' \<noteq> sc_key c" if "ed_calls s t' = Some (c', pc)" "leading pc" "t' \<noteq> t" for t' c' pc
    using one_leader [OF assms(1,2) _ that(1,2)] that(3) by auto
  have "calls_ok ?s"
    unfolding calls_ok_def
  proof (intro allI impI)
    fix t' c' pc assume p: "ed_calls ?s t' = Some (c', pc)"
    show "call_ok ?s t' c' pc \<and> (leading pc \<longrightarrow> ed_inflight ?s (sc_key c') = Some t')
        \<and> (unstored pc \<longrightarrow> (\<forall>e. (sc_key c', e) \<in> ed_expiries ?s \<longrightarrow> e \<le> ed_now ?s))
        \<and> (ed_channel ?s t' \<noteq> None \<longrightarrow> replied pc)"
    proof (cases "t' = t")
      case True
      then have "c' = c" "pc = Replied status body Miss"
        using p by (simp_all add: sel)
      then show ?thesis
        using mine(2) by (simp add: sel)
    next
      case False
      then have q: "ed_calls s t' = Some (c', pc)"
        using p by (simp add: sel)
      show ?thesis
        using ok [OF call_facts(1) [OF assms(1) q]] call_facts(2-4) [OF assms(1) q] other [OF q _ False] False
        by (cases "replied pc") (auto simp: sel)
    qed
  qed
  moreover have "flights_ok ?s"
    unfolding flights_ok_def
  proof (intro allI impI)
    fix k t' assume "ed_inflight ?s k = Some t'"
    then have k: "k \<noteq> sc_key c" "ed_inflight s k = Some t'"
      by (auto simp: sel split: if_splits)
    have t: "t' \<noteq> t"
      using flight_facts(2) [OF assms(1) mine(1)] k by auto
    show "ed_channel ?s t' = None \<and> (\<forall>k'. ed_inflight ?s k' = Some t' \<longrightarrow> k' = k)
        \<and> (\<forall>c pc. ed_calls ?s t' = Some (c, pc) \<longrightarrow> leading pc \<and> sc_key c = k)"
      using flight_facts [OF assms(1) k(2)] t by (auto simp: sel split: if_splits)
  qed
  moreover have "entries_ok ?s"
    using assms(1) by (simp add: edge_inv_def entries_ok_def sel)
  ultimately show ?thesis by (simp add: edge_inv_def)
qed

lemma inv_receive:
  assumes "edge_inv s" "ed_calls s t = Some (c, Awaiting leader)" "receive t c leader s = Some s'"
  shows "edge_inv s'"
proof (cases "ed_channel s leader")
  case None
  then have "ed_inflight s (sc_key c) = Some leader"
    using call_facts(1) [OF assms(1,2)] by simp
  then show ?thesis
    using assms(3) None by (auto simp: receive_def ran_def split: if_splits)
next
  case (Some r)
  then show ?thesis
    using assms call_facts(1) [OF assms(1,2)]
    by (auto simp: receive_def split: prod.splits intro!: inv_goes)
qed

lemma edge_step_inv: "edge_step error_ttl s s' \<Longrightarrow> edge_inv s \<Longrightarrow> edge_inv s'"
proof (induction rule: edge_step.induct)
  case (check s t c)
  then show ?case
    unfolding check_cache_def
    by (cases "fresh_entry s (sc_key c)")
      (auto intro!: inv_hit inv_goes dest: call_facts(4))
next
  case (look s t c)
  then show ?case
    unfolding look_inflight_def
    by (cases "ed_inflight s (sc_key c)") (auto intro!: inv_collapse inv_goes dest: call_facts(4))
next
  case (decide s t c)
  then show ?case
    unfolding decide_leader_def
    by (cases "ed_inflight s (sc_key c)"; cases "fresh_entry s (sc_key c)")
      (auto intro!: inv_collapse inv_hit inv_lead)
qed (auto intro: inv_tick inv_start inv_fetched inv_store inv_publish inv_receive inv_lost)

lemma edge_run_inv: "edge_run error_ttl n s \<Longrightarrow> edge_inv s"
  unfolding edge_run_def
  by (induction rule: rtranclp_induct) (auto intro: edge_inv_new edge_step_inv)

section \<open>Collapsing\<close>

text \<open>C39: requests collapse: while a call has a fetch of a key out, no other call has one of that key out
  or about to be published, and everything that was ever stored for that key had expired before; so
  the origin sees one request of a key per lifetime, however many clients ask at once.\<close>

theorem one_flight:
  assumes "edge_run error_ttl n s" "ed_calls s t = Some (c, pc)" "unstored pc"
  shows "(\<forall>t' c' pc'. ed_calls s t' = Some (c', pc') \<and> leading pc' \<and> sc_key c' = sc_key c \<longrightarrow> t' = t)
     \<and> (\<forall>e. (sc_key c, e) \<in> ed_expiries s \<longrightarrow> e \<le> ed_now s)"
proof -
  have inv: "edge_inv s"
    using assms(1) by (rule edge_run_inv)
  have "leading pc"
    using assms(3) by (cases pc) auto
  then show ?thesis
    using one_leader [OF inv _ _ assms(2)] call_facts(3) [OF inv assms(2,3)] by blast
qed

definition ex_serve :: serve_call where
  "ex_serve = \<lparr>sc_endpoint = ''/v1/status'', sc_key = ''/v1/status'', sc_ttl = 1000\<rparr>"

text \<open>One call leads and fetches, a second joins it.\<close>

definition ex_collapsed :: edge_state where
  "ex_collapsed =
     look_inflight 1 ex_serve (check_cache 1 ex_serve (serve_start 1 ex_serve
       (decide_leader 0 ex_serve (look_inflight 0 ex_serve (check_cache 0 ex_serve
         (serve_start 0 ex_serve (edge_new 60)))))))"

lemmas serve_sections = serve_start_def check_cache_def look_inflight_def decide_leader_def fresh_entry_def lead_def
  collapse_def edge_new_def ex_serve_def

lemma ex_collapsed_run: "edge_run 10000 60 ex_collapsed"
proof -
  let ?s0 = "serve_start 0 ex_serve (edge_new 60)"
  let ?s1 = "check_cache 0 ex_serve ?s0"
  let ?s2 = "look_inflight 0 ex_serve ?s1"
  let ?s3 = "decide_leader 0 ex_serve ?s2"
  let ?s4 = "serve_start 1 ex_serve ?s3"
  let ?s5 = "check_cache 1 ex_serve ?s4"
  have 1: "edge_step 10000 (edge_new 60) ?s0"
    by (rule edge_step.call) (simp_all add: edge_new_def)
  have 2: "edge_step 10000 ?s0 ?s1"
    by (rule check) (simp add: serve_start_def)
  have 3: "edge_step 10000 ?s1 ?s2"
    by (rule look) (simp add: serve_sections)
  have 4: "edge_step 10000 ?s2 ?s3"
    by (rule decide) (simp add: serve_sections)
  have 5: "edge_step 10000 ?s3 ?s4"
    by (rule edge_step.call) (simp_all add: serve_sections)
  have 6: "edge_step 10000 ?s4 ?s5"
    by (rule check) (simp add: serve_start_def)
  have 7: "edge_step 10000 ?s5 ex_collapsed"
    unfolding ex_collapsed_def by (rule look) (simp add: serve_sections)
  note steps = converse_rtranclp_into_rtranclp [where r = "edge_step 10000"]
  show ?thesis
    unfolding edge_run_def
    by (rule steps [OF 1 steps [OF 2 steps [OF 3 steps [OF 4 steps [OF 5 steps [OF 6 r_into_rtranclp [of "edge_step 10000", OF 7]]]]]]])
qed

lemma ex_collapsed_calls:
  "ed_calls ex_collapsed 0 = Some (ex_serve, Fetching)" "ed_calls ex_collapsed 1 = Some (ex_serve, Awaiting 0)"
  by (simp_all add: ex_collapsed_def serve_sections)

theorem one_flight_witness:
  "edge_run 10000 60 ex_collapsed \<and> ed_calls ex_collapsed 1 = Some (ex_serve, Awaiting 0)
   \<and> {t. \<exists>c pc. ed_calls ex_collapsed t = Some (c, pc) \<and> leading pc \<and> sc_key c = ''/v1/status''} = {0}"
proof -
  have "sc_key ex_serve = ''/v1/status''"
    by (simp add: ex_serve_def)
  then have "t = 0" if "ed_calls ex_collapsed t = Some (c, pc)" "leading pc" "sc_key c = ''/v1/status''" for t c pc
    using one_flight [OF ex_collapsed_run ex_collapsed_calls(1)] that by simp
  moreover have "\<exists>c pc. ed_calls ex_collapsed 0 = Some (c, pc) \<and> leading pc \<and> sc_key c = ''/v1/status''"
    using ex_collapsed_calls(1) by (simp add: ex_serve_def)
  ultimately show ?thesis
    using ex_collapsed_run ex_collapsed_calls(2) by blast
qed

text \<open>No client is given another key's response: whatever was answered from the cache, by a fetch or by
  joining one, is a response the origin gave for that very key; in particular the failure that a
  closed channel stands for is never answered.\<close>

theorem answers_own_key:
  assumes "edge_run error_ttl n s" "ed_calls s t = Some (c, Replied status body d)"
  shows "(sc_key c, status, body) \<in> ed_responses s"
  using call_facts(1) [OF edge_run_inv [OF assms(1)] assms(2)] by simp

section \<open>A leader that dies\<close>

definition dead_flight :: "string \<Rightarrow> nat \<Rightarrow> edge_state \<Rightarrow> bool" where
  "dead_flight k leader s \<longleftrightarrow> ed_inflight s k = Some leader \<and> ed_calls s leader = None"

lemma dead_step:
  assumes "edge_step error_ttl s s'" "edge_inv s" "dead_flight k leader s"
  shows "dead_flight k leader s'"
  using assms
proof (cases rule: edge_step.cases)
  case (call t c)
  then have "t \<noteq> leader"
    using assms(3) by (auto simp: dead_flight_def ran_def)
  then show ?thesis
    using assms(3) call by (simp add: dead_flight_def serve_start_def)
next
  case (decide t c)
  then show ?thesis
    using assms(3)
    by (auto simp: dead_flight_def decide_leader_def collapse_def hit_def lead_def split: option.split)
next
  case (publish t c status body)
  then have "ed_inflight s (sc_key c) = Some t"
    using call_facts(2) [OF assms(2)] by simp
  then show ?thesis
    using assms(3) publish by (auto simp: dead_flight_def publish_def)
next
  case (receive t c l)
  then show ?thesis
    using assms(3) by (auto simp: dead_flight_def receive_def split: option.splits prod.splits if_splits)
qed (auto simp: dead_flight_def check_cache_def hit_def look_inflight_def collapse_def fetched_def store_response_def
    Let_def split: option.split)

text \<open>C40: a leader that dies with its fetch in flight blocks its key for good: the map of the fetches in
  flight keeps a sender of its channel, so in every later state its subscribers cannot receive
  anything, not even the failure that \<open>serve\<close> has for this case, and nobody can lead for the key
  again.\<close>

theorem dead_leader_blocks:
  assumes "edge_run error_ttl n s" "dead_flight k leader s" "(edge_step error_ttl)\<^sup>*\<^sup>* s s'"
  shows "dead_flight k leader s'
     \<and> (\<forall>t c. ed_calls s' t = Some (c, Awaiting leader) \<longrightarrow> receive t c leader s' = None)
     \<and> (\<forall>t c pc. ed_calls s' t = Some (c, pc) \<and> sc_key c = k \<longrightarrow> \<not> leading pc)"
proof -
  have inv: "edge_inv s' \<and> dead_flight k leader s'"
    using assms(3)
    by (induction rule: rtranclp_induct)
      (use edge_run_inv [OF assms(1)] assms(2) edge_step_inv dead_step in blast)+
  then have i: "edge_inv s'" "ed_inflight s' k = Some leader" "ed_calls s' leader = None"
    by (auto simp: dead_flight_def)
  have "receive t c leader s' = None" for t c
    using flight_facts(1) [OF i(1,2)] i(2) by (auto simp: receive_def ran_def)
  moreover have "\<not> leading pc" if "ed_calls s' t = Some (c, pc)" "sc_key c = k" for t c pc
    using call_facts(2) [OF i(1) that(1)] that i(2,3) by auto
  ultimately show ?thesis
    using inv by blast
qed

text \<open>The leader of the example dies; an hour later its subscriber still waits.\<close>

theorem dead_leader_blocks_witness:
  "let s = ex_collapsed\<lparr>ed_calls := (ed_calls ex_collapsed)(0 := None)\<rparr>;
       later = s\<lparr>ed_now := ed_now s + 3600000\<rparr> in
     edge_run 10000 60 s \<and> dead_flight ''/v1/status'' 0 later
     \<and> ed_calls later 1 = Some (ex_serve, Awaiting 0) \<and> receive 1 ex_serve 0 later = None"
proof -
  let ?s = "ex_collapsed\<lparr>ed_calls := (ed_calls ex_collapsed)(0 := None)\<rparr>"
  let ?later = "?s\<lparr>ed_now := ed_now ?s + 3600000\<rparr>"
  have run: "edge_run 10000 60 ?s"
    using ex_collapsed_run crash [of 10000 ex_collapsed 0] unfolding edge_run_def by (rule rtranclp.rtrancl_into_rtrancl)
  have dead: "dead_flight ''/v1/status'' 0 ?s"
    by (simp add: dead_flight_def ex_collapsed_def serve_sections)
  have steps: "(edge_step 10000)\<^sup>*\<^sup>* ?s ?later"
    by (rule r_into_rtranclp) (rule tick)
  have waits: "ed_calls ?later 1 = Some (ex_serve, Awaiting 0)"
    by (simp add: ex_collapsed_calls del: One_nat_def)
  show ?thesis
    using dead_leader_blocks [OF run dead steps] run waits unfolding Let_def by blast
qed

end
