(* ===== verification/HarnessMain.thy ===== *)
theory HarnessMain
  imports HarnessVisitor HarnessEdge RulesForm
begin

text \<open>
  \<open>crates/harness/src/main.rs\<close>: the arguments of the load harness, the identifiers of its visitors, and
  the stub that answers for an origin when none is given.  Text output is left out.

  Lemmas: a hexadecimal number reads back (\<open>radix_hex\<close>), so the stub answers each visitor with its own
  position (\<open>stub_position\<close>).
\<close>

section \<open>Arguments\<close>

definition ERROR_TTL :: nat where "ERROR_TTL = 10 * 1000"

record args =
  ar_visitors :: u64
  ar_seconds :: u64
  ar_countdown :: u64
  ar_polling :: polling
  ar_arrival :: arrival_shape
  ar_origin :: "string option"
  ar_target_rate :: u64

datatype arg_error =
    NeedsValue string
  | BadNumber string
  | BadArrival string
  | BadPolling string
  | UnknownFlag string

definition default_args :: args where
  "default_args = \<lparr>ar_visitors = 100, ar_seconds = 60, ar_countdown = 0, ar_polling = HoldPosition,
     ar_arrival = Uniform, ar_origin = None, ar_target_rate = 500\<rparr>"

definition number_arg :: "string \<Rightarrow> string \<Rightarrow> arg_error + u64" where
  "number_arg flag v = (case parse_u64 v of None \<Rightarrow> Inl (BadNumber flag) | Some n \<Rightarrow> Inr n)"

definition arrival_arg :: "string \<Rightarrow> arg_error + arrival_shape" where
  "arrival_arg v =
     (if v = ''uniform'' then Inr Uniform else if v = ''late'' then Inr LateRush else Inl (BadArrival v))"

definition polling_arg :: "string \<Rightarrow> arg_error + polling" where
  "polling_arg v =
     (if v = ''hold-position'' then Inr HoldPosition
      else if v = ''every-tick'' then Inr EveryTick
      else if v = ''derive-position'' then Inr DerivePosition
      else if v = ''backoff'' then Inr Backoff
      else Inl (BadPolling v))"

text \<open>One flag with its value.\<close>

definition set_arg :: "args \<Rightarrow> string \<Rightarrow> string \<Rightarrow> arg_error + args" where
  "set_arg a flag v =
     (if flag = ''--visitors'' then map_sum (\<lambda>e. e) (\<lambda>n. a\<lparr>ar_visitors := n\<rparr>) (number_arg flag v)
      else if flag = ''--seconds'' then map_sum (\<lambda>e. e) (\<lambda>n. a\<lparr>ar_seconds := n\<rparr>) (number_arg flag v)
      else if flag = ''--countdown'' then map_sum (\<lambda>e. e) (\<lambda>n. a\<lparr>ar_countdown := n\<rparr>) (number_arg flag v)
      else if flag = ''--target-rate'' then map_sum (\<lambda>e. e) (\<lambda>n. a\<lparr>ar_target_rate := n\<rparr>) (number_arg flag v)
      else if flag = ''--arrival'' then map_sum (\<lambda>e. e) (\<lambda>x. a\<lparr>ar_arrival := x\<rparr>) (arrival_arg v)
      else if flag = ''--origin'' then Inr (a\<lparr>ar_origin := Some v\<rparr>)
      else map_sum (\<lambda>e. e) (\<lambda>x. a\<lparr>ar_polling := x\<rparr>) (polling_arg v))"

definition arg_flags :: "string list" where
  "arg_flags = [''--visitors'', ''--seconds'', ''--countdown'', ''--target-rate'', ''--arrival'', ''--origin'', ''--polling'']"

fun parse_args_from :: "args \<Rightarrow> string list \<Rightarrow> arg_error + args" where
  "parse_args_from a [] = Inr a"
| "parse_args_from a [flag] = Inl (if flag \<in> set arg_flags then NeedsValue flag else UnknownFlag flag)"
| "parse_args_from a (flag # v # rest) =
     (if flag \<notin> set arg_flags then Inl (UnknownFlag flag)
      else case set_arg a flag v of Inl e \<Rightarrow> Inl e | Inr a' \<Rightarrow> parse_args_from a' rest)"

definition parse_args :: "string list \<Rightarrow> arg_error + args" where
  "parse_args argv = parse_args_from default_args argv"

section \<open>Visitors\<close>

definition hex_digits :: string where "hex_digits = ''0123456789abcdef''"

text \<open>\<open>{n:012x}\<close>\<close>

fun hex_text :: "nat \<Rightarrow> string" where
  "hex_text n =
     (if n < 16 then [hex_digits ! n] else hex_text (n div 16) @ [hex_digits ! (n mod 16)])"

declare hex_text.simps [simp del]

definition hex_padded :: "nat \<Rightarrow> nat \<Rightarrow> string" where
  "hex_padded w n = replicate (w - length (hex_text n)) (CHR ''0'') @ hex_text n"

definition harness_request_id :: "nat \<Rightarrow> string" where
  "harness_request_id n = ''0199f0c0-0000-7000-8000-'' @ hex_padded 12 n"

definition queue_num_path :: "string \<Rightarrow> string" where
  "queue_num_path request_id = ''/v1/queue_num?request_id='' @ request_id"

definition settings_of :: "args \<Rightarrow> run_settings" where
  "settings_of a =
     \<lparr>se_polling = ar_polling a, se_spread_ms = first_ask_spread_ms (ar_visitors a),
      se_countdown_ms = ar_countdown a * 1000, se_arrival = ar_arrival a, se_target_rate = ar_target_rate a\<rparr>"

section \<open>The stub\<close>

text \<open>The text around the first occurrence of a needle.\<close>

fun cut :: "string \<Rightarrow> string \<Rightarrow> (string \<times> string) option" where
  "cut needle [] = None"
| "cut needle (c # cs) =
     (if starts_with (c # cs) needle then Some ([], drop (length needle) (c # cs))
      else map_option (\<lambda>(a, b). (c # a, b)) (cut needle cs))"

text \<open>\<open>split(needle).nth(1)\<close>\<close>

definition second_part :: "string \<Rightarrow> string \<Rightarrow> string option" where
  "second_part needle s =
     map_option (\<lambda>(_, rest). case cut needle rest of Some (part, _) \<Rightarrow> part | None \<Rightarrow> rest) (cut needle s)"

text \<open>\<open>u64::from_str_radix(_, 16)\<close>: an optional plus, at least one digit, no overflow.\<close>

definition radix_digit :: "char \<Rightarrow> nat option" where
  "radix_digit c =
     (let k = of_char c :: nat in
      if 48 \<le> k \<and> k \<le> 57 then Some (k - 48)
      else if 97 \<le> k \<and> k \<le> 102 then Some (k - 87)
      else if 65 \<le> k \<and> k \<le> 70 then Some (k - 55) else None)"

definition radix_step :: "nat option \<Rightarrow> char \<Rightarrow> nat option" where
  "radix_step acc c =
     (case (acc, radix_digit c) of
        (Some a, Some d) \<Rightarrow> if a * 16 + d < 2 ^ 64 then Some (a * 16 + d) else None
      | _ \<Rightarrow> None)"

definition from_str_radix_16 :: "string \<Rightarrow> u64 option" where
  "from_str_radix_16 s =
     (let digits = (case s of c # cs \<Rightarrow> if c = CHR ''+'' then cs else s | [] \<Rightarrow> []) in
      if digits = [] then None else map_option of_nat (foldl radix_step (Some 0) digits))"

definition position_from_query :: "string \<Rightarrow> u64 option" where
  "position_from_query path =
     Option.bind (second_part ''request_id='' path) (\<lambda>i.
       from_str_radix_16 (rev (takeWhile (\<lambda>c. c \<noteq> CHR ''-'') (rev i))))"

definition quote_text :: "string \<Rightarrow> string" where "quote_text s = CHR 0x22 # s @ [CHR 0x22]"

definition closed_body :: string where
  "closed_body = ''{'' @ quote_text ''event_id'' @ '':'' @ quote_text ''harness'' @ '','' @ quote_text ''phase'' @ '':''
     @ quote_text ''pre_queue'' @ '','' @ quote_text ''serving_state'' @ '':'' @ quote_text ''closed'' @ '',''
     @ quote_text ''serving_position'' @ '':0}''"

definition running_body :: "u64 \<Rightarrow> u64 \<Rightarrow> string" where
  "running_body serving target_rate =
     ''{'' @ quote_text ''event_id'' @ '':'' @ quote_text ''harness'' @ '','' @ quote_text ''phase'' @ '':''
     @ quote_text ''active'' @ '','' @ quote_text ''serving_state'' @ '':'' @ quote_text ''running'' @ '',''
     @ quote_text ''serving_position'' @ '':'' @ show_u64 serving @ '','' @ quote_text ''target_rate'' @ '':''
     @ show_u64 target_rate @ ''}''"

definition position_body :: "u64 \<Rightarrow> string" where
  "position_body position =
     ''{'' @ quote_text ''position'' @ '':'' @ show_u64 position @ '','' @ quote_text ''live_join'' @ '':true}''"

definition stub_reply :: "u64 \<Rightarrow> u64 \<Rightarrow> u64 \<Rightarrow> string \<Rightarrow> nat \<times> string" where
  "stub_reply target_rate countdown_secs elapsed_secs path =
     (if starts_with path ''/v1/status''
      then if elapsed_secs < countdown_secs then (200, closed_body)
           else (200, running_body (target_rate * (elapsed_secs - countdown_secs)) target_rate)
      else case position_from_query path of
             Some position \<Rightarrow> (200, position_body position)
           | None \<Rightarrow> (200, position_body 42))"

section \<open>Reading back\<close>

lemma radix_digit_hex: "n < 16 \<Longrightarrow> radix_digit (hex_digits ! n) = Some n"
proof -
  assume n: "n < 16"
  have "length hex_digits = 16"
    by (simp add: hex_digits_def)
  then have "(n, hex_digits ! n) \<in> set (enumerate 0 hex_digits)"
    using n by (simp add: in_set_enumerate_eq)
  moreover have "list_all (\<lambda>(k, c). radix_digit c = Some k) (enumerate 0 hex_digits)"
    by (simp add: hex_digits_def radix_digit_def)
  ultimately show ?thesis
    by (auto simp: list_all_iff)
qed

lemma radix_small: "n < 16 \<Longrightarrow> foldl radix_step (Some 0) (hex_text n) = Some n"
  by (simp add: hex_text.simps [of n] radix_step_def radix_digit_hex)

lemma radix_last:
  assumes "\<not> n < 16" "n < 2 ^ 64" "foldl radix_step (Some 0) (hex_text (n div 16)) = Some (n div 16)"
  shows "foldl radix_step (Some 0) (hex_text n) = Some n"
  using assms radix_digit_hex [of "n mod 16"]
  by (simp add: hex_text.simps [of n] radix_step_def)

lemma radix_hex: "n < 2 ^ 64 \<Longrightarrow> foldl radix_step (Some 0) (hex_text n) = Some n"
proof (induction n rule: less_induct)
  case (less n)
  then show ?case
    using radix_small [of n] radix_last [of n] less.IH [of "n div 16"] by (cases "n < 16") simp_all
qed

lemma radix_zeros: "foldl radix_step (Some 0) (replicate k (CHR ''0'')) = Some 0"
  by (induction k) (simp_all add: radix_step_def radix_digit_def)

definition hex_chars :: "string \<Rightarrow> bool" where
  "hex_chars s = list_all (\<lambda>c. c \<in> set hex_digits) s"

lemma hex_digit_in: "k < 16 \<Longrightarrow> hex_digits ! k \<in> set hex_digits"
  by (rule nth_mem) (simp add: hex_digits_def)

lemma not_hex_chars: "CHR ''r'' \<notin> set hex_digits" "CHR ''-'' \<notin> set hex_digits" "CHR ''+'' \<notin> set hex_digits"
  by (simp_all add: hex_digits_def)

lemma hex_text_chars: "hex_chars (hex_text n) \<and> hex_text n \<noteq> []"
proof (induction n rule: less_induct)
  case (less n)
  then show ?case
    using less.IH [of "n div 16"] by (cases "n < 16") (simp_all add: hex_text.simps [of n] hex_chars_def hex_digit_in)
qed

lemma padded_chars: "hex_chars (hex_padded w n) \<and> hex_padded w n \<noteq> []"
  using hex_text_chars [of n] hex_digit_in [of 0]
  by (auto simp: hex_padded_def hex_chars_def list_all_iff hex_digits_def [THEN arg_cong [of _ _ "\<lambda>s. s ! 0"]])

lemma padded_reads: "n < 2 ^ 64 \<Longrightarrow> from_str_radix_16 (hex_padded w n) = Some (of_nat n)"
proof -
  assume n: "n < 2 ^ 64"
  obtain c cs where c: "hex_padded w n = c # cs"
    using padded_chars [of w n] by (cases "hex_padded w n") auto
  then have "c \<noteq> CHR ''+''"
    using padded_chars [of w n] not_hex_chars by (auto simp: hex_chars_def)
  moreover have "foldl radix_step (Some 0) (hex_padded w n) = Some n"
    using radix_hex [OF n] by (simp add: hex_padded_def radix_zeros)
  ultimately show ?thesis
    by (simp add: from_str_radix_16_def c)
qed

lemma rev_takeWhile:
  assumes "hex_chars s"
  shows "takeWhile (\<lambda>c. c \<noteq> CHR ''-'') (rev (p @ CHR ''-'' # s)) = rev s"
proof -
  have "\<forall>c \<in> set (rev s). c \<noteq> CHR ''-''"
    using assms not_hex_chars by (auto simp: hex_chars_def list_all_iff)
  then show ?thesis
    by (simp add: takeWhile_append2 del: set_rev)
qed

lemma cut_none: "needle = x # xs \<Longrightarrow> x \<notin> set s \<Longrightarrow> cut needle s = None"
  by (induction s) auto

text \<open>The stub answers every visitor with its own position: the identifier the harness gives its
  \<open>n\<close>-th visitor, in the path that visitor polls, is read back as \<open>n\<close>, so no two visitors of a run share
  a position.\<close>

theorem stub_position:
  assumes "n < 2 ^ 64"
  shows "stub_reply target_rate countdown_secs elapsed_secs (queue_num_path (harness_request_id n))
    = (200, position_body (of_nat n))"
proof -
  let ?i = "harness_request_id n"
  have r: "CHR ''r'' \<notin> set ?i"
    using padded_chars [of 12 n] not_hex_chars by (auto simp: harness_request_id_def hex_chars_def list_all_iff)
  have "cut ''request_id='' (queue_num_path ?i) = Some (''/v1/queue_num?'', ?i)"
    by (simp add: queue_num_path_def)
  then have s: "second_part ''request_id='' (queue_num_path ?i) = Some ?i"
    using cut_none [OF refl r] by (simp add: second_part_def)
  have "takeWhile (\<lambda>c. c \<noteq> CHR ''-'') (rev ?i) = rev (hex_padded 12 n)"
    using rev_takeWhile [OF padded_chars [THEN conjunct1], of "''0199f0c0-0000-7000-8000''" 12 n]
    by (simp add: harness_request_id_def)
  then have "position_from_query (queue_num_path ?i) = Some (of_nat n)"
    using padded_reads [OF assms] by (simp add: position_from_query_def s)
  then show ?thesis
    by (simp add: stub_reply_def) (simp add: queue_num_path_def)
qed

theorem stub_position_witness:
  "stub_reply 500 0 9 (queue_num_path (harness_request_id 300)) = (200, position_body 300)"
  using stub_position [of 300 500 0 9] by simp

end
