(* ===== verification/Spec2Isabelle.thy ===== *)
theory Spec2Isabelle
  imports Join OpenEvent Admission Controller Rules Answers Nojs AdminReplies HarnessMain
begin

text \<open>
  A verification development of the virtual waiting room (\<open>src/crates/\<close>): the Rust services that queue
  the visitors of an event, open it, admit them at a controlled rate, sign their admission, tell them
  where they stand, and let an operator steer all of it.

  \<^bold>\<open>The program.\<close>  Everything durable is in four DynamoDB tables.  \<open>Counters\<close> holds one item per
  event (phase, cursor, queue counter, seed and offsets of the open, the operator's settings, the
  stamp of the last action) and ten shard items that count registrations; \<open>PreQueue\<close> one row per
  early registration (shard and local index); \<open>Positions\<close> one row per live join and per admission;
  \<open>Tokens\<close> the operators' logins.  \<open>assign_position\<close> turns a batch of queued joins into rows
  (before the open it draws an index from a shard, after it a block of positions from the queue
  counter); \<open>open_event\<close> freezes the shard counts, draws a seed and publishes both once; a
  registration's position is then a seeded permutation of its global index, computed by whoever needs
  it; \<open>controller\<close> moves the serving cursor, in passes that correct for visitors who do not show
  up; \<open>generate_token\<close> (and \<open>nojs\<close> for browsers without scripts) admits a visitor whose position the
  cursor has passed and signs a session; \<open>read\<close> answers the public polls; \<open>admin\<close> is the control
  plane behind an OpenID Connect login, which also writes the configuration document of the edge
  gate (a CloudFront KeyValueStore) and the schedule that fires the open.  \<open>harness\<close> is a load
  generator: simulated visitors that poll through a model of the content network.

  \<^bold>\<open>Effects and concurrency.\<close>  A handler is a value of \<open>'a prog\<close> (\<open>Effects\<close>): it is done, or waits on
  one request to a service and continues with any response of that request's type.  \<open>await\<close> is
  \<open>bind\<close>, \<open>?\<close> is \<open>bind_ok\<close>, and an error is a value of a sum type.  \<open>play\<close>, \<open>asked\<close> and \<open>yields\<close> run
  one handler against a script of responses; \<open>confined\<close> says what all its requests and its value
  satisfy whatever the responses are; \<open>returns\<close> bounds the requests it needs.  \<open>Deployment\<close> runs any
  number of handlers against one database, as the step relation \<open>step\<close>: start, answered request, a
  write that lands with its response lost, an error whose write lands at any later time, a crash, an
  expired row.  The database itself is not under \<open>src/\<close>: it is a relation, and \<open>documented\<close> (\<open>Dynamo\<close>)
  states what is relied on: conditional writes are atomic per item and only happen when their
  condition holds, an \<open>ADD\<close> adds, a read returns some version of the item (a consistent one the
  current version), an item once written is only removed by its own expiry.

  \<^bold>\<open>Theories and sources.\<close>
  \<open>Prelude\<close>: widths, checked and saturating arithmetic, decimal text.
  \<open>Permutation\<close>, \<open>Cohort\<close>: \<open>wr-common/src/permutation/\<close>, the cycle-walking Feistel permutation and the
  assembly of the ten shards.  \<open>Ids\<close>: \<open>ids.rs\<close>.  \<open>IpAddr\<close>, \<open>Crypto\<close>: \<open>crypto.rs\<close>.  \<open>Expr\<close>: \<open>expr.rs\<close>.
  \<open>Items\<close>: \<open>items.rs\<close>.  \<open>Rules\<close>: \<open>rules.rs\<close>.
  \<open>Ledger\<close>, \<open>Dynamo\<close>, \<open>Deployment\<close>, \<open>Accounting\<close>, \<open>Cursor\<close>: the contract between handlers and tables.
  A ghost ledger accounts every position and index a running handler holds and every output it has
  read; \<open>honours\<close> is that contract for a program, as a weakest precondition, and \<open>Accounting\<close> and
  \<open>Cursor\<close> prove that programs which honour it keep the invariant in every run.
  \<open>Join\<close>: \<open>assign_position\<close>.  \<open>OpenEvent\<close>: \<open>open_event\<close>.  \<open>Admission\<close>: \<open>generate_token\<close>.
  \<open>Float64\<close>, \<open>Controller\<close>: \<open>controller\<close>.  \<open>Http\<close>, \<open>ReadPath\<close>, \<open>Answers\<close>: \<open>read\<close>.  \<open>Nojs\<close>: \<open>nojs\<close>.
  \<open>AdminState\<close> (\<open>admin/src/dynamo.rs\<close>, \<open>arrival.rs\<close>), \<open>Edge\<close> (\<open>edge.rs\<close> and the gate document),
  \<open>Text\<close>, \<open>RulesForm\<close> (the ruleset form), \<open>Schedule\<close> (\<open>scheduler.rs\<close>, \<open>opener.rs\<close>, start times),
  \<open>Admin\<close> (every action of \<open>admin/src/lib.rs\<close>), \<open>Operator\<close> (their properties), \<open>Sessions\<close>
  (\<open>sessions.rs\<close>), \<open>Hardening\<close> (\<open>security.rs\<close>), \<open>Readiness\<close> (\<open>readiness.rs\<close>),
  \<open>Probe\<close> (\<open>probe.rs\<close>), \<open>Dashboard\<close> (\<open>templates.rs\<close>), \<open>AdminHttp\<close> (\<open>main.rs\<close>: router, session gate, login, handlers, outer layers),
  \<open>AdminGate\<close> and \<open>AdminReplies\<close> (what the control plane does for whom, and what it answers).
  \<open>HarnessEdge\<close>, \<open>HarnessVisitor\<close>, \<open>HarnessMain\<close>: \<open>harness/src/edge.rs\<close> (every suspension point of
  \<open>serve\<close> is a step of \<open>edge_step\<close>), \<open>visitor.rs\<close> and \<open>main.rs\<close>.
  A definition has the name of the item it translates (a suffix where HOL has the name already), a
  record the fields of its struct under a prefix, a trait is a record of operations (a port) with a
  locale for its laws, interpreted on the definitions of the crate's own adapter.

  \<^bold>\<open>What is proved.\<close>  Positions: the permutation terminates, permutes and is the published
  cycle-walking Feistel construction in natural-number arithmetic, the assembly is a bijection, and
  over every run of the whole fleet nobody shares a position, the open is published once, an active
  event was opened, the cursor never moves back, and nobody is told another's position.  Rate: one
  pass releases within its bounds, writes only when active and open, and reacts to arrivals
  monotonically; \<open>Float64\<close> rounds as binary64 does.  Admission and identity: credentials, cookies and
  redirects read back, a redirect stays on the site, a scriptless join is an accepted join.  Gate:
  rule matching cannot be evaded by separators, validation is exact, the read-modify-write of the
  document loses no update, and a fail-open fits the document after every save.  Operator: what each action may write
  and where it lands, in which order it touches edge, table and schedule, that each returns; that
  nothing happens without a live session, that sessions come only from complete logins, that every
  response is hardened; that the view and the readiness report say what is the case, down to the
  configuration of the distribution.  Load harness: concurrent requests of a key cause one fetch, a
  dead leader blocks its key, polling intervals stay within their bounds, a visitor asks for its
  position once, and the stub gives each visitor its own.

  \<^bold>\<open>Bounds.\<close>  The one loop that might not end, \<open>cycle_walk\<close>, is a partial function whose divergence is the
  value \<open>None\<close>, and it is proved to return for every argument; every other recursion is structural or
  consumes its argument (\<open>function\<close> with a measure).  No definition takes fuel.  \<open>returns p n\<close> counts
  answered requests: 24 for the controller (six passes of four), 2 to 10 for the actions.  Machine
  integers keep their width (\<open>u64\<close> is \<open>64 word\<close>); AWS fields of type \<open>i64\<close> and the instants of the
  clock library are \<open>int\<close>.

  \<^bold>\<open>Parameters.\<close>  HMAC, SHA-256, base64url, the JWT library, UUID layout, JSON text, the time zone database
  and instants (\<open>jiff\<close>), the OpenID Connect client, cookie and form parsers, templates, the embedded
  assets and the check of header values are arguments; where a proof needs something of one, it is a
  named hypothesis stating documented behaviour, and a witness instantiates it.

  \<^bold>\<open>Not modelled.\<close>  The start of each process (environment, clients, logging, TLS), which has no
  behaviour beyond the state it builds; \<open>admin/src/oidc.rs\<close>, which configures the client library;
  the module declarations of \<open>wr-common/src/lib.rs\<close>; log lines; the report and the histogram that the
  harness prints, its spawning of visitors and its forwarding to a given origin.  The JavaScript of
  the edge function and the waiting page is not Rust.  A rate that the
  API gateway reports is a real number, so a reported NaN is left out; header values that a handler
  builds from library outputs are taken to be accepted.
\<close>

section \<open>The deployment\<close>

text \<open>
  Everything that may run against the tables: joins of any batch, the open of the event,
  admission requests with and without JavaScript, the controller, the public reads and every request
  to the control plane: with any names of its other resources and any libraries, as long as the
  sessions have a table of their own.
\<close>

definition operator_runs :: "ledger_cfg \<Rightarrow> unit prog set" where
  "operator_runs cfg =
     {invocation (admin_serve (deployed_app cfg names (libs :: string admin_app)) draw clock request)
      | names libs draw clock request. table_apart cfg (na_tokens_table names)}"

definition fleet ::
  "ledger_cfg \<Rightarrow> json_join \<Rightarrow> crypto_env \<Rightarrow> json_parser \<Rightarrow> token_state \<Rightarrow> unit prog set" where
  "fleet cfg json env parse state =
     {invocation (join_handle json (lc_tables cfg) (lc_event cfg) messages) | messages. length messages < 2 ^ 64}
     \<union> {invocation (open_handle (tb_counters (lc_tables cfg)) (lc_event cfg))}
     \<union> {invocation (token_handle env parse (dynamo_admission_store (lc_tables cfg)) state request) | request. True}
     \<union> {invocation (controller_handle (tb_counters (lc_tables cfg)) (lc_event cfg))}
     \<union> {invocation (nojs_handle (dynamo_admission_store (lc_tables cfg)) ns nreq) | ns nreq.
          nj_token ns = state \<and> ne_crypto (nj_env ns) = env}
     \<union> {invocation (read_route ctx slot request) | ctx slot request. True}
     \<union> operator_runs cfg"

definition deployment_ok ::
  "ledger_cfg \<Rightarrow> (string \<Rightarrow> string) \<Rightarrow> service \<Rightarrow> crypto_env \<Rightarrow> token_state \<Rightarrow> bool" where
  "deployment_ok cfg schema sv env state \<longleftrightarrow>
     tables_ok (lc_tables cfg) \<and> documented (lc_tables cfg) schema sv
     \<and> ts_event_id state = lc_event cfg \<and> ce_hmac env = lc_hmac cfg"

lemma operator_runs_honours: "p \<in> operator_runs cfg \<Longrightarrow> honours cfg p"
  unfolding operator_runs_def
  by (clarify, intro invocation_honours harmless_honours adm.serve_harmless) simp

lemma fleet_honours:
  assumes "deployment_ok cfg schema sv env state"
  shows "\<forall>p\<in>fleet cfg json env parse state. honours cfg p"
  using assms
  by (auto simp: fleet_def deployment_ok_def
      intro!: invocation_honours join_handle_honours open_handle_honours token_handle_honours
        nojs_handle_honours controller_handle_honours reads_only_honours [OF read_route_reads_only] dest: operator_runs_honours)

lemma fleet_reachable:
  assumes "deployment_ok cfg schema sv env state"
    and "reachable sv (fleet cfg json env parse state) cfg s"
  shows "ledger_reachable cfg s"
  using reachable_inv [OF _ _ fleet_honours [OF assms(1)] assms(2)] assms(1)
  by (auto simp: deployment_ok_def)

section \<open>An example run\<close>

definition ex_tables :: tables where
  "ex_tables = \<lparr>tb_counters = ''C'', tb_prequeue = ''Q'', tb_positions = ''P''\<rparr>"

definition ex_cfg :: ledger_cfg where
  "ex_cfg = \<lparr>lc_tables = ex_tables, lc_event = ''e'', lc_hmac = (\<lambda>_ _. 0)\<rparr>"

definition ex_schema :: "string \<Rightarrow> string" where
  "ex_schema t = (if t = ''C'' then KEY_ATTR else if t = ''Q'' then PREQUEUE_KEY_ATTR
     else POSITIONS_KEY_ATTR)"

definition ex_service :: service where
  "ex_service = \<lparr>sv_answer = answered ex_schema, sv_late = (\<lambda>q d d'. \<exists>m. lands ex_schema q d m d'),
     sv_reclaim = (\<lambda>d d'. \<exists>k. d' = push d ''P'' k None)\<rparr>"

definition ex_env :: crypto_env where
  "ex_env = \<lparr>ce_hmac = (\<lambda>_ _. 0), ce_b64 = (\<lambda>_. []), ce_sha = (\<lambda>_. replicate 43 (CHR ''x'')),
     ce_jwt = \<lparr>jwt_encode = (\<lambda>_ _. None), jwt_decode = (\<lambda>_ _. Inl OtherJwtError)\<rparr>\<rparr>"

definition ex_state :: token_state where
  "ex_state = \<lparr>ts_key = \<lparr>sk_session = [], sk_ip = []\<rparr>, ts_event_id = ''e'',
     ts_session_cookie_name = ''c'', ts_session_ttl_secs = 60\<rparr>"

definition ex_id :: string where
  "ex_id = ''01234567-89ab-cdef-0123-456789abcdef''"

definition ex_json :: json_join where
  "ex_json body = (if body = ''join'' then Some (ex_id, ''e'', replicate 43 (CHR ''x'')) else None)"

lemma ex_deployment_ok: "deployment_ok ex_cfg ex_schema ex_service ex_env ex_state"
  by (auto simp: deployment_ok_def tables_ok_def documented_def schema_ok_def ex_cfg_def ex_tables_def
      ex_schema_def ex_service_def ex_env_def ex_state_def)

text \<open>The event's item before the open, after it, and after one join.\<close>

definition ex_item0 :: item where
  "ex_item0 = [''event_id'' \<mapsto> AS ''EVT#e'', ''phase'' \<mapsto> AS ''pre_queue'']"

definition ex_seed :: "u8 list" where
  "ex_seed = replicate 32 7"

definition ex_item1 :: item where
  "ex_item1 = ex_item0(''shuffle_seed'' \<mapsto> AB ex_seed, ''participant_count'' \<mapsto> AN ''0'',
     ''queue_counter'' \<mapsto> AN ''0'', ''prequeue_offsets'' \<mapsto> AL (replicate 10 (AN ''0'')),
     ''phase'' \<mapsto> AS ''active'')"

definition ex_item2 :: item where
  "ex_item2 = ex_item1(''queue_counter'' \<mapsto> AN ''1'')"

definition ex_row :: position_item where
  "ex_row = \<lparr>po_request_id = ex_id, po_queue_position = 1, po_entry_time = 100, po_status = Issued,
     po_h = Some (SecretDigest (replicate 43 (CHR ''x''))), po_ttl = 86500\<rparr>"

definition ex_db0 :: db where
  "ex_db0 = (\<lambda>_. [])((''C'', event_key ex_cfg) := [Some ex_item0])"

definition ex_db1 :: db where "ex_db1 = push ex_db0 ''C'' (event_key ex_cfg) (Some ex_item1)"
definition ex_db2 :: db where "ex_db2 = push ex_db1 ''C'' (event_key ex_cfg) (Some ex_item2)"
definition ex_db3 :: db where "ex_db3 = push ex_db2 ''P'' (''request_id'', ex_id) (Some (position_to_item ex_row))"

definition ex_start :: state where
  "ex_start = \<lparr>sy_db = ex_db0, sy_pool = (\<lambda>_. None)\<rparr>"

lemma ex_key: "event_key ex_cfg = (''event_id'', ''EVT#e'')"
  by (simp add: event_key_def key_build_def ex_cfg_def attr_names)

lemma ex_fresh: "fresh ex_cfg ex_start"
  by (auto simp: fresh_def unopened_item_def ex_start_def ex_db0_def ex_item0_def version_def shard_key_ne ex_key
      shard_key_ne [of ex_cfg, unfolded ex_key])
    (simp_all add: ex_cfg_def ex_tables_def)

lemma ex_digest: "is_b64url_32 (replicate 43 (CHR ''x''))"
  by (simp add: is_b64url_32_def POSSESSION_B64_LEN_def is_ascii_alphanumeric_def list_all_iff)

lemma ex_uuid: "is_uuid_shape ex_id"
  by (simp add: is_uuid_shape_def ex_id_def is_ascii_hexdigit_def)

lemma ex_numbers: "show_u64 0 = ''0''" "show_u64 1 = ''1''"
  "parse_u64 ''0'' = Some 0" "parse_u64 ''1'' = Some 1"
  using parse_u64_show_u64 [of 0] parse_u64_show_u64 [of 1]
  by (simp_all add: show_u64_def show_nat_digits del: One_nat_def)

lemma ex_cohort: "cohort_of (replicate SHARDS 0) (from_parts (replicate 10 0) 0)"
proof -
  have "offsets_of (replicate SHARDS 0) = replicate 10 0"
    by (simp add: offsets_of_def prefix_sum_def SHARDS_def sum_list_replicate map_replicate_const)
  then show ?thesis
    by (simp add: cohort_of_def sum_list_replicate)
qed

lemma ex_open_values:
  "open_values (replicate SHARDS 0) ex_seed
     = Inr \<lparr>ov_seed = ex_seed, ov_participant_count = 0, ov_offsets = replicate 10 0\<rparr>"
  using ex_cohort by (auto simp: open_values_eq from_parts_def)

lemma ex_opened_effect:
  "update_effect
     [USet ''shuffle_seed'' (AB ex_seed), USet ''participant_count'' (AN (show_u64 0)),
      USet ''queue_counter'' (AN (show_u64 0)),
      USet ''prequeue_offsets'' (AL (replicate 10 (AN (show_u64 0)))),
      USet ''phase'' (AS ''active'')] ex_item0 ex_item1"
  by (auto simp: update_effect_def clause_ok_def ex_item1_def ex_numbers(1) [symmetric])

lemma ex_current:
  "current ex_db0 ''C'' (event_key ex_cfg) = Some ex_item0"
  "current ex_db1 ''C'' (event_key ex_cfg) = Some ex_item1"
  "current ex_db2 ''C'' (event_key ex_cfg) = Some ex_item2"
  by (simp_all add: current_def ex_db0_def ex_db1_def ex_db2_def push_def)

lemma ex_opens:
  "replies ex_service (invocation (open_handle (tb_counters (lc_tables ex_cfg)) (lc_event ex_cfg))) ex_db0
     [(RRand (Some ex_seed), ex_db0), (RBatch (Inr ([], False)), ex_db0), (RUpdate (Inr ex_item1), ex_db1)]"
proof -
  have cfg: "tb_counters (lc_tables ex_cfg) = ''C''" "key_build (KEvent (lc_event ex_cfg)) = event_key ex_cfg"
    "length ex_seed = 32"
    by (simp_all add: ex_cfg_def ex_tables_def event_key_def ex_seed_def)
  show ?thesis
    using ex_opened_effect
    by (simp add: invocation_def open_handle_def fill_ok_def open_event_def dynamo_open_store_def
        read_shard_counts_def bind_ok_def ex_open_values write_open_def Let_def cfg ex_service_def
        answered_def lands_def ex_current base_item_def opt_cond_def open_guard_def ex_db1_def)
      (simp add: ex_item0_def)
qed

lemma ex_outputs: "open_outputs (from_item ''e'' ex_item1) \<noteq> None"
proof -
  have "opened_item \<lparr>oo_offsets = from_parts (replicate 10 0) 0, oo_seed = ex_seed\<rparr> ex_item1"
    by (simp add: opened_item_def ex_item1_def from_parts_def ex_numbers)
  moreover have "good_opening \<lparr>oo_offsets = from_parts (replicate 10 0) 0, oo_seed = ex_seed\<rparr> (replicate 10 0)"
    using ex_cohort by (simp add: good_opening_def ex_seed_def SHARDS_def)
  ultimately show ?thesis
    using open_outputs_opened by auto
qed

lemma ex_claimed: "update_effect [UAdd ''queue_counter'' (AN (show_u64 1))] ex_item1 ex_item2"
proof -
  have "''0'' = show_nat i \<longleftrightarrow> i = 0" "''1'' = show_nat i \<longleftrightarrow> i = 1" for i
    using show_nat_inj [of 0 i] show_nat_inj [of 1 i] by (auto simp: show_nat_digits simp del: One_nat_def)
  then show ?thesis
    by (auto simp: update_effect_def clause_ok_def ex_item2_def ex_item1_def ex_numbers show_nat_digits
        simp del: One_nat_def)
qed

lemma ex_joins:
  "replies ex_service (invocation (join_handle ex_json (lc_tables ex_cfg) (lc_event ex_cfg)
       [\<lparr>sm_message_id = Some ''m'', sm_body = Some ''join''\<rparr>])) ex_db1
     [(RRand (Some (replicate 8 0)), ex_db1), (RGet (Inr (Some ex_item1)), ex_db1),
      (RUpdate (Inr ex_item2), ex_db2), (RNow 100, ex_db2), (RPut (Inr ()), ex_db3)]"
proof -
  have cfg: "lc_tables ex_cfg = ex_tables" "lc_event ex_cfg = ''e''"
    "tb_counters ex_tables = ''C''" "tb_positions ex_tables = ''P''"
    "key_build (KEvent ''e'') = event_key ex_cfg"
    by (simp_all add: ex_cfg_def ex_tables_def event_key_def)
  have rand: "shard_random (Some (replicate 8 0)) = Inr (Shard 0)"
    by code_simp
  have cls: "classify_record ex_json ''join'' ''e''
     = Accept \<lparr>jm_request_id = ex_id, jm_event_id = ''e'', jm_h = SecretDigest (replicate 43 (CHR ''x''))\<rparr>"
    using ex_uuid ex_digest by (simp add: classify_record_def parse_join_def ex_json_def digest_parse_def)
  have qc: "get_u64 ex_item2 ''queue_counter'' = Some 1"
    by (simp add: get_u64_def get_n_def ex_item2_def ex_numbers)
  have pos: "saturating_add (saturating_add (saturating_sub 1 1) 1) 0 = (1 :: u64)"
    "saturating_add 100 POSITION_TTL_SECS = (86500 :: u64)"
    by (simp_all add: saturating_add_def saturating_sub_def POSITION_TTL_SECS_def)
  have put: "lands ex_schema (QPut ''P'' (position_to_item ex_row) (Some (CNotExists POSITIONS_KEY_ATTR)))
      ex_db2 (position_to_item ex_row) ex_db3"
    by (simp add: lands_def ex_schema_def ex_db3_def attr_names position_to_item_def ex_row_def put_opt_def
        opt_cond_def current_def ex_db2_def ex_db1_def ex_db0_def push_def ex_key)
  show ?thesis
    using ex_outputs ex_claimed put
    by (simp add: invocation_def join_handle_def record_from_sqs_def map_filter_simps rand cls
        process_batch_def dynamo_join_store_def load_counters_def process_live_batch_def claim_block_def
        cfg fill_ok_def qc pos put_position_def Let_def ex_service_def answered_def ex_current
        lands_def [of ex_schema "QUpdate t k u c" for t k u c] base_item_def opt_cond_def ex_db2_def [symmetric] ex_row_def [symmetric])
qed

lemma ex_reachable:
  "\<exists>s. reachable ex_service (fleet ex_cfg ex_json ex_env (\<lambda>_. None) ex_state) ex_cfg s \<and> sy_db s = ex_db3"
proof -
  let ?H = "fleet ex_cfg ex_json ex_env (\<lambda>_. None) ex_state"
  have 0: "reachable ex_service ?H ex_cfg ex_start"
    by (rule start [OF ex_fresh])
  have st: "sy_db ex_start = ex_db0" "sy_pool ex_start = (\<lambda>_. None)"
    by (simp_all add: ex_start_def)
  have "invocation (open_handle (tb_counters (lc_tables ex_cfg)) (lc_event ex_cfg)) \<in> ?H"
    by (simp add: fleet_def)
  from replies_reachable [OF 0 st(2) this ex_opens [folded st(1)]]
  obtain s1 where 1: "reachable ex_service ?H ex_cfg s1" "sy_db s1 = ex_db1" "sy_pool s1 = (\<lambda>_. None)"
    by auto
  have "invocation (join_handle ex_json (lc_tables ex_cfg) (lc_event ex_cfg)
       [\<lparr>sm_message_id = Some ''m'', sm_body = Some ''join''\<rparr>]) \<in> ?H"
    by (fastforce simp: fleet_def)
  from replies_reachable [OF 1(1,3) this ex_joins [folded 1(2)]] show ?thesis
    by auto
qed

lemma ex_holds: "holds_position ex_cfg ex_db3 ex_id 1"
proof -
  have "version ex_db3 ''P'' (position_key ex_id) (position_to_item ex_row)"
    by (simp add: ex_db3_def version_push position_key_def key_build_def attr_names)
  then show ?thesis
    unfolding holds_position_def row_position_def
    by (auto simp: ex_cfg_def ex_tables_def QUEUE_POSITION_ATTR_def ex_row_def
        intro!: exI [of _ "position_to_item ex_row"])
qed

section \<open>Properties of the deployment\<close>

text \<open>C1: in every reachable state of the deployment, over every database that behaves as
  documented and whatever is lost, delayed, retried or interleaved, no two visitors hold or ever
  held the same queue position: not by a live join, not by a pre-queue registration under the
  published shuffle, and not by one of each.\<close>

theorem unique_position:
  assumes "deployment_ok cfg schema sv env state"
    and "reachable sv (fleet cfg json env parse state) cfg s"
    and "holds_position cfg (sy_db s) r p" "holds_position cfg (sy_db s) r' p"
  shows "r = r'"
  by (rule unique_holder [OF fleet_reachable [OF assms(1,2)] assms(3,4)])

theorem unique_position_witness:
  "\<exists>s. reachable ex_service (fleet ex_cfg ex_json ex_env (\<lambda>_. None) ex_state) ex_cfg s
     \<and> holds_position ex_cfg (sy_db s) ex_id 1
     \<and> (\<forall>r'. holds_position ex_cfg (sy_db s) r' 1 \<longrightarrow> r' = ex_id)"
proof -
  obtain s where s: "reachable ex_service (fleet ex_cfg ex_json ex_env (\<lambda>_. None) ex_state) ex_cfg s"
      "sy_db s = ex_db3"
    using ex_reachable by blast
  then have h: "holds_position ex_cfg (sy_db s) ex_id 1"
    using ex_holds by simp
  show ?thesis
    using s(1) h unique_position [OF ex_deployment_ok s(1) _ h] by blast
qed

text \<open>C2: the open is published once: every version of the event's item that carries the seed, the
  offsets and the cohort size carries the same ones, so a visitor's pre-queue position never
  changes, however often the open is fired and by however many callers at once.\<close>

theorem open_published_once:
  assumes "deployment_ok cfg schema sv env state"
    and "reachable sv (fleet cfg json env parse state) cfg s"
    and "version (sy_db s) (tb_counters (lc_tables cfg)) (event_key cfg) m"
      "open_outputs (from_item (lc_event cfg) m) = Some oo"
    and "version (sy_db s) (tb_counters (lc_tables cfg)) (event_key cfg) m'"
      "open_outputs (from_item (lc_event cfg) m') = Some oo'"
  shows "oo = oo'"
  by (rule outputs_fixed [OF fleet_reachable [OF assms(1,2)] assms(3-6)])

theorem open_published_once_witness:
  "\<exists>s oo. reachable ex_service (fleet ex_cfg ex_json ex_env (\<lambda>_. None) ex_state) ex_cfg s
     \<and> version (sy_db s) ''C'' (event_key ex_cfg) ex_item1
     \<and> version (sy_db s) ''C'' (event_key ex_cfg) ex_item2
     \<and> open_outputs (from_item ''e'' ex_item1) = Some oo \<and> open_outputs (from_item ''e'' ex_item2) = Some oo"
proof -
  obtain s where s: "reachable ex_service (fleet ex_cfg ex_json ex_env (\<lambda>_. None) ex_state) ex_cfg s"
      "sy_db s = ex_db3"
    using ex_reachable by blast
  have v: "version (sy_db s) ''C'' (event_key ex_cfg) ex_item1" "version (sy_db s) ''C'' (event_key ex_cfg) ex_item2"
    by (simp_all add: s(2) ex_db3_def ex_db2_def ex_db1_def version_push)
  have "open_outputs (from_item ''e'' ex_item2) = open_outputs (from_item ''e'' ex_item1)"
    by (simp add: open_outputs_def from_item_def ex_item2_def get_u64_def get_n_def)
  then obtain oo oo' where oo: "open_outputs (from_item ''e'' ex_item1) = Some oo"
      "open_outputs (from_item ''e'' ex_item2) = Some oo'"
    using ex_outputs by auto
  moreover have "oo = oo'"
    by (rule open_published_once [OF ex_deployment_ok s(1)])
      (use v oo in \<open>simp_all add: ex_cfg_def ex_tables_def\<close>)
  ultimately show ?thesis
    using s(1) v by blast
qed

text \<open>C7: the cursor that admits visitors never moves backwards: over any run of the deployment,
  whatever is interleaved, retried, lost or late, the event's \<open>serving_counter\<close> only grows.\<close>

theorem cursor_monotone:
  assumes "deployment_ok cfg schema sv env state"
    and "reachable sv (fleet cfg json env parse state) cfg s"
    and "run sv (fleet cfg json env parse state) s s'"
  shows "cursor cfg (sy_db s) \<le> cursor cfg (sy_db s')"
  using cursor_run [OF _ _ fleet_honours [OF assms(1)] assms(2,3)] assms(1)
  by (auto simp: deployment_ok_def)

theorem cursor_monotone_witness:
  "\<exists>s s'. reachable ex_service (fleet ex_cfg ex_json ex_env (\<lambda>_. None) ex_state) ex_cfg s
     \<and> run ex_service (fleet ex_cfg ex_json ex_env (\<lambda>_. None) ex_state) s s'
     \<and> s' \<noteq> s \<and> cursor ex_cfg (sy_db s) \<le> cursor ex_cfg (sy_db s')"
proof -
  let ?H = "fleet ex_cfg ex_json ex_env (\<lambda>_. None) ex_state" and ?p = "invocation (controller_handle ''C'' ''e'')"
  let ?s = "ex_start\<lparr>sy_pool := (sy_pool ex_start)(0 \<mapsto> ?p)\<rparr>"
  have r: "reachable ex_service ?H ex_cfg ex_start"
    by (rule start [OF ex_fresh])
  have "?p \<in> ?H"
    by (simp add: fleet_def ex_cfg_def ex_tables_def)
  then have "run ex_service ?H ex_start ?s"
    by (intro run_step [OF run_refl] step.spawn) (simp_all add: ex_start_def)
  moreover have "?s \<noteq> ex_start"
    by (auto simp: ex_start_def fun_eq_iff intro!: exI [of _ "0::nat"])
  ultimately show ?thesis
    using r cursor_monotone [OF ex_deployment_ok r] by blast
qed

text \<open>C8: an event is active only when it was opened: in every reachable state, every version of the
  event's item whose phase reads as active, current or past, carries the seed, the offsets and the
  cohort size of the open, whoever wrote that phase (the open itself or an operator) and whatever was
  interleaved with the write; so no visitor ever finds an active event that cannot assign
  positions.\<close>

theorem active_means_opened:
  assumes "deployment_ok cfg schema sv env state"
    and "reachable sv (fleet cfg json env parse state) cfg s"
    and "version (sy_db s) (tb_counters (lc_tables cfg)) (event_key cfg) m"
      "ct_phase (from_item (lc_event cfg) m) = Active"
  shows "\<exists>oo. open_outputs (from_item (lc_event cfg) m) = Some oo"
  by (rule active_opened [OF fleet_reachable [OF assms(1,2)] assms(3,4)])

theorem active_means_opened_witness:
  "\<exists>s. reachable ex_service (fleet ex_cfg ex_json ex_env (\<lambda>_. None) ex_state) ex_cfg s
     \<and> version (sy_db s) ''C'' (event_key ex_cfg) ex_item2
     \<and> ct_phase (from_item ''e'' ex_item2) = Active
     \<and> (\<exists>oo. open_outputs (from_item ''e'' ex_item2) = Some oo)"
proof -
  obtain s where s: "reachable ex_service (fleet ex_cfg ex_json ex_env (\<lambda>_. None) ex_state) ex_cfg s"
      "sy_db s = ex_db3"
    using ex_reachable by blast
  have v: "version (sy_db s) ''C'' (event_key ex_cfg) ex_item2"
    by (simp add: s(2) ex_db3_def ex_db2_def ex_db1_def version_push)
  have a: "ct_phase (from_item ''e'' ex_item2) = Active"
    by (simp add: from_item_def ex_item2_def ex_item1_def get_s_def phase_parse_def)
  have "\<exists>oo. open_outputs (from_item (lc_event ex_cfg) ex_item2) = Some oo"
    by (rule active_means_opened [OF ex_deployment_ok s(1)])
      (use v a in \<open>simp_all add: ex_cfg_def ex_tables_def\<close>)
  then show ?thesis
    using s(1) v a by (auto simp: ex_cfg_def)
qed

section \<open>What visitors are told\<close>

definition read_ctx_ok :: "ledger_cfg \<Rightarrow> read_ctx \<Rightarrow> bool" where
  "read_ctx_ok cfg ctx \<longleftrightarrow> rx_tables ctx = lc_tables cfg \<and> rx_hmac ctx = lc_hmac cfg
     \<and> rx_event_id ctx = lc_event cfg"

definition ex_ctx :: read_ctx where
  "ex_ctx = \<lparr>rx_tables = ex_tables, rx_event_id = ''e'', rx_poll_policy = None, rx_hmac = (\<lambda>_ _. 0)\<rparr>"

definition ex_request :: http_request where
  "ex_request = \<lparr>rq_method = ''GET'', rq_path = ''/v1/queue_num'',
     rq_query = (\<lambda>k. if k = ''request_id'' then Some ex_id else None), rq_header = (\<lambda>_. None), rq_body = None\<rparr>"

lemma ex_served_ops:
  "v = None \<or> v \<in> set (sy_db s (t, k)) \<Longrightarrow> served ex_service H s (h1 (Inr v)) x s' \<Longrightarrow>
   served ex_service H s (GetItem t k False h1) x s'"
  "served ex_service H s (h2 now) x s' \<Longrightarrow> served ex_service H s (NowSecs h2) x s'"
proof -
  show "v = None \<or> v \<in> set (sy_db s (t, k)) \<Longrightarrow> served ex_service H s (h1 (Inr v)) x s' \<Longrightarrow>
      served ex_service H s (GetItem t k False h1) x s'"
    by (rule served_answer [where r = "RGet (Inr v)" and d' = "sy_db s"]) (auto simp: ex_service_def answered_def)
  show "served ex_service H s (h2 now) x s' \<Longrightarrow> served ex_service H s (NowSecs h2) x s'"
    by (rule served_answer [where r = "RNow now" and d' = "sy_db s"]) (auto simp: ex_service_def answered_def)
qed

definition ex_answer :: "string + http_response" where
  "ex_answer = Inr (read_json 200 (JObj [(''position'', JNum 1), (''live_join'', JBool True)]))"

lemma ex_served:
  assumes s: "sy_db s = ex_db3"
  shows "\<exists>slot. served ex_service H s (handle_queue_num ex_ctx None ex_request) (ex_answer, slot) s"
proof -
  have rows: "ex_db3 (''Q'', ''r'', ex_id) = []"
    "Some (position_to_item ex_row) \<in> set (ex_db3 (''P'', ''request_id'', ex_id))"
    by (simp_all add: ex_db3_def ex_db2_def ex_db1_def ex_db0_def push_def ex_key)
  have ev: "Some ex_item2 \<in> set (ex_db3 (''C'', key_build (KEvent ''e'')))"
    using current_version [OF ex_current(3)] version_push [of ex_db2]
    by (simp add: version_def ex_db3_def event_key_def ex_cfg_def push_def)
  have p: "served ex_service H s (respond_from_position ex_ctx ex_id) ex_answer s"
    unfolding respond_from_position_def read_load_position_def bind_ok_def bind_ops
    by (rule ex_served_ops(1) [where v = "Some (position_to_item ex_row)"])
      (use rows s in \<open>simp_all add: ex_ctx_def ex_tables_def position_response_def read_position_from_item_def
        ex_row_def ex_answer_def served_done\<close>)
  have q: "served ex_service H s (queue_num_of ex_ctx c ex_id) ex_answer s" for c
    unfolding queue_num_of_def read_load_prequeue_def bind_ok_def bind_ops
    by (rule ex_served_ops(1) [where v = None]) (use p in simp_all)
  have l: "served ex_service H s (read_load_counters ex_ctx None)
      (Inr (Some (from_item ''e'' ex_item2)), cache_put 0 (Some (from_item ''e'' ex_item2))) s"
    unfolding read_load_counters_def cache_get_def option.case
    by (rule ex_served_ops(2), rule ex_served_ops(1) [where v = "Some ex_item2"])
      (use ev s in \<open>simp_all add: ex_ctx_def ex_tables_def Let_def ex_served_ops(2) [of H s _ 0] served_done\<close>)
  have "served ex_service H s (handle_queue_num ex_ctx None ex_request)
      (ex_answer, cache_put 0 (Some (from_item ''e'' ex_item2))) s"
    unfolding handle_queue_num_def
    by (simp add: ex_request_def, rule served_bind [OF l], simp, rule served_bind [OF q], rule served_done)
  then show ?thesis by blast
qed

text \<open>C9: no two visitors are ever told the same position: whatever \<open>/queue_num\<close> answers to two
  requests of one run of the deployment, warm or cold caches, stale reads and any interleaving
  included, two answers with the same position went to the same visitor.\<close>

theorem told_positions_distinct:
  assumes "deployment_ok cfg schema sv env state" "read_ctx_ok cfg ctx"
    and "reachable sv (fleet cfg json env parse state) cfg s"
    and "served sv (fleet cfg json env parse state) s1 (handle_queue_num ctx slot1 req1) (a1, o1) t1"
      "cached cfg (sy_db s1) slot1" "extends (sy_db t1) (sy_db s)"
    and "served sv (fleet cfg json env parse state) s2 (handle_queue_num ctx slot2 req2) (a2, o2) t2"
      "cached cfg (sy_db s2) slot2" "extends (sy_db t2) (sy_db s)"
    and "rq_query req1 ''request_id'' = Some r1" "answers_position a1 p"
    and "rq_query req2 ''request_id'' = Some r2" "answers_position a2 p"
  shows "r1 = r2"
proof -
  have d: "tables_ok (lc_tables cfg)" "documented (lc_tables cfg) schema sv"
    using assms(1) by (simp_all add: deployment_ok_def)
  have c: "rx_tables ctx = lc_tables cfg" "rx_hmac ctx = lc_hmac cfg" "rx_event_id ctx = lc_event cfg"
    using assms(2) by (simp_all add: read_ctx_ok_def)
  have "holds_position cfg (sy_db s) r1 p" "holds_position cfg (sy_db s) r2 p"
    using holds_extends [OF assms(6) queue_num_holds [OF d(2,1) c assms(4,5,10,11)]]
      holds_extends [OF assms(9) queue_num_holds [OF d(2,1) c assms(7,8,12,13)]] .
  then show ?thesis
    by (rule unique_holder [OF fleet_reachable [OF assms(1,3)]])
qed

theorem told_positions_distinct_witness:
  "\<exists>s slot. served ex_service (fleet ex_cfg ex_json ex_env (\<lambda>_. None) ex_state) s
       (handle_queue_num ex_ctx None ex_request) (ex_answer, slot) s
     \<and> answers_position ex_answer 1
     \<and> (\<forall>req2 r2 a2 o2. served ex_service (fleet ex_cfg ex_json ex_env (\<lambda>_. None) ex_state) s
          (handle_queue_num ex_ctx None req2) (a2, o2) s \<longrightarrow> rq_query req2 ''request_id'' = Some r2 \<longrightarrow>
          answers_position a2 1 \<longrightarrow> r2 = ex_id)"
proof -
  let ?H = "fleet ex_cfg ex_json ex_env (\<lambda>_. None) ex_state"
  obtain s where s: "reachable ex_service ?H ex_cfg s" "sy_db s = ex_db3"
    using ex_reachable by blast
  obtain slot where v: "served ex_service ?H s (handle_queue_num ex_ctx None ex_request) (ex_answer, slot) s"
    using ex_served [OF s(2)] by blast
  have a: "answers_position ex_answer 1"
    by (simp add: ex_answer_def)
  have c: "read_ctx_ok ex_cfg ex_ctx"
    by (simp add: read_ctx_ok_def ex_ctx_def ex_cfg_def)
  have n: "cached ex_cfg (sy_db s) None"
    by (simp add: cached_def)
  have q: "rq_query ex_request ''request_id'' = Some ex_id"
    by (simp add: ex_request_def)
  have "r2 = ex_id" if r2: "served ex_service ?H s (handle_queue_num ex_ctx None req2) (a2, o2) s"
      "rq_query req2 ''request_id'' = Some r2" "answers_position a2 1" for req2 r2 a2 o2
    by (rule told_positions_distinct [OF ex_deployment_ok c s(1) r2(1) n extends_refl v n extends_refl r2(2,3) q a])
  then show ?thesis
    using v a by blast
qed

end
